(* ===== verification/Prelude.thy ===== *)
theory Prelude
  imports Main "HOL-Library.Word"
begin

text \<open>
  Shared vocabulary of the development: the widths of the Rust integer types, the result
  type and its \<^verbatim>\<open>?\<close> operator, the checked and saturating arithmetic of \<^verbatim>\<open>usize\<close> and \<^verbatim>\<open>u64\<close>,
  and byte buffers with slices, \<^verbatim>\<open>copy_from_slice\<close> and little-endian integers.

  Integers that only pass through a codec are words (\<open>8 word\<close>, \<open>16 word\<close>, \<open>32 word\<close>,
  \<open>64 word\<close>). Offsets, sizes and addresses that the code computes with are natural numbers;
  the bound \<open>2 ^ 64\<close> is written out in every checked or saturating operation.
\<close>

unbundle bit_operations_syntax

type_synonym u8 = "8 word"
type_synonym u16 = "16 word"
type_synonym u32 = "32 word"
type_synonym u64 = "64 word"
type_synonym bytes = "u8 list"

named_theorems buf_simps "rewriting of reads through buffer writes"
named_theorems num_simps "unfolding of checked and saturating arithmetic"

section \<open>Results\<close>

abbreviation Ok :: "'a \<Rightarrow> 'e + 'a" where
  "Ok x \<equiv> Inr x"

abbreviation Err :: "'e \<Rightarrow> 'e + 'a" where
  "Err e \<equiv> Inl e"

text \<open>The \<^verbatim>\<open>?\<close> operator: an error leaves the function, a value is passed on.\<close>

fun try_bind :: "'e + 'a \<Rightarrow> ('a \<Rightarrow> 'e + 'b) \<Rightarrow> 'e + 'b" where
  "try_bind (Inl e) f = Inl e"
| "try_bind (Inr x) f = f x"

definition ok_or :: "'a option \<Rightarrow> 'e \<Rightarrow> 'e + 'a" where
  "ok_or v e = (case v of None \<Rightarrow> Err e | Some x \<Rightarrow> Ok x)"

lemma try_bind_Ok_iff [simp]: "try_bind m f = Ok y \<longleftrightarrow> (\<exists>x. m = Ok x \<and> f x = Ok y)"
  by (cases m) auto

lemma try_bind_Err_iff: "try_bind m f = Err e \<longleftrightarrow> m = Err e \<or> (\<exists>x. m = Ok x \<and> f x = Err e)"
  by (cases m) auto

lemma ok_or_Ok [simp]: "ok_or v e = Ok x \<longleftrightarrow> v = Some x"
  by (auto simp: ok_or_def split: option.splits)

lemma ok_or_Err [simp]: "ok_or v e = Err e' \<longleftrightarrow> v = None \<and> e' = e"
  by (auto simp: ok_or_def split: option.splits)

lemma ok_or_simps [simp]: "ok_or (Some x) e = Ok x" "ok_or None e = Err e"
  by (simp_all add: ok_or_def)

lemma try_bind_split:
  "P (try_bind m f) \<longleftrightarrow> (\<forall>e. m = Err e \<longrightarrow> P (Err e)) \<and> (\<forall>x. m = Ok x \<longrightarrow> P (f x))"
  by (cases m) auto

lemma try_bind_cong [fundef_cong]:
  "m = m' \<Longrightarrow> (\<And>x. m' = Inr x \<Longrightarrow> f x = f' x) \<Longrightarrow> try_bind m f = try_bind m' f'"
  by (cases m') auto

text \<open>
  \<^verbatim>\<open>?\<close> in code that also changes a state: the state is kept on the error path too.
\<close>

fun st_bind :: "('e + 'a) \<times> 's \<Rightarrow> ('a \<Rightarrow> 's \<Rightarrow> ('e + 'b) \<times> 's) \<Rightarrow> ('e + 'b) \<times> 's" where
  "st_bind (Inl e, s) f = (Inl e, s)"
| "st_bind (Inr x, s) f = f x s"

fun map_err :: "('e \<Rightarrow> 'f) \<Rightarrow> ('e + 'a) \<times> 's \<Rightarrow> ('f + 'a) \<times> 's" where
  "map_err g (Inl e, s) = (Inl (g e), s)"
| "map_err g (Inr x, s) = (Inr x, s)"

lemma st_bind_cases:
  assumes "st_bind m f = (r, s')"
  obtains e s where "m = (Inl e, s)" and "r = Inl e" and "s' = s"
  | x s where "m = (Inr x, s)" and "f x s = (r, s')"
  using assms by (cases m; cases "fst m") auto

lemma map_err_cases:
  assumes "map_err g m = (r, s')"
  obtains e where "m = (Inl e, s')" and "r = Inl (g e)"
  | x where "m = (Inr x, s')" and "r = Inr x"
  using assms by (cases m; cases "fst m") auto

lemma st_bind_cong [fundef_cong]:
  "m = m' \<Longrightarrow> (\<And>x s. m' = (Inr x, s) \<Longrightarrow> f x s = f' x s) \<Longrightarrow> st_bind m f = st_bind m' f'"
  by (cases m'; cases "fst m'") auto

section \<open>Iterators\<close>

text \<open>The index of the first element that satisfies a predicate (\<^verbatim>\<open>Iterator::position\<close>).\<close>

fun position :: "('a \<Rightarrow> bool) \<Rightarrow> 'a list \<Rightarrow> nat option" where
  "position P [] = None"
| "position P (x # xs) = (if P x then Some 0 else map_option Suc (position P xs))"

lemma position_Some:
  "position P xs = Some i \<longleftrightarrow> i < length xs \<and> P (xs ! i) \<and> (\<forall>j<i. \<not> P (xs ! j))"
proof (induction xs arbitrary: i)
  case (Cons x xs)
  then show ?case
    by (cases i) (auto simp: less_Suc_eq_0_disj)
qed simp

lemma position_None: "position P xs = None \<longleftrightarrow> (\<forall>x\<in>set xs. \<not> P x)"
  by (induction xs) auto

lemma position_split:
  assumes "position P xs = Some i"
  shows "xs = take i xs @ xs ! i # drop (Suc i) xs" and "P (xs ! i)" and "\<forall>x\<in>set (take i xs). \<not> P x" and "i < length xs"
  using assms by (auto simp: position_Some id_take_nth_drop [symmetric] in_set_conv_nth)

section \<open>Machine arithmetic on 64-bit values\<close>

definition U64_MAX :: nat where
  "U64_MAX = 2 ^ 64 - 1"

definition checked_add :: "nat \<Rightarrow> nat \<Rightarrow> nat option" where
  "checked_add a b = (if a + b \<le> U64_MAX then Some (a + b) else None)"

definition checked_sub :: "nat \<Rightarrow> nat \<Rightarrow> nat option" where
  "checked_sub a b = (if b \<le> a then Some (a - b) else None)"

definition checked_mul :: "nat \<Rightarrow> nat \<Rightarrow> nat option" where
  "checked_mul a b = (if a * b \<le> U64_MAX then Some (a * b) else None)"

definition saturating_add :: "nat \<Rightarrow> nat \<Rightarrow> nat" where
  "saturating_add a b = min (a + b) U64_MAX"

definition saturating_sub :: "nat \<Rightarrow> nat \<Rightarrow> nat" where
  "saturating_sub a b = a - b"

definition saturating_mul :: "nat \<Rightarrow> nat \<Rightarrow> nat" where
  "saturating_mul a b = min (a * b) U64_MAX"

definition is_multiple_of :: "nat \<Rightarrow> nat \<Rightarrow> bool" where
  "is_multiple_of a b \<longleftrightarrow> (if b = 0 then a = 0 else a mod b = 0)"

lemma U64_MAX_numeral [code]: "U64_MAX = 18446744073709551615"
  by (simp add: U64_MAX_def)

lemma is_multiple_of_dvd [simp]: "is_multiple_of a b \<longleftrightarrow> b dvd a"
  by (auto simp: is_multiple_of_def dvd_eq_mod_eq_0)

lemma checked_add_Some [simp]: "checked_add a b = Some c \<longleftrightarrow> c = a + b \<and> a + b \<le> U64_MAX"
  by (auto simp: checked_add_def)

lemma checked_add_None [simp]: "checked_add a b = None \<longleftrightarrow> U64_MAX < a + b"
  by (auto simp: checked_add_def)

lemma checked_mul_Some [simp]: "checked_mul a b = Some c \<longleftrightarrow> c = a * b \<and> a * b \<le> U64_MAX"
  by (auto simp: checked_mul_def)

lemma checked_mul_None [simp]: "checked_mul a b = None \<longleftrightarrow> U64_MAX < a * b"
  by (auto simp: checked_mul_def)

lemma checked_sub_Some [simp]: "checked_sub a b = Some c \<longleftrightarrow> c = a - b \<and> b \<le> a"
  by (auto simp: checked_sub_def)

lemma checked_sub_None [simp]: "checked_sub a b = None \<longleftrightarrow> a < b"
  by (auto simp: checked_sub_def)

lemma saturating_add_exact [simp]: "a + b \<le> U64_MAX \<Longrightarrow> saturating_add a b = a + b"
  by (simp add: saturating_add_def)

lemma saturating_mul_exact [simp]: "a * b \<le> U64_MAX \<Longrightarrow> saturating_mul a b = a * b"
  by (simp add: saturating_mul_def)

lemma saturating_le [simp]: "saturating_add a b \<le> U64_MAX" "saturating_mul a b \<le> U64_MAX"
  by (simp_all add: saturating_add_def saturating_mul_def)

lemma saturating_add_ge: "a \<le> U64_MAX \<Longrightarrow> a \<le> saturating_add a b"
  by (simp add: saturating_add_def)

lemma unat_le_U64_MAX [simp]: "unat (w :: u64) \<le> U64_MAX"
proof -
  have "unat w < 2 ^ 64" using unsigned_less [where w = w] by simp
  then show ?thesis by (simp add: U64_MAX_def)
qed

lemma xor_right_cancel [simp]: "a XOR c = b XOR c \<longleftrightarrow> a = b" for a b c :: "'a::len word"
proof
  assume "a XOR c = b XOR c"
  then have "(a XOR c) XOR c = (b XOR c) XOR c" by simp
  then show "a = b" by (simp only: xor.assoc) simp
qed simp

lemma xor_left_cancel [simp]: "c XOR a = c XOR b \<longleftrightarrow> a = b" for a b c :: "'a::len word"
  by (simp add: xor.commute [of c])

text \<open>
  \<^verbatim>\<open>value & !(alignment - 1)\<close> clears the low bits; for a power of two it rounds down to a
  multiple.
\<close>

definition mask_down :: "nat \<Rightarrow> nat \<Rightarrow> nat" where
  "mask_down value alignment =
     unat ((word_of_nat value :: u64) AND NOT (word_of_nat (alignment - 1)))"

lemma mask_down_pow2:
  assumes "v \<le> U64_MAX" and "k < 64"
  shows "mask_down v (2 ^ k) = v div 2 ^ k * 2 ^ k"
proof -
  let ?w = "word_of_nat v :: u64"
  have len64: "LENGTH(64) = 64" by simp
  have uv: "unat ?w = v"
    using assms(1) by (simp add: U64_MAX_def unat_of_nat take_bit_eq_mod)
  have tv: "take_bit 64 v = v"
    using assms(1) by (simp add: U64_MAX_def take_bit_nat_eq_self_iff)
  have m: "(word_of_nat (2 ^ k - 1) :: u64) = mask k"
    by (simp add: mask_eq_exp_minus_1 of_nat_diff)
  have "?w AND NOT (mask k) = push_bit k (drop_bit k ?w)"
    by (rule bit_word_eqI) (auto simp: bit_simps)
  then have "unat (?w AND NOT (mask k)) = take_bit 64 (push_bit k (drop_bit k v))"
    by (simp only: unsigned_push_bit_eq unsigned_drop_bit_eq uv) (simp only: len64 tv)
  then have "unat (?w AND NOT (mask k)) = take_bit 64 (v div 2 ^ k * 2 ^ k)"
    by (simp add: push_bit_eq_mult drop_bit_eq_div)
  also have "\<dots> = v div 2 ^ k * 2 ^ k"
  proof -
    have "v < 2 ^ 64" using assms(1) by (simp add: U64_MAX_def)
    with div_times_less_eq_dividend have "v div 2 ^ k * 2 ^ k < 2 ^ 64" by (rule le_less_trans)
    then show ?thesis by (simp only: take_bit_nat_eq_self_iff)
  qed
  finally show ?thesis by (simp only: mask_down_def m)
qed

section \<open>Byte buffers\<close>

text \<open>
  \<^verbatim>\<open>buf[a..b]\<close>, \<^verbatim>\<open>buf.get(a..b)\<close> and \<^verbatim>\<open>buf[off..].copy_from_slice(src)\<close>. The first and the
  third panic out of range; every use in the model is behind the code's own length check or on
  a buffer of fixed length, and \<open>copy_from_slice\<close> leaves a buffer that is too short unchanged.
\<close>

definition slice :: "'a list \<Rightarrow> nat \<Rightarrow> nat \<Rightarrow> 'a list" where
  "slice buf a b = take (b - a) (drop a buf)"

definition get_slice :: "'a list \<Rightarrow> nat \<Rightarrow> nat \<Rightarrow> 'a list option" where
  "get_slice buf a b = (if a \<le> b \<and> b \<le> length buf then Some (slice buf a b) else None)"

definition copy_from_slice :: "'a list \<Rightarrow> nat \<Rightarrow> 'a list \<Rightarrow> 'a list" where
  "copy_from_slice buf off src =
     (if off + length src \<le> length buf
      then take off buf @ src @ drop (off + length src) buf else buf)"

lemma length_slice [simp]: "b \<le> length buf \<Longrightarrow> length (slice buf a b) = b - a"
  by (simp add: slice_def)

lemma length_copy_from_slice [simp, buf_simps]:
  "length (copy_from_slice buf off src) = length buf"
  by (simp add: copy_from_slice_def)

lemma nth_slice: "b \<le> length buf \<Longrightarrow> i < b - a \<Longrightarrow> slice buf a b ! i = buf ! (a + i)"
  by (simp add: slice_def)

lemma slice_full [simp]: "slice buf 0 (length buf) = buf"
  by (simp add: slice_def)

lemma slice_empty [simp]: "slice buf a a = []"
  by (simp add: slice_def)

lemma slice_append_left [simp]: "b \<le> length xs \<Longrightarrow> slice (xs @ ys) a b = slice xs a b"
  by (simp add: slice_def)

lemma slice_append_right [simp]:
  "length xs \<le> a \<Longrightarrow> slice (xs @ ys) a b = slice ys (a - length xs) (b - length xs)"
  by (cases "b \<le> a") (simp_all add: slice_def)

lemma slice_slice: "b \<le> d - c \<Longrightarrow> slice (slice buf c d) a b = slice buf (c + a) (c + b)"
  by (cases "a \<le> b") (simp_all add: slice_def take_drop min_def ac_simps)

lemma slice_join:
  assumes "a \<le> b" and "b \<le> c"
  shows "slice buf a b @ slice buf b c = slice buf a c"
proof -
  have "take (c - a) (drop a buf) = take ((b - a) + (c - b)) (drop a buf)"
    using assms by simp
  also have "\<dots> = take (b - a) (drop a buf) @ take (c - b) (drop (b - a) (drop a buf))"
    by (rule take_add)
  finally show ?thesis using assms by (simp add: slice_def)
qed

lemma nth_copy_from_slice:
  assumes "off + length src \<le> length buf" and "i < length buf"
  shows "copy_from_slice buf off src ! i =
    (if off \<le> i \<and> i < off + length src then src ! (i - off) else buf ! i)"
  using assms by (auto simp: copy_from_slice_def nth_append min_def)

lemma slice_copy_same [simp, buf_simps]:
  assumes "off + length src \<le> length buf" and "b = off + length src"
  shows "slice (copy_from_slice buf off src) off b = src"
  using assms by (simp add: slice_def copy_from_slice_def)

lemma slice_copy_other [buf_simps]:
  assumes "b \<le> off \<or> off + length src \<le> a"
  shows "slice (copy_from_slice buf off src) a b = slice buf a b"
proof (cases "off + length src \<le> length buf")
  case True
  show ?thesis
  proof (rule nth_equalityI)
    show "length (slice (copy_from_slice buf off src) a b) = length (slice buf a b)"
      by (simp add: slice_def)
  next
    fix i assume "i < length (slice (copy_from_slice buf off src) a b)"
    then have "i < b - a" and "a + i < length buf" by (auto simp: slice_def)
    then show "slice (copy_from_slice buf off src) a b ! i = slice buf a b ! i"
      using True assms by (auto simp: slice_def nth_copy_from_slice)
  qed
qed (simp add: copy_from_slice_def)

lemma nth_copy_other [buf_simps]:
  assumes "i < off \<or> off + length src \<le> i" and "i < length buf"
  shows "copy_from_slice buf off src ! i = buf ! i"
proof (cases "off + length src \<le> length buf")
  case True
  then show ?thesis using assms by (auto simp: nth_copy_from_slice)
qed (simp add: copy_from_slice_def)

lemma copy_from_slice_append_right [buf_simps]:
  "length xs \<le> off \<Longrightarrow>
    copy_from_slice (xs @ ys) off src = xs @ copy_from_slice ys (off - length xs) src"
  by (auto simp: copy_from_slice_def)

lemma copy_from_slice_append_left [buf_simps]:
  "off + length src \<le> length xs \<Longrightarrow>
    copy_from_slice (xs @ ys) off src = copy_from_slice xs off src @ ys"
  by (auto simp: copy_from_slice_def)

lemma copy_from_slice_Cons [buf_simps]:
  "0 < off \<Longrightarrow> copy_from_slice (x # xs) off src = x # copy_from_slice xs (off - 1) src"
  by (cases off) (auto simp: copy_from_slice_def)

lemma copy_from_slice_replicate [buf_simps]:
  "off + length src \<le> n \<Longrightarrow> copy_from_slice (replicate n x) off src =
    replicate off x @ src @ replicate (n - (off + length src)) x"
  by (simp add: copy_from_slice_def min_def)

section \<open>Little-endian integers\<close>

fun to_le :: "nat \<Rightarrow> 'a::len word \<Rightarrow> bytes" where
  "to_le 0 w = []"
| "to_le (Suc n) w = ucast w # to_le n (drop_bit 8 w)"

fun from_le :: "bytes \<Rightarrow> 'a::len word" where
  "from_le [] = 0"
| "from_le (b # bs) = ucast b OR push_bit 8 (from_le bs)"

lemma length_to_le [simp, buf_simps]: "length (to_le n w) = n"
  by (induction n arbitrary: w) auto

lemma from_le_to_le_take: "from_le (to_le n w) = take_bit (8 * n) w"
proof (induction n arbitrary: w)
  case 0
  then show ?case by simp
next
  case (Suc n)
  have "ucast (ucast w :: u8) OR push_bit 8 (take_bit (8 * n) (drop_bit 8 w)) =
      take_bit (8 + 8 * n) w"
    by (rule bit_word_eqI) (auto simp: bit_simps)
  then show ?case by (simp add: Suc.IH)
qed

lemma from_le_to_le [simp]: "LENGTH('a) \<le> 8 * n \<Longrightarrow> from_le (to_le n w) = (w :: 'a::len word)"
  by (simp add: from_le_to_le_take take_bit_word_eq_self)

lemma to_le_from_le [simp]:
  "8 * length bs \<le> LENGTH('a) \<Longrightarrow> to_le (length bs) (from_le bs :: 'a::len word) = bs"
proof (induction bs)
  case Nil
  then show ?case by simp
next
  case (Cons b bs)
  let ?f = "from_le bs :: 'a word"
  have l: "8 + 8 * length bs \<le> LENGTH('a)" using Cons.prems by simp
  have t: "take_bit (8 * length bs) ?f = ?f"
    using Cons.IH l from_le_to_le_take [of "length bs" ?f] by simp
  have hi: "\<not> bit ?f k" if "8 * length bs \<le> k" for k
    using that arg_cong [OF t, of "\<lambda>w. bit w k"] by (simp add: bit_take_bit_iff)
  have "drop_bit 8 (ucast b OR push_bit 8 ?f) = ?f"
  proof (rule bit_word_eqI)
    fix k assume "k < LENGTH('a)"
    show "bit (drop_bit 8 (ucast b OR push_bit 8 ?f)) k = bit ?f k"
      using l hi [of k] bit_imp_le_length [of b "8 + k"]
      by (cases "k < 8 * length bs") (auto simp: bit_simps)
  qed
  moreover have "ucast (ucast b OR push_bit 8 ?f :: 'a word) = b"
    using l by (intro bit_word_eqI) (auto simp: bit_simps)
  ultimately show ?case using Cons l by simp
qed

definition put_u16 :: "bytes \<Rightarrow> nat \<Rightarrow> u16 \<Rightarrow> bytes" where
  "put_u16 output offset value = copy_from_slice output offset (to_le 2 value)"

definition put_u32 :: "bytes \<Rightarrow> nat \<Rightarrow> u32 \<Rightarrow> bytes" where
  "put_u32 output offset value = copy_from_slice output offset (to_le 4 value)"

definition put_u64 :: "bytes \<Rightarrow> nat \<Rightarrow> u64 \<Rightarrow> bytes" where
  "put_u64 output offset value = copy_from_slice output offset (to_le 8 value)"

lemmas put_defs = put_u16_def put_u32_def put_u64_def

lemma length_put [simp, buf_simps]:
  "length (put_u16 b i v16) = length b" "length (put_u32 b i v32) = length b"
  "length (put_u64 b i v64) = length b"
  by (simp_all add: put_defs)

lemma to_le_zero [simp]: "to_le n 0 = replicate n 0"
  by (induction n) auto

lemma le_bytes_unique:
  assumes "from_le bs = (w :: 'a::len word)" and "length bs = n" and "8 * n \<le> LENGTH('a)"
  shows "bs = to_le n w"
  unfolding assms(1,2) [symmetric] using assms(2,3) by (intro to_le_from_le [symmetric]) simp

lemma from_le_inj:
  assumes "from_le bs = (from_le bs' :: 'a::len word)" and "length bs = length bs'"
    and "8 * length bs' \<le> LENGTH('a)"
  shows "bs = bs'"
proof -
  have "to_le (length bs') (from_le bs :: 'a word) = bs"
    by (rule le_bytes_unique [symmetric]) (use assms(2,3) in simp_all)
  moreover have "to_le (length bs') (from_le bs' :: 'a word) = bs'"
    by (rule to_le_from_le) (rule assms(3))
  ultimately show ?thesis using assms(1) by metis
qed

lemma list_update_copy: "i < length buf \<Longrightarrow> buf[i := v] = copy_from_slice buf i [v]"
  by (simp add: copy_from_slice_def upd_conv_take_nth_drop)

lemma slice_single: "i < length buf \<Longrightarrow> slice buf i (Suc i) = [buf ! i]"
  by (simp add: slice_def take_Suc_conv_app_nth [of 0 "drop i buf", simplified])

lemma slice_update_other: "i < a \<or> b \<le> i \<Longrightarrow> slice (buf[i := v]) a b = slice buf a b"
proof (rule nth_equalityI)
  fix k assume k: "i < a \<or> b \<le> i" "k < length (slice (buf[i := v]) a b)"
  then have "a + k < length buf" "k < b - a" by (auto simp: slice_def)
  with k show "slice (buf[i := v]) a b ! k = slice buf a b ! k"
    by (auto simp: slice_def nth_list_update)
qed (simp add: slice_def)

lemma nth_slice_eqD:
  "slice buf a b = slice buf' a b \<Longrightarrow> b \<le> length buf \<Longrightarrow> b \<le> length buf' \<Longrightarrow> a \<le> i \<Longrightarrow> i < b \<Longrightarrow>
    buf ! i = buf' ! i"
  using nth_slice [of b buf "i - a" a] nth_slice [of b buf' "i - a" a] by auto

lemma copy_from_slice_update_inside:
  assumes "off \<le> i" and "i < off + length src" and "off + length src \<le> length buf"
  shows "copy_from_slice (buf[i := v]) off src = copy_from_slice buf off src"
  using assms by (simp add: copy_from_slice_def drop_update_cancel take_update_cancel)

lemma copy_from_slice_update_outside:
  assumes "i < off \<or> off + length src \<le> i" and "i < length buf"
  shows "copy_from_slice (buf[i := v]) off src = (copy_from_slice buf off src)[i := v]"
proof (cases "off + length src \<le> length buf")
  case True
  show ?thesis
    by (rule nth_equalityI) (use assms True in \<open>auto simp: nth_copy_from_slice nth_list_update\<close>)
qed (simp add: copy_from_slice_def)

end
