(* ===== verification/Crc32.thy ===== *)
theory Crc32
  imports Prelude
begin

text \<open>
  The bitwise CRC-32 that \<^verbatim>\<open>libs/update-format\<close> and \<^verbatim>\<open>kernel/src/fs.rs\<close> each carry (the two
  functions are the same text). The step is injective, so a buffer and a copy of it that
  differs in one byte never have the same checksum; every checksummed record of the boot
  chain and of the filesystem rests on this.
\<close>

definition CRC_POLY :: u32 where
  "CRC_POLY = 0xedb88320"

definition crc_bit :: "u32 \<Rightarrow> u32" where
  "crc_bit crc = (let mask = 0 - (crc AND 1) in drop_bit 1 crc XOR (CRC_POLY AND mask))"

definition crc_byte :: "u32 \<Rightarrow> u8 \<Rightarrow> u32" where
  "crc_byte crc byte = (crc_bit ^^ 8) (crc XOR ucast byte)"

definition crc32 :: "bytes \<Rightarrow> u32" where
  "crc32 bs = NOT (fold (\<lambda>byte crc. crc_byte crc byte) bs (- 1))"

lemma crc_bit_alt:
  "crc_bit crc = drop_bit 1 crc XOR (if bit crc 0 then CRC_POLY else 0)"
proof (cases "bit crc 0")
  case True
  then have "crc AND 1 = 1"
    by (simp add: and_one_eq mod2_eq_if bit_0)
  with True show ?thesis by (simp add: crc_bit_def)
next
  case False
  then have "crc AND 1 = 0"
    by (simp add: and_one_eq mod2_eq_if bit_0)
  with False show ?thesis by (simp add: crc_bit_def)
qed

text \<open>The top bit of the polynomial is set, so the top bit of the result tells which bit fell off.\<close>

lemma crc_bit_inj: "inj crc_bit"
proof (rule injI)
  fix x y :: u32
  assume eq: "crc_bit x = crc_bit y"
  have top: "bit (crc_bit z) 31 = bit z 0" for z
    by (auto simp: crc_bit_alt CRC_POLY_def bit_simps dest: bit_imp_le_length)
  have b0: "bit x 0 = bit y 0"
    using top [of x] top [of y] eq by simp
  then have "drop_bit 1 x = drop_bit 1 y"
    using eq by (simp add: crc_bit_alt)
  then have "bit x (Suc k) = bit y (Suc k)" for k
    by (metis bit_drop_bit_eq comp_apply plus_1_eq_Suc)
  with b0 show "x = y"
    by (intro bit_word_eqI) (metis not0_implies_Suc)
qed

lemma crc_byte_inj_crc: "crc_byte c b = crc_byte c' b \<Longrightarrow> c = c'"
proof -
  assume "crc_byte c b = crc_byte c' b"
  then have "c XOR ucast b = c' XOR ucast b"
    unfolding crc_byte_def by (rule injD [OF inj_fn [OF crc_bit_inj]])
  then show ?thesis by simp
qed

lemma crc_byte_inj_byte: "crc_byte c b = crc_byte c b' \<Longrightarrow> b = b'"
proof -
  assume "crc_byte c b = crc_byte c b'"
  then have "c XOR ucast b = c XOR ucast b'"
    unfolding crc_byte_def by (rule injD [OF inj_fn [OF crc_bit_inj]])
  then have "(ucast b :: u32) = ucast b'" by (simp only: xor_left_cancel)
  then have "ucast (ucast b :: u32) = (ucast (ucast b' :: u32) :: u8)" by simp
  moreover have "(ucast (ucast x :: u32) :: u8) = x" for x :: u8
    by (rule bit_word_eqI) (auto simp: bit_simps)
  ultimately show ?thesis by metis
qed

lemma crc_fold_inj:
  "fold (\<lambda>byte crc. crc_byte crc byte) bs c = fold (\<lambda>byte crc. crc_byte crc byte) bs c' \<Longrightarrow> c = c'"
  by (induction bs arbitrary: c c') (auto dest: crc_byte_inj_crc)

lemma crc32_eq_fold:
  "crc32 bs = crc32 bs' \<longleftrightarrow>
    fold (\<lambda>byte crc. crc_byte crc byte) bs (- 1) = fold (\<lambda>byte crc. crc_byte crc byte) bs' (- 1)"
  by (simp add: crc32_def)

lemma crc32_single_byte:
  assumes "i < length bs" and "crc32 (bs[i := b]) = crc32 bs"
  shows "b = bs ! i"
proof -
  have split: "bs = take i bs @ bs ! i # drop (Suc i) bs"
    using assms(1) by (rule id_take_nth_drop)
  have upd: "bs[i := b] = take i bs @ b # drop (Suc i) bs"
    using assms(1) by (rule upd_conv_take_nth_drop)
  let ?c = "fold (\<lambda>byte crc. crc_byte crc byte) (take i bs) (- 1)"
  have "fold (\<lambda>byte crc. crc_byte crc byte) (drop (Suc i) bs) (crc_byte ?c b) =
      fold (\<lambda>byte crc. crc_byte crc byte) (drop (Suc i) bs) (crc_byte ?c (bs ! i))"
    using assms(2) unfolding crc32_eq_fold
    by (subst (asm) upd, subst (asm) (2) split) simp
  then have "crc_byte ?c b = crc_byte ?c (bs ! i)" by (rule crc_fold_inj)
  then show ?thesis by (rule crc_byte_inj_byte)
qed

lemma crc32_single_byte_diff:
  "i < length bs \<Longrightarrow> b \<noteq> bs ! i \<Longrightarrow> crc32 (bs[i := b]) \<noteq> crc32 bs"
  using crc32_single_byte by blast

text \<open>
  A record that stores the checksum of itself (with the checksum field zeroed) at \<open>off\<close>: two
  records that differ in one byte cannot both carry a correct checksum.
\<close>

lemma checksum_field_single_byte:
  assumes len: "off + 4 \<le> length b" and i: "i < length b"
    and ok: "crc32 (put_u32 b off 0) = from_le (slice b off (off + 4))"
    and ok': "crc32 (put_u32 (b[i := v]) off 0) = from_le (slice (b[i := v]) off (off + 4))"
  shows "v = b ! i"
proof (cases "off \<le> i \<and> i < off + 4")
  case True
  then have "put_u32 (b[i := v]) off 0 = put_u32 b off 0"
    using len by (simp add: put_u32_def copy_from_slice_update_inside)
  with ok ok' have "from_le (slice (b[i := v]) off (off + 4)) = (from_le (slice b off (off + 4)) :: u32)"
    by simp
  then have "slice (b[i := v]) off (off + 4) = slice b off (off + 4)"
    by (rule from_le_inj) (use len in simp_all)
  then have "b[i := v] ! i = b ! i"
    using True len by (intro nth_slice_eqD) auto
  with i show ?thesis by simp
next
  case False
  then have "put_u32 (b[i := v]) off 0 = (put_u32 b off 0)[i := v]"
    unfolding put_u32_def using i by (intro copy_from_slice_update_outside) auto
  moreover have "slice (b[i := v]) off (off + 4) = slice b off (off + 4)"
    using False by (intro slice_update_other) auto
  ultimately have "crc32 ((put_u32 b off 0)[i := v]) = crc32 (put_u32 b off 0)"
    using ok ok' by simp
  then have "v = put_u32 b off 0 ! i"
    using i by (intro crc32_single_byte) auto
  also have "\<dots> = b ! i"
    using False i by (auto simp: put_u32_def intro!: nth_copy_other)
  finally show ?thesis .
qed

end
