(* ===== verification/UpdateFormat.thy ===== *)
theory UpdateFormat
  imports Crc32
begin

text \<open>
  \<^verbatim>\<open>libs/update-format/src/lib.rs\<close>: the signed update manifest (current and legacy layout), the
  A/B boot-state record and the trust-root record, each with its \<^verbatim>\<open>encode\<close> and \<^verbatim>\<open>decode\<close>. Byte
  arrays of fixed length are lists; \<open>wf_manifest\<close> and \<open>wf_trust_root\<close> state the lengths that the
  Rust types \<^verbatim>\<open>[u8; N]\<close> carry.
\<close>

section \<open>Constants and types\<close>

definition MANIFEST_MAGIC :: bytes where
  "MANIFEST_MAGIC = [0x43, 0x44, 0x58, 0x55, 0x50, 0x44, 0x31, 0x00]"

definition LEGACY_MANIFEST_FORMAT_VERSION :: u32 where
  [simp]: "LEGACY_MANIFEST_FORMAT_VERSION = 1"

definition MANIFEST_FORMAT_VERSION :: u32 where
  [simp]: "MANIFEST_FORMAT_VERSION = 2"

definition LEGACY_MANIFEST_BYTES :: nat where
  [simp]: "LEGACY_MANIFEST_BYTES = 160"

definition MANIFEST_BYTES :: nat where
  [simp]: "MANIFEST_BYTES = 224"

definition LEGACY_SIGNING_BYTES :: nat where
  [simp]: "LEGACY_SIGNING_BYTES = 80"

definition SIGNING_BYTES :: nat where
  [simp]: "SIGNING_BYTES = 160"

definition SHA256_BYTES :: nat where
  [simp]: "SHA256_BYTES = 32"

definition PUBLIC_KEY_BYTES :: nat where
  [simp]: "PUBLIC_KEY_BYTES = 32"

definition KEY_ID_BYTES :: nat where
  [simp]: "KEY_ID_BYTES = 16"

definition ED25519_SIGNATURE_BYTES :: nat where
  [simp]: "ED25519_SIGNATURE_BYTES = 64"

definition BOOT_STATE_MAGIC :: bytes where
  "BOOT_STATE_MAGIC = [0x43, 0x44, 0x58, 0x42, 0x4f, 0x4f, 0x54, 0x31]"

definition BOOT_STATE_FORMAT_VERSION :: u32 where
  [simp]: "BOOT_STATE_FORMAT_VERSION = 1"

definition BOOT_STATE_BYTES :: nat where
  [simp]: "BOOT_STATE_BYTES = 64"

definition TRUST_ROOT_STATE_MAGIC :: bytes where
  "TRUST_ROOT_STATE_MAGIC = [0x43, 0x44, 0x58, 0x54, 0x52, 0x53, 0x54, 0x31]"

definition TRUST_ROOT_STATE_FORMAT_VERSION :: u32 where
  [simp]: "TRUST_ROOT_STATE_FORMAT_VERSION = 1"

definition TRUST_ROOT_STATE_BYTES :: nat where
  [simp]: "TRUST_ROOT_STATE_BYTES = 80"

lemma length_magics [simp]:
  "length MANIFEST_MAGIC = 8" "length BOOT_STATE_MAGIC = 8" "length TRUST_ROOT_STATE_MAGIC = 8"
  by (simp_all add: MANIFEST_MAGIC_def BOOT_STATE_MAGIC_def TRUST_ROOT_STATE_MAGIC_def)

datatype ManifestError =
    InvalidLength
  | InvalidMagic
  | UnsupportedFormat
  | InvalidHeaderSize
  | InvalidReleaseVersion
  | InvalidKernelSize
  | InvalidKeyId
  | InvalidNextTrustKey
  | InvalidSignature
  | NonzeroReservedBytes

datatype BootStateError =
    InvalidLength
  | InvalidMagic
  | UnsupportedFormat
  | InvalidHeaderSize
  | InvalidGeneration
  | InvalidSlot
  | InvalidReleaseVersion
  | InvalidChecksum
  | NonzeroReservedBytes

datatype TrustRootStateError =
    InvalidLength
  | InvalidMagic
  | UnsupportedFormat
  | InvalidHeaderSize
  | InvalidActivationRelease
  | InvalidPublicKey
  | InvalidKeyId
  | InvalidChecksum
  | NonzeroReservedBytes

datatype SystemSlot = A | B

fun slot_as_u8 :: "SystemSlot \<Rightarrow> u8" where
  "slot_as_u8 A = 0"
| "slot_as_u8 B = 1"

definition slot_from_u8 :: "u8 \<Rightarrow> SystemSlot option" where
  "slot_from_u8 v = (if v = 0 then Some A else if v = 1 then Some B else None)"

fun slot_other :: "SystemSlot \<Rightarrow> SystemSlot" where
  "slot_other A = B"
| "slot_other B = A"

fun slot_as_str :: "SystemSlot \<Rightarrow> string" where
  "slot_as_str A = ''A''"
| "slot_as_str B = ''B''"

record BootState =
  generation :: u64
  active_slot :: SystemSlot
  active_release_version :: u64

record UpdateManifest =
  format_version :: u32
  release_version :: u64
  kernel_size :: u64
  kernel_sha256 :: bytes
  key_id :: bytes
  next_trust_public_key :: bytes
  next_trust_key_id :: bytes
  signature :: bytes

record TrustRootState =
  activation_release_version :: u64
  public_key :: bytes
  trust_key_id :: bytes

text \<open>\<^verbatim>\<open>get_u32\<close> and \<^verbatim>\<open>get_u64\<close> of this crate index the slice; the decoders have checked the length.\<close>

definition get_u32 :: "bytes \<Rightarrow> nat \<Rightarrow> u32" where
  "get_u32 input offset = from_le (slice input offset (offset + 4))"

definition get_u64 :: "bytes \<Rightarrow> nat \<Rightarrow> u64" where
  "get_u64 input offset = from_le (slice input offset (offset + 8))"

definition zero_bytes :: "bytes \<Rightarrow> bool" where
  "zero_bytes bs \<longleftrightarrow> list_all (\<lambda>b. b = 0) bs"

section \<open>Boot state\<close>

definition BootState_encode :: "BootState \<Rightarrow> bytes" where
  "BootState_encode self =
    (let output = replicate BOOT_STATE_BYTES 0;
         output = copy_from_slice output 0 BOOT_STATE_MAGIC;
         output = put_u32 output 8 BOOT_STATE_FORMAT_VERSION;
         output = put_u32 output 12 (of_nat BOOT_STATE_BYTES);
         output = put_u64 output 16 (generation self);
         output = output[24 := slot_as_u8 (active_slot self)];
         output = put_u64 output 32 (active_release_version self);
         checksum = crc32 output
     in put_u32 output 40 checksum)"

definition BootState_decode :: "bytes \<Rightarrow> BootStateError + BootState" where
  "BootState_decode input =
    (if length input \<noteq> BOOT_STATE_BYTES then Err BootStateError.InvalidLength
     else if slice input 0 8 \<noteq> BOOT_STATE_MAGIC then Err BootStateError.InvalidMagic
     else if get_u32 input 8 \<noteq> BOOT_STATE_FORMAT_VERSION then Err BootStateError.UnsupportedFormat
     else if unat (get_u32 input 12) \<noteq> BOOT_STATE_BYTES then Err BootStateError.InvalidHeaderSize
     else let gen = get_u64 input 16 in
       if gen = 0 then Err InvalidGeneration
       else try_bind (ok_or (slot_from_u8 (input ! 24)) InvalidSlot) (\<lambda>slot.
         let release = get_u64 input 32 in
         if release = 0 then Err BootStateError.InvalidReleaseVersion
         else if \<not> zero_bytes (slice input 25 32) \<or> \<not> zero_bytes (slice input 44 64)
         then Err BootStateError.NonzeroReservedBytes
         else let stored_checksum = get_u32 input 40;
                  copy = put_u32 input 40 0
              in if crc32 copy \<noteq> stored_checksum then Err BootStateError.InvalidChecksum
                 else Ok \<lparr>generation = gen, active_slot = slot,
                          active_release_version = release\<rparr>))"

section \<open>Trust-root state\<close>

definition TrustRootState_encode :: "TrustRootState \<Rightarrow> bytes" where
  "TrustRootState_encode self =
    (let output = replicate TRUST_ROOT_STATE_BYTES 0;
         output = copy_from_slice output 0 TRUST_ROOT_STATE_MAGIC;
         output = put_u32 output 8 TRUST_ROOT_STATE_FORMAT_VERSION;
         output = put_u32 output 12 (of_nat TRUST_ROOT_STATE_BYTES);
         output = put_u64 output 16 (activation_release_version self);
         output = copy_from_slice output 24 (public_key self);
         output = copy_from_slice output 56 (trust_key_id self);
         checksum = crc32 output
     in put_u32 output 72 checksum)"

definition TrustRootState_decode :: "bytes \<Rightarrow> TrustRootStateError + TrustRootState" where
  "TrustRootState_decode input =
    (if length input \<noteq> TRUST_ROOT_STATE_BYTES then Err TrustRootStateError.InvalidLength
     else if slice input 0 8 \<noteq> TRUST_ROOT_STATE_MAGIC then Err TrustRootStateError.InvalidMagic
     else if get_u32 input 8 \<noteq> TRUST_ROOT_STATE_FORMAT_VERSION
     then Err TrustRootStateError.UnsupportedFormat
     else if unat (get_u32 input 12) \<noteq> TRUST_ROOT_STATE_BYTES
     then Err TrustRootStateError.InvalidHeaderSize
     else let activation = get_u64 input 16 in
       if activation = 0 then Err InvalidActivationRelease
       else let pk = slice input 24 56 in
         if pk = replicate PUBLIC_KEY_BYTES 0 then Err InvalidPublicKey
         else let kid = slice input 56 72 in
           if kid = replicate KEY_ID_BYTES 0 then Err TrustRootStateError.InvalidKeyId
           else if \<not> zero_bytes (slice input 76 80) then Err TrustRootStateError.NonzeroReservedBytes
           else let stored_checksum = get_u32 input 72;
                    copy = put_u32 input 72 0
                in if crc32 copy \<noteq> stored_checksum then Err TrustRootStateError.InvalidChecksum
                   else Ok \<lparr>activation_release_version = activation, public_key = pk,
                            trust_key_id = kid\<rparr>)"

section \<open>Update manifest\<close>

definition manifest_unsigned_with_next_trust_key ::
    "u64 \<Rightarrow> u64 \<Rightarrow> bytes \<Rightarrow> bytes \<Rightarrow> bytes \<Rightarrow> bytes \<Rightarrow> UpdateManifest" where
  "manifest_unsigned_with_next_trust_key release ksize sha kid next_key next_id =
    \<lparr>format_version = MANIFEST_FORMAT_VERSION, release_version = release, kernel_size = ksize,
     kernel_sha256 = sha, key_id = kid, next_trust_public_key = next_key,
     next_trust_key_id = next_id, signature = replicate ED25519_SIGNATURE_BYTES 0\<rparr>"

definition manifest_unsigned :: "u64 \<Rightarrow> u64 \<Rightarrow> bytes \<Rightarrow> bytes \<Rightarrow> UpdateManifest" where
  "manifest_unsigned release ksize sha kid =
    \<lparr>format_version = MANIFEST_FORMAT_VERSION, release_version = release, kernel_size = ksize,
     kernel_sha256 = sha, key_id = kid, next_trust_public_key = replicate PUBLIC_KEY_BYTES 0,
     next_trust_key_id = replicate KEY_ID_BYTES 0,
     signature = replicate ED25519_SIGNATURE_BYTES 0\<rparr>"

definition has_next_trust_key :: "UpdateManifest \<Rightarrow> bool" where
  "has_next_trust_key self \<longleftrightarrow> next_trust_public_key self \<noteq> replicate PUBLIC_KEY_BYTES 0"

definition signing_len :: "UpdateManifest \<Rightarrow> nat" where
  "signing_len self =
    (if format_version self = LEGACY_MANIFEST_FORMAT_VERSION then LEGACY_SIGNING_BYTES
     else SIGNING_BYTES)"

definition signing_bytes :: "UpdateManifest \<Rightarrow> bytes" where
  "signing_bytes self =
    (let signing = replicate SIGNING_BYTES 0;
         signing = copy_from_slice signing 0 MANIFEST_MAGIC
     in if format_version self = LEGACY_MANIFEST_FORMAT_VERSION then
       (let signing = put_u32 signing 8 LEGACY_MANIFEST_FORMAT_VERSION;
            signing = put_u32 signing 12 (of_nat LEGACY_MANIFEST_BYTES);
            signing = put_u64 signing 16 (release_version self);
            signing = put_u64 signing 24 (kernel_size self);
            signing = copy_from_slice signing 32 (kernel_sha256 self);
            signing = copy_from_slice signing 64 (key_id self)
        in signing)
     else
       (let signing = put_u32 signing 8 MANIFEST_FORMAT_VERSION;
            signing = put_u32 signing 12 (of_nat MANIFEST_BYTES);
            signing = put_u64 signing 16 (release_version self);
            signing = put_u64 signing 24 (kernel_size self);
            signing = copy_from_slice signing 32 (kernel_sha256 self);
            signing = copy_from_slice signing 64 (key_id self);
            signing = copy_from_slice signing 80 (next_trust_public_key self);
            signing = copy_from_slice signing 112 (next_trust_key_id self)
        in signing))"

definition manifest_encode :: "UpdateManifest \<Rightarrow> bytes" where
  "manifest_encode self =
    (let output = replicate MANIFEST_BYTES 0;
         output = copy_from_slice output 0 (signing_bytes self)
     in copy_from_slice output 160 (signature self))"

definition manifest_decode :: "bytes \<Rightarrow> ManifestError + UpdateManifest" where
  "manifest_decode input =
    (if length input \<noteq> LEGACY_MANIFEST_BYTES \<and> length input \<noteq> MANIFEST_BYTES
     then Err ManifestError.InvalidLength
     else if slice input 0 8 \<noteq> MANIFEST_MAGIC then Err ManifestError.InvalidMagic
     else let version = get_u32 input 8;
              header_size = unat (get_u32 input 12);
              release = get_u64 input 16
       in if release = 0 then Err ManifestError.InvalidReleaseVersion
       else let ksize = get_u64 input 24 in
         if ksize = 0 then Err InvalidKernelSize
         else let sha = slice input 32 64; kid = slice input 64 80 in
           if kid = replicate KEY_ID_BYTES 0 then Err ManifestError.InvalidKeyId
           else try_bind
             (if version = LEGACY_MANIFEST_FORMAT_VERSION then
                (if length input \<noteq> LEGACY_MANIFEST_BYTES \<or> header_size \<noteq> LEGACY_MANIFEST_BYTES
                 then Err ManifestError.InvalidHeaderSize
                 else if \<not> zero_bytes (slice input 144 160) then Err ManifestError.NonzeroReservedBytes
                 else Ok (replicate PUBLIC_KEY_BYTES 0, replicate KEY_ID_BYTES 0, slice input 80 144))
              else if version = MANIFEST_FORMAT_VERSION then
                (if length input \<noteq> MANIFEST_BYTES \<or> header_size \<noteq> MANIFEST_BYTES
                 then Err ManifestError.InvalidHeaderSize
                 else let next_key = slice input 80 112; next_id = slice input 112 128 in
                   if (next_key = replicate PUBLIC_KEY_BYTES 0) \<noteq> (next_id = replicate KEY_ID_BYTES 0)
                   then Err InvalidNextTrustKey
                   else if \<not> zero_bytes (slice input 128 160)
                   then Err ManifestError.NonzeroReservedBytes
                   else Ok (next_key, next_id, slice input 160 224))
              else Err ManifestError.UnsupportedFormat)
             (\<lambda>(next_key, next_id, sig).
               if sig = replicate ED25519_SIGNATURE_BYTES 0 then Err InvalidSignature
               else Ok \<lparr>format_version = version, release_version = release, kernel_size = ksize,
                        kernel_sha256 = sha, key_id = kid, next_trust_public_key = next_key,
                        next_trust_key_id = next_id, signature = sig\<rparr>))"

section \<open>Layouts as concatenations\<close>

lemma zero_bytes_replicate: "zero_bytes bs \<longleftrightarrow> bs = replicate (length bs) 0"
  unfolding zero_bytes_def by (induction bs) auto

lemma zero_bytes_zeros [simp]: "zero_bytes (replicate n 0)"
  by (simp add: zero_bytes_def list_all_iff)

lemma slot_from_as_u8 [simp]: "slot_from_u8 (slot_as_u8 s) = Some s"
  by (cases s) (simp_all add: slot_from_u8_def)

lemma slot_from_u8_Some: "slot_from_u8 v = Some s \<longleftrightarrow> v = slot_as_u8 s"
  by (cases s) (auto simp: slot_from_u8_def split: if_splits)

definition boot_layout :: "BootState \<Rightarrow> u32 \<Rightarrow> bytes" where
  "boot_layout s c =
    BOOT_STATE_MAGIC @ to_le 4 (1 :: u32) @ to_le 4 (64 :: u32) @ to_le 8 (generation s) @
    [slot_as_u8 (active_slot s)] @ replicate 7 0 @ to_le 8 (active_release_version s) @
    to_le 4 c @ replicate 20 0"

lemma BootState_encode_layout: "BootState_encode s = boot_layout s (crc32 (boot_layout s 0))"
  unfolding BootState_encode_def boot_layout_def Let_def
  by (simp add: put_defs list_update_copy buf_simps flip: replicate_add)

lemma put_boot_layout: "put_u32 (boot_layout s c) 40 c' = boot_layout s c'"
  by (simp add: boot_layout_def put_u32_def buf_simps copy_from_slice_def)

lemma boot_layout_fields:
  "length (boot_layout s c) = 64" "slice (boot_layout s c) 0 8 = BOOT_STATE_MAGIC"
  "get_u32 (boot_layout s c) 8 = 1" "get_u32 (boot_layout s c) 12 = 64"
  "get_u64 (boot_layout s c) 16 = generation s"
  "boot_layout s c ! 24 = slot_as_u8 (active_slot s)"
  "get_u64 (boot_layout s c) 32 = active_release_version s"
  "slice (boot_layout s c) 25 32 = replicate 7 0" "slice (boot_layout s c) 44 64 = replicate 20 0"
  "get_u32 (boot_layout s c) 40 = c"
  by (simp_all add: boot_layout_def get_u32_def get_u64_def nth_append slice_def)

lemma BootState_decode_Ok:
  "BootState_decode b = Ok s \<longleftrightarrow>
    generation s \<noteq> 0 \<and> active_release_version s \<noteq> 0 \<and>
    b = boot_layout s (crc32 (boot_layout s 0))" (is "?l \<longleftrightarrow> ?r")
proof
  assume ?r
  then show ?l
    by (simp add: BootState_decode_def boot_layout_fields put_boot_layout Let_def)
next
  assume l: ?l
  then have len: "length b = 64" by (simp add: BootState_decode_def split: if_splits)
  from l have f: "slice b 0 8 = BOOT_STATE_MAGIC" "get_u32 b 8 = 1" "unat (get_u32 b 12) = 64"
      "get_u64 b 16 = generation s" "generation s \<noteq> 0" "b ! 24 = slot_as_u8 (active_slot s)"
      "get_u64 b 32 = active_release_version s" "active_release_version s \<noteq> 0"
      "zero_bytes (slice b 25 32)" "zero_bytes (slice b 44 64)"
      "crc32 (put_u32 b 40 0) = get_u32 b 40"
    by (auto simp: BootState_decode_def Let_def slot_from_u8_Some split: if_splits)
  have h: "get_u32 b 12 = 64" using f(3) by (simp add: word_unat_eq_iff)
  have parts: "b = slice b 0 8 @ slice b 8 12 @ slice b 12 16 @ slice b 16 24 @ slice b 24 25 @
      slice b 25 32 @ slice b 32 40 @ slice b 40 44 @ slice b 44 64"
    using len by (simp add: slice_join slice_full [of b, unfolded len])
  have "slice b 8 12 = to_le 4 (1 :: u32)" "slice b 12 16 = to_le 4 (64 :: u32)"
      "slice b 16 24 = to_le 8 (generation s)" "slice b 32 40 = to_le 8 (active_release_version s)"
      "slice b 40 44 = to_le 4 (get_u32 b 40)"
    using f h len by (auto intro!: le_bytes_unique simp: get_u32_def get_u64_def)
  moreover have "slice b 25 32 = replicate 7 0" "slice b 44 64 = replicate 20 0"
      "slice b 24 25 = [slot_as_u8 (active_slot s)]"
    using f len slice_single [of 24 b] by (auto simp: zero_bytes_replicate)
  ultimately have lay: "b = boot_layout s (get_u32 b 40)"
    using f(1) by (subst parts) (simp add: boot_layout_def)
  then have "put_u32 b 40 0 = boot_layout s 0"
    by (metis put_boot_layout)
  with lay f show ?r by simp
qed

text \<open>C16: the boot-state codec is a bijection between the states with non-zero generation and
  release version and the byte strings \<^verbatim>\<open>decode\<close> accepts: a decoded record is exactly the
  canonical encoding of its value.\<close>

theorem boot_state_codec_exact:
  "BootState_decode b = Ok s \<longleftrightarrow>
    b = BootState_encode s \<and> generation s \<noteq> 0 \<and> active_release_version s \<noteq> 0"
  by (auto simp: BootState_decode_Ok BootState_encode_layout)

text \<open>C24: no single-byte corruption of a valid boot-state record is accepted.\<close>

theorem boot_state_single_byte_corruption:
  assumes "BootState_decode b = Ok s" and "i < length b" and "v \<noteq> b ! i"
  shows "\<exists>e. BootState_decode (b[i := v]) = Err e"
proof (cases "BootState_decode (b[i := v])")
  case (Inr s')
  have "crc32 (put_u32 c 40 0) = from_le (slice c 40 (40 + 4)) \<and> length c = 64"
    if "BootState_decode c = Ok t" for c t
    using that by (auto simp: BootState_decode_def get_u32_def Let_def split: if_splits)
  from this [OF assms(1)] this [OF Inr] have "v = b ! i"
    using assms(2) by (intro checksum_field_single_byte [of 40]) auto
  with assms(3) show ?thesis by simp
qed auto

section \<open>Trust-root codec\<close>

definition wf_trust_root :: "TrustRootState \<Rightarrow> bool" where
  "wf_trust_root t \<longleftrightarrow> length (public_key t) = PUBLIC_KEY_BYTES \<and> length (trust_key_id t) = KEY_ID_BYTES"

definition trust_layout :: "TrustRootState \<Rightarrow> u32 \<Rightarrow> bytes" where
  "trust_layout t c =
    TRUST_ROOT_STATE_MAGIC @ to_le 4 (1 :: u32) @ to_le 4 (80 :: u32) @
    to_le 8 (activation_release_version t) @ public_key t @ trust_key_id t @ to_le 4 c @ replicate 4 0"

lemma TrustRootState_encode_layout:
  "wf_trust_root t \<Longrightarrow> TrustRootState_encode t = trust_layout t (crc32 (trust_layout t 0))"
  unfolding TrustRootState_encode_def trust_layout_def Let_def wf_trust_root_def
  by (simp add: put_defs buf_simps flip: replicate_add)

lemma put_trust_layout: "wf_trust_root t \<Longrightarrow> put_u32 (trust_layout t c) 72 c' = trust_layout t c'"
  by (simp add: trust_layout_def put_u32_def wf_trust_root_def buf_simps copy_from_slice_def)

lemma trust_layout_fields:
  assumes "wf_trust_root t"
  shows "length (trust_layout t c) = 80" "slice (trust_layout t c) 0 8 = TRUST_ROOT_STATE_MAGIC"
    "get_u32 (trust_layout t c) 8 = 1" "get_u32 (trust_layout t c) 12 = 80"
    "get_u64 (trust_layout t c) 16 = activation_release_version t"
    "slice (trust_layout t c) 24 56 = public_key t" "slice (trust_layout t c) 56 72 = trust_key_id t"
    "slice (trust_layout t c) 76 80 = replicate 4 0" "get_u32 (trust_layout t c) 72 = c"
  using assms
  by (simp_all add: trust_layout_def get_u32_def get_u64_def slice_def wf_trust_root_def)

lemma TrustRootState_decode_Ok:
  "TrustRootState_decode b = Ok t \<longleftrightarrow>
    wf_trust_root t \<and> activation_release_version t \<noteq> 0 \<and> public_key t \<noteq> replicate 32 0 \<and>
    trust_key_id t \<noteq> replicate 16 0 \<and> b = trust_layout t (crc32 (trust_layout t 0))"
  (is "?l \<longleftrightarrow> ?r")
proof
  assume ?r
  then show ?l
    by (simp add: TrustRootState_decode_def trust_layout_fields put_trust_layout Let_def)
next
  assume l: ?l
  then have len: "length b = 80" by (simp add: TrustRootState_decode_def split: if_splits)
  from l have f: "slice b 0 8 = TRUST_ROOT_STATE_MAGIC" "get_u32 b 8 = 1" "unat (get_u32 b 12) = 80"
      "get_u64 b 16 = activation_release_version t" "activation_release_version t \<noteq> 0"
      "slice b 24 56 = public_key t" "public_key t \<noteq> replicate 32 0"
      "slice b 56 72 = trust_key_id t" "trust_key_id t \<noteq> replicate 16 0"
      "zero_bytes (slice b 76 80)" "crc32 (put_u32 b 72 0) = get_u32 b 72"
    by (auto simp: TrustRootState_decode_def Let_def split: if_splits)
  have h: "get_u32 b 12 = 80" using f(3) by (simp add: word_unat_eq_iff)
  have wf: "wf_trust_root t" unfolding wf_trust_root_def f(6,8) [symmetric] using len by simp
  have parts: "b = slice b 0 8 @ slice b 8 12 @ slice b 12 16 @ slice b 16 24 @ slice b 24 56 @
      slice b 56 72 @ slice b 72 76 @ slice b 76 80"
    using len by (simp add: slice_join slice_full [of b, unfolded len])
  have "slice b 8 12 = to_le 4 (1 :: u32)" "slice b 12 16 = to_le 4 (80 :: u32)"
      "slice b 16 24 = to_le 8 (activation_release_version t)"
      "slice b 72 76 = to_le 4 (get_u32 b 72)"
    using f h len by (auto intro!: le_bytes_unique simp: get_u32_def get_u64_def)
  moreover have "slice b 76 80 = replicate 4 0"
    using f len by (auto simp: zero_bytes_replicate)
  ultimately have lay: "b = trust_layout t (get_u32 b 72)"
    using f(1,6,8) by (subst parts) (simp add: trust_layout_def)
  then have "put_u32 b 72 0 = trust_layout t 0"
    using wf by (metis put_trust_layout)
  with lay f wf show ?r by simp
qed

text \<open>the trust-root record decodes exactly from its canonical encoding, and only with a
  non-zero activation release, public key and key id.\<close>

theorem trust_root_codec_exact:
  "TrustRootState_decode b = Ok t \<longleftrightarrow>
    b = TrustRootState_encode t \<and> wf_trust_root t \<and> activation_release_version t \<noteq> 0 \<and>
    public_key t \<noteq> replicate PUBLIC_KEY_BYTES 0 \<and> trust_key_id t \<noteq> replicate KEY_ID_BYTES 0"
  by (auto simp: TrustRootState_decode_Ok TrustRootState_encode_layout)

text \<open>no single-byte corruption of a valid trust-root record is accepted.\<close>

theorem trust_root_single_byte_corruption:
  assumes "TrustRootState_decode b = Ok t" and "i < length b" and "v \<noteq> b ! i"
  shows "\<exists>e. TrustRootState_decode (b[i := v]) = Err e"
proof (cases "TrustRootState_decode (b[i := v])")
  case (Inr t')
  have "crc32 (put_u32 c 72 0) = from_le (slice c 72 (72 + 4)) \<and> length c = 80"
    if "TrustRootState_decode c = Ok u" for c u
    using that by (auto simp: TrustRootState_decode_def get_u32_def Let_def split: if_splits)
  from this [OF assms(1)] this [OF Inr] have "v = b ! i"
    using assms(2) by (intro checksum_field_single_byte [of 72]) auto
  with assms(3) show ?thesis by simp
qed auto

section \<open>Manifest codec\<close>

definition wf_manifest :: "UpdateManifest \<Rightarrow> bool" where
  "wf_manifest m \<longleftrightarrow> length (kernel_sha256 m) = SHA256_BYTES \<and> length (key_id m) = KEY_ID_BYTES \<and>
    length (next_trust_public_key m) = PUBLIC_KEY_BYTES \<and>
    length (next_trust_key_id m) = KEY_ID_BYTES \<and> length (signature m) = ED25519_SIGNATURE_BYTES"

text \<open>The manifests \<^verbatim>\<open>decode\<close> can produce in the current format.\<close>

definition valid_manifest :: "UpdateManifest \<Rightarrow> bool" where
  "valid_manifest m \<longleftrightarrow> wf_manifest m \<and> format_version m = MANIFEST_FORMAT_VERSION \<and>
    release_version m \<noteq> 0 \<and> kernel_size m \<noteq> 0 \<and> key_id m \<noteq> replicate KEY_ID_BYTES 0 \<and>
    (next_trust_public_key m = replicate PUBLIC_KEY_BYTES 0 \<longleftrightarrow>
      next_trust_key_id m = replicate KEY_ID_BYTES 0) \<and>
    signature m \<noteq> replicate ED25519_SIGNATURE_BYTES 0"

definition manifest_head :: "u32 \<Rightarrow> u32 \<Rightarrow> UpdateManifest \<Rightarrow> bytes" where
  "manifest_head version header_size m =
    MANIFEST_MAGIC @ to_le 4 version @ to_le 4 header_size @ to_le 8 (release_version m) @
    to_le 8 (kernel_size m) @ kernel_sha256 m @ key_id m"

lemma length_manifest_head: "wf_manifest m \<Longrightarrow> length (manifest_head v h m) = 80"
  by (simp add: manifest_head_def wf_manifest_def)

lemma signing_bytes_current:
  "wf_manifest m \<Longrightarrow> format_version m = 2 \<Longrightarrow>
    signing_bytes m = manifest_head 2 224 m @ next_trust_public_key m @ next_trust_key_id m @ replicate 32 0"
  unfolding signing_bytes_def manifest_head_def Let_def wf_manifest_def
  by (simp add: put_defs buf_simps)

lemma signing_bytes_legacy:
  "wf_manifest m \<Longrightarrow> format_version m = 1 \<Longrightarrow>
    signing_bytes m = manifest_head 1 160 m @ replicate 80 0"
  unfolding signing_bytes_def manifest_head_def Let_def wf_manifest_def
  by (simp add: put_defs buf_simps)

lemma manifest_encode_current:
  "wf_manifest m \<Longrightarrow> format_version m = 2 \<Longrightarrow>
    manifest_encode m = manifest_head 2 224 m @ next_trust_public_key m @ next_trust_key_id m @
      replicate 32 0 @ signature m"
  by (simp add: manifest_encode_def signing_bytes_current length_manifest_head wf_manifest_def
      buf_simps Let_def)

lemma manifest_head_fields:
  assumes "wf_manifest m"
  shows "slice (manifest_head v h m @ r) 0 8 = MANIFEST_MAGIC"
    "get_u32 (manifest_head v h m @ r) 8 = v" "get_u32 (manifest_head v h m @ r) 12 = h"
    "get_u64 (manifest_head v h m @ r) 16 = release_version m"
    "get_u64 (manifest_head v h m @ r) 24 = kernel_size m"
    "slice (manifest_head v h m @ r) 32 64 = kernel_sha256 m"
    "slice (manifest_head v h m @ r) 64 80 = key_id m"
  using assms
  by (simp_all add: manifest_head_def get_u32_def get_u64_def slice_def wf_manifest_def)

lemmas manifest_head_parts = manifest_head_fields manifest_head_fields [where r = "[]", simplified]

lemma manifest_decode_head:
  assumes "manifest_decode b = Ok m"
  shows "wf_manifest m"
    and "slice b 0 80 = manifest_head (format_version m)
      (if format_version m = 1 then 160 else 224) m"
    and "format_version m = 1 \<and> length b = 160 \<or> format_version m = 2 \<and> length b = 224"
proof -
  from assms have f: "slice b 0 8 = MANIFEST_MAGIC" "get_u32 b 8 = format_version m"
      "get_u64 b 16 = release_version m" "get_u64 b 24 = kernel_size m"
      "slice b 32 64 = kernel_sha256 m" "slice b 64 80 = key_id m"
      "format_version m = 1 \<and> length b = 160 \<and> unat (get_u32 b 12) = 160 \<and>
         signature m = slice b 80 144 \<and> next_trust_public_key m = replicate 32 0 \<and>
         next_trust_key_id m = replicate 16 0 \<or>
       format_version m = 2 \<and> length b = 224 \<and> unat (get_u32 b 12) = 224 \<and>
         signature m = slice b 160 224 \<and> next_trust_public_key m = slice b 80 112 \<and>
         next_trust_key_id m = slice b 112 128"
    by (auto simp: manifest_decode_def Let_def split: if_splits)
  show wf: "wf_manifest m"
    unfolding wf_manifest_def f(5,6) [symmetric] using f(7) by auto
  show "format_version m = 1 \<and> length b = 160 \<or> format_version m = 2 \<and> length b = 224"
    using f(7) by auto
  have len: "160 \<le> length b" using f(7) by auto
  have h: "get_u32 b 12 = (if format_version m = 1 then 160 else 224)"
    using f(7) by (auto simp: word_unat_eq_iff)
  have parts: "slice b 0 80 = slice b 0 8 @ slice b 8 12 @ slice b 12 16 @ slice b 16 24 @
      slice b 24 32 @ slice b 32 64 @ slice b 64 80"
    by (simp add: slice_join)
  have "slice b 8 12 = to_le 4 (get_u32 b 8)" "slice b 12 16 = to_le 4 (get_u32 b 12)"
      "slice b 16 24 = to_le 8 (get_u64 b 16)" "slice b 24 32 = to_le 8 (get_u64 b 24)"
    using len by (auto intro!: le_bytes_unique simp: get_u32_def get_u64_def)
  then show "slice b 0 80 = manifest_head (format_version m)
      (if format_version m = 1 then 160 else 224) m"
    unfolding parts manifest_head_def using f(1-6) h by simp
qed

lemma manifest_decode_tail:
  assumes "manifest_decode b = Ok m" and "format_version m = 2"
  shows "slice b 80 160 = next_trust_public_key m @ next_trust_key_id m @ replicate 32 0"
    and "slice b 160 224 = signature m" and "valid_manifest m"
proof -
  from assms have f: "length b = 224" "slice b 80 112 = next_trust_public_key m"
      "slice b 112 128 = next_trust_key_id m" "zero_bytes (slice b 128 160)"
      "slice b 160 224 = signature m"
      "(next_trust_public_key m = replicate 32 0) = (next_trust_key_id m = replicate 16 0)"
      "release_version m \<noteq> 0" "kernel_size m \<noteq> 0" "key_id m \<noteq> replicate 16 0"
      "signature m \<noteq> replicate 64 0"
    by (auto simp: manifest_decode_def Let_def split: if_splits)
  have "slice b 128 160 = replicate 32 0"
    using f(1,4) by (simp add: zero_bytes_replicate)
  then show "slice b 80 160 = next_trust_public_key m @ next_trust_key_id m @ replicate 32 0"
    unfolding f(2,3) [symmetric] by (simp add: slice_join flip: \<open>slice b 128 160 = _\<close>)
  show "slice b 160 224 = signature m" by (rule f(5))
  show "valid_manifest m"
    using f manifest_decode_head(1) [OF assms(1)] assms(2) by (simp add: valid_manifest_def)
qed

lemma manifest_decode_encode:
  assumes "valid_manifest m"
  shows "manifest_decode (manifest_encode m) = Ok m"
proof -
  have wf: "wf_manifest m" and v: "format_version m = 2"
    using assms by (simp_all add: valid_manifest_def)
  have t: "slice (manifest_head 2 224 m @ next_trust_public_key m @ next_trust_key_id m @ replicate 32 0 @
      signature m) a b' = slice (next_trust_public_key m @ next_trust_key_id m @ replicate 32 0 @
      signature m) (a - 80) (b' - 80)" if "80 \<le> a" for a b'
    using that by (simp add: length_manifest_head [OF wf])
  show ?thesis
    using assms wf v unfolding manifest_encode_current [OF wf v] valid_manifest_def
    by (simp add: manifest_decode_def manifest_head_parts length_manifest_head t Let_def)
       (auto simp: wf_manifest_def slice_def)
qed

text \<open>C25: in the current format the manifest codec is exact: \<^verbatim>\<open>decode\<close> accepts a byte string as
  manifest \<open>m\<close> precisely when the string is the canonical encoding of \<open>m\<close> and \<open>m\<close> is complete
  (non-zero release, size, key id and signature, next trust key and its id both present or
  both absent).\<close>

theorem manifest_codec_exact:
  "manifest_decode b = Ok m \<and> format_version m = MANIFEST_FORMAT_VERSION \<longleftrightarrow>
    b = manifest_encode m \<and> valid_manifest m"
proof
  assume l: "manifest_decode b = Ok m \<and> format_version m = MANIFEST_FORMAT_VERSION"
  then have v: "format_version m = 2" and d: "manifest_decode b = Ok m" by auto
  have len: "length b = 224" using manifest_decode_head(3) [OF d] v by auto
  have "b = slice b 0 80 @ slice b 80 160 @ slice b 160 224"
    using len by (simp add: slice_join slice_full [of b, unfolded len])
  also have "\<dots> = manifest_encode m"
    using manifest_decode_head [OF d] manifest_decode_tail [OF d v] v
    by (simp add: manifest_encode_current)
  finally show "b = manifest_encode m \<and> valid_manifest m"
    using manifest_decode_tail [OF d v] by simp
next
  assume "b = manifest_encode m \<and> valid_manifest m"
  then show "manifest_decode b = Ok m \<and> format_version m = MANIFEST_FORMAT_VERSION"
    by (simp add: manifest_decode_encode valid_manifest_def)
qed

text \<open>C17: the bytes whose signature is checked are the bytes that were parsed: for an accepted
  manifest of either format, the signed span rebuilt by \<^verbatim>\<open>signing_bytes\<close> is the prefix of the
  input, so no field of the decoded manifest other than the signature is outside the span.\<close>

theorem manifest_signed_span:
  assumes "manifest_decode b = Ok m"
  shows "take (signing_len m) (signing_bytes m) = take (signing_len m) b"
proof -
  have wf: "wf_manifest m" by (rule manifest_decode_head(1) [OF assms])
  from manifest_decode_head(3) [OF assms] show ?thesis
  proof (elim disjE conjE)
    assume v: "format_version m = 1"
    with manifest_decode_head(2) [OF assms] wf show ?thesis
      by (simp add: signing_len_def signing_bytes_legacy length_manifest_head slice_def)
  next
    assume v: "format_version m = 2" and len: "length b = 224"
    have "take 160 b = slice b 0 80 @ slice b 80 160"
      by (simp add: slice_join) (simp add: slice_def)
    with manifest_decode_head(2) [OF assms] manifest_decode_tail [OF assms v] wf v show ?thesis
      by (simp add: signing_len_def signing_bytes_current length_manifest_head wf_manifest_def)
  qed
qed

text \<open>\<^verbatim>\<open>encode\<close> is not the inverse of \<^verbatim>\<open>decode\<close> on legacy manifests: encoding an accepted
  legacy manifest gives a 224-byte string that \<^verbatim>\<open>decode\<close> refuses.\<close>

theorem legacy_manifest_reencode_refused:
  assumes "manifest_decode b = Ok m" and "format_version m = LEGACY_MANIFEST_FORMAT_VERSION"
  shows "manifest_decode (manifest_encode m) = Err ManifestError.InvalidHeaderSize"
proof -
  have wf: "wf_manifest m" by (rule manifest_decode_head(1) [OF assms(1)])
  have f: "release_version m \<noteq> 0" "kernel_size m \<noteq> 0" "key_id m \<noteq> replicate 16 0"
    using assms by (auto simp: manifest_decode_def Let_def split: if_splits)
  have e: "manifest_encode m = manifest_head 1 160 m @ replicate 80 0 @ signature m"
    using wf assms(2)
    by (simp add: manifest_encode_def signing_bytes_legacy length_manifest_head wf_manifest_def
        buf_simps Let_def)
  show ?thesis
    unfolding e using wf f
    by (simp add: manifest_decode_def manifest_head_parts length_manifest_head Let_def)
       (auto simp: wf_manifest_def)
qed

section \<open>Concrete records\<close>

definition sample_boot_state :: BootState where
  "sample_boot_state = \<lparr>generation = 42, active_slot = B, active_release_version = 9\<rparr>"

definition sample_trust_root :: TrustRootState where
  "sample_trust_root = \<lparr>activation_release_version = 12, public_key = replicate 32 0x7b,
    trust_key_id = replicate 16 0xb7\<rparr>"

definition sample_manifest :: UpdateManifest where
  "sample_manifest =
    (manifest_unsigned 7 123456 (replicate 32 0x5a) (replicate 16 0xa5))\<lparr>signature := replicate 64 0x3c\<rparr>"

definition sample_legacy :: bytes where
  "sample_legacy = MANIFEST_MAGIC @ to_le 4 (1 :: u32) @ to_le 4 (160 :: u32) @ to_le 8 (3 :: u64) @
    to_le 8 (4096 :: u64) @ replicate 32 0x21 @ replicate 16 0x43 @ replicate 64 0x65 @ replicate 16 0"

theorem boot_state_single_byte_corruption_witness:
  "BootState_decode (BootState_encode sample_boot_state) = Ok sample_boot_state \<and>
    (\<exists>e. BootState_decode ((BootState_encode sample_boot_state)[24 := 0]) = Err e)"
proof -
  have d: "BootState_decode (BootState_encode sample_boot_state) = Ok sample_boot_state"
    by (simp add: BootState_decode_Ok BootState_encode_layout sample_boot_state_def)
  have "24 < length (BootState_encode sample_boot_state)"
      "0 \<noteq> BootState_encode sample_boot_state ! 24"
    by (simp_all add: BootState_encode_layout boot_layout_fields sample_boot_state_def)
  from d boot_state_single_byte_corruption [OF d this] show ?thesis by simp
qed

theorem trust_root_single_byte_corruption_witness:
  "TrustRootState_decode (TrustRootState_encode sample_trust_root) = Ok sample_trust_root \<and>
    (\<exists>e. TrustRootState_decode ((TrustRootState_encode sample_trust_root)[24 := 0x7a]) = Err e)"
proof -
  have wf: "wf_trust_root sample_trust_root"
    by (simp add: sample_trust_root_def wf_trust_root_def)
  have d: "TrustRootState_decode (TrustRootState_encode sample_trust_root) = Ok sample_trust_root"
    using wf by (simp add: TrustRootState_decode_Ok TrustRootState_encode_layout) (code_simp)
  have "24 < length (TrustRootState_encode sample_trust_root)"
      "0x7a \<noteq> TrustRootState_encode sample_trust_root ! 24"
    using wf by (simp_all add: TrustRootState_encode_layout trust_layout_fields)
      (simp add: trust_layout_def nth_append sample_trust_root_def)
  from d trust_root_single_byte_corruption [OF d this] show ?thesis by simp
qed

theorem manifest_signed_span_witness:
  "manifest_decode (manifest_encode sample_manifest) = Ok sample_manifest \<and>
    take (signing_len sample_manifest) (signing_bytes sample_manifest) =
    take (signing_len sample_manifest) (manifest_encode sample_manifest)"
proof -
  have "valid_manifest sample_manifest" by code_simp
  then have d: "manifest_decode (manifest_encode sample_manifest) = Ok sample_manifest"
    by (rule manifest_decode_encode)
  from d manifest_signed_span [OF d] show ?thesis by simp
qed

theorem legacy_manifest_reencode_refused_witness:
  "\<exists>m. manifest_decode sample_legacy = Ok m \<and> format_version m = 1 \<and>
    manifest_decode (manifest_encode m) = Err ManifestError.InvalidHeaderSize"
proof -
  let ?m = "\<lparr>format_version = 1, release_version = 3, kernel_size = 4096,
    kernel_sha256 = replicate 32 0x21, key_id = replicate 16 0x43,
    next_trust_public_key = replicate 32 0, next_trust_key_id = replicate 16 0,
    signature = replicate 64 0x65\<rparr>"
  have d: "manifest_decode sample_legacy = Ok ?m" by code_simp
  with legacy_manifest_reencode_refused [OF d] show ?thesis by auto
qed

end
