(* ===== verification/HeapAllocator.thy ===== *)
theory HeapAllocator
  imports Prelude
begin

text \<open>
  \<^verbatim>\<open>libs/heap-allocator/src/lib.rs\<close>: the reclaiming first-fit heap and its expandable variant.

  The managed region is raw memory, read and written only through the 16-byte \<^verbatim>\<open>FreeBlock\<close> and
  the 32-byte \<^verbatim>\<open>AllocationHeader\<close>, both made of 8-byte fields at 8-byte aligned offsets. The
  model keeps that memory as a function from byte offsets (relative to the region base) to the
  8-byte cells stored there; the free list is the linked list through those cells, as in the
  code. A loop that follows the list may run forever on a damaged list, so the operations are
  option-valued: \<open>None\<close> is a loop that does not return. The spin lock around the state only
  serialises callers and is not modelled: an operation is one atomic step.

  The specification is a list of segments that tile the region, free or used. \<open>heap_inv\<close> relates
  the linked list and the headers in memory to it; allocation refines \<open>abs_alloc\<close> (first fit) and
  deallocation refines \<open>abs_free\<close> (free and merge with both neighbours).
\<close>

section \<open>Data\<close>

definition FREE_LIST_END :: nat where
  "FREE_LIST_END = U64_MAX"

definition ALLOCATION_MAGIC :: nat where
  "ALLOCATION_MAGIC = 0x4344584845415031"

type_synonym heap_mem = "nat \<Rightarrow> nat"

record HeapStats =
  capacity_bytes :: nat
  stat_used_bytes :: nat
  stat_peak_used_bytes :: nat
  free_bytes :: nat
  largest_free_block :: nat
  stat_live_allocations :: nat
  stat_total_allocations :: nat
  stat_total_deallocations :: nat
  stat_failed_allocations :: nat

record FreeBlock =
  fb_size :: nat
  fb_next :: nat

definition SIZE_OF_FREE_BLOCK :: nat where
  [simp]: "SIZE_OF_FREE_BLOCK = 16"

definition ALIGN_OF_FREE_BLOCK :: nat where
  [simp]: "ALIGN_OF_FREE_BLOCK = 8"

record AllocationHeader =
  magic :: nat
  block_start :: nat
  block_size :: nat
  requested_size :: nat

definition SIZE_OF_HEADER :: nat where
  [simp]: "SIZE_OF_HEADER = 32"

definition ALIGN_OF_HEADER :: nat where
  [simp]: "ALIGN_OF_HEADER = 8"

record AllocatorState =
  initialized :: bool
  free_head :: nat
  used_bytes :: nat
  peak_used_bytes :: nat
  live_allocations :: nat
  total_allocations :: nat
  total_deallocations :: nat
  failed_allocations :: nat

definition AllocatorState_new :: AllocatorState where
  "AllocatorState_new = \<lparr>initialized = False, free_head = FREE_LIST_END, used_bytes = 0,
    peak_used_bytes = 0, live_allocations = 0, total_allocations = 0, total_deallocations = 0,
    failed_allocations = 0\<rparr>"

text \<open>\<^verbatim>\<open>core::alloc::Layout\<close>: a size and a power-of-two alignment.\<close>

record Layout =
  layout_size :: nat
  layout_align :: nat

definition align_up :: "nat \<Rightarrow> nat \<Rightarrow> nat option" where
  "align_up value alignment =
    map_option (\<lambda>aligned. mask_down aligned alignment) (checked_add value (alignment - 1))"

definition read_free_block :: "heap_mem \<Rightarrow> nat \<Rightarrow> FreeBlock" where
  "read_free_block mem offset = \<lparr>fb_size = mem offset, fb_next = mem (offset + 8)\<rparr>"

definition write_free_block :: "heap_mem \<Rightarrow> nat \<Rightarrow> FreeBlock \<Rightarrow> heap_mem" where
  "write_free_block mem offset block =
    mem(offset := fb_size block, offset + 8 := fb_next block)"

definition write_next :: "heap_mem \<Rightarrow> nat \<Rightarrow> nat \<Rightarrow> heap_mem" where
  "write_next mem offset next_block = mem(offset + 8 := next_block)"

definition read_header :: "heap_mem \<Rightarrow> nat \<Rightarrow> AllocationHeader" where
  "read_header mem offset = \<lparr>magic = mem offset, block_start = mem (offset + 8),
    block_size = mem (offset + 16), requested_size = mem (offset + 24)\<rparr>"

definition write_header :: "heap_mem \<Rightarrow> nat \<Rightarrow> AllocationHeader \<Rightarrow> heap_mem" where
  "write_header mem offset h = mem(offset := magic h, offset + 8 := block_start h,
    offset + 16 := block_size h, offset + 24 := requested_size h)"

section \<open>Operations on one region\<close>

definition initialize :: "AllocatorState \<Rightarrow> heap_mem \<Rightarrow> nat \<Rightarrow> AllocatorState \<times> heap_mem" where
  "initialize state mem capacity =
    (if initialized state then (state, mem)
     else (state\<lparr>free_head := 0, initialized := True\<rparr>,
           write_free_block mem 0 \<lparr>fb_size = capacity, fb_next = FREE_LIST_END\<rparr>))"

text \<open>The loop of \<^verbatim>\<open>region_stats\<close> and \<^verbatim>\<open>stats\<close>: sum and maximum of the free block sizes.\<close>

partial_function (option) free_walk ::
    "heap_mem \<Rightarrow> nat \<Rightarrow> nat \<Rightarrow> nat \<Rightarrow> (nat \<times> nat) option" where
  "free_walk mem current free_total largest =
    (if current = FREE_LIST_END then Some (free_total, largest)
     else let block = read_free_block mem current in
       free_walk mem (fb_next block) (saturating_add free_total (fb_size block))
         (max largest (fb_size block)))"

definition region_stats :: "AllocatorState \<Rightarrow> heap_mem \<Rightarrow> nat \<Rightarrow> HeapStats option" where
  "region_stats state mem capacity =
    map_option (\<lambda>(free_total, largest).
      \<lparr>capacity_bytes = capacity, stat_used_bytes = used_bytes state,
       stat_peak_used_bytes = peak_used_bytes state, free_bytes = free_total,
       largest_free_block = largest, stat_live_allocations = live_allocations state,
       stat_total_allocations = total_allocations state,
       stat_total_deallocations = total_deallocations state,
       stat_failed_allocations = failed_allocations state\<rparr>)
      (free_walk mem (free_head state) 0 0)"

text \<open>The body of the search loop once a block fits: carve the block, relink, write the header.\<close>

definition carve_block :: "AllocatorState \<Rightarrow> heap_mem \<Rightarrow> nat \<Rightarrow> nat \<Rightarrow> nat \<Rightarrow> FreeBlock \<Rightarrow> nat \<Rightarrow> nat \<Rightarrow> nat \<Rightarrow>
    nat option \<times> AllocatorState \<times> heap_mem" where
  "carve_block state mem req previous current block block_end user_start allocation_end =
    (case align_up allocation_end ALIGN_OF_FREE_BLOCK of
       None \<Rightarrow> (None, state, mem)
     | Some aligned_suffix_start \<Rightarrow>
       (let (allocated_end, replacement, mem) =
              (if aligned_suffix_start \<le> block_end
                  \<and> block_end - aligned_suffix_start \<ge> SIZE_OF_FREE_BLOCK
               then (aligned_suffix_start, aligned_suffix_start,
                     write_free_block mem aligned_suffix_start
                       \<lparr>fb_size = block_end - aligned_suffix_start, fb_next = fb_next block\<rparr>)
               else (block_end, fb_next block, mem));
            (state, mem) =
              (if previous = FREE_LIST_END then (state\<lparr>free_head := replacement\<rparr>, mem)
               else (state, write_next mem previous replacement));
            bsize = allocated_end - current;
            mem = write_header mem (user_start - SIZE_OF_HEADER)
              \<lparr>magic = ALLOCATION_MAGIC, block_start = current, block_size = bsize,
               requested_size = req\<rparr>;
            state = state\<lparr>used_bytes := saturating_add (used_bytes state) bsize\<rparr>;
            state = state\<lparr>peak_used_bytes := max (peak_used_bytes state) (used_bytes state)\<rparr>;
            state = state\<lparr>live_allocations := saturating_add (live_allocations state) 1\<rparr>;
            state = state\<lparr>total_allocations := saturating_add (total_allocations state) 1\<rparr>
        in (Some user_start, state, mem)))"

partial_function (option) allocate_loop ::
    "AllocatorState \<Rightarrow> heap_mem \<Rightarrow> nat \<Rightarrow> nat \<Rightarrow> nat \<Rightarrow> nat \<Rightarrow>
     (nat option \<times> AllocatorState \<times> heap_mem) option" where
  "allocate_loop state mem req alignment previous current =
    (if current = FREE_LIST_END then Some (None, state, mem)
     else let block = read_free_block mem current in
       (case checked_add current (fb_size block) of
          None \<Rightarrow> Some (None, state, mem)
        | Some block_end \<Rightarrow>
          (case Option.bind (checked_add current SIZE_OF_HEADER) (\<lambda>v. align_up v alignment) of
             None \<Rightarrow> Some (None, state, mem)
           | Some user_start \<Rightarrow>
             (case checked_add user_start req of
                None \<Rightarrow> allocate_loop state mem req alignment current (fb_next block)
              | Some allocation_end \<Rightarrow>
                if allocation_end \<le> block_end
                then Some (carve_block state mem req previous current block block_end user_start
                             allocation_end)
                else allocate_loop state mem req alignment current (fb_next block)))))"

text \<open>The pointer is the region base plus the returned offset.\<close>

definition allocate_from_free_list ::
    "AllocatorState \<Rightarrow> heap_mem \<Rightarrow> Layout \<Rightarrow> (nat option \<times> AllocatorState \<times> heap_mem) option" where
  "allocate_from_free_list state mem layout =
    allocate_loop state mem (max (layout_size layout) 1) (max (layout_align layout) ALIGN_OF_HEADER)
      FREE_LIST_END (free_head state)"

partial_function (option) insert_search :: "heap_mem \<Rightarrow> nat \<Rightarrow> nat \<Rightarrow> nat \<Rightarrow> (nat \<times> nat) option" where
  "insert_search mem start previous current =
    (if current \<noteq> FREE_LIST_END \<and> current < start
     then insert_search mem start current (fb_next (read_free_block mem current))
     else Some (previous, current))"

definition insert_free_block ::
    "AllocatorState \<Rightarrow> heap_mem \<Rightarrow> nat \<Rightarrow> nat \<Rightarrow> (AllocatorState \<times> heap_mem) option" where
  "insert_free_block state mem start bsize =
    map_option (\<lambda>(previous, current).
      let mem = write_free_block mem start \<lparr>fb_size = bsize, fb_next = current\<rparr>;
          (state, mem) =
            (if previous = FREE_LIST_END then (state\<lparr>free_head := start\<rparr>, mem)
             else (state, write_next mem previous start));
          mem =
            (if current \<noteq> FREE_LIST_END \<and> saturating_add start bsize = current
             then let nxt = read_free_block mem current in
               write_free_block mem start
                 \<lparr>fb_size = saturating_add bsize (fb_size nxt), fb_next = fb_next nxt\<rparr>
             else mem);
          mem =
            (if previous \<noteq> FREE_LIST_END then
               let previous_block = read_free_block mem previous in
               if saturating_add previous (fb_size previous_block) = start then
                 let inserted = read_free_block mem start in
                 write_free_block mem previous
                   \<lparr>fb_size = saturating_add (fb_size previous_block) (fb_size inserted),
                    fb_next = fb_next inserted\<rparr>
               else mem
             else mem)
      in (state, mem))
    (insert_search mem start FREE_LIST_END (free_head state))"

text \<open>\<open>base\<close> and \<open>pointer\<close> are absolute addresses; cells are indexed by the offset from \<open>base\<close>.\<close>

definition deallocate_into_region ::
    "AllocatorState \<Rightarrow> heap_mem \<Rightarrow> nat \<Rightarrow> nat \<Rightarrow> nat \<Rightarrow> (AllocatorState \<times> heap_mem) option" where
  "deallocate_into_region state mem base capacity pointer =
    (if \<not> initialized state then Some (state, mem)
     else case checked_add base capacity of
       None \<Rightarrow> Some (state, mem)
     | Some heap_end \<Rightarrow>
       if pointer < saturating_add base SIZE_OF_HEADER \<or> heap_end < pointer then Some (state, mem)
       else let header_offset = pointer - SIZE_OF_HEADER - base;
                header = read_header mem header_offset;
                valid_end = checked_add (block_start header) (block_size header)
         in if magic header \<noteq> ALLOCATION_MAGIC \<or> capacity \<le> block_start header
               \<or> block_size header = 0
               \<or> (case valid_end of None \<Rightarrow> True | Some e \<Rightarrow> capacity < e)
            then Some (state, mem)
            else let mem = write_header mem header_offset
                       \<lparr>magic = 0, block_start = 0, block_size = 0, requested_size = 0\<rparr>
              in map_option (\<lambda>(state, mem).
                   (state\<lparr>used_bytes := saturating_sub (used_bytes state) (block_size header),
                          live_allocations := saturating_sub (live_allocations state) 1,
                          total_deallocations := saturating_add (total_deallocations state) 1\<rparr>, mem))
                 (insert_free_block state mem (block_start header) (block_size header)))"

section \<open>The two heaps\<close>

record ReclaimingHeap =
  rh_capacity :: nat
  rh_base :: nat
  rh_mem :: heap_mem
  rh_state :: AllocatorState

definition ReclaimingHeap_alloc :: "ReclaimingHeap \<Rightarrow> Layout \<Rightarrow> (nat \<times> ReclaimingHeap) option" where
  "ReclaimingHeap_alloc self layout =
    (let (state, mem) = initialize (rh_state self) (rh_mem self) (rh_capacity self) in
     map_option (\<lambda>(result, state, mem).
       case result of
         Some offset \<Rightarrow> (rh_base self + offset, self\<lparr>rh_state := state, rh_mem := mem\<rparr>)
       | None \<Rightarrow> (0, self\<lparr>rh_state := state\<lparr>failed_allocations :=
                             saturating_add (failed_allocations state) 1\<rparr>, rh_mem := mem\<rparr>))
     (allocate_from_free_list state mem layout))"

definition ReclaimingHeap_dealloc :: "ReclaimingHeap \<Rightarrow> nat \<Rightarrow> ReclaimingHeap option" where
  "ReclaimingHeap_dealloc self pointer =
    (if pointer = 0 then Some self
     else map_option (\<lambda>(state, mem). self\<lparr>rh_state := state, rh_mem := mem\<rparr>)
       (deallocate_into_region (rh_state self) (rh_mem self) (rh_base self) (rh_capacity self) pointer))"

definition ReclaimingHeap_stats :: "ReclaimingHeap \<Rightarrow> (HeapStats \<times> ReclaimingHeap) option" where
  "ReclaimingHeap_stats self =
    (let (state, mem) = initialize (rh_state self) (rh_mem self) (rh_capacity self) in
     map_option (\<lambda>stats. (stats, self\<lparr>rh_state := state, rh_mem := mem\<rparr>))
       (region_stats state mem (rh_capacity self)))"

datatype HeapInitError =
    AlreadyInitialized
  | InvalidAddress
  | InvalidCapacity
  | OverlapsBootstrap

record ExpandableHeap =
  bootstrap :: ReclaimingHeap
  external_base :: nat
  external_capacity :: nat
  external_mem :: heap_mem
  external_state :: AllocatorState

definition initialize_external ::
    "ExpandableHeap \<Rightarrow> nat \<Rightarrow> nat \<Rightarrow> (HeapInitError + unit) \<times> ExpandableHeap" where
  "initialize_external self address capacity =
    (if address = 0 \<or> \<not> is_multiple_of address ALIGN_OF_FREE_BLOCK
     then (Err InvalidAddress, self)
     else if capacity < SIZE_OF_FREE_BLOCK \<or> \<not> is_multiple_of capacity ALIGN_OF_FREE_BLOCK
       \<or> checked_add address capacity = None
     then (Err InvalidCapacity, self)
     else let bootstrap_start = rh_base (bootstrap self);
              bootstrap_end = saturating_add bootstrap_start (rh_capacity (bootstrap self));
              external_end = saturating_add address capacity
       in if address < bootstrap_end \<and> bootstrap_start < external_end
          then (Err OverlapsBootstrap, self)
          else if external_base self \<noteq> 0 then (Err AlreadyInitialized, self)
          else let (state, mem) = initialize (external_state self) (external_mem self) capacity
            in (Ok (), self\<lparr>external_state := state, external_mem := mem,
                            external_capacity := capacity, external_base := address\<rparr>))"

definition using_external :: "ExpandableHeap \<Rightarrow> bool" where
  "using_external self \<longleftrightarrow> external_base self \<noteq> 0"

definition ExpandableHeap_alloc :: "ExpandableHeap \<Rightarrow> Layout \<Rightarrow> (nat \<times> ExpandableHeap) option" where
  "ExpandableHeap_alloc self layout =
    (let from_bootstrap = (\<lambda>self.
           map_option (\<lambda>(pointer, heap). (pointer, self\<lparr>bootstrap := heap\<rparr>))
             (ReclaimingHeap_alloc (bootstrap self) layout))
     in if external_base self \<noteq> 0 then
          Option.bind (allocate_from_free_list (external_state self) (external_mem self) layout)
            (\<lambda>(result, state, mem).
              case result of
                Some offset \<Rightarrow> Some (external_base self + offset,
                  self\<lparr>external_state := state, external_mem := mem\<rparr>)
              | None \<Rightarrow> from_bootstrap (self\<lparr>external_state := state\<lparr>failed_allocations :=
                  saturating_add (failed_allocations state) 1\<rparr>, external_mem := mem\<rparr>))
        else from_bootstrap self)"

definition ExpandableHeap_dealloc :: "ExpandableHeap \<Rightarrow> nat \<Rightarrow> ExpandableHeap option" where
  "ExpandableHeap_dealloc self pointer =
    (if pointer = 0 then Some self
     else let base = external_base self; capacity = external_capacity self in
       if base \<noteq> 0 \<and> base \<le> pointer \<and> pointer < saturating_add base capacity
       then map_option (\<lambda>(state, mem). self\<lparr>external_state := state, external_mem := mem\<rparr>)
         (deallocate_into_region (external_state self) (external_mem self) base capacity pointer)
       else map_option (\<lambda>heap. self\<lparr>bootstrap := heap\<rparr>)
         (ReclaimingHeap_dealloc (bootstrap self) pointer))"

definition ExpandableHeap_stats :: "ExpandableHeap \<Rightarrow> (HeapStats \<times> ExpandableHeap) option" where
  "ExpandableHeap_stats self =
    Option.bind (ReclaimingHeap_stats (bootstrap self)) (\<lambda>(bstats, heap).
      let self = self\<lparr>bootstrap := heap\<rparr> in
      if external_base self = 0 then Some (bstats, self)
      else map_option (\<lambda>ext.
        (\<lparr>capacity_bytes = saturating_add (capacity_bytes bstats) (capacity_bytes ext),
          stat_used_bytes = saturating_add (stat_used_bytes bstats) (stat_used_bytes ext),
          stat_peak_used_bytes = saturating_add (stat_peak_used_bytes bstats) (stat_peak_used_bytes ext),
          free_bytes = saturating_add (free_bytes bstats) (free_bytes ext),
          largest_free_block = max (largest_free_block bstats) (largest_free_block ext),
          stat_live_allocations = saturating_add (stat_live_allocations bstats) (stat_live_allocations ext),
          stat_total_allocations = saturating_add (stat_total_allocations bstats) (stat_total_allocations ext),
          stat_total_deallocations = saturating_add (stat_total_deallocations bstats) (stat_total_deallocations ext),
          stat_failed_allocations = saturating_add (stat_failed_allocations bstats) (stat_failed_allocations ext)\<rparr>,
         self))
        (region_stats (external_state self) (external_mem self) (external_capacity self)))"

section \<open>Specification: a tiling of the region by segments\<close>

text \<open>\<open>Used n u r\<close>: a block of \<open>n\<close> bytes whose payload of \<open>r\<close> bytes starts \<open>u\<close> bytes into it.\<close>

datatype seg = Free nat | Used nat nat nat

fun seg_size :: "seg \<Rightarrow> nat" where
  "seg_size (Free n) = n"
| "seg_size (Used n u r) = n"

fun is_free :: "seg \<Rightarrow> bool" where
  "is_free (Free n) = True"
| "is_free (Used n u r) = False"

abbreviation total_size :: "seg list \<Rightarrow> nat" where
  "total_size segs \<equiv> sum_list (map seg_size segs)"

fun wf_seg :: "seg \<Rightarrow> bool" where
  "wf_seg (Free n) \<longleftrightarrow> 16 \<le> n \<and> 8 dvd n"
| "wf_seg (Used n u r) \<longleftrightarrow> 8 dvd n \<and> 8 dvd u \<and> 32 \<le> u \<and> 1 \<le> r \<and> u + r \<le> n"

fun no_adjacent_free :: "seg list \<Rightarrow> bool" where
  "no_adjacent_free (s # t # rest) \<longleftrightarrow> \<not> (is_free s \<and> is_free t) \<and> no_adjacent_free (t # rest)"
| "no_adjacent_free _ \<longleftrightarrow> True"

fun free_list :: "nat \<Rightarrow> seg list \<Rightarrow> (nat \<times> nat) list" where
  "free_list pos [] = []"
| "free_list pos (Free n # rest) = (pos, n) # free_list (pos + n) rest"
| "free_list pos (Used n u r # rest) = free_list (pos + n) rest"

text \<open>The live allocations: payload offset and requested size.\<close>

fun live_list :: "nat \<Rightarrow> seg list \<Rightarrow> (nat \<times> nat) list" where
  "live_list pos [] = []"
| "live_list pos (Free n # rest) = live_list (pos + n) rest"
| "live_list pos (Used n u r # rest) = (pos + u, r) # live_list (pos + n) rest"

fun used_total :: "seg list \<Rightarrow> nat" where
  "used_total [] = 0"
| "used_total (Free n # rest) = used_total rest"
| "used_total (Used n u r # rest) = n + used_total rest"

text \<open>The linked list from \<open>h\<close> visits exactly the given blocks and ends in \<open>t\<close>.\<close>

fun chain :: "heap_mem \<Rightarrow> nat \<Rightarrow> (nat \<times> nat) list \<Rightarrow> nat \<Rightarrow> bool" where
  "chain mem h [] t \<longleftrightarrow> h = t"
| "chain mem h ((start, n) # rest) t \<longleftrightarrow> h = start \<and> mem start = n \<and> chain mem (mem (start + 8)) rest t"

definition header_at :: "heap_mem \<Rightarrow> nat \<Rightarrow> nat \<Rightarrow> nat \<Rightarrow> nat \<Rightarrow> bool" where
  "header_at mem pos n u r \<longleftrightarrow> mem (pos + u - 32) = ALLOCATION_MAGIC \<and> mem (pos + u - 24) = pos
    \<and> mem (pos + u - 16) = n \<and> mem (pos + u - 8) = r"

fun headers :: "heap_mem \<Rightarrow> nat \<Rightarrow> seg list \<Rightarrow> bool" where
  "headers mem pos [] \<longleftrightarrow> True"
| "headers mem pos (Free n # rest) \<longleftrightarrow> headers mem (pos + n) rest"
| "headers mem pos (Used n u r # rest) \<longleftrightarrow> header_at mem pos n u r \<and> headers mem (pos + n) rest"

definition tiling :: "nat \<Rightarrow> seg list \<Rightarrow> bool" where
  "tiling cap segs \<longleftrightarrow> total_size segs = cap \<and> cap \<le> U64_MAX \<and> (\<forall>s\<in>set segs. wf_seg s)
    \<and> no_adjacent_free segs"

definition heap_inv :: "nat \<Rightarrow> AllocatorState \<Rightarrow> heap_mem \<Rightarrow> seg list \<Rightarrow> bool" where
  "heap_inv cap state mem segs \<longleftrightarrow> initialized state \<and> tiling cap segs
    \<and> chain mem (free_head state) (free_list 0 segs) FREE_LIST_END \<and> headers mem 0 segs
    \<and> used_bytes state = used_total segs \<and> live_allocations state = length (live_list 0 segs)
    \<and> used_bytes state \<le> peak_used_bytes state"

text \<open>First fit: the first free segment in address order that holds header, padding and payload.\<close>

fun abs_alloc :: "nat \<Rightarrow> nat \<Rightarrow> nat \<Rightarrow> seg list \<Rightarrow> (nat \<times> seg list) option" where
  "abs_alloc req alignment pos [] = None"
| "abs_alloc req alignment pos (Used n u r # rest) =
    map_option (\<lambda>(us, segs). (us, Used n u r # segs)) (abs_alloc req alignment (pos + n) rest)"
| "abs_alloc req alignment pos (Free n # rest) =
    (case align_up (pos + 32) alignment of
       None \<Rightarrow> None
     | Some us \<Rightarrow>
       if us + req \<le> pos + n then
         let suffix = (us + req + 7) div 8 * 8 in
         if suffix + 16 \<le> pos + n
         then Some (us, Used (suffix - pos) (us - pos) req # Free (pos + n - suffix) # rest)
         else Some (us, Used n (us - pos) req # rest)
       else map_option (\<lambda>(us, segs). (us, Free n # segs)) (abs_alloc req alignment (pos + n) rest))"

text \<open>Freeing the segment between \<open>pre\<close> and \<open>suf\<close>, of \<open>n\<close> bytes, merging free neighbours.\<close>

fun merge_right :: "nat \<Rightarrow> seg list \<Rightarrow> seg list" where
  "merge_right n (Free m # rest) = Free (n + m) # rest"
| "merge_right n suf = Free n # suf"

fun abs_free :: "seg list \<Rightarrow> nat \<Rightarrow> seg list \<Rightarrow> seg list" where
  "abs_free [] n suf = merge_right n suf"
| "abs_free [Free m] n suf =
    (case merge_right n suf of Free k # rest \<Rightarrow> Free (m + k) # rest | segs \<Rightarrow> Free m # segs)"
| "abs_free (s # pre) n suf = s # abs_free pre n suf"

section \<open>Segments, chains and headers\<close>

named_theorems heap_simps

definition last_start :: "(nat \<times> nat) list \<Rightarrow> nat" where
  "last_start fl = (if fl = [] then FREE_LIST_END else fst (last fl))"

definition spaced :: "(nat \<times> nat) list \<Rightarrow> bool" where
  "spaced fl \<longleftrightarrow> sorted_wrt (\<lambda>a b. fst a + 16 \<le> fst b) fl"

fun header_cells :: "nat \<Rightarrow> seg list \<Rightarrow> nat set" where
  "header_cells pos [] = {}"
| "header_cells pos (Free n # rest) = header_cells (pos + n) rest"
| "header_cells pos (Used n u r # rest) =
    {pos + u - 32, pos + u - 24, pos + u - 16, pos + u - 8} \<union> header_cells (pos + n) rest"

lemma free_list_append [heap_simps]:
  "free_list pos (xs @ ys) = free_list pos xs @ free_list (pos + total_size xs) ys"
  by (induction pos xs rule: free_list.induct) (auto simp: add.assoc)

lemma live_list_append [heap_simps]:
  "live_list pos (xs @ ys) = live_list pos xs @ live_list (pos + total_size xs) ys"
  by (induction pos xs rule: live_list.induct) (auto simp: add.assoc)

lemma headers_append [heap_simps]:
  "headers mem pos (xs @ ys) \<longleftrightarrow> headers mem pos xs \<and> headers mem (pos + total_size xs) ys"
  by (induction mem pos xs rule: headers.induct) (auto simp: add.assoc)

lemma used_total_append [heap_simps]: "used_total (xs @ ys) = used_total xs + used_total ys"
  by (induction xs rule: used_total.induct) auto

lemma no_adjacent_free_append:
  "no_adjacent_free (xs @ ys) \<longleftrightarrow> no_adjacent_free xs \<and> no_adjacent_free ys
    \<and> \<not> (xs \<noteq> [] \<and> ys \<noteq> [] \<and> is_free (last xs) \<and> is_free (hd ys))"
  by (induction xs rule: no_adjacent_free.induct; cases ys) auto

lemma no_adjacent_free_Cons:
  "no_adjacent_free (s # ys) \<longleftrightarrow> no_adjacent_free ys \<and> \<not> (ys \<noteq> [] \<and> is_free s \<and> is_free (hd ys))"
  by (cases ys) auto

lemma total_used_free: "used_total segs + sum_list (map snd (free_list pos segs)) = total_size segs"
  by (induction pos segs rule: free_list.induct) auto

lemma free_list_bounds:
  assumes "(a, n) \<in> set (free_list pos segs)" and "\<forall>s\<in>set segs. wf_seg s"
  shows "pos \<le> a" and "a + n \<le> pos + total_size segs" and "16 \<le> n"
  using assms by (induction pos segs rule: free_list.induct; fastforce)+

lemma free_list_spaced: "\<forall>s\<in>set segs. wf_seg s \<Longrightarrow> spaced (free_list pos segs)"
  by (induction pos segs rule: free_list.induct)
    (auto simp: spaced_def dest!: free_list_bounds(1))

lemma header_cells_bounds:
  assumes "a \<in> header_cells pos segs" and "\<forall>s\<in>set segs. wf_seg s"
  shows "pos \<le> a \<and> a + 8 \<le> pos + total_size segs"
  using assms by (induction pos segs rule: header_cells.induct; fastforce)

lemma free_cells_not_header:
  assumes "(a, n) \<in> set (free_list pos segs)" and "\<forall>s\<in>set segs. wf_seg s"
  shows "a \<notin> header_cells pos segs \<and> a + 8 \<notin> header_cells pos segs"
  using assms
proof (induction pos segs rule: free_list.induct)
  case (2 pos m rest)
  then show ?case
    using header_cells_bounds [of _ "pos + m" rest] by fastforce
next
  case (3 pos m u r rest)
  then show ?case
    using free_list_bounds(1) [of a n "pos + m" rest] by fastforce
qed simp

lemma headers_cong:
  "\<forall>a\<in>header_cells pos segs. mem' a = mem a \<Longrightarrow> headers mem' pos segs = headers mem pos segs"
  by (induction mem pos segs rule: headers.induct) (auto simp: header_at_def)

lemma chain_cong:
  "\<forall>(a, n)\<in>set fl. mem' a = mem a \<and> mem' (a + 8) = mem (a + 8) \<Longrightarrow> chain mem' h fl t = chain mem h fl t"
  by (induction mem h fl t rule: chain.induct) auto

lemma chain_append [heap_simps]:
  "chain mem h (xs @ ys) t \<longleftrightarrow> (\<exists>m. chain mem h xs m \<and> chain mem m ys t)"
  by (induction mem h xs t rule: chain.induct) auto

lemma chain_end_unique: "chain mem h fl t \<Longrightarrow> chain mem h fl t' \<Longrightarrow> t = t'"
  by (induction mem h fl t rule: chain.induct) auto

lemma chain_start:
  "chain mem h fl t \<Longrightarrow> h = (case fl of [] \<Rightarrow> t | (a, n) # _ \<Rightarrow> a)"
  by (cases fl) auto

lemma chain_relink:
  assumes "chain mem h fl t" and "fl \<noteq> []" and "spaced fl"
  shows "chain (write_next mem (last_start fl) t') h fl t'"
  using assms
proof (induction mem h fl t rule: chain.induct)
  case (2 mem h start n rest t)
  show ?case
  proof (cases "rest = []")
    case True
    then show ?thesis using 2 by (auto simp: write_next_def last_start_def)
  next
    case False
    then have "last rest \<in> set rest" by simp
    then have "start + 16 \<le> fst (last rest)"
      using 2(4) by (auto simp: spaced_def)
    then have neq: "start \<noteq> fst (last rest) + 8" "fst (last rest) \<noteq> start" by auto
    have "chain (write_next mem (last_start rest) t') (mem (start + 8)) rest t'"
      using 2 False by (simp add: spaced_def)
    then show ?thesis
      using 2(2) False neq by (simp add: write_next_def last_start_def fun_upd_def)
  qed
qed simp

lemma interval_cong:
  assumes "\<forall>s\<in>set segs. wf_seg s" and "\<And>a. pos \<le> a \<Longrightarrow> a < pos + total_size segs \<Longrightarrow> mem' a = mem a"
  shows "headers mem' pos segs = headers mem pos segs"
    and "chain mem' h (free_list pos segs) t = chain mem h (free_list pos segs) t"
proof -
  show "headers mem' pos segs = headers mem pos segs"
    using header_cells_bounds [OF _ assms(1)] assms(2) by (intro headers_cong) fastforce
  show "chain mem' h (free_list pos segs) t = chain mem h (free_list pos segs) t"
  proof (rule chain_cong, clarify)
    fix a n
    assume "(a, n) \<in> set (free_list pos segs)"
    from free_list_bounds [OF this assms(1)]
    show "mem' a = mem a \<and> mem' (a + 8) = mem (a + 8)"
      using assms(2) by simp
  qed
qed

text \<open>
  The list surgery of both operations: the memory from \<open>pos\<close> on has been rebuilt to hold the
  segments \<open>mid\<close> with their free blocks chained from \<open>repl\<close>; the last free block before \<open>pos\<close> (or
  the list head) is redirected to \<open>repl\<close>.
\<close>

definition relink :: "nat \<Rightarrow> heap_mem \<Rightarrow> nat \<Rightarrow> nat \<Rightarrow> nat \<times> heap_mem" where
  "relink h mem previous repl =
    (if previous = FREE_LIST_END then (repl, mem) else (h, write_next mem previous repl))"

lemma relink_splice:
  assumes pre: "\<forall>s\<in>set pre. wf_seg s" and mid: "\<forall>s\<in>set mid. wf_seg s"
    and chain_pre: "chain mem h (free_list 0 pre) cur" and headers_pre: "headers mem 0 pre"
    and below: "\<And>a. a < total_size pre \<Longrightarrow> mem' a = mem a"
    and chain_mid: "chain mem' repl (free_list (total_size pre) mid) FREE_LIST_END"
    and headers_mid: "headers mem' (total_size pre) mid"
    and small: "total_size pre \<le> U64_MAX"
    and new: "relink h mem' (last_start (free_list 0 pre)) repl = (h', mem'')"
  shows "chain mem'' h' (free_list 0 (pre @ mid)) FREE_LIST_END \<and> headers mem'' 0 (pre @ mid)"
proof (cases "free_list 0 pre = []")
  case True
  then have "h' = repl" and "mem'' = mem'"
    using new by (auto simp: relink_def last_start_def)
  moreover have "headers mem' 0 pre"
    using interval_cong(1) [OF pre, of 0 mem' mem] below headers_pre by simp
  ultimately show ?thesis
    using True chain_mid headers_mid by (simp add: heap_simps)
next
  case False
  define p where "p = last_start (free_list 0 pre)"
  have p_in: "(p, snd (last (free_list 0 pre))) \<in> set (free_list 0 pre)"
    using False last_in_set [OF False] by (simp add: p_def last_start_def)
  from free_list_bounds [OF p_in pre]
  have p_bound: "p + 16 \<le> total_size pre" by simp
  then have "p \<noteq> FREE_LIST_END" using small by (simp add: FREE_LIST_END_def)
  then have h': "h' = h" and mem'': "mem'' = write_next mem' p repl"
    using new by (auto simp: relink_def p_def)
  have "chain mem' h (free_list 0 pre) cur"
    using interval_cong(2) [OF pre, of 0 mem' mem] below chain_pre by simp
  then have "chain mem'' h' (free_list 0 pre) repl"
    using chain_relink False free_list_spaced [OF pre] by (simp add: h' mem'' p_def)
  moreover have "chain mem'' repl (free_list (total_size pre) mid) FREE_LIST_END"
    using interval_cong(2) [OF mid, of "total_size pre" mem'' mem'] chain_mid p_bound
    by (simp add: mem'' write_next_def)
  moreover have "headers mem'' (total_size pre) mid"
    using interval_cong(1) [OF mid, of "total_size pre" mem'' mem'] headers_mid p_bound
    by (simp add: mem'' write_next_def)
  moreover have "headers mem' 0 pre"
    using interval_cong(1) [OF pre, of 0 mem' mem] below headers_pre by simp
  then have "headers mem'' 0 pre"
    using headers_cong [of 0 pre mem'' mem'] free_cells_not_header [OF p_in pre]
    by (auto simp: mem'' write_next_def)
  ultimately show ?thesis by (auto simp: heap_simps)
qed

section \<open>Allocation\<close>

lemma align_up_pow2:
  assumes "k < 64"
  shows "align_up v (2 ^ k) =
    (if v + (2 ^ k - 1) \<le> U64_MAX then Some ((v + (2 ^ k - 1)) div 2 ^ k * 2 ^ k) else None)"
  using mask_down_pow2 [OF _ assms, of "v + (2 ^ k - 1)"]
  by (simp add: align_up_def checked_add_def)

lemma align_up_8: "v + 7 \<le> U64_MAX \<Longrightarrow> align_up v 8 = Some ((v + 7) div 8 * 8)"
  using align_up_pow2 [of 3 v] by simp

lemma align_up_Some:
  assumes "align_up v (2 ^ k) = Some a" and "k < 64"
  shows "v \<le> a" and "a < v + 2 ^ k" and "2 ^ k dvd a"
proof -
  have a: "a = (v + (2 ^ k - 1)) div 2 ^ k * 2 ^ k"
    using assms by (simp add: align_up_pow2 split: if_splits)
  have pos: "(0::nat) < 2 ^ k" by simp
  have "a + (v + (2 ^ k - 1)) mod 2 ^ k = v + (2 ^ k - 1)"
    unfolding a by (rule div_mult_mod_eq)
  moreover have "(v + (2 ^ k - 1)) mod 2 ^ k < 2 ^ k" by simp
  ultimately show "v \<le> a" and "a < v + 2 ^ k" using pos by linarith+
  show "2 ^ k dvd a" unfolding a by simp
qed

lemma round8: "v \<le> (v + 7) div 8 * 8" "(v + 7) div 8 * 8 < v + 8" "8 dvd (v + 7) div 8 * (8::nat)"
  by linarith+ simp

lemma tiling_bounds:
  assumes "tiling cap segs"
  shows "8 dvd cap" and "cap + 7 \<le> U64_MAX"
proof -
  have "wf_seg s \<Longrightarrow> 8 dvd seg_size s" for s
    by (cases s) auto
  then have "\<forall>s\<in>set segs. 8 dvd seg_size s"
    using assms by (auto simp: tiling_def)
  then have "8 dvd total_size segs"
    by (induction segs) auto
  then show "8 dvd cap" using assms by (simp add: tiling_def)
  then show "cap + 7 \<le> U64_MAX" using assms by (auto simp: tiling_def U64_MAX_numeral)
qed

lemma tiling_live_bound: "\<forall>s\<in>set segs. wf_seg s \<Longrightarrow> length (live_list pos segs) \<le> used_total segs"
  by (induction pos segs rule: live_list.induct) fastforce+

definition bump_alloc :: "AllocatorState \<Rightarrow> nat \<Rightarrow> nat \<Rightarrow> AllocatorState" where
  "bump_alloc state h bsize = state\<lparr>free_head := h,
    used_bytes := saturating_add (used_bytes state) bsize,
    peak_used_bytes := max (peak_used_bytes state) (saturating_add (used_bytes state) bsize),
    live_allocations := saturating_add (live_allocations state) 1,
    total_allocations := saturating_add (total_allocations state) 1\<rparr>"

lemma carve_block_eq:
  assumes "align_up aend 8 = Some sfx"
    and sel: "(repl, bsize, mem1) =
           (if sfx + 16 \<le> bend
            then (sfx, sfx - cur, write_free_block mem sfx \<lparr>fb_size = bend - sfx, fb_next = fb_next block\<rparr>)
            else (fb_next block, bend - cur, mem))"
    and "relink (free_head state) mem1 prev repl = (h, mem2)"
  shows "carve_block state mem req prev cur block bend us aend =
    (Some us, bump_alloc state h bsize, write_header mem2 (us - 32)
      \<lparr>magic = ALLOCATION_MAGIC, block_start = cur, block_size = bsize, requested_size = req\<rparr>)"
proof -
  have "sfx \<le> bend \<and> 16 \<le> bend - sfx \<longleftrightarrow> sfx + 16 \<le> bend" by auto
  then show ?thesis
    using assms by (cases "sfx + 16 \<le> bend"; cases "prev = FREE_LIST_END")
      (auto simp: carve_block_def relink_def bump_alloc_def Let_def)
qed

lemma write_header_relink:
  assumes "prev = FREE_LIST_END \<or> prev + 8 < off"
  shows "relink h (write_header mem off hdr) prev repl =
    (fst (relink h mem prev repl), write_header (snd (relink h mem prev repl)) off hdr)"
  using assms by (auto simp: relink_def write_next_def write_header_def fun_eq_iff)

lemma last_start_bound:
  assumes "\<forall>s\<in>set pre. wf_seg s"
  shows "last_start (free_list 0 pre) = FREE_LIST_END \<or> last_start (free_list 0 pre) + 16 \<le> total_size pre"
proof (cases "free_list 0 pre = []")
  case False
  then have "(last_start (free_list 0 pre), snd (last (free_list 0 pre))) \<in> set (free_list 0 pre)"
    using last_in_set [OF False] by (simp add: last_start_def)
  from free_list_bounds [OF this assms] show ?thesis by simp
qed (simp add: last_start_def)

lemma write_header_outside: "a < off \<or> off + 24 < a \<Longrightarrow> write_header mem off hdr a = mem a"
  by (auto simp: write_header_def)

lemma write_free_block_outside: "a < off \<or> off + 8 < a \<Longrightarrow> write_free_block mem off b a = mem a"
  by (auto simp: write_free_block_def)

lemma header_at_write_header:
  assumes "32 \<le> pos + u"
  shows "header_at (write_header mem (pos + u - 32) \<lparr>magic = ALLOCATION_MAGIC, block_start = pos,
    block_size = n, requested_size = r\<rparr>) pos n u r"
proof -
  obtain v where "pos + u = v + 32" using assms by (metis le_add_diff_inverse2)
  then show ?thesis by (simp add: header_at_def write_header_def)
qed

text \<open>The segments that replace \<open>Free n\<close> at \<open>pos\<close> when the payload starts at \<open>us\<close>.\<close>

definition carved :: "nat \<Rightarrow> nat \<Rightarrow> nat \<Rightarrow> nat \<Rightarrow> seg list" where
  "carved req pos n us =
    (let sfx = (us + req + 7) div 8 * 8 in
     if sfx + 16 \<le> pos + n then [Used (sfx - pos) (us - pos) req, Free (pos + n - sfx)]
     else [Used n (us - pos) req])"

lemma carved_props:
  assumes "wf_seg (Free n)" and "8 dvd pos" and "8 dvd us" and "pos + 32 \<le> us" and "1 \<le> req"
    and "us + req \<le> pos + n"
  shows "\<forall>s\<in>set (carved req pos n us). wf_seg s" and "total_size (carved req pos n us) = n"
    and "live_list pos (carved req pos n us) = [(us, req)]"
    and "carved req pos n us \<noteq> [] \<and> \<not> is_free (hd (carved req pos n us))"
    and "no_adjacent_free (carved req pos n us)"
proof -
  define sfx where "sfx = (us + req + 7) div 8 * 8"
  have sfx: "us + req \<le> sfx" "8 dvd sfx"
    using round8 [of "us + req"] by (auto simp: sfx_def)
  have "8 dvd sfx - pos" "8 dvd us - pos" "8 dvd pos + n - sfx"
    using assms sfx by (auto intro!: dvd_diff_nat)
  then show "\<forall>s\<in>set (carved req pos n us). wf_seg s" and "total_size (carved req pos n us) = n"
    and "live_list pos (carved req pos n us) = [(us, req)]"
    and "carved req pos n us \<noteq> [] \<and> \<not> is_free (hd (carved req pos n us))"
    and "no_adjacent_free (carved req pos n us)"
    using assms sfx by (auto simp: carved_def Let_def simp flip: sfx_def)
qed

lemma tiling_replace_free:
  assumes "tiling cap (pre @ Free n # rest)"
    and "\<forall>s\<in>set mid. wf_seg s" and "total_size mid = n" and "mid \<noteq> [] \<and> \<not> is_free (hd mid)"
    and "no_adjacent_free mid"
  shows "tiling cap (pre @ mid @ rest)"
proof -
  have "rest \<noteq> [] \<longrightarrow> \<not> is_free (hd rest)"
    using assms(1) by (cases rest) (auto simp: tiling_def no_adjacent_free_append)
  moreover have "no_adjacent_free rest"
    using assms(1) by (auto simp: tiling_def no_adjacent_free_append no_adjacent_free_Cons)
  ultimately show ?thesis
    using assms by (auto simp: tiling_def no_adjacent_free_append)
qed

text \<open>Memory and accounting after carving \<open>Free n\<close> at the end of \<open>pre\<close>.\<close>

lemma carve_memory:
  assumes inv: "heap_inv cap state mem (pre @ Free n # rest)" and pos: "pos = total_size pre"
    and us: "8 dvd us" "pos + 32 \<le> us" and req: "1 \<le> req" "us + req \<le> pos + n"
    and sfx: "sfx = (us + req + 7) div 8 * 8"
    and sel: "(repl, bsize, mem1) =
           (if sfx + 16 \<le> pos + n
            then (sfx, sfx - pos, write_free_block mem sfx \<lparr>fb_size = pos + n - sfx, fb_next = mem (pos + 8)\<rparr>)
            else (mem (pos + 8), n, mem))"
    and mem2: "mem2 = write_header mem1 (us - 32)
            \<lparr>magic = ALLOCATION_MAGIC, block_start = pos, block_size = bsize, requested_size = req\<rparr>"
  shows "\<forall>a<pos. mem2 a = mem a"
    and "chain mem2 repl (free_list pos (carved req pos n us @ rest)) FREE_LIST_END"
    and "headers mem2 pos (carved req pos n us @ rest)"
    and "used_total (carved req pos n us) = bsize"
proof -
  note sfx_bounds = round8 [of "us + req", folded sfx]
  have rest: "\<forall>s\<in>set rest. wf_seg s"
    using inv by (auto simp: heap_inv_def tiling_def)
  have chain_rest: "chain mem (mem (pos + 8)) (free_list (pos + n) rest) FREE_LIST_END"
    using inv by (auto simp: heap_inv_def heap_simps pos)
  have headers_rest: "headers mem (pos + n) rest"
    using inv by (auto simp: heap_inv_def heap_simps pos)
  have "mem2 a = mem a" if "a < us - 32" and "a < pos" for a
    using that sel us sfx_bounds
    by (simp add: mem2 write_header_outside write_free_block_outside split: if_splits)
  then show "\<forall>a<pos. mem2 a = mem a" using us by simp
  have above: "mem2 a = mem a" if "pos + n \<le> a" for a
  proof -
    have "us - 32 + 24 < a" using that us req by simp
    then show ?thesis
      using that sel sfx_bounds
      by (simp add: mem2 write_header_outside write_free_block_outside split: if_splits)
  qed
  have chain2: "chain mem2 h (free_list (pos + n) rest) FREE_LIST_END
      = chain mem h (free_list (pos + n) rest) FREE_LIST_END" for h
    by (rule interval_cong(2) [OF rest]) (rule above)
  have headers2: "headers mem2 (pos + n) rest"
    using interval_cong(1) [OF rest, of "pos + n" mem2 mem] above headers_rest by simp
  have header: "header_at mem2 pos bsize (us - pos) req"
    using us header_at_write_header [of pos "us - pos"] by (simp add: mem2)
  show "chain mem2 repl (free_list pos (carved req pos n us @ rest)) FREE_LIST_END"
  proof (cases "sfx + 16 \<le> pos + n")
    case True
    have "us - 32 + 24 < sfx" using us sfx_bounds by simp
    with True have "repl = sfx" and "mem2 sfx = pos + n - sfx" and "mem2 (sfx + 8) = mem (pos + 8)"
      using sel
      by (simp_all add: mem2 write_header_outside write_free_block_def)
    moreover have "pos + (sfx - pos) = sfx" and "sfx + (pos + n - sfx) = pos + n"
      using True us sfx_bounds by simp_all
    ultimately show ?thesis
      using True chain_rest chain2 by (simp add: carved_def Let_def flip: sfx)
  next
    case False
    then show ?thesis
      using sel chain_rest chain2 by (simp add: carved_def Let_def flip: sfx)
  qed
  show "headers mem2 pos (carved req pos n us @ rest)"
  proof (cases "sfx + 16 \<le> pos + n")
    case True
    then have "pos + (sfx - pos) = sfx" and "sfx + (pos + n - sfx) = pos + n" and "bsize = sfx - pos"
      using us sfx_bounds sel by simp_all
    then show ?thesis
      using True header headers2 by (simp add: carved_def Let_def flip: sfx)
  next
    case False
    then show ?thesis
      using sel header headers2 by (simp add: carved_def Let_def flip: sfx)
  qed
  show "used_total (carved req pos n us) = bsize"
    using sel by (auto simp: carved_def simp flip: sfx split: if_splits)
qed

lemma carve_block_refines:
  assumes inv: "heap_inv cap state mem (pre @ Free n # rest)" and pos: "pos = total_size pre"
    and us: "8 dvd us" "pos + 32 \<le> us" and req: "1 \<le> req" "us + req \<le> pos + n"
    and prev: "prev = last_start (free_list 0 pre)"
  shows "\<exists>state' mem'. carve_block state mem req prev pos \<lparr>fb_size = n, fb_next = mem (pos + 8)\<rparr>
      (pos + n) us (us + req) = (Some us, state', mem')
    \<and> heap_inv cap state' mem' (pre @ carved req pos n us @ rest)"
proof -
  define sfx where "sfx = (us + req + 7) div 8 * 8"
  have tile: "tiling cap (pre @ Free n # rest)"
    using inv by (simp add: heap_inv_def)
  have wf: "\<forall>s\<in>set pre. wf_seg s" "wf_seg (Free n)" and cap: "cap = pos + n + total_size rest"
    using tile by (auto simp: tiling_def pos)
  have "tiling pos pre"
    using tile by (auto simp: tiling_def pos no_adjacent_free_append)
  then have pos8: "8 dvd pos" by (rule tiling_bounds)
  note cp = carved_props [OF wf(2) pos8 us req]
  have tile': "tiling cap (pre @ carved req pos n us @ rest)"
    by (rule tiling_replace_free [OF tile cp(1,2,4,5)])
  have au: "align_up (us + req) 8 = Some sfx"
    using align_up_8 tiling_bounds(2) [OF tile] req cap by (simp add: sfx_def)
  obtain repl bsize mem1 where sel: "(repl, bsize, mem1) =
         (if sfx + 16 \<le> pos + n
          then (sfx, sfx - pos, write_free_block mem sfx \<lparr>fb_size = pos + n - sfx, fb_next = mem (pos + 8)\<rparr>)
          else (mem (pos + 8), n, mem))"
    by (metis prod.exhaust)
  define hdr where "hdr = \<lparr>magic = ALLOCATION_MAGIC, block_start = pos, block_size = bsize, requested_size = req\<rparr>"
  obtain h' mem2 where rl: "relink (free_head state) mem1 prev repl = (h', mem2)"
    by fastforce
  define mem3 where "mem3 = write_header mem2 (us - 32) hdr"
  have run: "carve_block state mem req prev pos \<lparr>fb_size = n, fb_next = mem (pos + 8)\<rparr>
      (pos + n) us (us + req) = (Some us, bump_alloc state h' bsize, mem3)"
    using carve_block_eq [OF au _ rl] sel by (simp add: hdr_def mem3_def)
  have "prev = FREE_LIST_END \<or> prev + 8 < us - 32"
    using last_start_bound [OF wf(1)] us by (auto simp: prev pos)
  then have rl3: "relink (free_head state) (write_header mem1 (us - 32) hdr) prev repl = (h', mem3)"
    by (simp add: write_header_relink rl mem3_def)
  note cm = carve_memory [OF inv pos us req sfx_def sel refl, folded hdr_def]
  have small: "total_size pre \<le> U64_MAX"
    using tile by (simp add: tiling_def)
  obtain cur where ch: "chain mem (free_head state) (free_list 0 pre) cur" and hd: "headers mem 0 pre"
    using inv by (auto simp: heap_inv_def heap_simps)
  have "\<forall>s\<in>set (carved req pos n us @ rest). wf_seg s"
    using tile' by (simp add: tiling_def)
  from relink_splice [OF wf(1) this ch hd, of "write_header mem1 (us - 32) hdr" repl h' mem3]
  have "chain mem3 h' (free_list 0 (pre @ carved req pos n us @ rest)) FREE_LIST_END"
    and "headers mem3 0 (pre @ carved req pos n us @ rest)"
    using cm small rl3 by (simp_all add: pos prev)
  moreover have "used_total (pre @ carved req pos n us @ rest) \<le> U64_MAX"
    using total_used_free [of "pre @ carved req pos n us @ rest" 0] tile' by (simp add: tiling_def)
  moreover have "length (live_list 0 (pre @ carved req pos n us @ rest)) \<le> U64_MAX"
    using tiling_live_bound [of "pre @ carved req pos n us @ rest" 0] tile' calculation(3)
    by (simp add: tiling_def)
  ultimately have "heap_inv cap (bump_alloc state h' bsize) mem3 (pre @ carved req pos n us @ rest)"
    using inv tile' cm(4) cp(2,3) by (auto simp: heap_inv_def bump_alloc_def heap_simps pos)
  then show ?thesis using run by blast
qed

lemma abs_alloc_Free:
  "abs_alloc req alignment pos (Free n # rest) =
    (case align_up (pos + 32) alignment of
       None \<Rightarrow> None
     | Some us \<Rightarrow>
       if us + req \<le> pos + n then Some (us, carved req pos n us @ rest)
       else map_option (\<lambda>(us, segs). (us, Free n # segs)) (abs_alloc req alignment (pos + n) rest))"
  by (auto simp: carved_def Let_def split: option.splits)

declare abs_alloc.simps(3) [simp del]

lemma align_up_mono_None:
  "k < 64 \<Longrightarrow> align_up v (2 ^ k) = None \<Longrightarrow> v \<le> w \<Longrightarrow> align_up w (2 ^ k) = None"
  by (auto simp: align_up_pow2 split: if_splits)

text \<open>The search loop returns, and returns what first fit prescribes.\<close>

lemma allocate_loop_refines:
  assumes "heap_inv cap state mem (pre @ suf)" and "k < 64" and "3 \<le> k" and "1 \<le> req"
    and "chain mem cur (free_list (total_size pre) suf) FREE_LIST_END"
    and "prev = last_start (free_list 0 pre)"
  shows "\<exists>res state' mem'. allocate_loop state mem req (2 ^ k) prev cur = Some (res, state', mem')
    \<and> (case abs_alloc req (2 ^ k) (total_size pre) suf of
         None \<Rightarrow> res = None \<and> state' = state \<and> mem' = mem
       | Some (us, suf') \<Rightarrow> res = Some us \<and> heap_inv cap state' mem' (pre @ suf'))"
  using assms
proof (induction suf arbitrary: pre prev cur)
  case Nil
  then show ?case by (simp add: allocate_loop.simps)
next
  case (Cons s suf)
  note IH = Cons.IH [of "pre @ [s]", unfolded append_assoc append_Cons append_Nil] and inv = Cons.prems(1)
  show ?case
  proof (cases s)
    case (Used n u r)
    then have "\<exists>res state' mem'. allocate_loop state mem req (2 ^ k) prev cur = Some (res, state', mem')
      \<and> (case abs_alloc req (2 ^ k) (total_size pre + n) suf of
           None \<Rightarrow> res = None \<and> state' = state \<and> mem' = mem
         | Some (us, suf') \<Rightarrow> res = Some us \<and> heap_inv cap state' mem' (pre @ s # suf'))"
      using IH [of cur prev] Cons.prems by (simp add: heap_simps)
    then show ?thesis
      by (cases "abs_alloc req (2 ^ k) (total_size pre + n) suf") (auto simp: Used)
  next
    case (Free n)
    define pos where "pos = total_size pre"
    have tile: "tiling cap (pre @ Free n # suf)"
      using inv Free by (simp add: heap_inv_def)
    have block: "read_free_block mem cur = \<lparr>fb_size = n, fb_next = mem (pos + 8)\<rparr>" and cur: "cur = pos"
      using Cons.prems(5) Free by (auto simp: read_free_block_def pos_def)
    have bound: "pos + n \<le> U64_MAX" "16 \<le> n"
      using tile by (auto simp: tiling_def pos_def)
    then have live: "cur \<noteq> FREE_LIST_END"
      using cur by (simp add: FREE_LIST_END_def)
    have pos40: "pos + 32 \<le> U64_MAX \<or> align_up (pos + 32) (2 ^ k) = None"
      using Cons.prems(2) power_increasing [OF Cons.prems(3), of "2::nat"] by (auto simp: align_up_pow2)
    have dvd8: "8 dvd (2::nat) ^ k"
      using Cons.prems(3) le_imp_power_dvd [of 3 k "2::nat"] by simp
    show ?thesis
    proof (cases "align_up (pos + 32) (2 ^ k)")
      case None
      then show ?thesis
        using live block cur bound Free
        by (simp add: allocate_loop.simps [of state] Let_def checked_add_def abs_alloc_Free flip: pos_def)
    next
      case (Some us)
      note us = align_up_Some [OF Some Cons.prems(2)]
      have step: "allocate_loop state mem req (2 ^ k) prev cur =
        (if us + req \<le> pos + n
         then Some (carve_block state mem req prev pos \<lparr>fb_size = n, fb_next = mem (pos + 8)\<rparr> (pos + n) us (us + req))
         else allocate_loop state mem req (2 ^ k) pos (mem (pos + 8)))"
        using live block cur bound pos40 Some
        by (subst allocate_loop.simps) (simp add: Let_def checked_add_def)
      show ?thesis
      proof (cases "us + req \<le> pos + n")
        case True
        have "8 dvd us" using dvd8 us(3) by (rule dvd_trans)
        then show ?thesis
          using carve_block_refines [OF inv [unfolded Free] pos_def _ us(1) Cons.prems(4) True Cons.prems(6)]
            step True Some by (auto simp: Free abs_alloc_Free simp flip: pos_def)
      next
        case False
        have "last_start (free_list 0 (pre @ [s])) = pos"
          by (simp add: heap_simps Free last_start_def pos_def)
        moreover have "chain mem (mem (pos + 8)) (free_list (total_size (pre @ [s])) suf) FREE_LIST_END"
          using Cons.prems(5) by (simp add: Free pos_def)
        ultimately have "\<exists>res state' mem'. allocate_loop state mem req (2 ^ k) prev cur = Some (res, state', mem')
          \<and> (case abs_alloc req (2 ^ k) (pos + n) suf of
               None \<Rightarrow> res = None \<and> state' = state \<and> mem' = mem
             | Some (us, suf') \<Rightarrow> res = Some us \<and> heap_inv cap state' mem' (pre @ s # suf'))"
          using IH [of "mem (pos + 8)" pos] Cons.prems step False by (simp add: pos_def Free)
        then show ?thesis
          using False Some
          by (cases "abs_alloc req (2 ^ k) (pos + n) suf") (auto simp: Free abs_alloc_Free simp flip: pos_def)
      qed
    qed
  qed
qed

end
