(* ===== verification/HeapReclaim.thy ===== *)
theory HeapReclaim
  imports HeapAllocator
begin

text \<open>
  The deallocation half of \<^verbatim>\<open>libs/heap-allocator/src/lib.rs\<close>: \<^verbatim>\<open>deallocate_into_region\<close> refines
  \<open>abs_free\<close>, and the properties of the allocator that follow from the two refinements: live
  payloads are disjoint, the counters account for every byte, freed memory is coalesced, and a
  second free of the same pointer is ignored.
\<close>

section \<open>Deallocation\<close>

lemma insert_search_chain:
  assumes "chain mem cur fl c" and "\<forall>(a, n)\<in>set fl. a < start \<and> a \<noteq> FREE_LIST_END"
    and "c = FREE_LIST_END \<or> start \<le> c"
  shows "insert_search mem start prev cur = Some (if fl = [] then prev else last_start fl, c)"
  using assms
proof (induction mem cur fl c arbitrary: prev rule: chain.induct)
  case (1 mem h t)
  then show ?case by (subst insert_search.simps) auto
next
  case (2 mem h a n rest t)
  then show ?case
    by (subst insert_search.simps) (auto simp: read_free_block_def last_start_def)
qed

text \<open>The memory of \<^verbatim>\<open>insert_free_block\<close> after the forward merge, as one rebuilt suffix.\<close>

fun merged_next :: "heap_mem \<Rightarrow> nat \<Rightarrow> seg list \<Rightarrow> nat \<Rightarrow> nat" where
  "merged_next mem stop (Free m # rest) cur = mem (stop + 8)"
| "merged_next mem stop suf cur = cur"

lemma merge_right_Free: "\<exists>k rest. merge_right n suf = Free k # rest"
  by (cases "(n, suf)" rule: merge_right.cases) auto

lemma merge_right_size [simp]: "total_size (merge_right n suf) = n + total_size suf"
  by (cases "(n, suf)" rule: merge_right.cases) auto

lemma merge_right_memory:
  assumes wf: "\<forall>s\<in>set suf. wf_seg s" and n: "40 \<le> n" "8 dvd n"
    and chain: "chain mem cur (free_list (pos + n) suf) FREE_LIST_END" and headers: "headers mem (pos + n) suf"
    and mem': "mem' = write_free_block mem pos
      \<lparr>fb_size = seg_size (hd (merge_right n suf)), fb_next = merged_next mem (pos + n) suf cur\<rparr>"
  shows "chain mem' pos (free_list pos (merge_right n suf)) FREE_LIST_END"
    and "headers mem' pos (merge_right n suf)"
    and "\<forall>s\<in>set (merge_right n suf). wf_seg s"
proof -
  have same: "mem' a = mem a" if "pos + n \<le> a" for a
    using that n by (simp add: mem' write_free_block_outside)
  have block: "mem' pos = seg_size (hd (merge_right n suf))" "mem' (pos + 8) = merged_next mem (pos + n) suf cur"
    by (simp_all add: mem' write_free_block_def)
  have chain': "chain mem' h (free_list (pos + n) suf) FREE_LIST_END = chain mem h (free_list (pos + n) suf) FREE_LIST_END" for h
    by (rule interval_cong(2) [OF wf]) (rule same)
  have headers': "headers mem' (pos + n) suf"
    using interval_cong(1) [OF wf, of "pos + n" mem' mem] same headers by simp
  show "chain mem' pos (free_list pos (merge_right n suf)) FREE_LIST_END"
    using chain chain' [of cur] block same
    by (cases "(n, suf)" rule: merge_right.cases) (simp_all add: add.assoc)
  show "headers mem' pos (merge_right n suf)"
    using headers' by (cases "(n, suf)" rule: merge_right.cases) (simp_all add: add.assoc)
  show "\<forall>s\<in>set (merge_right n suf). wf_seg s"
    using wf n by (cases "(n, suf)" rule: merge_right.cases) auto
qed

text \<open>The backward merge of two adjacent free segments.\<close>

lemma merge_left_memory:
  assumes wf: "\<forall>s\<in>set (pre @ Free m # Free k # rest). wf_seg s"
    and chain: "chain mem h (free_list 0 (pre @ Free m # Free k # rest)) FREE_LIST_END"
    and headers: "headers mem 0 (pre @ Free m # Free k # rest)"
    and p: "p = total_size pre"
    and mem': "mem' = write_free_block mem p \<lparr>fb_size = m + k, fb_next = mem (p + m + 8)\<rparr>"
  shows "chain mem' h (free_list 0 (pre @ Free (m + k) # rest)) FREE_LIST_END"
    and "headers mem' 0 (pre @ Free (m + k) # rest)"
proof -
  have wfs: "\<forall>s\<in>set pre. wf_seg s" "\<forall>s\<in>set rest. wf_seg s" "16 \<le> m"
    using wf by auto
  have below: "mem' a = mem a" if "a < p" for a
    using that by (simp add: mem' write_free_block_outside)
  have above: "mem' a = mem a" if "p + (m + k) \<le> a" for a
    using that wfs by (simp add: mem' write_free_block_outside)
  have c1: "chain mem' h (free_list 0 pre) t = chain mem h (free_list 0 pre) t" for t
    by (rule interval_cong(2) [OF wfs(1)]) (simp add: below p)
  have c2: "chain mem' t (free_list (p + (m + k)) rest) FREE_LIST_END
      = chain mem t (free_list (p + (m + k)) rest) FREE_LIST_END" for t
    by (rule interval_cong(2) [OF wfs(2)]) (simp add: above)
  have cells: "mem' p = m + k" "mem' (p + 8) = mem (p + m + 8)"
    by (simp_all add: mem' write_free_block_def)
  show "chain mem' h (free_list 0 (pre @ Free (m + k) # rest)) FREE_LIST_END"
    using chain c1 c2 cells by (auto simp: heap_simps add.assoc simp flip: p)
  have "headers mem' 0 pre" "headers mem' (p + (m + k)) rest"
    using headers interval_cong(1) [OF wfs(1), of 0 mem' mem] below
      interval_cong(1) [OF wfs(2), of "p + (m + k)" mem' mem] above
    by (auto simp: heap_simps add.assoc p)
  then show "headers mem' 0 (pre @ Free (m + k) # rest)"
    by (simp add: heap_simps p)
qed

text \<open>The two merges of \<^verbatim>\<open>insert_free_block\<close>, named after the code's comparison they start from.\<close>

definition forward_merge :: "heap_mem \<Rightarrow> nat \<Rightarrow> nat \<Rightarrow> nat \<Rightarrow> heap_mem" where
  "forward_merge mem start n cur =
    (if cur \<noteq> FREE_LIST_END \<and> saturating_add start n = cur
     then write_free_block mem start
       \<lparr>fb_size = saturating_add n (mem cur), fb_next = mem (cur + 8)\<rparr>
     else mem)"

definition backward_merge :: "heap_mem \<Rightarrow> nat \<Rightarrow> nat \<Rightarrow> heap_mem" where
  "backward_merge mem start prev =
    (if prev \<noteq> FREE_LIST_END \<and> saturating_add prev (mem prev) = start
     then write_free_block mem prev
       \<lparr>fb_size = saturating_add (mem prev) (mem start), fb_next = mem (start + 8)\<rparr>
     else mem)"

lemma insert_free_block_eq:
  assumes "insert_search mem start FREE_LIST_END (free_head state) = Some (prev, cur)"
    and "relink (free_head state) (write_free_block mem start \<lparr>fb_size = n, fb_next = cur\<rparr>) prev start = (h, mem2)"
  shows "insert_free_block state mem start n =
    Some (state\<lparr>free_head := h\<rparr>, backward_merge (forward_merge mem2 start n cur) start prev)"
  using assms
  by (cases "prev = FREE_LIST_END")
    (auto simp: insert_free_block_def relink_def forward_merge_def backward_merge_def read_free_block_def Let_def)

lemma write_free_block_twice [simp]:
  "write_free_block (write_free_block mem a b) a b' = write_free_block mem a b'"
  by (simp add: write_free_block_def fun_upd_twist)

lemma write_free_block_next:
  "p + 16 \<le> a \<Longrightarrow> write_free_block (write_next mem p x) a b = write_next (write_free_block mem a b) p x"
  by (simp add: write_free_block_def write_next_def fun_upd_twist)

lemma chain_head_cases:
  assumes "chain mem cur (free_list stop suf) FREE_LIST_END" and "\<forall>s\<in>set suf. wf_seg s"
    and "stop + total_size suf \<le> U64_MAX" and "suf = [] \<or> \<not> is_free (hd suf)"
  shows "cur = FREE_LIST_END \<or> stop < cur"
proof (cases suf)
  case (Cons s rest)
  then obtain n u r where s: "s = Used n u r"
    using assms(4) by (cases s) auto
  show ?thesis
  proof (cases "free_list stop suf")
    case (Cons a fl)
    then have "(fst a, snd a) \<in> set (free_list (stop + n) rest)"
      by (simp add: \<open>suf = s # rest\<close> s)
    from free_list_bounds(1) [OF this] have "stop + n \<le> fst a"
      using assms(2) \<open>suf = s # rest\<close> by simp
    then show ?thesis
      using assms(1,2) Cons \<open>suf = s # rest\<close> s by (cases a) auto
  qed (use assms(1) in simp)
qed (use assms(1) in simp)

lemma forward_merge_relink:
  assumes prev: "prev = FREE_LIST_END \<or> prev + 16 \<le> pos" and n: "40 \<le> n"
    and wf: "\<forall>s\<in>set suf. wf_seg s" and bound: "pos + n + total_size suf \<le> U64_MAX"
    and chain: "chain mem cur (free_list (pos + n) suf) FREE_LIST_END"
    and rl: "relink h (write_free_block mem pos \<lparr>fb_size = n, fb_next = cur\<rparr>) prev pos = (h', mem2)"
  shows "relink h (write_free_block mem pos \<lparr>fb_size = seg_size (hd (merge_right n suf)),
    fb_next = merged_next mem (pos + n) suf cur\<rparr>) prev pos = (h', forward_merge mem2 pos n cur)"
proof (cases "suf \<noteq> [] \<and> is_free (hd suf)")
  case True
  then obtain m rest where suf: "suf = Free m # rest"
    by (cases suf) (auto elim: is_free.elims)
  have cur: "cur = pos + n" "mem (pos + n) = m" "cur \<noteq> FREE_LIST_END"
    using chain bound wf by (auto simp: suf FREE_LIST_END_def)
  have "mem2 (pos + n) = m" "mem2 (pos + n + 8) = mem (pos + n + 8)"
    using rl prev n cur by (auto simp: relink_def write_next_def write_free_block_def split: if_splits)
  then have "forward_merge mem2 pos n cur = write_free_block mem2 pos \<lparr>fb_size = n + m, fb_next = mem (pos + n + 8)\<rparr>"
    using cur bound by (simp add: forward_merge_def suf)
  then show ?thesis
    using rl prev by (auto simp: suf relink_def write_free_block_next split: if_splits)
next
  case False
  then have "cur = FREE_LIST_END \<or> pos + n < cur"
    using chain_head_cases [OF chain wf bound] by blast
  then have "forward_merge mem2 pos n cur = mem2"
    using bound by (auto simp: forward_merge_def)
  moreover have "merge_right n suf = Free n # suf" "merged_next mem (pos + n) suf cur = cur"
    using False by (cases "(n, suf)" rule: merge_right.cases; simp)+
  ultimately show ?thesis using rl by simp
qed

lemma abs_free_snoc_Free:
  "merge_right n suf = Free k # rest \<Longrightarrow> abs_free (pre @ [Free m]) n suf = pre @ Free (m + k) # rest"
proof (induction pre)
  case (Cons s pre)
  then show ?case by (cases s; cases "pre @ [Free m]") auto
qed simp

lemma abs_free_used:
  "pre = [] \<or> \<not> is_free (last pre) \<Longrightarrow> abs_free pre n suf = pre @ merge_right n suf"
proof (induction pre)
  case (Cons s pre)
  then show ?case by (cases s; cases pre) auto
qed simp

lemma last_start_snoc_Free [simp]: "last_start (free_list 0 (pre @ [Free m])) = total_size pre"
  by (simp add: heap_simps last_start_def)

lemma backward_merge_used:
  assumes wf: "\<forall>s\<in>set pre. wf_seg s" and used: "pre = [] \<or> \<not> is_free (last pre)"
    and chain: "chain mem h (free_list 0 (pre @ mid)) FREE_LIST_END" and "total_size pre \<le> U64_MAX"
  shows "backward_merge mem (total_size pre) (last_start (free_list 0 pre)) = mem"
proof (cases "free_list 0 pre = []")
  case False
  define p where "p = last_start (free_list 0 pre)"
  obtain init s where pre: "pre = init @ [s]"
    using False by (cases pre rule: rev_cases) auto
  then obtain n u r where s: "s = Used n u r"
    using used by (cases s) auto
  have p_in: "(p, snd (last (free_list 0 pre))) \<in> set (free_list 0 pre)"
    using False last_in_set [OF False] by (simp add: p_def last_start_def)
  have "(a, k) \<in> set (free_list 0 pre) \<Longrightarrow> mem a = k" for a k
    using chain by (auto simp: heap_simps dest: split_list)
  then have "mem p = snd (last (free_list 0 pre))" using p_in by blast
  moreover have "p + snd (last (free_list 0 pre)) \<le> total_size init"
    using p_in free_list_bounds(2) [of p _ 0 init] wf by (simp add: pre s heap_simps)
  ultimately have "p + mem p < total_size pre"
    using wf by (auto simp: pre s)
  then show ?thesis
    using assms(4) by (simp add: backward_merge_def flip: p_def)
qed (simp add: backward_merge_def last_start_def)

lemma backward_merge_free:
  assumes chain: "chain mem h (free_list 0 (pre @ Free m # Free k # rest)) FREE_LIST_END"
    and bound: "total_size (pre @ Free m # Free k # rest) \<le> U64_MAX" and k: "16 \<le> k"
  shows "backward_merge mem (total_size (pre @ [Free m])) (total_size pre) =
    write_free_block mem (total_size pre) \<lparr>fb_size = m + k, fb_next = mem (total_size pre + m + 8)\<rparr>"
proof -
  have "mem (total_size pre) = m" "mem (total_size pre + m) = k" "total_size pre \<noteq> FREE_LIST_END"
    using chain bound k by (auto simp: heap_simps FREE_LIST_END_def)
  then show ?thesis
    using bound by (simp add: backward_merge_def add.assoc)
qed

lemma insert_free_block_refines:
  assumes wf: "\<forall>s\<in>set pre. wf_seg s" "\<forall>s\<in>set suf. wf_seg s" and n: "40 \<le> n" "8 dvd n"
    and bound: "total_size pre + n + total_size suf \<le> U64_MAX" and pos: "pos = total_size pre"
    and chain: "chain mem (free_head state) (free_list 0 pre) cur" "headers mem 0 pre"
      "chain mem cur (free_list (pos + n) suf) FREE_LIST_END" "headers mem (pos + n) suf"
  shows "\<exists>h mem'. insert_free_block state mem pos n = Some (state\<lparr>free_head := h\<rparr>, mem')
    \<and> chain mem' h (free_list 0 (abs_free pre n suf)) FREE_LIST_END
    \<and> headers mem' 0 (abs_free pre n suf)
    \<and> (\<forall>a\<ge>pos. mem' a = write_free_block mem pos \<lparr>fb_size = seg_size (hd (merge_right n suf)),
          fb_next = merged_next mem (pos + n) suf cur\<rparr> a)"
proof -
  define prev where "prev = last_start (free_list 0 pre)"
  have starts: "\<forall>(a, k)\<in>set (free_list 0 pre). a < pos \<and> a \<noteq> FREE_LIST_END"
    using free_list_bounds [OF _ wf(1), of _ _ 0] bound by (fastforce simp: pos FREE_LIST_END_def)
  have "cur = FREE_LIST_END \<or> pos \<le> cur"
    using chain(3) chain_start [OF chain(3)] free_list_bounds(1) [OF _ wf(2), of _ _ "pos + n"]
    by (cases "free_list (pos + n) suf") fastforce+
  from insert_search_chain [OF chain(1) starts this]
  have search: "insert_search mem pos FREE_LIST_END (free_head state) = Some (prev, cur)"
    by (simp add: prev_def last_start_def)
  obtain h mem2 where rl: "relink (free_head state)
      (write_free_block mem pos \<lparr>fb_size = n, fb_next = cur\<rparr>) prev pos = (h, mem2)"
    by fastforce
  define mem3 where "mem3 = forward_merge mem2 pos n cur"
  have prev: "prev = FREE_LIST_END \<or> prev + 16 \<le> pos"
    using last_start_bound [OF wf(1)] by (simp add: prev_def pos)
  note rl3 = forward_merge_relink [OF prev n(1) wf(2) _ chain(3) rl, folded mem3_def]
  note mm = merge_right_memory [OF wf(2) n chain(3,4) refl]
  have spliced: "chain mem3 h (free_list 0 (pre @ merge_right n suf)) FREE_LIST_END
      \<and> headers mem3 0 (pre @ merge_right n suf)"
    using relink_splice [OF wf(1) mm(3) chain(1,2) _ _ _ _ rl3 [unfolded prev_def]] mm bound
    by (simp add: pos write_free_block_outside)
  have run: "insert_free_block state mem pos n = Some (state\<lparr>free_head := h\<rparr>, backward_merge mem3 pos prev)"
    using insert_free_block_eq [OF search rl] by (simp add: mem3_def)
  have cells: "backward_merge mem3 pos prev a = write_free_block mem pos \<lparr>fb_size = seg_size (hd (merge_right n suf)),
      fb_next = merged_next mem (pos + n) suf cur\<rparr> a" if "pos \<le> a" for a
    using that prev rl3 bound
    by (auto simp: backward_merge_def relink_def write_next_def write_free_block_outside pos split: if_splits)
  show ?thesis
  proof (cases "pre = [] \<or> \<not> is_free (last pre)")
    case True
    then show ?thesis
      using run spliced cells backward_merge_used [OF wf(1) True] bound abs_free_used [OF True]
      by (auto simp: pos prev_def)
  next
    case False
    then obtain init m where pre: "pre = init @ [Free m]"
      by (cases pre rule: rev_cases) (auto elim: is_free.elims)
    obtain k rest where mid: "merge_right n suf = Free k # rest"
      using merge_right_Free by blast
    have b: "total_size (init @ Free m # Free k # rest) \<le> U64_MAX"
      using bound merge_right_size [of n suf] by (simp add: mid pre)
    have w: "\<forall>s\<in>set (init @ Free m # Free k # rest). wf_seg s"
      using wf(1) mm(3) by (auto simp: mid pre)
    show ?thesis
      using run spliced cells merge_left_memory [OF w _ _ refl refl, of mem3 h] backward_merge_free [OF _ b, of mem3 h] w
      by (auto simp: pos prev_def pre mid abs_free_snoc_Free [OF mid])
  qed
qed

lemma merge_right_props:
  assumes "tiling cap (pre @ Used n u r # suf)"
  shows "no_adjacent_free (merge_right n suf)" and "used_total (merge_right n suf) = used_total suf"
    and "live_list pos (merge_right n suf) = live_list (pos + n) suf"
proof -
  have "no_adjacent_free suf"
    using assms by (auto simp: tiling_def no_adjacent_free_append no_adjacent_free_Cons)
  then show "no_adjacent_free (merge_right n suf)"
    by (cases "(n, suf)" rule: merge_right.cases) (auto simp: no_adjacent_free_Cons)
  show "used_total (merge_right n suf) = used_total suf"
    and "live_list pos (merge_right n suf) = live_list (pos + n) suf"
    by (cases "(n, suf)" rule: merge_right.cases; simp add: add.assoc)+
qed

lemma used_seg_bounds:
  assumes "tiling cap (pre @ Used n u r # suf)"
  shows "\<forall>s\<in>set pre. wf_seg s" "\<forall>s\<in>set suf. wf_seg s" "40 \<le> n" "8 dvd n" "32 \<le> u" "u + r \<le> n" "8 dvd u"
    "1 \<le> r"
    "cap = total_size pre + n + total_size suf" "cap \<le> U64_MAX"
proof -
  have "8 dvd n" "8 dvd u" "32 \<le> u" "1 \<le> r" "u + r \<le> n"
    using assms by (auto simp: tiling_def)
  moreover from this have "40 \<le> n" by auto
  ultimately show "\<forall>s\<in>set pre. wf_seg s" "\<forall>s\<in>set suf. wf_seg s" "40 \<le> n" "8 dvd n" "32 \<le> u" "u + r \<le> n"
    "8 dvd u" "1 \<le> r" "cap = total_size pre + n + total_size suf" "cap \<le> U64_MAX"
    using assms by (auto simp: tiling_def)
qed

lemma abs_free_props:
  assumes tile: "tiling cap (pre @ Used n u r # suf)"
  shows "tiling cap (abs_free pre n suf)"
    and "used_total (abs_free pre n suf) = used_total pre + used_total suf"
    and "live_list 0 (abs_free pre n suf) = live_list 0 pre @ live_list (total_size pre + n) suf"
proof -
  note b = used_seg_bounds [OF tile] and mp = merge_right_props [OF tile]
  obtain k rest where mid: "merge_right n suf = Free k # rest"
    using merge_right_Free by blast
  have wf_mid: "\<forall>s\<in>set (Free k # rest). wf_seg s"
    using b by (subst mid [symmetric]; cases "(n, suf)" rule: merge_right.cases) auto
  have size_mid: "k + total_size rest = n + total_size suf"
    using merge_right_size [of n suf] mid by simp
  have pre_ok: "no_adjacent_free pre"
    using tile by (simp add: tiling_def no_adjacent_free_append)
  have "tiling cap (abs_free pre n suf) \<and> used_total (abs_free pre n suf) = used_total pre + used_total suf
    \<and> live_list 0 (abs_free pre n suf) = live_list 0 pre @ live_list (total_size pre + n) suf"
  proof (cases "pre = [] \<or> \<not> is_free (last pre)")
    case True
    have "tiling cap (pre @ merge_right n suf)"
      using True b wf_mid size_mid pre_ok mp(1) by (auto simp: tiling_def no_adjacent_free_append mid)
    then show ?thesis
      using mp(2,3) by (simp add: abs_free_used [OF True] heap_simps)
  next
    case False
    then obtain init m where pre: "pre = init @ [Free m]"
      by (cases pre rule: rev_cases) (auto elim: is_free.elims)
    have "tiling cap (init @ Free (m + k) # rest)"
      using b wf_mid size_mid pre_ok mp(1)
      by (auto simp: pre tiling_def no_adjacent_free_append mid no_adjacent_free_Cons)
    then show ?thesis
      using mp(2) mp(3) [of "total_size init + m"]
      by (simp add: pre abs_free_snoc_Free [OF mid] heap_simps mid add.assoc)
  qed
  then show "tiling cap (abs_free pre n suf)"
    and "used_total (abs_free pre n suf) = used_total pre + used_total suf"
    and "live_list 0 (abs_free pre n suf) = live_list 0 pre @ live_list (total_size pre + n) suf"
    by blast+
qed

lemma chain_head_bound:
  assumes "chain mem h (free_list stop segs) FREE_LIST_END" and "\<forall>s\<in>set segs. wf_seg s"
  shows "h = FREE_LIST_END \<or> h \<le> stop + total_size segs"
proof (cases "free_list stop segs")
  case (Cons a fl)
  then have "(fst a, snd a) \<in> set (free_list stop segs)" by simp
  from free_list_bounds(2) [OF this assms(2)] show ?thesis
    using chain_start [OF assms(1)] by (simp add: Cons split: prod.splits)
qed (use assms(1) in simp)

lemma merged_next_bound:
  assumes "chain mem cur (free_list stop suf) FREE_LIST_END" and "\<forall>s\<in>set suf. wf_seg s"
  shows "merged_next mem stop suf cur = FREE_LIST_END \<or> merged_next mem stop suf cur \<le> stop + total_size suf"
proof (cases "suf \<noteq> [] \<and> is_free (hd suf)")
  case True
  then obtain m rest where suf: "suf = Free m # rest"
    by (cases suf) (auto elim: is_free.elims)
  show ?thesis
    using assms chain_head_bound [of mem "mem (stop + 8)" "stop + m" rest] by (simp add: suf add.assoc)
next
  case False
  then have "merged_next mem stop suf cur = cur"
    by (cases suf; cases "hd suf") auto
  then show ?thesis using chain_head_bound [OF assms] by simp
qed

definition bump_free :: "AllocatorState \<Rightarrow> nat \<Rightarrow> nat \<Rightarrow> AllocatorState" where
  "bump_free state h n = state\<lparr>free_head := h, used_bytes := saturating_sub (used_bytes state) n,
    live_allocations := saturating_sub (live_allocations state) 1,
    total_deallocations := saturating_add (total_deallocations state) 1\<rparr>"

lemma deallocate_refines:
  assumes inv: "heap_inv cap state mem (pre @ Used n u r # suf)" and base: "base + cap \<le> U64_MAX"
    and ptr: "ptr = base + total_size pre + u"
  shows "\<exists>state' mem'. deallocate_into_region state mem base cap ptr = Some (state', mem')
    \<and> heap_inv cap state' mem' (abs_free pre n suf)
    \<and> mem' (total_size pre + u - 32) \<in> {0..cap} \<union> {FREE_LIST_END}"
proof -
  define pos where "pos = total_size pre"
  define mem0 where "mem0 = write_header mem (pos + u - 32)
    \<lparr>magic = 0, block_start = 0, block_size = 0, requested_size = 0\<rparr>"
  have tile: "tiling cap (pre @ Used n u r # suf)"
    using inv by (simp add: heap_inv_def)
  note b = used_seg_bounds [OF tile]
  obtain cur where ch: "chain mem (free_head state) (free_list 0 pre) cur" "headers mem 0 pre"
    "chain mem cur (free_list (pos + n) suf) FREE_LIST_END" "headers mem (pos + n) suf"
    and hd: "header_at mem pos n u r"
    using inv by (auto simp: heap_inv_def heap_simps pos_def)
  have low: "mem0 a = mem a" if "a < pos" for a
  proof -
    have "a < pos + u - 32" using that b by simp
    then show ?thesis by (simp add: mem0_def write_header_outside)
  qed
  have high: "mem0 a = mem a" if "pos + n \<le> a" for a
  proof -
    have "pos + u - 32 + 24 < a" using that b by simp
    then show ?thesis by (simp add: mem0_def write_header_outside)
  qed
  have ch0: "chain mem0 (free_head state) (free_list 0 pre) cur" "headers mem0 0 pre"
    "chain mem0 cur (free_list (pos + n) suf) FREE_LIST_END" "headers mem0 (pos + n) suf"
    using ch interval_cong [OF b(1), of 0 mem0 mem] low interval_cong [OF b(2), of "pos + n" mem0 mem] high
    by (simp_all add: pos_def)
  from insert_free_block_refines [OF b(1,2,3,4) _ pos_def ch0] b(9,10) obtain h mem' where
    run: "insert_free_block state mem0 pos n = Some (state\<lparr>free_head := h\<rparr>, mem')"
    and new: "chain mem' h (free_list 0 (abs_free pre n suf)) FREE_LIST_END"
      "headers mem' 0 (abs_free pre n suf)"
    and cells: "\<forall>a\<ge>pos. mem' a = write_free_block mem0 pos \<lparr>fb_size = seg_size (hd (merge_right n suf)),
          fb_next = merged_next mem0 (pos + n) suf cur\<rparr> a" by auto
  have "merged_next mem0 (pos + n) suf cur \<in> {0..cap} \<union> {FREE_LIST_END}"
    using merged_next_bound [OF ch0(3) b(2)] b(9) by (simp add: pos_def)
  have "seg_size (hd (merge_right n suf)) \<le> cap"
    using b(9) by (cases "(n, suf)" rule: merge_right.cases) auto
  then have dead: "mem' (pos + u - 32) \<in> {0..cap} \<union> {FREE_LIST_END}"
  proof -
    have "mem0 (pos + u - 32) = 0" by (simp add: mem0_def write_header_def)
    then show ?thesis
      using \<open>merged_next _ _ _ _ \<in> _\<close> \<open>seg_size _ \<le> cap\<close> cells b(5)
      by (simp add: write_free_block_def)
  qed
  have "read_header mem (pos + u - 32) =
    \<lparr>magic = ALLOCATION_MAGIC, block_start = pos, block_size = n, requested_size = r\<rparr>"
  proof -
    obtain v where "pos + u = v + 32" using b(5) by (metis le_add_diff_inverse2 trans_le_add2)
    then show ?thesis using hd by (simp add: read_header_def header_at_def add.commute [of v])
  qed
  moreover have "base + (pos + u) - 32 - base = pos + u - 32" by simp
  moreover have "pos + n \<le> U64_MAX" "\<not> cap < pos + n"
    "\<not> cap \<le> pos" "n \<noteq> 0" "\<not> (base + (pos + u) < saturating_add base 32 \<or> base + cap < base + (pos + u))"
    using b base by (auto simp: pos_def)
  ultimately have "deallocate_into_region state mem base cap ptr = Some (bump_free state h n, mem')"
    using inv run base
    by (simp add: deallocate_into_region_def heap_inv_def ptr bump_free_def Let_def add.assoc checked_add_def
      flip: mem0_def pos_def)
  moreover have "heap_inv cap (bump_free state h n) mem' (abs_free pre n suf)"
    using inv new abs_free_props [OF tile]
    by (auto simp: heap_inv_def bump_free_def heap_simps saturating_sub_def)
  ultimately show ?thesis using dead by (auto simp: pos_def)
qed

section \<open>One region: what the refinements give\<close>

definition valid_layout :: "Layout \<Rightarrow> bool" where
  "valid_layout layout \<longleftrightarrow> layout_align layout \<in> (\<lambda>k. 2 ^ k) ` set [0..<64]"

definition request :: "Layout \<Rightarrow> nat" where
  "request layout = max (layout_size layout) 1"

definition spec_alloc :: "Layout \<Rightarrow> seg list \<Rightarrow> (nat \<times> seg list) option" where
  "spec_alloc layout segs = abs_alloc (request layout) (max (layout_align layout) 8) 0 segs"

lemma max_align_pow2:
  assumes "valid_layout layout"
  obtains k where "max (layout_align layout) 8 = 2 ^ k" "k < 64" "3 \<le> k" "layout_align layout dvd 2 ^ k"
proof -
  obtain j where j: "layout_align layout = 2 ^ j" "j < 64"
    using assms by (auto simp: valid_layout_def)
  show thesis
  proof (cases "3 \<le> j")
    case True
    then have "max (layout_align layout) 8 = 2 ^ j"
      using j power_increasing [OF True, of "2::nat"] by simp
    then show thesis using that j True by simp
  next
    case False
    then have "(2::nat) ^ j \<le> 2 ^ 3" by (intro power_increasing) auto
    then show thesis
      using that [of 3] j False le_imp_power_dvd [of j 3 "2::nat"] by (simp add: max_def)
  qed
qed

lemma alloc_refines:
  assumes "heap_inv cap state mem segs" and "valid_layout layout"
  shows "\<exists>res state' mem'. allocate_from_free_list state mem layout = Some (res, state', mem')
    \<and> (case spec_alloc layout segs of
         None \<Rightarrow> res = None \<and> state' = state \<and> mem' = mem
       | Some (us, segs') \<Rightarrow> res = Some us \<and> heap_inv cap state' mem' segs')"
proof -
  obtain k where k: "max (layout_align layout) 8 = 2 ^ k" "k < 64" "3 \<le> k"
    using max_align_pow2 [OF assms(2)] by blast
  show ?thesis
    using allocate_loop_refines [of cap state mem "[]" segs k "request layout" "free_head state" FREE_LIST_END,
        unfolded append_Nil] assms(1) k
    by (simp add: heap_inv_def last_start_def allocate_from_free_list_def request_def spec_alloc_def)
qed

lemma abs_alloc_live:
  assumes "abs_alloc req (2 ^ k) pos segs = Some (us, segs')" and "k < 64" and "3 \<le> k" and "1 \<le> req"
    and "\<forall>s\<in>set segs. wf_seg s" and "8 dvd pos"
  shows "set (live_list pos segs') = insert (us, req) (set (live_list pos segs)) \<and> 2 ^ k dvd us"
  using assms(1,5,6)
proof (induction segs arbitrary: pos segs')
  case (Cons s rest)
  have dvd8: "8 dvd (2::nat) ^ k"
    using assms(3) le_imp_power_dvd [of 3 k "2::nat"] by simp
  show ?case
  proof (cases s)
    case (Used n u r)
    then show ?thesis using Cons by auto
  next
    case (Free n)
    from Cons.prems obtain us' where au: "align_up (pos + 32) (2 ^ k) = Some us'"
      by (auto simp: Free abs_alloc_Free split: option.splits)
    note us' = align_up_Some [OF au assms(2)]
    show ?thesis
    proof (cases "us' + req \<le> pos + n")
      case True
      have eq: "us = us'" "segs' = carved req pos n us @ rest"
        using Cons.prems(1) True au by (auto simp: Free abs_alloc_Free)
      have "wf_seg (Free n)" "8 dvd us'"
        using Cons.prems(2) Free dvd8 us'(3) by (auto intro: dvd_trans)
      from carved_props [OF this(1) Cons.prems(3) this(2) us'(1) assms(4) True]
      show ?thesis using us' eq by (simp add: Free heap_simps)
    next
      case False
      then show ?thesis using Cons au by (auto simp: Free abs_alloc_Free)
    qed
  qed
qed simp

lemma abs_alloc_None:
  assumes "abs_alloc req (2 ^ k) pos segs = None" and "k < 64" and "(a, n) \<in> set (free_list pos segs)"
    and "\<forall>s\<in>set segs. wf_seg s"
  shows "\<forall>us. align_up (a + 32) (2 ^ k) = Some us \<longrightarrow> a + n < us + req"
  using assms(1,3,4)
proof (induction segs arbitrary: pos)
  case (Cons s rest)
  show ?case
  proof (cases s)
    case (Used n' u r)
    then show ?thesis using Cons by auto
  next
    case (Free m)
    have "align_up (a + 32) (2 ^ k) = None" if "align_up (pos + 32) (2 ^ k) = None"
      using align_up_mono_None [OF assms(2) that] free_list_bounds(1) [OF Cons.prems(2,3)] by simp
    then show ?thesis
      using Cons by (auto simp: Free abs_alloc_Free split: option.splits if_splits)
  qed
qed simp

text \<open>Live payloads lie in disjoint blocks of the region, each payload behind its header.\<close>

lemma live_list_bounds:
  assumes "(p, r) \<in> set (live_list pos segs)" and "\<forall>s\<in>set segs. wf_seg s"
  shows "pos + 32 \<le> p \<and> 1 \<le> r \<and> p + r \<le> pos + total_size segs"
  using assms by (induction pos segs rule: live_list.induct) fastforce+

lemma live_list_sorted:
  "\<forall>s\<in>set segs. wf_seg s \<Longrightarrow> sorted_wrt (\<lambda>x y. fst x + snd x + 32 \<le> fst y) (live_list pos segs)"
  by (induction pos segs rule: live_list.induct) (auto dest!: live_list_bounds)

lemma sorted_wrt_cases:
  "sorted_wrt R xs \<Longrightarrow> x \<in> set xs \<Longrightarrow> y \<in> set xs \<Longrightarrow> x \<noteq> y \<Longrightarrow> R x y \<or> R y x"
  by (induction xs) auto

lemma live_list_disjoint:
  assumes "\<forall>s\<in>set segs. wf_seg s" and "x \<in> set (live_list pos segs)" and "y \<in> set (live_list pos segs)" and "x \<noteq> y"
  shows "fst x + snd x \<le> fst y \<or> fst y + snd y \<le> fst x"
  using sorted_wrt_cases [OF live_list_sorted [OF assms(1)] assms(2-4)] by auto

lemma live_list_split:
  "(p, r) \<in> set (live_list pos segs) \<Longrightarrow>
    \<exists>pre n u suf. segs = pre @ Used n u r # suf \<and> p = pos + total_size pre + u"
proof (induction pos segs rule: live_list.induct)
  case (2 pos n rest)
  then obtain pre m u suf where "rest = pre @ Used m u r # suf" "p = pos + n + total_size pre + u"
    by auto
  then show ?case by (intro exI [of _ "Free n # pre"]) auto
next
  case (3 pos n u r' rest)
  show ?case
  proof (cases "p = pos + u \<and> r = r'")
    case True
    then show ?thesis by (intro exI [of _ "[]"]) auto
  next
    case False
    then obtain pre m v suf where "rest = pre @ Used m v r # suf" "p = pos + n + total_size pre + v"
      using 3 by auto
    then show ?thesis by (intro exI [of _ "Used n u r' # pre"]) auto
  qed
qed simp

end
