(* ===== verification/KernelHeap.thy ===== *)
theory KernelHeap
  imports HeapReclaim
begin

text \<open>
  The correctness of the heap of \<^verbatim>\<open>libs/heap-allocator/src/lib.rs\<close> as its clients see it. The first
  part states what one region promises; the second gives the contract of a \<^verbatim>\<open>GlobalAlloc\<close> as the
  locale \<open>global_alloc\<close>, interpreted on \<^verbatim>\<open>ReclaimingHeap\<close> and on the \<^verbatim>\<open>ExpandableHeap\<close> the kernel
  installs (bootstrap region first, external region once it is registered).
\<close>

section \<open>One region\<close>

lemma sorted_wrt_distinct: "sorted_wrt R xs \<Longrightarrow> (\<And>x. \<not> R x x) \<Longrightarrow> distinct xs"
  by (induction xs) auto

lemma free_walk_chain:
  assumes "chain mem h fl FREE_LIST_END" and "\<forall>(a, n)\<in>set fl. a \<noteq> FREE_LIST_END"
    and "acc + sum_list (map snd fl) \<le> U64_MAX"
  shows "free_walk mem h acc best = Some (acc + sum_list (map snd fl), fold max (map snd fl) best)"
  using assms
proof (induction fl arbitrary: h acc best)
  case Nil
  then show ?case by (subst free_walk.simps) simp
next
  case (Cons a fl)
  then show ?case
    by (subst free_walk.simps) (auto simp: read_free_block_def Let_def max.commute)
qed

lemma free_list_starts:
  assumes "tiling cap segs"
  shows "\<forall>(a, n)\<in>set (free_list 0 segs). a \<noteq> FREE_LIST_END \<and> a + n \<le> cap"
proof clarify
  fix a n
  assume "(a, n) \<in> set (free_list 0 segs)"
  from free_list_bounds [OF this] assms
  have "a + n \<le> cap" "16 \<le> n" "cap \<le> U64_MAX" by (auto simp: tiling_def)
  then show "a \<noteq> FREE_LIST_END \<and> a + n \<le> cap" by (auto simp: FREE_LIST_END_def)
qed

lemma region_stats_inv:
  assumes "heap_inv cap state mem segs"
  shows "region_stats state mem cap = Some
    \<lparr>capacity_bytes = cap, stat_used_bytes = used_total segs, stat_peak_used_bytes = peak_used_bytes state,
     free_bytes = sum_list (map snd (free_list 0 segs)),
     largest_free_block = fold max (map snd (free_list 0 segs)) 0,
     stat_live_allocations = length (live_list 0 segs), stat_total_allocations = total_allocations state,
     stat_total_deallocations = total_deallocations state,
     stat_failed_allocations = failed_allocations state\<rparr>"
proof -
  have tile: "tiling cap segs" using assms by (simp add: heap_inv_def)
  have "sum_list (map snd (free_list 0 segs)) \<le> U64_MAX"
    using total_used_free [of segs 0] tile by (simp add: tiling_def)
  then have "free_walk mem (free_head state) 0 0 =
      Some (sum_list (map snd (free_list 0 segs)), fold max (map snd (free_list 0 segs)) 0)"
    using free_walk_chain [of mem "free_head state" "free_list 0 segs" 0 0] free_list_starts [OF tile] assms
    by (auto simp: heap_inv_def)
  then show ?thesis
    using assms by (simp add: region_stats_def heap_inv_def)
qed

lemma no_live_single:
  assumes "tiling cap segs" and "live_list 0 segs = []"
  shows "segs = [] \<and> cap = 0 \<or> segs = [Free cap]"
proof (cases segs)
  case (Cons s rest)
  have free: "live_list pos xs = [] \<Longrightarrow> \<forall>x\<in>set xs. is_free x" for pos xs
    by (induction pos xs rule: live_list.induct) auto
  have all: "\<forall>x\<in>set segs. is_free x" using free assms(2) by blast
  then have "rest = []"
    using assms(1) Cons by (cases rest) (auto simp: tiling_def)
  then show ?thesis
    using assms(1) Cons all by (cases s) (auto simp: tiling_def)
qed (use assms in \<open>simp add: tiling_def\<close>)

lemma free_live_disjoint:
  assumes "(a, n) \<in> set (free_list pos segs)" and "(p, r) \<in> set (live_list pos segs)"
    and "\<forall>s\<in>set segs. wf_seg s"
  shows "p + r \<le> a \<or> a + n \<le> p"
  using assms
proof (induction segs arbitrary: pos)
  case (Cons s segs)
  show ?case
  proof (cases s)
    case (Free m)
    then show ?thesis
      using Cons live_list_bounds [of p r "pos + m" segs] by fastforce
  next
    case (Used m u q)
    then show ?thesis
      using Cons free_list_bounds(1) [of a n "pos + m" segs] by fastforce
  qed
qed simp

lemma header_cells_live:
  assumes "a \<in> header_cells pos segs" and "(p, r) \<in> set (live_list pos segs)" and "\<forall>s\<in>set segs. wf_seg s"
  shows "a + 8 \<le> p \<or> p + r \<le> a"
  using assms
proof (induction segs arbitrary: pos)
  case (Cons s segs)
  show ?case
  proof (cases s)
    case (Free m)
    then show ?thesis using Cons by auto
  next
    case (Used m u q)
    show ?thesis
      using Cons.prems Used Cons.IH [of "pos + m"]
        live_list_bounds [of p r "pos + m" segs] header_cells_bounds [of a "pos + m" segs] by fastforce
  qed
qed simp

lemma abs_alloc_inside:
  assumes "abs_alloc req (2 ^ k) pos segs = Some (us, segs')" and "k < 64"
  shows "\<exists>(a, n)\<in>set (free_list pos segs). a + 32 \<le> us \<and> us + req \<le> a + n"
  using assms(1)
proof (induction segs arbitrary: pos segs')
  case (Cons s rest)
  then show ?case
    by (cases s) (auto simp: abs_alloc_Free dest: align_up_Some(1) [OF _ assms(2)]
      split: option.splits if_splits)
qed simp

lemma spec_alloc_live:
  assumes "tiling cap segs" and "valid_layout layout" and "spec_alloc layout segs = Some (us, segs')"
  shows "set (live_list 0 segs') = insert (us, request layout) (set (live_list 0 segs))"
    and "layout_align layout dvd us" and "(us, request layout) \<notin> set (live_list 0 segs)"
    and "us + request layout \<le> cap" and "32 \<le> us"
proof -
  obtain k where k: "max (layout_align layout) 8 = 2 ^ k" "k < 64" "3 \<le> k" "layout_align layout dvd 2 ^ k"
    using max_align_pow2 [OF assms(2)] by blast
  have run: "abs_alloc (request layout) (2 ^ k) 0 segs = Some (us, segs')"
    using assms(3) k(1) by (simp add: spec_alloc_def)
  have req: "1 \<le> request layout" by (simp add: request_def)
  have wf: "\<forall>s\<in>set segs. wf_seg s" using assms(1) by (simp add: tiling_def)
  from abs_alloc_live [OF run k(2,3) req wf]
  show "set (live_list 0 segs') = insert (us, request layout) (set (live_list 0 segs))"
    and "layout_align layout dvd us" using k(4) by (auto intro: dvd_trans)
  from abs_alloc_inside [OF run k(2)] obtain a n where
    a: "(a, n) \<in> set (free_list 0 segs)" "a + 32 \<le> us" "us + request layout \<le> a + n" by auto
  then show "(us, request layout) \<notin> set (live_list 0 segs)"
    using free_live_disjoint [OF a(1) _ wf, of us "request layout"] req by auto
  show "us + request layout \<le> cap" "32 \<le> us"
    using a free_list_starts [OF assms(1)] by auto
qed

text \<open>A heap of 256 bytes with one live allocation of 24 bytes at offset 32.\<close>

definition sample_segs :: "seg list" where
  "sample_segs = [Used 56 32 24, Free 200]"

definition sample_state :: AllocatorState where
  "sample_state = \<lparr>initialized = True, free_head = 56, used_bytes = 56, peak_used_bytes = 56,
    live_allocations = 1, total_allocations = 1, total_deallocations = 0, failed_allocations = 0\<rparr>"

definition sample_mem :: heap_mem where
  "sample_mem = (\<lambda>_. 0)(0 := ALLOCATION_MAGIC, 8 := 0, 16 := 56, 24 := 24, 56 := 200, 64 := FREE_LIST_END)"

lemma sample_heap_inv: "heap_inv 256 sample_state sample_mem sample_segs"
  by (simp add: heap_inv_def tiling_def sample_state_def sample_mem_def sample_segs_def header_at_def U64_MAX_numeral)

definition sample_layout :: Layout where
  "sample_layout = \<lparr>layout_size = 40, layout_align = 16\<rparr>"

lemma valid_layoutI: "layout_align layout = 2 ^ k \<Longrightarrow> k < 64 \<Longrightarrow> valid_layout layout"
  by (auto simp: valid_layout_def)

lemma sample_layout_valid: "valid_layout sample_layout"
  by (rule valid_layoutI [of _ 4]) (simp_all add: sample_layout_def)

text \<open>
  The segment list is specification state carried beside the heap: \<open>spec_alloc\<close> and \<open>spec_free\<close>
  update it, the heap itself runs the code.
\<close>

fun locate :: "nat \<Rightarrow> nat \<Rightarrow> seg list \<Rightarrow> seg list \<Rightarrow> (seg list \<times> nat \<times> seg list) option" where
  "locate off pos pre [] = None"
| "locate off pos pre (Free n # rest) = locate off (pos + n) (pre @ [Free n]) rest"
| "locate off pos pre (Used n u r # rest) =
    (if off = pos + u then Some (pre, n, rest) else locate off (pos + n) (pre @ [Used n u r]) rest)"

definition spec_free :: "nat \<Rightarrow> seg list \<Rightarrow> seg list" where
  "spec_free off segs = (case locate off 0 [] segs of None \<Rightarrow> segs | Some (pre, n, suf) \<Rightarrow> abs_free pre n suf)"

definition spec_alloc_segs :: "Layout \<Rightarrow> seg list \<Rightarrow> seg list" where
  "spec_alloc_segs layout segs = (case spec_alloc layout segs of None \<Rightarrow> segs | Some (us, segs') \<Rightarrow> segs')"

lemma locate_used:
  "\<forall>s\<in>set pre. wf_seg s \<Longrightarrow> 32 \<le> u \<Longrightarrow>
    locate (pos + total_size pre + u) pos acc (pre @ Used n u r # suf) = Some (acc @ pre, n, suf)"
proof (induction pre arbitrary: pos acc)
  case (Cons s pre)
  then show ?case
    using Cons.IH [of "pos + seg_size s" "acc @ [s]"] by (cases s) (auto simp: add.assoc)
qed simp

lemma spec_free_used:
  assumes "tiling cap (pre @ Used n u r # suf)"
  shows "spec_free (total_size pre + u) (pre @ Used n u r # suf) = abs_free pre n suf"
  using locate_used [of pre u 0 "[]" n r suf] used_seg_bounds [OF assms] by (simp add: spec_free_def)

lemma region_dealloc:
  assumes inv: "heap_inv cap state mem segs" and base: "base + cap \<le> U64_MAX"
    and live: "(p, r) \<in> set (live_list 0 segs)"
  shows "\<exists>state' mem'. deallocate_into_region state mem base cap (base + p) = Some (state', mem')
    \<and> heap_inv cap state' mem' (spec_free p segs)
    \<and> set (live_list 0 (spec_free p segs)) = set (live_list 0 segs) - {(p, r)}"
proof -
  obtain pre n u suf where segs: "segs = pre @ Used n u r # suf" and p: "p = total_size pre + u"
    using live_list_split [OF live] by auto
  have tile: "tiling cap (pre @ Used n u r # suf)" using inv by (simp add: heap_inv_def segs)
  have "distinct (live_list 0 segs)"
    using live_list_sorted [of segs 0] tile by (auto simp: segs tiling_def intro: sorted_wrt_distinct)
  then have "set (live_list 0 (abs_free pre n suf)) = set (live_list 0 segs) - {(p, r)}"
    by (auto simp: abs_free_props(3) [OF tile] segs heap_simps p)
  then show ?thesis
    using deallocate_refines [OF inv [unfolded segs] base, of "base + p"]
    by (auto simp: p add.assoc segs spec_free_used [OF tile])
qed

lemma region_alloc:
  assumes inv: "heap_inv cap state mem segs" and layout: "valid_layout layout"
  shows "\<exists>res state' mem'. allocate_from_free_list state mem layout = Some (res, state', mem')
    \<and> heap_inv cap state' mem' (spec_alloc_segs layout segs) \<and> (res = None \<longleftrightarrow> spec_alloc layout segs = None)
    \<and> (case res of
         None \<Rightarrow> spec_alloc_segs layout segs = segs
       | Some us \<Rightarrow> (us, request layout) \<notin> set (live_list 0 segs)
           \<and> set (live_list 0 (spec_alloc_segs layout segs)) = insert (us, request layout) (set (live_list 0 segs)))"
proof -
  have tile: "tiling cap segs" using inv by (simp add: heap_inv_def)
  show ?thesis
  proof (cases "spec_alloc layout segs")
    case None
    then show ?thesis using alloc_refines [OF assms] inv by (auto simp: spec_alloc_segs_def)
  next
    case (Some r)
    then obtain us segs' where r: "spec_alloc layout segs = Some (us, segs')" by (cases r) auto
    then show ?thesis
      using alloc_refines [OF assms] spec_alloc_live [OF tile layout r] by (auto simp: spec_alloc_segs_def)
  qed
qed

text \<open>
  C22: on a well-formed region an allocation always returns; it either places a fresh block of the
  requested size at a suitably aligned offset, leaving every other live allocation in place and the
  region well-formed, or changes nothing because no free block can hold the request.
\<close>

theorem heap_alloc_correct:
  assumes "heap_inv cap state mem segs" and "valid_layout layout"
  shows "\<exists>res state' mem'. allocate_from_free_list state mem layout = Some (res, state', mem')
    \<and> (case res of
         None \<Rightarrow> state' = state \<and> mem' = mem
           \<and> (\<forall>(a, n)\<in>set (free_list 0 segs). \<forall>us.
                align_up (a + 32) (max (layout_align layout) 8) = Some us \<longrightarrow> a + n < us + request layout)
       | Some us \<Rightarrow> layout_align layout dvd us \<and> us + request layout \<le> cap
           \<and> (\<exists>segs'. heap_inv cap state' mem' segs'
                \<and> (us, request layout) \<notin> set (live_list 0 segs)
                \<and> set (live_list 0 segs') = insert (us, request layout) (set (live_list 0 segs))))"
proof -
  have tile: "tiling cap segs" using assms(1) by (simp add: heap_inv_def)
  from alloc_refines [OF assms] obtain res state' mem' where
    run: "allocate_from_free_list state mem layout = Some (res, state', mem')" and
    spec: "case spec_alloc layout segs of
         None \<Rightarrow> res = None \<and> state' = state \<and> mem' = mem
       | Some (us, segs') \<Rightarrow> res = Some us \<and> heap_inv cap state' mem' segs'" by blast
  show ?thesis
  proof (cases "spec_alloc layout segs")
    case None
    obtain k where k: "max (layout_align layout) 8 = 2 ^ k" "k < 64"
      using max_align_pow2 [OF assms(2)] by blast
    have "\<forall>us. align_up (a + 32) (2 ^ k) = Some us \<longrightarrow> a + n < us + request layout"
      if "(a, n) \<in> set (free_list 0 segs)" for a n
      using abs_alloc_None [OF _ k(2) that] None tile k(1) by (simp add: spec_alloc_def tiling_def)
    then show ?thesis using run spec None k(1) by auto
  next
    case (Some r)
    then obtain us segs' where r: "spec_alloc layout segs = Some (us, segs')" by (cases r) auto
    show ?thesis using run spec r spec_alloc_live [OF tile assms(2) r] by auto
  qed
qed

theorem heap_alloc_correct_witness:
  "\<exists>res state' mem'. allocate_from_free_list sample_state sample_mem sample_layout = Some (res, state', mem')"
  using heap_alloc_correct [OF sample_heap_inv sample_layout_valid] by blast

text \<open>
  C23: freeing a live allocation always returns, removes exactly that allocation and keeps the region
  well-formed, so the free list stays address ordered with no two adjacent free blocks.
\<close>

theorem heap_dealloc_correct:
  assumes inv: "heap_inv cap state mem segs" and base: "base + cap \<le> U64_MAX"
    and live: "(p, r) \<in> set (live_list 0 segs)"
  shows "\<exists>state' mem' segs'. deallocate_into_region state mem base cap (base + p) = Some (state', mem')
    \<and> heap_inv cap state' mem' segs'
    \<and> set (live_list 0 segs') = set (live_list 0 segs) - {(p, r)}"
  using region_dealloc [OF assms] by blast

theorem heap_dealloc_correct_witness:
  "\<exists>state' mem' segs'. deallocate_into_region sample_state sample_mem 4096 256 (4096 + 32) = Some (state', mem')
    \<and> heap_inv 256 state' mem' segs' \<and> set (live_list 0 segs') = {}"
  using heap_dealloc_correct [OF sample_heap_inv, of 4096 32 24]
  by (simp add: sample_segs_def U64_MAX_numeral)

text \<open>
  clients may write anything into the payload of a live allocation: the free list, the headers
  and the accounting of the region are untouched by it.
\<close>

theorem heap_payload_writes:
  assumes inv: "heap_inv cap state mem segs" and live: "(p, r) \<in> set (live_list 0 segs)"
    and writes: "\<And>a. mem' a \<noteq> mem a \<Longrightarrow> p < a + 8 \<and> a < p + r"
  shows "heap_inv cap state mem' segs"
proof -
  have wf: "\<forall>s\<in>set segs. wf_seg s" using inv by (simp add: heap_inv_def tiling_def)
  have "mem' a = mem a \<and> mem' (a + 8) = mem (a + 8)" if "(a, n) \<in> set (free_list 0 segs)" for a n
    using free_live_disjoint [OF that live wf] free_list_bounds(3) [OF that wf] writes [of a] writes [of "a + 8"]
    by fastforce
  then have "chain mem' h (free_list 0 segs) t = chain mem h (free_list 0 segs) t" for h t
    by (intro chain_cong) auto
  moreover have "mem' a = mem a" if "a \<in> header_cells 0 segs" for a
    using header_cells_live [OF that live wf] writes [of a] by fastforce
  then have "headers mem' 0 segs = headers mem 0 segs"
    by (intro headers_cong) auto
  ultimately show ?thesis using inv by (simp add: heap_inv_def)
qed

theorem heap_payload_writes_witness:
  "heap_inv 256 sample_state (sample_mem(40 := 123456)) sample_segs"
  by (rule heap_payload_writes [OF sample_heap_inv, of 32 24])
    (auto simp: sample_segs_def split: if_splits)

text \<open>
  the statistics account for every byte of the region: used and free bytes add up to the
  capacity, and no free block is larger than the reported largest one.
\<close>

theorem heap_stats_account:
  assumes "heap_inv cap state mem segs"
  shows "\<exists>s. region_stats state mem cap = Some s \<and> stat_used_bytes s + free_bytes s = cap
    \<and> stat_live_allocations s = length (live_list 0 segs)
    \<and> (\<forall>(a, n)\<in>set (free_list 0 segs). n \<le> largest_free_block s)
    \<and> largest_free_block s \<le> free_bytes s"
proof -
  define sizes where "sizes = map snd (free_list 0 segs)"
  have max: "fold max sizes 0 = Max (set (0 # sizes))"
    by (rule Max.set_eq_fold [symmetric])
  have "n \<le> fold max sizes 0" if "(a, n) \<in> set (free_list 0 segs)" for a n
    unfolding max by (rule Max_ge) (use that in \<open>force simp: sizes_def\<close>)+
  moreover have "fold max sizes 0 \<le> sum_list sizes"
    unfolding max by (auto intro: member_le_sum_list)
  moreover have "used_total segs + sum_list sizes = cap"
    using total_used_free [of segs 0] assms by (simp add: sizes_def heap_inv_def tiling_def)
  ultimately show ?thesis
    by (auto simp: region_stats_inv [OF assms] simp flip: sizes_def)
qed

theorem heap_stats_account_witness:
  "\<exists>s. region_stats sample_state sample_mem 256 = Some s \<and> stat_used_bytes s + free_bytes s = 256"
  using heap_stats_account [OF sample_heap_inv] by blast

text \<open>
  freed memory is fully coalesced: once no allocation is live, the whole capacity is one free
  block again.
\<close>

theorem heap_fully_coalesced:
  assumes "heap_inv cap state mem segs" and "live_list 0 segs = []"
  shows "\<exists>s. region_stats state mem cap = Some s \<and> largest_free_block s = cap \<and> free_bytes s = cap
    \<and> stat_used_bytes s = 0"
proof -
  have "segs = [] \<and> cap = 0 \<or> segs = [Free cap]"
    by (rule no_live_single) (use assms in \<open>auto simp: heap_inv_def\<close>)
  then show ?thesis by (auto simp: region_stats_inv [OF assms(1)])
qed

lemma initialize_inv:
  assumes "\<not> initialized state" "used_bytes state = 0" "live_allocations state = 0"
    and "16 \<le> cap" "8 dvd cap" "cap \<le> U64_MAX"
  shows "heap_inv cap (fst (initialize state mem cap)) (snd (initialize state mem cap)) [Free cap]"
  using assms by (simp add: initialize_def heap_inv_def tiling_def write_free_block_def)

theorem heap_fully_coalesced_witness:
  "\<exists>s. region_stats (fst (initialize AllocatorState_new (\<lambda>_. 0) 4096)) (snd (initialize AllocatorState_new (\<lambda>_. 0) 4096)) 4096
      = Some s \<and> largest_free_block s = 4096"
  using heap_fully_coalesced [OF initialize_inv [of AllocatorState_new 4096 "\<lambda>_. 0"]]
  by (auto simp: AllocatorState_new_def U64_MAX_numeral)

text \<open>
  freeing the same pointer again right after it was freed is ignored: the header no longer
  carries the allocation magic, wherever the free block's own words were written over it.
\<close>

theorem heap_double_free_ignored:
  assumes inv: "heap_inv cap state mem segs" and base: "base + cap \<le> U64_MAX"
    and live: "(p, r) \<in> set (live_list 0 segs)" and small: "cap < ALLOCATION_MAGIC"
    and first: "deallocate_into_region state mem base cap (base + p) = Some (state', mem')"
  shows "deallocate_into_region state' mem' base cap (base + p) = Some (state', mem')"
proof -
  obtain pre n u suf where segs: "segs = pre @ Used n u r # suf" and p: "p = total_size pre + u"
    using live_list_split [OF live] by auto
  from deallocate_refines [OF inv [unfolded segs] base, of "base + p"] first
  have "mem' (p - 32) \<in> {0..cap} \<union> {FREE_LIST_END}" by (auto simp: p add.assoc)
  then have "mem' (p - 32) \<noteq> ALLOCATION_MAGIC"
    using small by (auto simp: FREE_LIST_END_def U64_MAX_numeral ALLOCATION_MAGIC_def)
  moreover have "base + p - 32 - base = p - 32" by simp
  ultimately show ?thesis
    by (simp add: deallocate_into_region_def read_header_def Let_def split: option.split)
qed

theorem heap_double_free_ignored_witness:
  "\<exists>state' mem'. deallocate_into_region sample_state sample_mem 4096 256 4128 = Some (state', mem')
    \<and> deallocate_into_region state' mem' 4096 256 4128 = Some (state', mem')"
proof -
  obtain state' mem' where "deallocate_into_region sample_state sample_mem 4096 256 4128 = Some (state', mem')"
    using deallocate_refines [of 256 sample_state sample_mem "[]" 56 32 24 "[Free 200]" 4096 4128] sample_heap_inv
    by (auto simp: sample_segs_def U64_MAX_numeral)
  then show ?thesis
    using heap_double_free_ignored [OF sample_heap_inv, of 4096 32 24 state' mem']
    by (auto simp: sample_segs_def U64_MAX_numeral ALLOCATION_MAGIC_def)
qed

section \<open>The contract of a global allocator\<close>

text \<open>
  \<open>alloc\<close> returns the pointer (0 for a null pointer) and the new heap, \<open>dealloc\<close> the new heap;
  \<open>None\<close> is a call that does not return. \<open>live\<close> is the set of live payloads.
\<close>

definition alloc_effect :: "('s \<Rightarrow> (nat \<times> nat) set) \<Rightarrow> 's \<Rightarrow> Layout \<Rightarrow> nat \<Rightarrow> 's \<Rightarrow> bool" where
  "alloc_effect live s l p s' \<longleftrightarrow>
    (if p = 0 then live s' = live s
     else (p, request l) \<notin> live s \<and> live s' = insert (p, request l) (live s))"

locale global_alloc =
  fixes alloc :: "'s \<Rightarrow> Layout \<Rightarrow> (nat \<times> 's) option"
    and dealloc :: "'s \<Rightarrow> nat \<Rightarrow> 's option"
    and ok :: "'s \<Rightarrow> bool"
    and live :: "'s \<Rightarrow> (nat \<times> nat) set"
  assumes alloc_law: "ok s \<Longrightarrow> valid_layout l \<Longrightarrow> \<exists>p s'. alloc s l = Some (p, s') \<and> ok s'
      \<and> alloc_effect live s l p s'"
    and dealloc_law: "ok s \<Longrightarrow> (p, r) \<in> live s \<Longrightarrow> \<exists>s'. dealloc s p = Some s' \<and> ok s' \<and> live s' = live s - {(p, r)}"
    and dealloc_null: "dealloc s 0 = Some s"
    and live_disjoint: "ok s \<Longrightarrow> x \<in> live s \<Longrightarrow> y \<in> live s \<Longrightarrow> x \<noteq> y
      \<Longrightarrow> fst x + snd x \<le> fst y \<or> fst y + snd y \<le> fst x"
    and live_nonempty: "ok s \<Longrightarrow> (p, r) \<in> live s \<Longrightarrow> p \<noteq> 0 \<and> 0 < r"
begin

lemma fresh_disjoint:
  assumes "ok s" and "valid_layout l" and "alloc s l = Some (p, s')" and "p \<noteq> 0" and "(q, r) \<in> live s"
  shows "p + request l \<le> q \<or> q + r \<le> p"
  using alloc_law [OF assms(1,2)] live_disjoint [of s' "(p, request l)" "(q, r)"] assms
  by (auto simp: alloc_effect_def)

lemma alloc_then_dealloc:
  assumes "ok s" and "valid_layout l" and "alloc s l = Some (p, s')" and "p \<noteq> 0"
  shows "\<exists>s''. dealloc s' p = Some s'' \<and> ok s'' \<and> live s'' = live s"
  using alloc_law [OF assms(1,2)] dealloc_law [of s' p "request l"] assms
  by (auto simp: alloc_effect_def)

end

text \<open>
  A client program: any sequence of allocations with valid layouts and deallocations of live
  pointers.
\<close>

inductive client_run :: "('s \<Rightarrow> Layout \<Rightarrow> (nat \<times> 's) option) \<Rightarrow> ('s \<Rightarrow> nat \<Rightarrow> 's option) \<Rightarrow> ('s \<Rightarrow> (nat \<times> nat) set)
    \<Rightarrow> 's \<Rightarrow> 's \<Rightarrow> bool"
  for alloc dealloc live where
  start: "client_run alloc dealloc live s s"
| alloc_step: "client_run alloc dealloc live s t \<Longrightarrow> valid_layout l \<Longrightarrow> alloc t l = Some (p, t')
    \<Longrightarrow> client_run alloc dealloc live s t'"
| dealloc_step: "client_run alloc dealloc live s t \<Longrightarrow> (p, r) \<in> live t \<Longrightarrow> dealloc t p = Some t'
    \<Longrightarrow> client_run alloc dealloc live s t'"

context global_alloc
begin

lemma run_ok: "client_run alloc dealloc live s t \<Longrightarrow> ok s \<Longrightarrow> ok t"
proof (induction rule: client_run.induct)
  case (alloc_step s t l p t')
  then show ?case using alloc_law [of t l] by auto
next
  case (dealloc_step s t p r t')
  then show ?case using dealloc_law [of t p r] by auto
qed simp

lemma run_progress:
  assumes "client_run alloc dealloc live s t" and "ok s"
  shows "valid_layout l \<Longrightarrow> \<exists>p t'. alloc t l = Some (p, t')"
    and "(p, r) \<in> live t \<Longrightarrow> \<exists>t'. dealloc t p = Some t'"
  using alloc_law [OF run_ok [OF assms]] dealloc_law [OF run_ok [OF assms]] by blast+

lemma run_disjoint:
  assumes "client_run alloc dealloc live s t" and "ok s" and "x \<in> live t" and "y \<in> live t" and "x \<noteq> y"
  shows "fst x + snd x \<le> fst y \<or> fst y + snd y \<le> fst x"
  using live_disjoint [OF run_ok [OF assms(1,2)] assms(3-5)] .

end

section \<open>The two heaps with their segments\<close>

definition region_ok :: "nat \<Rightarrow> AllocatorState \<Rightarrow> heap_mem \<Rightarrow> seg list \<Rightarrow> bool" where
  "region_ok cap state mem segs \<longleftrightarrow>
    (if initialized state then heap_inv cap state mem segs
     else segs = [Free cap] \<and> used_bytes state = 0 \<and> live_allocations state = 0
       \<and> 16 \<le> cap \<and> 8 dvd cap \<and> cap \<le> U64_MAX)"

lemma region_ok_initialize:
  "region_ok cap state mem segs \<Longrightarrow>
    heap_inv cap (fst (initialize state mem cap)) (snd (initialize state mem cap)) segs"
  using initialize_inv [of state cap mem] by (auto simp: region_ok_def initialize_def split: if_splits)

lemma heap_inv_region_ok: "heap_inv cap state mem segs \<Longrightarrow> region_ok cap state mem segs"
  by (simp add: region_ok_def heap_inv_def)

lemma heap_inv_failed [simp]:
  "heap_inv cap (state\<lparr>failed_allocations := f\<rparr>) mem segs = heap_inv cap state mem segs"
  by (simp add: heap_inv_def)

definition payloads :: "nat \<Rightarrow> seg list \<Rightarrow> (nat \<times> nat) set" where
  "payloads base segs = (\<lambda>(p, r). (base + p, r)) ` set (live_list 0 segs)"

lemma payloads_iff: "(a, r) \<in> payloads base segs \<longleftrightarrow> (\<exists>p. a = base + p \<and> (p, r) \<in> set (live_list 0 segs))"
  by (auto simp: payloads_def)

lemma region_ok_wf: "region_ok cap state mem segs \<Longrightarrow> tiling cap segs"
  by (auto simp: region_ok_def heap_inv_def tiling_def split: if_splits)

lemma payloads_bounds:
  assumes "tiling cap segs" and "(a, r) \<in> payloads base segs"
  shows "base + 32 \<le> a \<and> 1 \<le> r \<and> a + r \<le> base + cap"
  using assms live_list_bounds [of _ r 0 segs] by (fastforce simp: payloads_iff tiling_def)

lemma payloads_disjoint:
  assumes "tiling cap segs" and "x \<in> payloads base segs" and "y \<in> payloads base segs" and "x \<noteq> y"
  shows "fst x + snd x \<le> fst y \<or> fst y + snd y \<le> fst x"
  using assms live_list_disjoint [of segs _ 0] by (fastforce simp: payloads_def tiling_def)

definition reclaiming_ok :: "ReclaimingHeap \<times> seg list \<Rightarrow> bool" where
  "reclaiming_ok = (\<lambda>(heap, segs). 0 < rh_base heap \<and> rh_base heap + rh_capacity heap \<le> U64_MAX
    \<and> region_ok (rh_capacity heap) (rh_state heap) (rh_mem heap) segs)"

definition reclaiming_live :: "ReclaimingHeap \<times> seg list \<Rightarrow> (nat \<times> nat) set" where
  "reclaiming_live = (\<lambda>(heap, segs). payloads (rh_base heap) segs)"

definition reclaiming_alloc :: "ReclaimingHeap \<times> seg list \<Rightarrow> Layout \<Rightarrow> (nat \<times> ReclaimingHeap \<times> seg list) option" where
  "reclaiming_alloc = (\<lambda>(heap, segs) layout.
    map_option (\<lambda>(p, heap'). (p, heap', spec_alloc_segs layout segs)) (ReclaimingHeap_alloc heap layout))"

definition reclaiming_dealloc :: "ReclaimingHeap \<times> seg list \<Rightarrow> nat \<Rightarrow> (ReclaimingHeap \<times> seg list) option" where
  "reclaiming_dealloc = (\<lambda>(heap, segs) p.
    map_option (\<lambda>heap'. (heap', if p = 0 then segs else spec_free (p - rh_base heap) segs))
      (ReclaimingHeap_dealloc heap p))"

lemma reclaiming_alloc_step:
  assumes "reclaiming_ok (heap, segs)" and "valid_layout l"
  shows "\<exists>p heap'. ReclaimingHeap_alloc heap l = Some (p, heap') \<and> reclaiming_ok (heap', spec_alloc_segs l segs)
    \<and> rh_base heap' = rh_base heap \<and> rh_capacity heap' = rh_capacity heap
    \<and> (if p = 0 then spec_alloc_segs l segs = segs
       else (p, request l) \<notin> payloads (rh_base heap) segs
         \<and> payloads (rh_base heap) (spec_alloc_segs l segs) = insert (p, request l) (payloads (rh_base heap) segs))"
proof -
  obtain state mem where init: "initialize (rh_state heap) (rh_mem heap) (rh_capacity heap) = (state, mem)"
    by fastforce
  have "heap_inv (rh_capacity heap) state mem segs"
    using region_ok_initialize [of "rh_capacity heap" "rh_state heap" "rh_mem heap" segs] assms(1) init
    by (simp add: reclaiming_ok_def)
  from region_alloc [OF this assms(2)] obtain res state' mem' where
    run: "allocate_from_free_list state mem l = Some (res, state', mem')"
    and inv: "heap_inv (rh_capacity heap) state' mem' (spec_alloc_segs l segs)"
    and res: "case res of
         None \<Rightarrow> spec_alloc_segs l segs = segs
       | Some us \<Rightarrow> (us, request l) \<notin> set (live_list 0 segs)
           \<and> set (live_list 0 (spec_alloc_segs l segs)) = insert (us, request l) (set (live_list 0 segs))"
    by blast
  have ok': "reclaiming_ok (heap\<lparr>rh_state := state'\<lparr>failed_allocations := f\<rparr>, rh_mem := mem'\<rparr>, spec_alloc_segs l segs)"
    "reclaiming_ok (heap\<lparr>rh_state := state', rh_mem := mem'\<rparr>, spec_alloc_segs l segs)" for f
    using assms(1) inv by (auto simp: reclaiming_ok_def intro!: heap_inv_region_ok)
  show ?thesis
  proof (cases res)
    case None
    then show ?thesis
      using run ok' res by (simp add: ReclaimingHeap_alloc_def init)
  next
    case (Some us)
    then have "ReclaimingHeap_alloc heap l = Some (rh_base heap + us, heap\<lparr>rh_state := state', rh_mem := mem'\<rparr>)"
      using run by (simp add: ReclaimingHeap_alloc_def init)
    then show ?thesis
      using ok' res Some assms(1) by (auto simp: payloads_def reclaiming_ok_def)
  qed
qed

lemma reclaiming_dealloc_step:
  assumes ok: "reclaiming_ok (heap, segs)" and live: "(p, r) \<in> payloads (rh_base heap) segs"
  shows "\<exists>heap'. ReclaimingHeap_dealloc heap p = Some heap' \<and> reclaiming_ok (heap', spec_free (p - rh_base heap) segs)
    \<and> rh_base heap' = rh_base heap \<and> rh_capacity heap' = rh_capacity heap
    \<and> payloads (rh_base heap) (spec_free (p - rh_base heap) segs) = payloads (rh_base heap) segs - {(p, r)}"
proof -
  obtain q where q: "p = rh_base heap + q" "(q, r) \<in> set (live_list 0 segs)"
    using live by (auto simp: payloads_iff)
  have "initialized (rh_state heap)"
    using ok q(2) by (auto simp: reclaiming_ok_def region_ok_def split: if_splits)
  then have inv: "heap_inv (rh_capacity heap) (rh_state heap) (rh_mem heap) segs"
    and base: "rh_base heap + rh_capacity heap \<le> U64_MAX" "0 < rh_base heap"
    using ok by (auto simp: reclaiming_ok_def region_ok_def)
  from region_dealloc [OF inv base(1) q(2)] show ?thesis
    using base by (auto simp: ReclaimingHeap_dealloc_def q(1) reclaiming_ok_def payloads_def
      intro!: heap_inv_region_ok)
qed

interpretation reclaiming: global_alloc reclaiming_alloc reclaiming_dealloc reclaiming_ok reclaiming_live
proof (unfold_locales, goal_cases)
  case (1 s l)
  then show ?case
    using reclaiming_alloc_step [of "fst s" "snd s" l]
    by (auto simp: reclaiming_alloc_def reclaiming_live_def alloc_effect_def split: prod.splits if_splits)
next
  case (2 s p r)
  then have "p \<noteq> 0"
    by (auto simp: reclaiming_ok_def reclaiming_live_def payloads_iff split: prod.splits)
  then show ?case
    using 2 reclaiming_dealloc_step [of "fst s" "snd s" p r]
    by (auto simp: reclaiming_dealloc_def reclaiming_live_def split: prod.splits)
next
  case (3 s)
  then show ?case by (auto simp: reclaiming_dealloc_def ReclaimingHeap_dealloc_def split: prod.splits)
next
  case (4 s x y)
  then show ?case
    using payloads_disjoint [OF region_ok_wf, of _ _ _ _ x _ y]
    by (fastforce simp: reclaiming_ok_def reclaiming_live_def split: prod.splits)
next
  case (5 s p r)
  then show ?case
    using payloads_bounds [OF region_ok_wf, of _ _ _ _ p r]
    by (fastforce simp: reclaiming_ok_def reclaiming_live_def split: prod.splits)
qed

type_synonym expandable = "ExpandableHeap \<times> seg list \<times> seg list"

definition ranges_apart :: "ExpandableHeap \<Rightarrow> bool" where
  "ranges_apart heap \<longleftrightarrow> external_base heap + external_capacity heap \<le> rh_base (bootstrap heap)
    \<or> rh_base (bootstrap heap) + rh_capacity (bootstrap heap) \<le> external_base heap"

definition expandable_ok :: "expandable \<Rightarrow> bool" where
  "expandable_ok = (\<lambda>(heap, bsegs, xsegs). reclaiming_ok (bootstrap heap, bsegs)
    \<and> (if external_base heap = 0
       then xsegs = [] \<and> \<not> initialized (external_state heap) \<and> used_bytes (external_state heap) = 0
         \<and> live_allocations (external_state heap) = 0
       else external_base heap + external_capacity heap \<le> U64_MAX \<and> ranges_apart heap
         \<and> heap_inv (external_capacity heap) (external_state heap) (external_mem heap) xsegs))"

definition expandable_live :: "expandable \<Rightarrow> (nat \<times> nat) set" where
  "expandable_live = (\<lambda>(heap, bsegs, xsegs).
    payloads (rh_base (bootstrap heap)) bsegs \<union> payloads (external_base heap) xsegs)"

text \<open>Which region serves a call is read off the code's own conditions.\<close>

definition expandable_alloc :: "expandable \<Rightarrow> Layout \<Rightarrow> (nat \<times> expandable) option" where
  "expandable_alloc = (\<lambda>(heap, bsegs, xsegs) layout.
    map_option (\<lambda>(p, heap'). (p, heap',
        if external_base heap \<noteq> 0 \<and> spec_alloc layout xsegs \<noteq> None
        then (bsegs, spec_alloc_segs layout xsegs) else (spec_alloc_segs layout bsegs, xsegs)))
      (ExpandableHeap_alloc heap layout))"

definition in_external :: "ExpandableHeap \<Rightarrow> nat \<Rightarrow> bool" where
  "in_external heap p \<longleftrightarrow> external_base heap \<noteq> 0 \<and> external_base heap \<le> p
    \<and> p < saturating_add (external_base heap) (external_capacity heap)"

definition expandable_dealloc :: "expandable \<Rightarrow> nat \<Rightarrow> expandable option" where
  "expandable_dealloc = (\<lambda>(heap, bsegs, xsegs) p.
    map_option (\<lambda>heap'. (heap',
        if p = 0 then (bsegs, xsegs)
        else if in_external heap p then (bsegs, spec_free (p - external_base heap) xsegs)
        else (spec_free (p - rh_base (bootstrap heap)) bsegs, xsegs)))
      (ExpandableHeap_dealloc heap p))"

lemma expandable_bounds:
  assumes "expandable_ok (heap, bsegs, xsegs)"
  shows "(a, r) \<in> payloads (rh_base (bootstrap heap)) bsegs \<Longrightarrow>
      rh_base (bootstrap heap) + 32 \<le> a \<and> 1 \<le> r \<and> a + r \<le> rh_base (bootstrap heap) + rh_capacity (bootstrap heap)"
    and "(a, r) \<in> payloads (external_base heap) xsegs \<Longrightarrow> external_base heap \<noteq> 0
      \<and> external_base heap + 32 \<le> a \<and> 1 \<le> r \<and> a + r \<le> external_base heap + external_capacity heap"
proof -
  have "tiling (rh_capacity (bootstrap heap)) bsegs"
    using assms by (auto simp: expandable_ok_def reclaiming_ok_def intro: region_ok_wf)
  then show "(a, r) \<in> payloads (rh_base (bootstrap heap)) bsegs \<Longrightarrow>
      rh_base (bootstrap heap) + 32 \<le> a \<and> 1 \<le> r \<and> a + r \<le> rh_base (bootstrap heap) + rh_capacity (bootstrap heap)"
    using payloads_bounds by blast
  show "external_base heap \<noteq> 0 \<and> external_base heap + 32 \<le> a \<and> 1 \<le> r
    \<and> a + r \<le> external_base heap + external_capacity heap" if "(a, r) \<in> payloads (external_base heap) xsegs"
  proof -
    have "external_base heap \<noteq> 0"
      using assms that by (auto simp: expandable_ok_def payloads_def split: if_splits)
    moreover from this have "tiling (external_capacity heap) xsegs"
      using assms by (auto simp: expandable_ok_def heap_inv_def)
    ultimately show ?thesis using payloads_bounds that by blast
  qed
qed

lemma expandable_apart:
  assumes "expandable_ok (heap, bsegs, xsegs)"
    and "(a, r) \<in> payloads (rh_base (bootstrap heap)) bsegs" and "(b, t) \<in> payloads (external_base heap) xsegs"
  shows "a + r \<le> b \<or> b + t \<le> a"
proof -
  have "ranges_apart heap"
    using assms(1) expandable_bounds(2) [OF assms(1,3)] by (auto simp: expandable_ok_def split: if_splits)
  then show ?thesis
    using expandable_bounds(1) [OF assms(1,2)] expandable_bounds(2) [OF assms(1,3)]
    by (auto simp: ranges_apart_def)
qed

lemma expandable_bootstrap_ok:
  assumes "expandable_ok (heap, bsegs, xsegs)" and "reclaiming_ok (boot', bsegs')"
    and "rh_base boot' = rh_base (bootstrap heap)" and "rh_capacity boot' = rh_capacity (bootstrap heap)"
  shows "expandable_ok (heap\<lparr>bootstrap := boot'\<rparr>, bsegs', xsegs)"
  using assms by (auto simp: expandable_ok_def ranges_apart_def)

lemma expandable_bootstrap_alloc:
  assumes ok: "expandable_ok (heap, bsegs, xsegs)" and layout: "valid_layout l"
  shows "\<exists>p boot'. ReclaimingHeap_alloc (bootstrap heap) l = Some (p, boot')
    \<and> expandable_ok (heap\<lparr>bootstrap := boot'\<rparr>, spec_alloc_segs l bsegs, xsegs)
    \<and> alloc_effect expandable_live (heap, bsegs, xsegs) l p (heap\<lparr>bootstrap := boot'\<rparr>, spec_alloc_segs l bsegs, xsegs)"
proof -
  have "reclaiming_ok (bootstrap heap, bsegs)" using ok by (simp add: expandable_ok_def)
  from reclaiming_alloc_step [OF this layout] obtain p boot' where
    step: "ReclaimingHeap_alloc (bootstrap heap) l = Some (p, boot')"
      "reclaiming_ok (boot', spec_alloc_segs l bsegs)" "rh_base boot' = rh_base (bootstrap heap)"
      "rh_capacity boot' = rh_capacity (bootstrap heap)"
      "if p = 0 then spec_alloc_segs l bsegs = bsegs
       else (p, request l) \<notin> payloads (rh_base (bootstrap heap)) bsegs
         \<and> payloads (rh_base (bootstrap heap)) (spec_alloc_segs l bsegs)
           = insert (p, request l) (payloads (rh_base (bootstrap heap)) bsegs)" by blast
  note ok' = expandable_bootstrap_ok [OF ok step(2-4)]
  have "(p, request l) \<notin> payloads (external_base heap) xsegs" if "p \<noteq> 0"
    using expandable_apart [OF ok', of p "request l" p "request l"] that step(3,5)
    by (auto simp: request_def)
  then show ?thesis
    using step ok' by (auto simp: expandable_live_def alloc_effect_def split: if_splits)
qed

lemma expandable_alloc_step:
  assumes ok: "expandable_ok (heap, bsegs, xsegs)" and layout: "valid_layout l"
  shows "\<exists>p s'. expandable_alloc (heap, bsegs, xsegs) l = Some (p, s') \<and> expandable_ok s'
    \<and> alloc_effect expandable_live (heap, bsegs, xsegs) l p s'"
proof (cases "external_base heap = 0")
  case True
  then show ?thesis
    using expandable_bootstrap_alloc [OF assms]
    by (auto simp: expandable_alloc_def ExpandableHeap_alloc_def Let_def)
next
  case False
  then have xinv: "heap_inv (external_capacity heap) (external_state heap) (external_mem heap) xsegs"
    using ok by (simp add: expandable_ok_def)
  from region_alloc [OF xinv layout] obtain res state' mem' where
    run: "allocate_from_free_list (external_state heap) (external_mem heap) l = Some (res, state', mem')"
    and inv': "heap_inv (external_capacity heap) state' mem' (spec_alloc_segs l xsegs)"
    and none: "res = None \<longleftrightarrow> spec_alloc l xsegs = None"
    and res: "case res of
         None \<Rightarrow> spec_alloc_segs l xsegs = xsegs
       | Some us \<Rightarrow> (us, request l) \<notin> set (live_list 0 xsegs)
           \<and> set (live_list 0 (spec_alloc_segs l xsegs)) = insert (us, request l) (set (live_list 0 xsegs))"
    by (elim exE conjE) (rule that)
  show ?thesis
  proof (cases res)
    case None
    define heap1 where "heap1 = heap\<lparr>external_state := state'\<lparr>failed_allocations :=
      saturating_add (failed_allocations state') 1\<rparr>, external_mem := mem'\<rparr>"
    have ok1: "expandable_ok (heap1, bsegs, xsegs)"
      using ok inv' None res False by (simp add: expandable_ok_def heap1_def ranges_apart_def)
    have same: "expandable_live (heap1, bsegs, xsegs) = expandable_live (heap, bsegs, xsegs)"
      by (simp add: expandable_live_def heap1_def)
    from expandable_bootstrap_alloc [OF ok1 layout] obtain p boot' where
      boot: "ReclaimingHeap_alloc (bootstrap heap) l = Some (p, boot')"
        "expandable_ok (heap1\<lparr>bootstrap := boot'\<rparr>, spec_alloc_segs l bsegs, xsegs)"
        "alloc_effect expandable_live (heap1, bsegs, xsegs) l p (heap1\<lparr>bootstrap := boot'\<rparr>, spec_alloc_segs l bsegs, xsegs)"
      by (auto simp: heap1_def)
    have "expandable_alloc (heap, bsegs, xsegs) l = Some (p, heap1\<lparr>bootstrap := boot'\<rparr>, spec_alloc_segs l bsegs, xsegs)"
      using False run None none boot(1)
      by (simp add: expandable_alloc_def ExpandableHeap_alloc_def Let_def heap1_def)
    then show ?thesis using boot(2,3) same by (auto simp: alloc_effect_def)
  next
    case (Some us)
    define heap1 where "heap1 = heap\<lparr>external_state := state', external_mem := mem'\<rparr>"
    have ok1: "expandable_ok (heap1, bsegs, spec_alloc_segs l xsegs)"
      using ok inv' False by (simp add: expandable_ok_def heap1_def ranges_apart_def)
    have x: "payloads (external_base heap) (spec_alloc_segs l xsegs)
        = insert (external_base heap + us, request l) (payloads (external_base heap) xsegs)"
      "(external_base heap + us, request l) \<notin> payloads (external_base heap) xsegs"
      using res Some by (auto simp: payloads_def)
    have "(external_base heap + us, request l) \<notin> payloads (rh_base (bootstrap heap)) bsegs"
      using expandable_apart [OF ok1, of "external_base heap + us" "request l" "external_base heap + us" "request l"] x
      by (auto simp: heap1_def request_def)
    then have "alloc_effect expandable_live (heap, bsegs, xsegs) l (external_base heap + us)
        (heap1, bsegs, spec_alloc_segs l xsegs)"
      using x False by (auto simp: alloc_effect_def expandable_live_def heap1_def)
    moreover have "expandable_alloc (heap, bsegs, xsegs) l
        = Some (external_base heap + us, heap1, bsegs, spec_alloc_segs l xsegs)"
      using False run Some none by (simp add: expandable_alloc_def ExpandableHeap_alloc_def Let_def heap1_def)
    ultimately show ?thesis using ok1 by blast
  qed
qed

lemma expandable_dealloc_step:
  assumes ok: "expandable_ok (heap, bsegs, xsegs)" and live: "(p, r) \<in> expandable_live (heap, bsegs, xsegs)"
  shows "\<exists>s'. expandable_dealloc (heap, bsegs, xsegs) p = Some s' \<and> expandable_ok s'
    \<and> expandable_live s' = expandable_live (heap, bsegs, xsegs) - {(p, r)}"
proof (cases "(p, r) \<in> payloads (external_base heap) xsegs")
  case True
  note b = expandable_bounds(2) [OF ok True]
  then have xinv: "heap_inv (external_capacity heap) (external_state heap) (external_mem heap) xsegs"
    and base: "external_base heap + external_capacity heap \<le> U64_MAX"
    using ok by (auto simp: expandable_ok_def)
  have ext: "in_external heap p" "p \<noteq> 0" using b base by (auto simp: in_external_def)
  obtain q where q: "p = external_base heap + q" "(q, r) \<in> set (live_list 0 xsegs)"
    using True by (auto simp: payloads_iff)
  have "(p, r) \<notin> payloads (rh_base (bootstrap heap)) bsegs"
    using expandable_apart [OF ok _ True, of p r] b by auto
  then show ?thesis
  proof -
    assume apart: "(p, r) \<notin> payloads (rh_base (bootstrap heap)) bsegs"
    from region_dealloc [OF xinv base q(2)] obtain state' mem' where
      run: "deallocate_into_region (external_state heap) (external_mem heap) (external_base heap) (external_capacity heap) p
          = Some (state', mem')"
      and inv': "heap_inv (external_capacity heap) state' mem' (spec_free q xsegs)"
      and set': "set (live_list 0 (spec_free q xsegs)) = set (live_list 0 xsegs) - {(q, r)}"
      by (auto simp: q(1))
    define heap1 where "heap1 = heap\<lparr>external_state := state', external_mem := mem'\<rparr>"
    have "expandable_dealloc (heap, bsegs, xsegs) p = Some (heap1, bsegs, spec_free q xsegs)"
      using run ext by (simp add: expandable_dealloc_def ExpandableHeap_dealloc_def Let_def in_external_def heap1_def q(1))
    moreover have "expandable_ok (heap1, bsegs, spec_free q xsegs)"
      using ok inv' b by (simp add: expandable_ok_def heap1_def ranges_apart_def)
    moreover have "payloads (external_base heap) (spec_free q xsegs) = payloads (external_base heap) xsegs - {(p, r)}"
      by (auto simp: payloads_def set' q(1))
    then have "expandable_live (heap1, bsegs, spec_free q xsegs) = expandable_live (heap, bsegs, xsegs) - {(p, r)}"
      using apart by (auto simp: expandable_live_def heap1_def)
    ultimately show ?thesis by blast
  qed
next
  case False
  then have pl: "(p, r) \<in> payloads (rh_base (bootstrap heap)) bsegs"
    using live by (simp add: expandable_live_def)
  note b = expandable_bounds(1) [OF ok pl]
  have rok: "reclaiming_ok (bootstrap heap, bsegs)" using ok by (simp add: expandable_ok_def)
  have "\<not> in_external heap p" "p \<noteq> 0"
    using ok b by (auto simp: in_external_def expandable_ok_def ranges_apart_def split: if_splits)
  then show ?thesis
    using reclaiming_dealloc_step [OF rok pl] expandable_bootstrap_ok [OF ok] False
    by (auto simp: expandable_dealloc_def ExpandableHeap_dealloc_def Let_def in_external_def expandable_live_def)
qed

interpretation expandable: global_alloc expandable_alloc expandable_dealloc expandable_ok expandable_live
proof (unfold_locales, goal_cases)
  case (1 s l)
  then show ?case using expandable_alloc_step by (cases s) blast
next
  case (2 s p r)
  then show ?case using expandable_dealloc_step by (cases s) blast
next
  case (3 s)
  then show ?case by (cases s) (simp add: expandable_dealloc_def ExpandableHeap_dealloc_def)
next
  case (4 s x y)
  obtain heap bsegs xsegs where s: "s = (heap, bsegs, xsegs)" by (cases s) auto
  have "tiling (rh_capacity (bootstrap heap)) bsegs"
    using 4(1) by (auto simp: s expandable_ok_def reclaiming_ok_def intro: region_ok_wf)
  moreover have "tiling (external_capacity heap) xsegs \<or> payloads (external_base heap) xsegs = {}"
    using 4(1) by (auto simp: s expandable_ok_def heap_inv_def payloads_def split: if_splits)
  ultimately show ?case
    using 4 expandable_apart [of heap bsegs xsegs] payloads_disjoint [of _ _ x _ y]
    by (cases x; cases y) (fastforce simp: s expandable_live_def)
next
  case (5 s p r)
  obtain heap bsegs xsegs where s: "s = (heap, bsegs, xsegs)" by (cases s) auto
  show ?case
    using 5 expandable_bounds [of heap bsegs xsegs p r] by (auto simp: s expandable_live_def)
qed

section \<open>The installed heap\<close>


definition sample_boot :: ReclaimingHeap where
  "sample_boot = \<lparr>rh_capacity = 4096, rh_base = 64, rh_mem = (\<lambda>_. 0), rh_state = AllocatorState_new\<rparr>"

definition sample_expandable :: ExpandableHeap where
  "sample_expandable = \<lparr>bootstrap = sample_boot, external_base = 0, external_capacity = 0,
    external_mem = (\<lambda>_. 0), external_state = AllocatorState_new\<rparr>"

lemma sample_expandable_ok: "expandable_ok (sample_expandable, [Free 4096], [])"
  by (simp add: expandable_ok_def sample_expandable_def reclaiming_ok_def sample_boot_def region_ok_def
    AllocatorState_new_def U64_MAX_numeral)


text \<open>
  C33: registering the external region either fails and leaves the heap as it was, or switches the
  heap to a fresh, disjoint external region without touching any live allocation.
\<close>

theorem initialize_external_correct:
  assumes "expandable_ok (heap, bsegs, xsegs)"
  shows "case initialize_external heap address capacity of
      (Err e, heap') \<Rightarrow> heap' = heap
    | (Ok _, heap') \<Rightarrow> using_external heap' \<and> \<not> using_external heap
        \<and> expandable_ok (heap', bsegs, [Free capacity])
        \<and> expandable_live (heap', bsegs, [Free capacity]) = expandable_live (heap, bsegs, xsegs)"
proof -
  have "8 dvd capacity \<and> 16 \<le> capacity \<and> address + capacity \<le> U64_MAX"
    if "\<not> (capacity < 16 \<or> \<not> is_multiple_of capacity 8 \<or> checked_add address capacity = None)"
    using that by (auto simp: is_multiple_of_dvd)
  moreover have "heap_inv capacity (fst (initialize (external_state heap) (external_mem heap) capacity))
      (snd (initialize (external_state heap) (external_mem heap) capacity)) [Free capacity]"
    if "8 dvd capacity \<and> 16 \<le> capacity \<and> address + capacity \<le> U64_MAX" "external_base heap = 0"
    using that assms initialize_inv [of "external_state heap" capacity "external_mem heap"]
    by (auto simp: expandable_ok_def)
  moreover have "rh_base (bootstrap heap) + rh_capacity (bootstrap heap) \<le> U64_MAX"
    using assms by (simp add: expandable_ok_def reclaiming_ok_def)
  ultimately show ?thesis
    using assms
    by (auto simp: initialize_external_def Let_def using_external_def expandable_ok_def ranges_apart_def
      expandable_live_def payloads_def split: prod.splits)
qed

theorem initialize_external_correct_witness:
  "fst (initialize_external sample_expandable 8192 4096) = Ok ()
    \<and> expandable_ok (snd (initialize_external sample_expandable 8192 4096), [Free 4096], [Free 4096])"
proof -
  have "fst (initialize_external sample_expandable 8192 4096) = Ok ()"
    by (simp add: initialize_external_def sample_expandable_def sample_boot_def is_multiple_of_dvd
      checked_add_def U64_MAX_numeral saturating_add_def split: prod.splits)
  then show ?thesis
    using initialize_external_correct [OF sample_expandable_ok, where address = 8192 and capacity = 4096]
    by (cases "initialize_external sample_expandable 8192 4096") auto
qed


end
