(* ===== verification/BootInfo.thy ===== *)
theory BootInfo
  imports Prelude
begin

text \<open>
  \<^verbatim>\<open>libs/bootinfo/src/lib.rs\<close>: the record the loader hands to the kernel. The fixed-size arrays are
  lists together with the explicit counts of the source; slicing with a count beyond the array
  panics, which is the value \<open>None\<close> of \<open>reserve_memory\<close>.
\<close>

section \<open>Constants and enumerations\<close>

definition PAGE_SIZE :: nat where
  [simp]: "PAGE_SIZE = 4096"

definition MAX_MEMORY_REGIONS :: nat where
  [simp]: "MAX_MEMORY_REGIONS = 128"

definition MAX_RESERVED_MEMORY_RANGES :: nat where
  [simp]: "MAX_RESERVED_MEMORY_RANGES = 16"

definition MAX_KERNEL_IMAGE_SEGMENTS :: nat where
  [simp]: "MAX_KERNEL_IMAGE_SEGMENTS = 8"

definition KERNEL_SEGMENT_FLAG_READ :: u32 where
  [simp]: "KERNEL_SEGMENT_FLAG_READ = 1"

definition KERNEL_SEGMENT_FLAG_WRITE :: u32 where
  [simp]: "KERNEL_SEGMENT_FLAG_WRITE = 2"

definition KERNEL_SEGMENT_FLAG_EXECUTE :: u32 where
  [simp]: "KERNEL_SEGMENT_FLAG_EXECUTE = 4"

datatype PixelFormat = Rgb | Bgr | Unknown

datatype FirmwareMode = UefiBootServices | PostExitBootServices

datatype MemoryRegionKind =
    Reserved
  | LoaderCode
  | LoaderData
  | BootServicesCode
  | BootServicesData
  | RuntimeServicesCode
  | RuntimeServicesData
  | Conventional
  | Unusable
  | AcpiReclaim
  | AcpiNonVolatile
  | Mmio
  | MmioPortSpace
  | PalCode
  | PersistentMemory
  | Unaccepted
  | Unknown

fun is_reclaimable_by_kernel :: "MemoryRegionKind \<Rightarrow> bool" where
  "is_reclaimable_by_kernel Conventional = True"
| "is_reclaimable_by_kernel LoaderCode = True"
| "is_reclaimable_by_kernel LoaderData = True"
| "is_reclaimable_by_kernel BootServicesCode = True"
| "is_reclaimable_by_kernel BootServicesData = True"
| "is_reclaimable_by_kernel AcpiReclaim = True"
| "is_reclaimable_by_kernel _ = False"

fun MemoryRegionKind_as_str :: "MemoryRegionKind \<Rightarrow> string" where
  "MemoryRegionKind_as_str Reserved = ''reserved''"
| "MemoryRegionKind_as_str LoaderCode = ''loader-code''"
| "MemoryRegionKind_as_str LoaderData = ''loader-data''"
| "MemoryRegionKind_as_str BootServicesCode = ''boot-code''"
| "MemoryRegionKind_as_str BootServicesData = ''boot-data''"
| "MemoryRegionKind_as_str RuntimeServicesCode = ''runtime-code''"
| "MemoryRegionKind_as_str RuntimeServicesData = ''runtime-data''"
| "MemoryRegionKind_as_str Conventional = ''conventional''"
| "MemoryRegionKind_as_str Unusable = ''unusable''"
| "MemoryRegionKind_as_str AcpiReclaim = ''acpi-reclaim''"
| "MemoryRegionKind_as_str AcpiNonVolatile = ''acpi-nvs''"
| "MemoryRegionKind_as_str Mmio = ''mmio''"
| "MemoryRegionKind_as_str MmioPortSpace = ''mmio-port''"
| "MemoryRegionKind_as_str PalCode = ''pal''"
| "MemoryRegionKind_as_str PersistentMemory = ''persistent''"
| "MemoryRegionKind_as_str Unaccepted = ''unaccepted''"
| "MemoryRegionKind_as_str MemoryRegionKind.Unknown = ''unknown''"

fun FirmwareMode_as_str :: "FirmwareMode \<Rightarrow> string" where
  "FirmwareMode_as_str UefiBootServices = ''uefi-boot-services''"
| "FirmwareMode_as_str PostExitBootServices = ''post-exit-boot-services''"

fun region_is_currently_usable :: "FirmwareMode \<Rightarrow> MemoryRegionKind \<Rightarrow> bool" where
  "region_is_currently_usable UefiBootServices kind =
    (kind = Conventional \<or> kind = LoaderCode \<or> kind = LoaderData)"
| "region_is_currently_usable PostExitBootServices kind = is_reclaimable_by_kernel kind"

datatype ReservedMemoryKind =
    LowMemory
  | LoaderImage
  | FrameBuffer
  | MemoryMap
  | KernelImageLoad
  | RuntimeHeap
  | KernelHeap
  | DescriptorTables
  | PageTables
  | Unknown

fun ReservedMemoryKind_as_str :: "ReservedMemoryKind \<Rightarrow> string" where
  "ReservedMemoryKind_as_str LowMemory = ''low-memory''"
| "ReservedMemoryKind_as_str LoaderImage = ''loader-image''"
| "ReservedMemoryKind_as_str FrameBuffer = ''framebuffer''"
| "ReservedMemoryKind_as_str MemoryMap = ''memory-map''"
| "ReservedMemoryKind_as_str KernelImageLoad = ''kernel-image-load''"
| "ReservedMemoryKind_as_str RuntimeHeap = ''runtime-heap''"
| "ReservedMemoryKind_as_str KernelHeap = ''kernel-heap''"
| "ReservedMemoryKind_as_str DescriptorTables = ''descriptor-tables''"
| "ReservedMemoryKind_as_str PageTables = ''page-tables''"
| "ReservedMemoryKind_as_str ReservedMemoryKind.Unknown = ''unknown''"

section \<open>Records\<close>

record FrameBufferInfo =
  fb_base :: nat
  fb_bytes :: nat
  fb_width :: nat
  fb_height :: nat
  fb_stride :: nat
  fb_bytes_per_pixel :: nat
  fb_pixel_format :: PixelFormat

record MemoryRegion =
  mr_start :: nat
  mr_page_count :: nat
  mr_kind :: MemoryRegionKind
  mr_attributes :: nat

definition MemoryRegion_EMPTY :: MemoryRegion where
  "MemoryRegion_EMPTY = \<lparr>mr_start = 0, mr_page_count = 0, mr_kind = Reserved, mr_attributes = 0\<rparr>"

definition size_bytes :: "MemoryRegion \<Rightarrow> nat" where
  "size_bytes self = saturating_mul (mr_page_count self) PAGE_SIZE"

definition MemoryRegion_end :: "MemoryRegion \<Rightarrow> nat" where
  "MemoryRegion_end self = saturating_add (mr_start self) (size_bytes self)"

record ReservedMemoryRange =
  rr_start :: nat
  rr_length :: nat
  rr_kind :: ReservedMemoryKind

definition ReservedMemoryRange_EMPTY :: ReservedMemoryRange where
  "ReservedMemoryRange_EMPTY = \<lparr>rr_start = 0, rr_length = 0, rr_kind = ReservedMemoryKind.Unknown\<rparr>"

definition ReservedMemoryRange_end :: "ReservedMemoryRange \<Rightarrow> nat" where
  "ReservedMemoryRange_end self = saturating_add (rr_start self) (rr_length self)"

record KernelImageSegment =
  virtual_address :: nat
  physical_address :: nat
  file_offset :: nat
  file_size :: nat
  memory_size :: nat
  ks_flags :: u32
  load_address :: nat
  ks_load_page_count :: nat

definition KernelImageSegment_EMPTY :: KernelImageSegment where
  "KernelImageSegment_EMPTY = \<lparr>virtual_address = 0, physical_address = 0, file_offset = 0, file_size = 0,
    memory_size = 0, ks_flags = 0, load_address = 0, ks_load_page_count = 0\<rparr>"

record KernelImageInfo =
  image_size :: nat
  ki_release_version :: nat
  boot_state_generation :: nat
  system_slot :: u8
  recovery_fallback :: u8
  signature_verified :: u8
  verification_key_id :: bytes
  kernel_sha256 :: bytes
  entry_point :: nat
  loaded_entry_point :: nat
  load_base :: nat
  ki_load_page_count :: nat
  program_header_count :: nat
  load_segment_count :: nat
  load_segment_total :: nat
  loaded_segment_count :: nat
  relocation_count :: nat
  ki_segments :: "KernelImageSegment list"

definition KernelImageInfo_EMPTY :: KernelImageInfo where
  "KernelImageInfo_EMPTY = \<lparr>image_size = 0, ki_release_version = 0, boot_state_generation = 0,
    system_slot = 0, recovery_fallback = 0, signature_verified = 0,
    verification_key_id = replicate 16 0, kernel_sha256 = replicate 32 0, entry_point = 0,
    loaded_entry_point = 0, load_base = 0, ki_load_page_count = 0, program_header_count = 0,
    load_segment_count = 0, load_segment_total = 0, loaded_segment_count = 0, relocation_count = 0,
    ki_segments = replicate MAX_KERNEL_IMAGE_SEGMENTS KernelImageSegment_EMPTY\<rparr>"

definition is_present :: "KernelImageInfo \<Rightarrow> bool" where
  "is_present self \<longleftrightarrow> image_size self \<noteq> 0"

definition is_loaded :: "KernelImageInfo \<Rightarrow> bool" where
  "is_loaded self \<longleftrightarrow> loaded_segment_count self \<noteq> 0"

definition segments :: "KernelImageInfo \<Rightarrow> KernelImageSegment list" where
  "segments self = take (min (load_segment_count self) MAX_KERNEL_IMAGE_SEGMENTS) (ki_segments self)"

record BootInfo =
  framebuffer :: FrameBufferInfo
  firmware_mode :: FirmwareMode
  runtime_hhdm_base :: nat
  memory_region_count :: nat
  memory_region_total :: nat
  bi_memory_regions :: "MemoryRegion list"
  reserved_memory_count :: nat
  bi_reserved_memory :: "ReservedMemoryRange list"
  kernel_image :: KernelImageInfo

section \<open>Operations\<close>

definition memory_regions :: "BootInfo \<Rightarrow> MemoryRegion list" where
  "memory_regions self = take (min (memory_region_count self) MAX_MEMORY_REGIONS) (bi_memory_regions self)"

definition total_memory_bytes :: "BootInfo \<Rightarrow> nat" where
  "total_memory_bytes self =
    foldl (\<lambda>sum region. saturating_add sum (size_bytes region)) 0 (memory_regions self)"

definition reserved_memory :: "BootInfo \<Rightarrow> ReservedMemoryRange list" where
  "reserved_memory self =
    take (min (reserved_memory_count self) MAX_RESERVED_MEMORY_RANGES) (bi_reserved_memory self)"

definition reserved_range :: "BootInfo \<Rightarrow> ReservedMemoryKind \<Rightarrow> ReservedMemoryRange option" where
  "reserved_range self kind = find (\<lambda>range. rr_kind range = kind) (reserved_memory self)"

definition reserved_memory_bytes :: "BootInfo \<Rightarrow> nat" where
  "reserved_memory_bytes self =
    foldl (\<lambda>sum range. saturating_add sum (rr_length range)) 0 (reserved_memory self)"

definition reserve_memory ::
    "BootInfo \<Rightarrow> nat \<Rightarrow> nat \<Rightarrow> ReservedMemoryKind \<Rightarrow> (bool \<times> BootInfo) option" where
  "reserve_memory self start len kind =
    (if len = 0 then Some (False, self)
     else if length (bi_reserved_memory self) < reserved_memory_count self then None
     else case position (\<lambda>range. rr_kind range = kind \<and> ReservedMemoryRange_end range = start)
         (take (reserved_memory_count self) (bi_reserved_memory self)) of
       Some i \<Rightarrow>
         let existing = bi_reserved_memory self ! i;
             existing = existing\<lparr>rr_length := saturating_add (rr_length existing) len\<rparr>
         in Some (True, self\<lparr>bi_reserved_memory := (bi_reserved_memory self)[i := existing]\<rparr>)
     | None \<Rightarrow>
         if MAX_RESERVED_MEMORY_RANGES \<le> reserved_memory_count self then Some (False, self)
         else Some (True, self\<lparr>bi_reserved_memory := (bi_reserved_memory self)[reserved_memory_count self :=
                      \<lparr>rr_start = start, rr_length = len, rr_kind = kind\<rparr>],
                    reserved_memory_count := reserved_memory_count self + 1\<rparr>))"

definition usable_memory_bytes :: "BootInfo \<Rightarrow> nat" where
  "usable_memory_bytes self =
    foldl (\<lambda>sum region. if region_is_currently_usable (firmware_mode self) (mr_kind region)
             then saturating_add sum (size_bytes region) else sum) 0 (memory_regions self)"

section \<open>Properties\<close>

definition reserved_bytes_of :: "ReservedMemoryRange \<Rightarrow> nat set" where
  "reserved_bytes_of r = {rr_start r ..< rr_start r + rr_length r}"

definition reserved_set :: "BootInfo \<Rightarrow> nat set" where
  "reserved_set self = (\<Union>r\<in>set (reserved_memory self). reserved_bytes_of r)"

text \<open>The arrays have their declared lengths, the counts fit, and no range runs past \<^verbatim>\<open>u64::MAX\<close>.\<close>

definition wf_boot_info :: "BootInfo \<Rightarrow> bool" where
  "wf_boot_info self \<longleftrightarrow> length (bi_memory_regions self) = MAX_MEMORY_REGIONS
    \<and> length (bi_reserved_memory self) = MAX_RESERVED_MEMORY_RANGES
    \<and> reserved_memory_count self \<le> MAX_RESERVED_MEMORY_RANGES
    \<and> (\<forall>r\<in>set (reserved_memory self). rr_start r + rr_length r \<le> U64_MAX)"

lemma set_take_nth: "n \<le> length xs \<Longrightarrow> set (take n xs) = (\<lambda>j. xs ! j) ` {..<n}"
  by (simp add: nth_image [symmetric] atLeast0LessThan)

lemma set_take_update:
  assumes "i < n" and "n \<le> length xs"
  shows "set (take n (xs[i := y])) = insert y ((\<lambda>j. xs ! j) ` ({..<n} - {i}))"
proof -
  have "{..<n} = insert i ({..<n} - {i})" using assms(1) by auto
  then have "(\<lambda>j. xs[i := y] ! j) ` {..<n} = insert (xs[i := y] ! i) ((\<lambda>j. xs[i := y] ! j) ` ({..<n} - {i}))"
    by (metis image_insert)
  also have "\<dots> = insert y ((\<lambda>j. xs ! j) ` ({..<n} - {i}))"
    using assms by (auto intro!: image_cong)
  finally show ?thesis using assms(2) by (simp add: set_take_nth)
qed

lemma reserve_extend:
  assumes wf: "wf_boot_info self" and i: "i < reserved_memory_count self"
    and range_end: "ReservedMemoryRange_end (bi_reserved_memory self ! i) = start" and len: "start + len \<le> U64_MAX"
  defines "existing \<equiv> bi_reserved_memory self ! i"
  defines "self' \<equiv> self\<lparr>bi_reserved_memory := (bi_reserved_memory self)[i :=
      existing\<lparr>rr_length := saturating_add (rr_length existing) len\<rparr>]\<rparr>"
  shows "wf_boot_info self'" and "reserved_set self' = reserved_set self \<union> {start ..< start + len}"
proof -
  let ?n = "reserved_memory_count self" and ?xs = "bi_reserved_memory self"
  have n: "?n \<le> 16" "length ?xs = 16" using wf by (simp_all add: wf_boot_info_def)
  have old: "set (reserved_memory self) = (\<lambda>j. ?xs ! j) ` {..<?n}"
    using n by (simp add: reserved_memory_def set_take_nth)
  then have "existing \<in> set (reserved_memory self)" using i by (simp add: existing_def)
  then have "rr_start existing + rr_length existing \<le> U64_MAX" using wf by (simp add: wf_boot_info_def)
  then have start: "start = rr_start existing + rr_length existing"
    using range_end by (simp add: ReservedMemoryRange_end_def existing_def)
  have new: "set (reserved_memory self') =
      insert (existing\<lparr>rr_length := rr_length existing + len\<rparr>) ((\<lambda>j. ?xs ! j) ` ({..<?n} - {i}))"
    using n i len start by (simp add: reserved_memory_def self'_def set_take_update)
  have old': "set (reserved_memory self) = insert existing ((\<lambda>j. ?xs ! j) ` ({..<?n} - {i}))"
    using i by (auto simp: old existing_def)
  show "wf_boot_info self'"
    using wf len start by (auto simp: wf_boot_info_def new old') (auto simp: self'_def)
  show "reserved_set self' = reserved_set self \<union> {start ..< start + len}"
    using start by (auto simp: reserved_set_def new old' reserved_bytes_of_def)
qed

lemma reserve_append:
  fixes kind :: ReservedMemoryKind
  assumes wf: "wf_boot_info self" and n: "reserved_memory_count self < MAX_RESERVED_MEMORY_RANGES"
    and len: "start + len \<le> U64_MAX"
  defines "self' \<equiv> self\<lparr>bi_reserved_memory := (bi_reserved_memory self)[reserved_memory_count self :=
      \<lparr>rr_start = start, rr_length = len, rr_kind = kind\<rparr>], reserved_memory_count := reserved_memory_count self + 1\<rparr>"
  shows "wf_boot_info self'" and "reserved_set self' = reserved_set self \<union> {start ..< start + len}"
proof -
  have "length (bi_reserved_memory self) = 16" using wf by (simp add: wf_boot_info_def)
  then have new: "reserved_memory self' = reserved_memory self @ [\<lparr>rr_start = start, rr_length = len, rr_kind = kind\<rparr>]"
    using n by (simp add: reserved_memory_def self'_def take_Suc_conv_app_nth min_def)
  then show "wf_boot_info self'"
    using wf n len by (auto simp: wf_boot_info_def new) (simp_all add: self'_def)
  show "reserved_set self' = reserved_set self \<union> {start ..< start + len}"
    by (auto simp: reserved_set_def new reserved_bytes_of_def)
qed

text \<open>
  on a well-formed boot record \<^verbatim>\<open>reserve_memory\<close> never panics; when it returns true the reserved
  bytes are exactly the old ones plus the requested range (coalesced or appended), and when it
  returns false the record is unchanged.
\<close>

theorem reserve_memory_effect:
  assumes "wf_boot_info self" and "start + len \<le> U64_MAX"
  shows "\<exists>ok self'. reserve_memory self start len kind = Some (ok, self') \<and> wf_boot_info self'
    \<and> (if ok then reserved_set self' = reserved_set self \<union> {start ..< start + len} else self' = self)"
proof -
  have len: "length (bi_reserved_memory self) = 16" "reserved_memory_count self \<le> 16"
    using assms(1) by (simp_all add: wf_boot_info_def)
  show ?thesis
  proof (cases "position (\<lambda>range. rr_kind range = kind \<and> ReservedMemoryRange_end range = start)
      (take (reserved_memory_count self) (bi_reserved_memory self))")
    case None
    then show ?thesis
      using len assms(1) reserve_append [OF assms(1) _ assms(2), of kind]
      by (cases "len = 0"; cases "reserved_memory_count self < 16") (auto simp: reserve_memory_def)
  next
    case (Some i)
    then have "i < reserved_memory_count self" "ReservedMemoryRange_end (bi_reserved_memory self ! i) = start"
      using len by (auto simp: position_Some)
    from reserve_extend [OF assms(1) this assms(2)] show ?thesis
      using len Some assms(1) by (cases "len = 0") (auto simp: reserve_memory_def Let_def)
  qed
qed

definition sample_boot_info :: BootInfo where
  "sample_boot_info = \<lparr>framebuffer = \<lparr>fb_base = 0x80000000, fb_bytes = 0x300000, fb_width = 1024,
      fb_height = 768, fb_stride = 1024, fb_bytes_per_pixel = 4, fb_pixel_format = Bgr\<rparr>,
    firmware_mode = PostExitBootServices, runtime_hhdm_base = 0, memory_region_count = 1,
    memory_region_total = 1,
    bi_memory_regions = \<lparr>mr_start = 0, mr_page_count = 1024, mr_kind = Conventional, mr_attributes = 0\<rparr>
      # replicate 127 MemoryRegion_EMPTY,
    reserved_memory_count = 1,
    bi_reserved_memory = \<lparr>rr_start = 0, rr_length = 0x100000, rr_kind = LowMemory\<rparr>
      # replicate 15 ReservedMemoryRange_EMPTY,
    kernel_image = KernelImageInfo_EMPTY\<rparr>"

lemma sample_boot_info_wf: "wf_boot_info sample_boot_info"
  by (simp add: wf_boot_info_def sample_boot_info_def reserved_memory_def U64_MAX_numeral)

theorem reserve_memory_effect_witness:
  "\<exists>ok self'. reserve_memory sample_boot_info 0x100000 0x1000 LowMemory = Some (ok, self') \<and> wf_boot_info self'"
  using reserve_memory_effect [OF sample_boot_info_wf, where start = "0x100000" and len = "0x1000" and kind = LowMemory]
  by (auto simp: U64_MAX_numeral)

end
