(* ===== verification/Memory.thy ===== *)
theory Memory
  imports BootInfo
begin

text \<open>
  \<^verbatim>\<open>kernel/src/memory.rs\<close>: the physical page allocator. The fixed arrays with a count are modelled
  by the list of their live entries (\<^verbatim>\<open>regions[..usable_region_count]\<close>,
  \<^verbatim>\<open>free_extents[..free_extent_count]\<close>); the capacity checks of the code are kept, so an insertion
  or removal in the middle of the array is the corresponding list operation. Addresses and page
  counts are naturals with the saturating and checked operations of the source.
\<close>

section \<open>Data\<close>

definition MAX_ALLOCATOR_REGIONS :: nat where
  [simp]: "MAX_ALLOCATOR_REGIONS = 152"

definition MAX_FREE_EXTENTS :: nat where
  [simp]: "MAX_FREE_EXTENTS = 1024"

record RegionCursor =
  rc_start :: nat
  rc_page_count :: nat
  next_page :: nat
  rc_kind :: MemoryRegionKind

definition RegionCursor_EMPTY :: RegionCursor where
  "RegionCursor_EMPTY = \<lparr>rc_start = 0, rc_page_count = 0, next_page = 0, rc_kind = Reserved\<rparr>"

definition remaining_pages :: "RegionCursor \<Rightarrow> nat" where
  "remaining_pages self = saturating_sub (rc_page_count self) (next_page self)"

record RegionSpan =
  span_start :: nat
  span_end :: nat

definition span_is_empty :: "RegionSpan \<Rightarrow> bool" where
  "span_is_empty self \<longleftrightarrow> span_end self \<le> span_start self"

record FreeExtent =
  fe_start :: nat
  fe_page_count :: nat

definition FreeExtent_end :: "FreeExtent \<Rightarrow> nat" where
  "FreeExtent_end self = saturating_add (fe_start self) (saturating_mul (fe_page_count self) PAGE_SIZE)"

record MemoryStats =
  ms_usable_region_count :: nat
  ms_total_usable_pages :: nat
  ms_allocated_pages :: nat
  ms_remaining_pages :: nat

record PhysicalPageAllocator =
  pa_initialized :: bool
  regions :: "RegionCursor list"
  total_usable_pages :: nat
  allocated_pages :: nat
  free_extents :: "FreeExtent list"

definition PhysicalPageAllocator_new :: PhysicalPageAllocator where
  "PhysicalPageAllocator_new = \<lparr>pa_initialized = False, regions = [], total_usable_pages = 0,
    allocated_pages = 0, free_extents = []\<rparr>"

section \<open>Initialisation\<close>

definition align_down :: "nat \<Rightarrow> nat" where
  "align_down value = mask_down value PAGE_SIZE"

definition align_up_page :: "nat \<Rightarrow> nat" where
  "align_up_page value = mask_down (saturating_add value (PAGE_SIZE - 1)) PAGE_SIZE"

text \<open>\<open>cap\<close> is the length of the array the spans are collected in.\<close>

definition push_span :: "nat \<Rightarrow> RegionSpan list \<Rightarrow> RegionSpan \<Rightarrow> RegionSpan list" where
  "push_span cap spans span =
    (if span_is_empty span \<or> cap \<le> length spans then spans else spans @ [span])"

definition push_region :: "PhysicalPageAllocator \<Rightarrow> RegionSpan \<Rightarrow> MemoryRegionKind \<Rightarrow> PhysicalPageAllocator" where
  "push_region self span kind =
    (let start = align_up_page (span_start span); stop = align_down (span_end span) in
     if stop \<le> start \<or> MAX_ALLOCATOR_REGIONS \<le> length (regions self) then self
     else let page_count = (stop - start) div PAGE_SIZE in
       if page_count = 0 then self
       else self\<lparr>regions := regions self @
                  [\<lparr>rc_start = start, rc_page_count = page_count, next_page = 0, rc_kind = kind\<rparr>],
                 total_usable_pages := saturating_add (total_usable_pages self) page_count\<rparr>)"

definition MAX_SPANS :: nat where
  [simp]: "MAX_SPANS = 17"

text \<open>The inner loop of \<^verbatim>\<open>add_region_fragments\<close>: cut one reserved range out of one span.\<close>

definition split_span :: "nat \<Rightarrow> nat \<Rightarrow> RegionSpan list \<Rightarrow> RegionSpan \<Rightarrow> RegionSpan list" where
  "split_span reserved_start reserved_end scratch span =
    (if span_is_empty span then scratch
     else let overlap_start = max (span_start span) reserved_start;
              overlap_end = min (span_end span) reserved_end
       in if overlap_end \<le> overlap_start then push_span MAX_SPANS scratch span
          else let scratch =
                 (if span_start span < overlap_start
                  then push_span MAX_SPANS scratch \<lparr>span_start = span_start span, span_end = overlap_start\<rparr>
                  else scratch)
            in if overlap_end < span_end span
               then push_span MAX_SPANS scratch \<lparr>span_start = overlap_end, span_end = span_end span\<rparr>
               else scratch)"

fun cut_reserved :: "RegionSpan list \<Rightarrow> ReservedMemoryRange list \<Rightarrow> RegionSpan list" where
  "cut_reserved active [] = active"
| "cut_reserved active (rr # reserved) =
    (if rr_length rr = 0 then cut_reserved active reserved
     else let reserved_start = align_down (rr_start rr);
              reserved_end = align_up_page (ReservedMemoryRange_end rr)
       in if reserved_end \<le> reserved_start then cut_reserved active reserved
          else let active = foldl (split_span reserved_start reserved_end) [] active in
            if active = [] then [] else cut_reserved active reserved)"

definition add_region_fragments ::
    "PhysicalPageAllocator \<Rightarrow> nat \<Rightarrow> nat \<Rightarrow> MemoryRegionKind \<Rightarrow> ReservedMemoryRange list \<Rightarrow> PhysicalPageAllocator" where
  "add_region_fragments self start stop kind reserved =
    foldl (\<lambda>self span. push_region self span kind) self
      (cut_reserved [\<lparr>span_start = start, span_end = stop\<rparr>] reserved)"

definition allocator_init :: "PhysicalPageAllocator \<Rightarrow> BootInfo \<Rightarrow> PhysicalPageAllocator" where
  "allocator_init self boot_info =
    foldl (\<lambda>self region.
        if \<not> region_is_currently_usable (firmware_mode boot_info) (mr_kind region) \<or> mr_page_count region = 0
        then self
        else add_region_fragments self (mr_start region) (saturating_add (mr_start region) (size_bytes region))
               (mr_kind region) (reserved_memory boot_info))
      (self\<lparr>pa_initialized := True, regions := [], total_usable_pages := 0, allocated_pages := 0,
            free_extents := []\<rparr>)
      (memory_regions boot_info)"

section \<open>Allocation and deallocation\<close>

definition remove_free_extent :: "FreeExtent list \<Rightarrow> nat \<Rightarrow> FreeExtent list" where
  "remove_free_extent extents index = take index extents @ drop (index + 1) extents"

text \<open>The bump allocation in the first region with enough pages left.\<close>

fun take_from_regions :: "nat \<Rightarrow> RegionCursor list \<Rightarrow> (nat \<times> RegionCursor list) option" where
  "take_from_regions page_count [] = None"
| "take_from_regions page_count (region # rest) =
    (if remaining_pages region < page_count
     then map_option (\<lambda>(address, rest). (address, region # rest)) (take_from_regions page_count rest)
     else Some (saturating_add (rc_start region) (saturating_mul (next_page region) PAGE_SIZE),
                region\<lparr>next_page := saturating_add (next_page region) page_count\<rparr> # rest))"

definition allocate_contiguous_pages ::
    "PhysicalPageAllocator \<Rightarrow> nat \<Rightarrow> nat option \<times> PhysicalPageAllocator" where
  "allocate_contiguous_pages self page_count =
    (if page_count = 0 then (None, self)
     else if \<not> pa_initialized self then (None, self)
     else case position (\<lambda>extent. page_count \<le> fe_page_count extent) (free_extents self) of
       Some index \<Rightarrow>
         let extent = free_extents self ! index;
             address = fe_start extent;
             extent = extent\<lparr>fe_start := saturating_add (fe_start extent) (saturating_mul page_count PAGE_SIZE),
                             fe_page_count := fe_page_count extent - page_count\<rparr>;
             extents = (free_extents self)[index := extent];
             extents = (if fe_page_count extent = 0 then remove_free_extent extents index else extents)
         in (Some address, self\<lparr>free_extents := extents,
               allocated_pages := saturating_add (allocated_pages self) page_count\<rparr>)
     | None \<Rightarrow>
         (case take_from_regions page_count (regions self) of
            Some (address, rs) \<Rightarrow>
              (Some address, self\<lparr>regions := rs,
                 allocated_pages := saturating_add (allocated_pages self) page_count\<rparr>)
          | None \<Rightarrow> (None, self)))"

definition allocate_page :: "PhysicalPageAllocator \<Rightarrow> nat option \<times> PhysicalPageAllocator" where
  "allocate_page self = allocate_contiguous_pages self 1"

fun coalesce_free_extents :: "FreeExtent list \<Rightarrow> FreeExtent list" where
  "coalesce_free_extents (current # nxt # rest) =
    (if FreeExtent_end current = fe_start nxt
     then coalesce_free_extents
       (current\<lparr>fe_page_count := saturating_add (fe_page_count current) (fe_page_count nxt)\<rparr> # rest)
     else current # coalesce_free_extents (nxt # rest))"
| "coalesce_free_extents extents = extents"

text \<open>
  The second half of \<^verbatim>\<open>deallocate_contiguous_pages\<close>: the released range joins the extents;
  \<open>None\<close> when a new entry is needed and the extent array is full.
\<close>

definition release_extent :: "FreeExtent list \<Rightarrow> nat \<Rightarrow> nat \<Rightarrow> nat \<Rightarrow> FreeExtent list option" where
  "release_extent extents start stop page_count =
    (let insertion = (case position (\<lambda>extent. start < fe_start extent) extents of
                        Some i \<Rightarrow> i | None \<Rightarrow> length extents)
     in if 0 < insertion \<and> FreeExtent_end (extents ! (insertion - 1)) = start then
          let prev = extents ! (insertion - 1);
              prev = prev\<lparr>fe_page_count := saturating_add (fe_page_count prev) page_count\<rparr>;
              extents = extents[insertion - 1 := prev]
          in Some (if insertion < length extents \<and> FreeExtent_end prev = fe_start (extents ! insertion)
             then remove_free_extent
               (extents[insertion - 1 := prev\<lparr>fe_page_count :=
                  saturating_add (fe_page_count prev) (fe_page_count (extents ! insertion))\<rparr>]) insertion
             else extents)
        else if insertion < length extents \<and> stop = fe_start (extents ! insertion) then
          let nxt = extents ! insertion
          in Some (extents[insertion := \<lparr>fe_start = start,
                fe_page_count = saturating_add (fe_page_count nxt) page_count\<rparr>])
        else if MAX_FREE_EXTENTS \<le> length extents then None
        else Some (coalesce_free_extents (take insertion extents @ \<lparr>fe_start = start, fe_page_count = page_count\<rparr>
                # drop insertion extents)))"

definition deallocate_contiguous_pages ::
    "PhysicalPageAllocator \<Rightarrow> nat \<Rightarrow> nat \<Rightarrow> bool \<times> PhysicalPageAllocator" where
  "deallocate_contiguous_pages self start page_count =
    (if \<not> pa_initialized self \<or> page_count = 0 \<or> \<not> is_multiple_of start PAGE_SIZE
        \<or> allocated_pages self < page_count then (False, self)
     else case checked_mul page_count PAGE_SIZE of None \<Rightarrow> (False, self) | Some len \<Rightarrow>
     (case checked_add start len of None \<Rightarrow> (False, self) | Some stop \<Rightarrow>
      (let was_allocated = list_ex (\<lambda>region.
             let allocated_end = saturating_add (rc_start region) (saturating_mul (next_page region) PAGE_SIZE)
             in rc_start region \<le> start \<and> stop \<le> allocated_end) (regions self)
       in if \<not> was_allocated
             \<or> list_ex (\<lambda>extent. start < FreeExtent_end extent \<and> fe_start extent < stop) (free_extents self)
          then (False, self)
          else case release_extent (free_extents self) start stop page_count of
                 None \<Rightarrow> (False, self)
               | Some extents \<Rightarrow> (True, self\<lparr>free_extents := extents,
                                           allocated_pages := allocated_pages self - page_count\<rparr>))))"

definition deallocate_page :: "PhysicalPageAllocator \<Rightarrow> nat \<Rightarrow> bool \<times> PhysicalPageAllocator" where
  "deallocate_page self start = deallocate_contiguous_pages self start 1"

definition allocator_stats :: "PhysicalPageAllocator \<Rightarrow> MemoryStats" where
  "allocator_stats self = \<lparr>ms_usable_region_count = length (regions self),
    ms_total_usable_pages = total_usable_pages self, ms_allocated_pages = allocated_pages self,
    ms_remaining_pages = saturating_sub (total_usable_pages self) (allocated_pages self)\<rparr>"

definition first_usable_kind :: "PhysicalPageAllocator \<Rightarrow> MemoryRegionKind" where
  "first_usable_kind self =
    rc_kind (case regions self of [] \<Rightarrow> RegionCursor_EMPTY | region # _ \<Rightarrow> region)"

definition allocated_ranges :: "PhysicalPageAllocator \<Rightarrow> (nat \<times> nat) list" where
  "allocated_ranges self =
    map (\<lambda>region. (rc_start region, saturating_mul (next_page region) PAGE_SIZE))
      (filter (\<lambda>region. next_page region \<noteq> 0) (regions self))"

section \<open>Page sets\<close>

text \<open>Sets of page numbers (address divided by the page size).\<close>

definition page_range :: "nat \<Rightarrow> nat \<Rightarrow> nat set" where
  "page_range start n = {start div 4096 ..< start div 4096 + n}"

definition wf_extent :: "FreeExtent \<Rightarrow> bool" where
  "wf_extent e \<longleftrightarrow> 4096 dvd fe_start e \<and> 0 < fe_page_count e \<and> fe_start e + fe_page_count e * 4096 \<le> U64_MAX"

definition extent_pages :: "FreeExtent \<Rightarrow> nat set" where
  "extent_pages e = page_range (fe_start e) (fe_page_count e)"

definition extent_stop :: "FreeExtent \<Rightarrow> nat" where
  "extent_stop e = fe_start e + fe_page_count e * 4096"

definition pages_of :: "FreeExtent list \<Rightarrow> nat set" where
  "pages_of es = (\<Union>e\<in>set es. extent_pages e)"

text \<open>The free list: address ordered, with a gap between any two extents.\<close>

definition wf_extents :: "FreeExtent list \<Rightarrow> bool" where
  "wf_extents es \<longleftrightarrow> (\<forall>e\<in>set es. wf_extent e) \<and> sorted_wrt (\<lambda>a b. extent_stop a < fe_start b) es"

definition wf_region :: "RegionCursor \<Rightarrow> bool" where
  "wf_region r \<longleftrightarrow> 4096 dvd rc_start r \<and> next_page r \<le> rc_page_count r
    \<and> rc_start r + rc_page_count r * 4096 \<le> U64_MAX"

definition region_pages :: "RegionCursor \<Rightarrow> nat set" where
  "region_pages r = page_range (rc_start r) (rc_page_count r)"

definition cursor_pages :: "RegionCursor \<Rightarrow> nat set" where
  "cursor_pages r = page_range (rc_start r) (next_page r)"

definition wf_regions :: "RegionCursor list \<Rightarrow> bool" where
  "wf_regions rs \<longleftrightarrow> (\<forall>r\<in>set rs. wf_region r) \<and> sorted_wrt (\<lambda>a b. region_pages a \<inter> region_pages b = {}) rs"

definition usable_pages :: "RegionCursor list \<Rightarrow> nat set" where
  "usable_pages rs = (\<Union>r\<in>set rs. region_pages r)"

definition bumped_pages :: "RegionCursor list \<Rightarrow> nat set" where
  "bumped_pages rs = (\<Union>r\<in>set rs. cursor_pages r)"

definition live_pages :: "PhysicalPageAllocator \<Rightarrow> nat set" where
  "live_pages self = bumped_pages (regions self) - pages_of (free_extents self)"

definition allocator_inv :: "PhysicalPageAllocator \<Rightarrow> bool" where
  "allocator_inv self \<longleftrightarrow> pa_initialized self \<and> wf_regions (regions self) \<and> wf_extents (free_extents self)
    \<and> pages_of (free_extents self) \<subseteq> bumped_pages (regions self)
    \<and> allocated_pages self = card (live_pages self)
    \<and> total_usable_pages self = card (usable_pages (regions self))"

lemma FreeExtent_end_stop [simp]: "wf_extent e \<Longrightarrow> FreeExtent_end e = extent_stop e"
  by (simp add: FreeExtent_end_def extent_stop_def wf_extent_def)

lemma pages_of_simps [simp]:
  "pages_of [] = {}" "pages_of (e # es) = extent_pages e \<union> pages_of es"
  "pages_of (xs @ ys) = pages_of xs \<union> pages_of ys"
  by (auto simp: pages_of_def)

lemma wf_extents_simps [simp]:
  "wf_extents []"
  "wf_extents (e # es) \<longleftrightarrow> wf_extent e \<and> wf_extents es \<and> (\<forall>x\<in>set es. extent_stop e < fe_start x)"
  "wf_extents (xs @ ys) \<longleftrightarrow> wf_extents xs \<and> wf_extents ys \<and> (\<forall>x\<in>set xs. \<forall>y\<in>set ys. extent_stop x < fe_start y)"
  by (auto simp: wf_extents_def sorted_wrt_append)

lemma page_range_mem:
  assumes "4096 dvd a"
  shows "p \<in> page_range a n \<longleftrightarrow> a \<le> p * 4096 \<and> p * 4096 < a + n * 4096"
  using assms by (auto simp: page_range_def elim!: dvdE)

lemma page_range_finite [simp]: "finite (page_range a n)" "card (page_range a n) = n"
  by (simp_all add: page_range_def)

lemma page_range_split:
  "n \<le> m \<Longrightarrow> page_range a m = page_range a n \<union> page_range (a + n * 4096) (m - n)"
  by (auto simp: page_range_def)

lemma page_range_join: "page_range a n \<union> page_range (a + n * 4096) m = page_range a (n + m)"
  by (auto simp: page_range_def)

lemma page_range_empty_iff [simp]: "page_range a n = {} \<longleftrightarrow> n = 0"
  by (simp add: page_range_def)

lemma page_ranges_disjoint:
  assumes "4096 dvd a" and "4096 dvd b" and "0 < n" and "0 < m"
  shows "page_range a n \<inter> page_range b m = {} \<longleftrightarrow> a + n * 4096 \<le> b \<or> b + m * 4096 \<le> a"
proof -
  obtain i j where "a = 4096 * i" "b = 4096 * j" using assms by (auto elim!: dvdE)
  then show ?thesis using assms(3,4) by (auto simp: page_range_def disjoint_iff)
qed

lemma page_range_subset:
  assumes "4096 dvd a" and "4096 dvd b" and "0 < n"
  shows "page_range a n \<subseteq> page_range b m \<longleftrightarrow> b \<le> a \<and> a + n * 4096 \<le> b + m * 4096"
proof -
  obtain i j where "a = 4096 * i" "b = 4096 * j" using assms by (auto elim!: dvdE)
  then show ?thesis using assms(3) by (auto simp: page_range_def)
qed

section \<open>The free extents\<close>

lemma take_extent:
  assumes wf: "wf_extents (pre @ e # post)" and n: "0 < n" "n \<le> fe_page_count e"
    and e': "e' = e\<lparr>fe_start := fe_start e + n * 4096, fe_page_count := fe_page_count e - n\<rparr>"
    and new: "new = pre @ (if fe_page_count e = n then [] else [e']) @ post"
  shows "wf_extents new" and "page_range (fe_start e) n \<subseteq> extent_pages e"
    and "pages_of new = pages_of (pre @ e # post) - page_range (fe_start e) n"
proof -
  have we: "wf_extent e" using wf by simp
  have stop: "extent_stop e' = extent_stop e" using n by (simp add: e' extent_stop_def diff_mult_distrib)
  have we': "wf_extent e'" if "fe_page_count e \<noteq> n"
    using we that n stop by (auto simp: wf_extent_def e' extent_stop_def)
  show "wf_extents new"
    using wf we' stop by (auto simp: new e')
  show "page_range (fe_start e) n \<subseteq> extent_pages e"
    using page_range_split [OF n(2)] by (auto simp: extent_pages_def)
  have split: "extent_pages e = page_range (fe_start e) n \<union> extent_pages e'"
    using page_range_split [OF n(2), of "fe_start e"] by (simp add: extent_pages_def e')
  have "extent_pages x \<inter> extent_pages e = {}" if "x \<in> set pre \<union> set post" for x
    using that wf we page_ranges_disjoint [of "fe_start x" "fe_start e" "fe_page_count x" "fe_page_count e"]
    by (auto simp: extent_pages_def extent_stop_def wf_extents_def wf_extent_def sorted_wrt_append)
  then have "pages_of pre \<inter> page_range (fe_start e) n = {}" "pages_of post \<inter> page_range (fe_start e) n = {}"
    using split by (auto simp: pages_of_def)
  moreover have "extent_pages e' = {} \<longleftrightarrow> fe_page_count e = n"
    using n by (simp add: extent_pages_def e')
  moreover have "extent_pages e' \<inter> page_range (fe_start e) n = {}"
    by (auto simp: extent_pages_def e' page_range_def)
  ultimately show "pages_of new = pages_of (pre @ e # post) - page_range (fe_start e) n"
    by (auto simp: new split)
qed

text \<open>The four ways a freed range joins the list, \<open>pre\<close> being the extents that start at or below it.\<close>

definition free_gap :: "FreeExtent list \<Rightarrow> FreeExtent list \<Rightarrow> nat \<Rightarrow> nat \<Rightarrow> bool" where
  "free_gap pre post start n \<longleftrightarrow> wf_extents (pre @ post) \<and> 4096 dvd start \<and> 0 < n \<and> start + n * 4096 \<le> U64_MAX
    \<and> (\<forall>x\<in>set pre. extent_stop x \<le> start) \<and> (\<forall>x\<in>set post. start + n * 4096 \<le> fe_start x)"

lemma free_gapD:
  assumes "free_gap pre post start n"
  shows "wf_extents (pre @ post)" and "4096 dvd start" "0 < n" "start + n * 4096 \<le> U64_MAX"
    and "\<forall>x\<in>set pre. extent_stop x \<le> start" and "\<forall>x\<in>set post. start + n * 4096 \<le> fe_start x"
  using assms by (auto simp: free_gap_def)

lemma gap_before:
  assumes "free_gap pre post start n" and "pre = [] \<or> extent_stop (last pre) \<noteq> start" and "x \<in> set pre"
  shows "extent_stop x < start"
proof (cases pre rule: rev_cases)
  case (snoc init p)
  then show ?thesis
    using free_gapD(1,5) [OF assms(1)] assms(2,3) by (auto simp: extent_stop_def wf_extent_def)
qed (use assms(3) in simp)

lemma gap_after:
  assumes "free_gap pre post start n" and "post = [] \<or> start + n * 4096 \<noteq> fe_start (hd post)" and "x \<in> set post"
  shows "start + n * 4096 < fe_start x"
  using free_gapD(1,6) [OF assms(1)] assms(2,3) by (cases post) (fastforce simp: extent_stop_def)+

lemma join_both:
  assumes gap: "free_gap pre post start n" and "pre = init @ [p]" and "post = q # rest" and "extent_stop p = start" and "start + n * 4096 = fe_start q"
  shows "wf_extents (init @ p\<lparr>fe_page_count := fe_page_count p + n + fe_page_count q\<rparr> # rest)"
    and "pages_of (init @ p\<lparr>fe_page_count := fe_page_count p + n + fe_page_count q\<rparr> # rest)
      = pages_of (pre @ post) \<union> page_range start n"
proof -
  note wf = free_gapD(1) [OF gap] and start = free_gapD(2-4) [OF gap]
  let ?p = "p\<lparr>fe_page_count := fe_page_count p + n + fe_page_count q\<rparr>"
  have stop: "extent_stop ?p = extent_stop q"
    using assms(4,5) by (simp add: extent_stop_def add_mult_distrib)
  then have "wf_extent ?p" using wf assms(2,3) by (simp add: wf_extent_def extent_stop_def)
  then show "wf_extents (init @ ?p # rest)" using wf assms(2,3) stop by auto
  have "start = fe_start p + fe_page_count p * 4096" "fe_start q = fe_start p + (fe_page_count p + n) * 4096"
    using assms(4,5) by (simp_all add: extent_stop_def add_mult_distrib)
  then have "extent_pages ?p = extent_pages p \<union> page_range start n \<union> extent_pages q"
    using page_range_join [of "fe_start p" "fe_page_count p" n]
      page_range_join [of "fe_start p" "fe_page_count p + n" "fe_page_count q"]
    by (simp add: extent_pages_def)
  then show "pages_of (init @ ?p # rest) = pages_of (pre @ post) \<union> page_range start n"
    using assms(2,3) by auto
qed

lemma join_left:
  assumes gap: "free_gap pre post start n" and "pre = init @ [p]" and "extent_stop p = start" and "post = [] \<or> start + n * 4096 \<noteq> fe_start (hd post)"
  shows "wf_extents (init @ p\<lparr>fe_page_count := fe_page_count p + n\<rparr> # post)"
    and "pages_of (init @ p\<lparr>fe_page_count := fe_page_count p + n\<rparr> # post) = pages_of (pre @ post) \<union> page_range start n"
proof -
  note wf = free_gapD(1) [OF gap] and start = free_gapD(2-4) [OF gap]
  let ?p = "p\<lparr>fe_page_count := fe_page_count p + n\<rparr>"
  have stop: "extent_stop ?p = start + n * 4096"
    using assms(3) by (simp add: extent_stop_def add_mult_distrib)
  have "wf_extent ?p" using wf assms(2) stop start(3) by (auto simp: wf_extent_def extent_stop_def)
  moreover have "start + n * 4096 < fe_start x" if "x \<in> set post" for x
    using gap_after [OF gap _ that] assms(4) by simp
  ultimately show "wf_extents (init @ ?p # post)" using wf assms(2) stop by auto
  have "extent_pages ?p = extent_pages p \<union> page_range start n"
    using assms(3) page_range_join [of "fe_start p" "fe_page_count p" n] by (simp add: extent_pages_def extent_stop_def)
  then show "pages_of (init @ ?p # post) = pages_of (pre @ post) \<union> page_range start n"
    using assms(2) by auto
qed

lemma join_right:
  assumes gap: "free_gap pre post start n" and "post = q # rest" and "start + n * 4096 = fe_start q" and "pre = [] \<or> extent_stop (last pre) \<noteq> start"
  shows "wf_extents (pre @ \<lparr>fe_start = start, fe_page_count = fe_page_count q + n\<rparr> # rest)"
    and "pages_of (pre @ \<lparr>fe_start = start, fe_page_count = fe_page_count q + n\<rparr> # rest)
      = pages_of (pre @ post) \<union> page_range start n"
proof -
  note wf = free_gapD(1) [OF gap] and start = free_gapD(2-4) [OF gap]
  let ?q = "\<lparr>fe_start = start, fe_page_count = fe_page_count q + n\<rparr>"
  have stop: "extent_stop ?q = extent_stop q"
    using assms(3) by (simp add: extent_stop_def add_mult_distrib)
  have "wf_extent ?q" using wf assms(2) stop start by (auto simp: wf_extent_def extent_stop_def)
  moreover have "extent_stop x < start" if "x \<in> set pre" for x
    using gap_before [OF gap _ that] assms(4) by simp
  ultimately show "wf_extents (pre @ ?q # rest)" using wf assms(2) stop by auto
  have "extent_pages ?q = page_range start n \<union> extent_pages q"
    using assms(3) page_range_join [of start n "fe_page_count q"] by (simp add: extent_pages_def add.commute)
  then show "pages_of (pre @ ?q # rest) = pages_of (pre @ post) \<union> page_range start n"
    using assms(2) by auto
qed

lemma join_none:
  assumes gap: "free_gap pre post start n" and "post = [] \<or> start + n * 4096 \<noteq> fe_start (hd post)" and "pre = [] \<or> extent_stop (last pre) \<noteq> start"
  shows "wf_extents (pre @ \<lparr>fe_start = start, fe_page_count = n\<rparr> # post)"
    and "pages_of (pre @ \<lparr>fe_start = start, fe_page_count = n\<rparr> # post) = pages_of (pre @ post) \<union> page_range start n"
proof -
  note wf = free_gapD(1) [OF gap] and start = free_gapD(2-4) [OF gap]
  have "extent_stop x < start" if "x \<in> set pre" for x
    using gap_before [OF gap _ that] assms(3) by simp
  moreover have "start + n * 4096 < fe_start x" if "x \<in> set post" for x
    using gap_after [OF gap _ that] assms(2) by simp
  ultimately show "wf_extents (pre @ \<lparr>fe_start = start, fe_page_count = n\<rparr> # post)"
    using wf start by (auto simp: wf_extent_def extent_stop_def)
  show "pages_of (pre @ \<lparr>fe_start = start, fe_page_count = n\<rparr> # post) = pages_of (pre @ post) \<union> page_range start n"
    by (auto simp: extent_pages_def)
qed

lemma coalesce_wf [simp]: "wf_extents es \<Longrightarrow> coalesce_free_extents es = es"
  by (induction es rule: coalesce_free_extents.induct) auto

section \<open>Allocation and deallocation keep the page sets\<close>

lemma position_sorted_split:
  assumes "wf_extents es" and ins: "ins = (case position (\<lambda>e. start < fe_start e) es of Some i \<Rightarrow> i | None \<Rightarrow> length es)"
  shows "\<forall>x\<in>set (take ins es). fe_start x \<le> start" and "\<forall>x\<in>set (drop ins es). start < fe_start x" and "ins \<le> length es"
proof -
  have "(\<forall>x\<in>set (take ins es). fe_start x \<le> start) \<and> (\<forall>x\<in>set (drop ins es). start < fe_start x) \<and> ins \<le> length es"
  proof (cases "position (\<lambda>e. start < fe_start e) es")
    case None
    then have "\<forall>x\<in>set es. fe_start x \<le> start" by (auto simp: position_None)
    then show ?thesis using None by (simp add: ins)
  next
    case (Some i)
    note ps = position_split [OF Some]
    have "wf_extents (take i es @ es ! i # drop (Suc i) es)" using assms(1) ps(1) by simp
    then have "\<forall>x\<in>set (drop (Suc i) es). start < fe_start x"
      using ps(2) by (fastforce simp: extent_stop_def)
    moreover have "drop i es = es ! i # drop (Suc i) es" using ps(4) by (simp add: Cons_nth_drop_Suc)
    ultimately show ?thesis using ps(2,3,4) by (auto simp: ins Some)
  qed
  then show "\<forall>x\<in>set (take ins es). fe_start x \<le> start" and "\<forall>x\<in>set (drop ins es). start < fe_start x" and "ins \<le> length es"
    by blast+
qed

lemma deallocate_eq:
  "deallocate_contiguous_pages self start page_count =
    (if pa_initialized self \<and> 0 < page_count \<and> 4096 dvd start \<and> page_count \<le> allocated_pages self
        \<and> start + page_count * 4096 \<le> U64_MAX
        \<and> (\<exists>r\<in>set (regions self). rc_start r \<le> start \<and> start + page_count * 4096
              \<le> saturating_add (rc_start r) (saturating_mul (next_page r) 4096))
        \<and> (\<forall>e\<in>set (free_extents self). FreeExtent_end e \<le> start \<or> start + page_count * 4096 \<le> fe_start e)
     then (case release_extent (free_extents self) start (start + page_count * 4096) page_count of
             None \<Rightarrow> (False, self)
           | Some es \<Rightarrow> (True, self\<lparr>free_extents := es, allocated_pages := allocated_pages self - page_count\<rparr>))
     else (False, self))"
proof (cases "pa_initialized self \<and> 0 < page_count \<and> 4096 dvd start \<and> page_count \<le> allocated_pages self
    \<and> start + page_count * 4096 \<le> U64_MAX")
  case True
  then have "page_count * 4096 \<le> U64_MAX" by simp
  moreover have "(\<exists>r\<in>set (regions self). rc_start r \<le> start \<and> start + page_count * 4096
        \<le> saturating_add (rc_start r) (saturating_mul (next_page r) 4096))
      \<longleftrightarrow> list_ex (\<lambda>r. rc_start r \<le> start \<and> start + page_count * 4096
        \<le> saturating_add (rc_start r) (saturating_mul (next_page r) 4096)) (regions self)"
    by (simp add: list_ex_iff)
  moreover have "(\<forall>e\<in>set (free_extents self). FreeExtent_end e \<le> start \<or> start + page_count * 4096 \<le> fe_start e)
      \<longleftrightarrow> \<not> list_ex (\<lambda>e. start < FreeExtent_end e \<and> fe_start e < start + page_count * 4096) (free_extents self)"
    by (auto simp: list_ex_iff not_less)
  ultimately show ?thesis
    using True by (simp add: deallocate_contiguous_pages_def is_multiple_of_dvd checked_mul_def
      checked_add_def Let_def del: not_ex not_all)
next
  case False
  then show ?thesis
    by (auto simp: deallocate_contiguous_pages_def is_multiple_of_dvd checked_mul_def checked_add_def
      not_le split: option.splits)
qed

end
