(* ===== verification/MemoryProps.thy ===== *)
theory MemoryProps
  imports Memory
begin

text \<open>
  Correctness of the physical page allocator of \<^verbatim>\<open>kernel/src/memory.rs\<close>: every operation acts on
  the set of live pages as its contract says, and initialisation never hands out reserved memory.
\<close>

lemma remove_middle [simp]: "remove_free_extent (xs @ y # q # ys) (Suc (length xs)) = xs @ y # ys"
  by (simp add: remove_free_extent_def)

lemma remove_at [simp]: "remove_free_extent (xs @ q # ys) (length xs) = xs @ ys"
  by (simp add: remove_free_extent_def)

lemma wf_extent_small: "wf_extent e \<Longrightarrow> fe_page_count e * 4096 \<le> U64_MAX"
  by (simp add: wf_extent_def)

lemma gap_of_position:
  assumes wf: "wf_extents es" and start: "4096 dvd start" "0 < n" "start + n * 4096 \<le> U64_MAX"
    and apart: "\<forall>e\<in>set es. extent_stop e \<le> start \<or> start + n * 4096 \<le> fe_start e"
    and ins: "ins = (case position (\<lambda>e. start < fe_start e) es of Some i \<Rightarrow> i | None \<Rightarrow> length es)"
  shows "free_gap (take ins es) (drop ins es) start n"
proof -
  note ps = position_sorted_split [OF wf ins]
  have "extent_stop x \<le> start" if "x \<in> set (take ins es)" for x
    using apart ps(1) that start(2) in_set_takeD [OF that] by fastforce
  moreover have "start + n * 4096 \<le> fe_start x" if "x \<in> set (drop ins es)" for x
  proof -
    have x: "x \<in> set es" using in_set_dropD [OF that] .
    have "start < fe_start x" using ps(2) that by blast
    then have "\<not> extent_stop x \<le> start" by (simp add: extent_stop_def)
    then show ?thesis using apart x by blast
  qed
  ultimately show ?thesis using wf start by (simp add: free_gap_def)
qed

definition insertion_point :: "FreeExtent list \<Rightarrow> nat \<Rightarrow> nat" where
  "insertion_point es start = (case position (\<lambda>e. start < fe_start e) es of Some i \<Rightarrow> i | None \<Rightarrow> length es)"

lemma release_snoc:
  assumes "insertion_point (init @ p # post) start = Suc (length init)" and "FreeExtent_end p = start"
    and p': "p' = p\<lparr>fe_page_count := saturating_add (fe_page_count p) n\<rparr>"
  shows "release_extent (init @ p # post) start stop n = Some
    (case post of
       [] \<Rightarrow> init @ [p']
     | q # rest \<Rightarrow> if FreeExtent_end p' = fe_start q
         then init @ p'\<lparr>fe_page_count := saturating_add (fe_page_count p') (fe_page_count q)\<rparr> # rest
         else init @ p' # post)"
proof (cases post)
  case Nil
  then show ?thesis
    using assms by (simp add: release_extent_def Let_def flip: insertion_point_def)
next
  case (Cons q rest)
  have "(init @ p # post) ! length init = p" "(init @ y # post) ! Suc (length init) = q" for y
    by (simp_all add: nth_append Cons)
  then show ?thesis
    using assms by (simp add: release_extent_def Let_def Cons flip: insertion_point_def)
qed

lemma release_fresh:
  assumes "insertion_point (pre @ post) start = length pre" and "pre = [] \<or> FreeExtent_end (last pre) \<noteq> start"
  shows "release_extent (pre @ post) start stop n =
    (if post \<noteq> [] \<and> stop = fe_start (hd post)
     then Some (pre @ \<lparr>fe_start = start, fe_page_count = saturating_add (fe_page_count (hd post)) n\<rparr> # tl post)
     else if MAX_FREE_EXTENTS \<le> length (pre @ post) then None
     else Some (coalesce_free_extents (pre @ \<lparr>fe_start = start, fe_page_count = n\<rparr> # post)))"
proof -
  have no: "(0 < length pre \<and> FreeExtent_end ((pre @ post) ! (length pre - 1)) = start) = False"
    using assms(2) by (cases pre rule: rev_cases) (auto simp: nth_append)
  show ?thesis
    unfolding release_extent_def insertion_point_def [symmetric] assms(1) Let_def no if_False
    by (cases post) simp_all
qed

lemma release_extent_gap:
  assumes gap: "free_gap pre post start n" and ins: "insertion_point (pre @ post) start = length pre"
  shows "case release_extent (pre @ post) start (start + n * 4096) n of
      Some es \<Rightarrow> wf_extents es \<and> pages_of es = pages_of (pre @ post) \<union> page_range start n
    | None \<Rightarrow> MAX_FREE_EXTENTS \<le> length (pre @ post)"
proof -
  note g = free_gapD [OF gap]
  have n: "n * 4096 \<le> U64_MAX" using g(4) by simp
  show ?thesis
  proof (cases "pre = [] \<or> extent_stop (last pre) \<noteq> start")
    case True
    have "pre = [] \<or> wf_extent (last pre)" using g(1) by (cases pre rule: rev_cases) auto
    then have "pre = [] \<or> FreeExtent_end (last pre) \<noteq> start" using True by auto
    note rel = release_fresh [OF ins this, of "start + n * 4096" n]
    show ?thesis
    proof (cases "post \<noteq> [] \<and> start + n * 4096 = fe_start (hd post)")
      case right: True
      then obtain q rest where post: "post = q # rest" by (cases post) auto
      have "fe_page_count q + n \<le> U64_MAX"
        using right g(1) post wf_extent_small [of q] by (auto simp: wf_extent_def)
      then show ?thesis
        using rel right join_right [OF gap post _ True] by (simp add: post)
    next
      case False
      then show ?thesis using rel join_none [OF gap _ True] by (auto split: option.split)
    qed
  next
    case False
    then obtain init p where pre: "pre = init @ [p]" and p: "extent_stop p = start"
      by (cases pre rule: rev_cases) auto
    have wp: "wf_extent p" using g(1) by (simp add: pre)
    define p' where "p' = p\<lparr>fe_page_count := fe_page_count p + n\<rparr>"
    have stop: "FreeExtent_end p' = start + n * 4096" and small: "fe_page_count p + n \<le> U64_MAX"
      using p g(4) by (simp_all add: p'_def FreeExtent_end_def extent_stop_def add_mult_distrib)
    then have rel: "release_extent (init @ p # post) start (start + n * 4096) n = Some
      (case post of
         [] \<Rightarrow> init @ [p']
       | q # rest \<Rightarrow> if start + n * 4096 = fe_start q
           then init @ p'\<lparr>fe_page_count := saturating_add (fe_page_count p') (fe_page_count q)\<rparr> # rest
           else init @ p' # post)"
      using release_snoc [of init p post start p' n "start + n * 4096"] ins wp p
      by (simp add: pre p'_def cong: list.case_cong)
    show ?thesis
    proof (cases post)
      case Nil
      then show ?thesis using rel join_left [OF gap pre p] by (simp add: pre p'_def)
    next
      case (Cons q rest)
      have "wf_extent q" using g(1) by (simp add: Cons)
      then have "start + n * 4096 = fe_start q \<Longrightarrow> fe_page_count p + n + fe_page_count q \<le> U64_MAX"
        using p by (auto simp: wf_extent_def extent_stop_def)
      then show ?thesis
        using rel join_left [OF gap pre p] join_both [OF gap pre Cons p]
        by (simp add: pre p'_def Cons)
    qed
  qed
qed

lemma release_extent_correct:
  assumes wf: "wf_extents es" and start: "4096 dvd start" "0 < n" "start + n * 4096 \<le> U64_MAX"
    and apart: "\<forall>e\<in>set es. extent_stop e \<le> start \<or> start + n * 4096 \<le> fe_start e"
  shows "case release_extent es start (start + n * 4096) n of
      Some es' \<Rightarrow> wf_extents es' \<and> pages_of es' = pages_of es \<union> page_range start n
    | None \<Rightarrow> MAX_FREE_EXTENTS \<le> length es"
proof -
  let ?i = "insertion_point es start"
  have "?i \<le> length es" using position_sorted_split(3) [OF wf] by (simp add: insertion_point_def)
  then show ?thesis
    using release_extent_gap [OF gap_of_position [OF assms insertion_point_def], unfolded append_take_drop_id] by simp
qed

section \<open>Regions\<close>

lemma cursor_subset: "wf_region r \<Longrightarrow> cursor_pages r \<subseteq> region_pages r"
  by (auto simp: wf_region_def cursor_pages_def region_pages_def page_range_def)

lemma region_sets_simps [simp]:
  "usable_pages [] = {}" "usable_pages (r # rs) = region_pages r \<union> usable_pages rs"
  "bumped_pages [] = {}" "bumped_pages (r # rs) = cursor_pages r \<union> bumped_pages rs"
  by (auto simp: usable_pages_def bumped_pages_def)

lemma wf_regions_Cons [simp]:
  "wf_regions (r # rs) \<longleftrightarrow> wf_region r \<and> wf_regions rs \<and> region_pages r \<inter> usable_pages rs = {}"
  by (auto simp: wf_regions_def usable_pages_def)

lemma bumped_subset: "wf_regions rs \<Longrightarrow> bumped_pages rs \<subseteq> usable_pages rs"
  by (induction rs) (auto dest: cursor_subset)

lemma region_sets_finite [simp]: "finite (usable_pages rs)" "finite (bumped_pages rs)" "finite (pages_of es)"
  by (simp_all add: usable_pages_def bumped_pages_def pages_of_def region_pages_def cursor_pages_def extent_pages_def)

lemma take_from_regions_Some:
  assumes "take_from_regions n rs = Some (a, rs')" and "wf_regions rs" and "0 < n"
  shows "wf_regions rs' \<and> 4096 dvd a \<and> usable_pages rs' = usable_pages rs
    \<and> bumped_pages rs' = bumped_pages rs \<union> page_range a n \<and> page_range a n \<inter> bumped_pages rs = {}
    \<and> page_range a n \<subseteq> usable_pages rs"
  using assms(1,2)
proof (induction rs arbitrary: rs')
  case (Cons r rs)
  show ?case
  proof (cases "remaining_pages r < n")
    case True
    then obtain rs1 where rs1: "take_from_regions n rs = Some (a, rs1)" "rs' = r # rs1"
      using Cons.prems(1) by auto
    have "cursor_pages r \<inter> page_range a n = {}"
      using Cons.IH [OF rs1(1)] Cons.prems(2) cursor_subset [of r] by auto
    then show ?thesis
      using Cons.IH [OF rs1(1)] Cons.prems(2) rs1(2) by auto
  next
    case False
    have r: "wf_region r" using Cons.prems(2) by simp
    have n: "next_page r + n \<le> rc_page_count r"
      using False r assms(3) by (simp add: remaining_pages_def saturating_sub_def wf_region_def)
    have small: "rc_start r + next_page r * 4096 \<le> U64_MAX" "next_page r + n \<le> U64_MAX" "next_page r * 4096 \<le> U64_MAX"
      using n r by (auto simp: wf_region_def)
    have eq: "a = rc_start r + next_page r * 4096" "rs' = r\<lparr>next_page := next_page r + n\<rparr> # rs"
      using Cons.prems(1) False small by (simp_all add: saturating_add_exact saturating_mul_exact)
    let ?r = "r\<lparr>next_page := next_page r + n\<rparr>"
    have "wf_region ?r" "region_pages ?r = region_pages r"
      using n r by (simp_all add: wf_region_def region_pages_def)
    moreover have "cursor_pages ?r = cursor_pages r \<union> page_range a n"
      using page_range_join [of "rc_start r" "next_page r" n] by (simp add: cursor_pages_def eq(1))
    moreover have "page_range a n \<inter> cursor_pages r = {}"
      by (auto simp: cursor_pages_def eq(1) page_range_def)
    moreover have "page_range a n \<subseteq> region_pages r"
      using n by (auto simp: region_pages_def eq(1) page_range_def)
    moreover have "4096 dvd a" using r by (simp add: eq(1) wf_region_def)
    ultimately show ?thesis
      using Cons.prems(2) bumped_subset [of rs] by (auto simp: eq(2))
  qed
qed simp

lemma take_from_regions_None:
  "take_from_regions n rs = None \<longleftrightarrow> (\<forall>r\<in>set rs. remaining_pages r < n)"
  by (induction rs) auto

section \<open>The allocator\<close>

lemma live_finite [simp]: "finite (live_pages self)"
  by (simp add: live_pages_def)

lemma page_limit:
  assumes "wf_regions rs" and "p \<in> usable_pages rs"
  shows "p * 4096 < U64_MAX"
proof -
  obtain r where r: "r \<in> set rs" "p \<in> region_pages r" using assms(2) by (auto simp: usable_pages_def)
  then have "wf_region r" using assms(1) by (simp add: wf_regions_def)
  then show ?thesis using r(2) page_range_mem [of "rc_start r"] by (auto simp: region_pages_def wf_region_def)
qed

lemma card_pages_small:
  assumes "wf_regions rs" and "A \<subseteq> usable_pages rs"
  shows "card A \<le> U64_MAX"
proof -
  have "A \<subseteq> {..<U64_MAX}" using page_limit [OF assms(1)] assms(2) by fastforce
  then show ?thesis using card_mono [of "{..<U64_MAX}" A] by simp
qed

lemma live_subset_usable: "allocator_inv self \<Longrightarrow> live_pages self \<subseteq> usable_pages (regions self)"
  using bumped_subset by (auto simp: allocator_inv_def live_pages_def)

lemma allocator_inv_add:
  assumes inv: "allocator_inv self" and rs: "wf_regions rs" "usable_pages rs = usable_pages (regions self)"
    and es: "wf_extents es" "pages_of es \<subseteq> bumped_pages rs"
    and live: "bumped_pages rs - pages_of es = live_pages self \<union> page_range a n" "page_range a n \<inter> live_pages self = {}"
    and self': "self' = self\<lparr>regions := rs, free_extents := es, allocated_pages := saturating_add (allocated_pages self) n\<rparr>"
  shows "allocator_inv self' \<and> live_pages self' = live_pages self \<union> page_range a n"
proof -
  have live': "live_pages self' = live_pages self \<union> page_range a n"
    using live(1) by (simp add: self' live_pages_def)
  have "card (live_pages self') = card (live_pages self) + n"
    using live(2) card_Un_disjoint [of "live_pages self" "page_range a n"] by (simp add: live' Int_commute)
  moreover have "live_pages self' \<subseteq> usable_pages rs"
    using bumped_subset [OF rs(1)] by (auto simp: self' live_pages_def)
  then have "card (live_pages self') \<le> U64_MAX" by (rule card_pages_small [OF rs(1)])
  ultimately show ?thesis
    using inv rs es live' by (simp add: allocator_inv_def self')
qed

lemma allocate_contiguous_law:
  assumes inv: "allocator_inv self" and n: "0 < n"
  shows "case allocate_contiguous_pages self n of
      (Some a, self') \<Rightarrow> allocator_inv self' \<and> 4096 dvd a \<and> page_range a n \<subseteq> usable_pages (regions self)
        \<and> page_range a n \<inter> live_pages self = {} \<and> live_pages self' = live_pages self \<union> page_range a n
        \<and> usable_pages (regions self') = usable_pages (regions self)
    | (None, self') \<Rightarrow> self' = self \<and> (\<forall>e\<in>set (free_extents self). fe_page_count e < n)
        \<and> (\<forall>r\<in>set (regions self). remaining_pages r < n)"
proof (cases "position (\<lambda>e. n \<le> fe_page_count e) (free_extents self)")
  case None
  have init: "pa_initialized self" "wf_regions (regions self)" "wf_extents (free_extents self)"
    "pages_of (free_extents self) \<subseteq> bumped_pages (regions self)" using inv by (simp_all add: allocator_inv_def)
  show ?thesis
  proof (cases "take_from_regions n (regions self)")
    case none: None
    then have "allocate_contiguous_pages self n = (None, self)"
      using None init n by (simp add: allocate_contiguous_pages_def)
    moreover have "\<forall>r\<in>set (regions self). remaining_pages r < n" "\<forall>e\<in>set (free_extents self). fe_page_count e < n"
      using none None by (simp_all add: take_from_regions_None position_None not_le)
    ultimately show ?thesis by simp
  next
    case (Some res)
    obtain a rs where res: "take_from_regions n (regions self) = Some (a, rs)" using Some by (cases res) auto
    note t = take_from_regions_Some [OF res init(2) n]
    have live: "bumped_pages rs - pages_of (free_extents self) = live_pages self \<union> page_range a n"
      "page_range a n \<inter> live_pages self = {}" "pages_of (free_extents self) \<subseteq> bumped_pages rs"
      using t init(4) by (auto simp: live_pages_def)
    have run: "allocate_contiguous_pages self n = (Some a, self\<lparr>regions := rs, allocated_pages := saturating_add (allocated_pages self) n\<rparr>)"
      using res None init n by (simp add: allocate_contiguous_pages_def)
    have "allocator_inv (self\<lparr>regions := rs, allocated_pages := saturating_add (allocated_pages self) n\<rparr>)
      \<and> live_pages (self\<lparr>regions := rs, allocated_pages := saturating_add (allocated_pages self) n\<rparr>)
        = live_pages self \<union> page_range a n"
      using t live by (intro allocator_inv_add [OF inv _ _ init(3)]) simp_all
    then show ?thesis using run t live(2) by simp
  qed
next
  case (Some i)
  have init: "pa_initialized self" "wf_regions (regions self)" "wf_extents (free_extents self)"
    "pages_of (free_extents self) \<subseteq> bumped_pages (regions self)" using inv by (simp_all add: allocator_inv_def)
  define pre where "pre = take i (free_extents self)"
  define e where "e = free_extents self ! i"
  define post where "post = drop (Suc i) (free_extents self)"
  have es: "free_extents self = pre @ e # post" and ne: "n \<le> fe_page_count e" and i: "i = length pre"
    using position_split [OF Some] by (simp_all add: pre_def e_def post_def)
  define e' where "e' = e\<lparr>fe_start := fe_start e + n * 4096, fe_page_count := fe_page_count e - n\<rparr>"
  define new where "new = pre @ (if fe_page_count e = n then [] else [e']) @ post"
  note t = take_extent [OF init(3) [unfolded es] n ne e'_def new_def]
  have we: "wf_extent e" using init(3) by (simp add: es)
  then have small: "n * 4096 \<le> U64_MAX" "fe_start e + n * 4096 \<le> U64_MAX"
    using ne by (auto simp: wf_extent_def)
  have run: "allocate_contiguous_pages self n = (Some (fe_start e), self\<lparr>free_extents := new,
      allocated_pages := saturating_add (allocated_pages self) n\<rparr>)"
    using Some init(1) n small ne
    by (auto simp: allocate_contiguous_pages_def Let_def es i new_def e'_def)
  have sub: "page_range (fe_start e) n \<subseteq> pages_of (free_extents self)" using t(2) by (auto simp: es)
  then have "page_range (fe_start e) n \<inter> live_pages self = {}"
    and "bumped_pages (regions self) - pages_of new = live_pages self \<union> page_range (fe_start e) n"
    and "pages_of new \<subseteq> bumped_pages (regions self)"
    using t(3) init(4) by (auto simp: live_pages_def es)
  then have "allocator_inv (self\<lparr>free_extents := new, allocated_pages := saturating_add (allocated_pages self) n\<rparr>)
      \<and> live_pages (self\<lparr>free_extents := new, allocated_pages := saturating_add (allocated_pages self) n\<rparr>)
        = live_pages self \<union> page_range (fe_start e) n"
    by (intro allocator_inv_add [OF inv init(2) refl t(1)]) simp_all
  then show ?thesis
    using run sub init(4) bumped_subset [OF init(2)] we \<open>page_range (fe_start e) n \<inter> live_pages self = {}\<close>
    by (auto simp: wf_extent_def)
qed

text \<open>
  C18: allocation of contiguous pages returns page-aligned, usable, previously unallocated pages and
  adds exactly these to the allocated ones; when it refuses, nothing changes, and neither a free
  extent nor a region has enough contiguous pages left.
\<close>

theorem allocate_pages_correct:
  assumes inv: "allocator_inv self" and n: "0 < n"
  shows "case allocate_contiguous_pages self n of
      (Some a, self') \<Rightarrow> allocator_inv self' \<and> 4096 dvd a \<and> page_range a n \<subseteq> usable_pages (regions self)
        \<and> page_range a n \<inter> live_pages self = {} \<and> live_pages self' = live_pages self \<union> page_range a n
        \<and> usable_pages (regions self') = usable_pages (regions self)
    | (None, self') \<Rightarrow> self' = self \<and> (\<forall>e\<in>set (free_extents self). fe_page_count e < n)
        \<and> (\<forall>r\<in>set (regions self). remaining_pages r < n)"
  using allocate_contiguous_law [OF assms] .

lemma deallocate_contiguous_law:
  assumes inv: "allocator_inv self"
  shows "case deallocate_contiguous_pages self start n of
      (True, self') \<Rightarrow> allocator_inv self' \<and> 0 < n \<and> 4096 dvd start \<and> page_range start n \<subseteq> live_pages self
        \<and> live_pages self' = live_pages self - page_range start n
        \<and> usable_pages (regions self') = usable_pages (regions self)
    | (False, self') \<Rightarrow> self' = self"
proof -
  have init: "wf_regions (regions self)" "wf_extents (free_extents self)"
    "pages_of (free_extents self) \<subseteq> bumped_pages (regions self)" "allocated_pages self = card (live_pages self)"
    using inv by (simp_all add: allocator_inv_def)
  obtain ok self' where res: "deallocate_contiguous_pages self start n = (ok, self')" by fastforce
  show ?thesis
  proof (cases ok)
    case False
    then show ?thesis using res by (auto simp: deallocate_eq split: if_splits option.splits)
  next
    case True
    then obtain es r where ok: "0 < n" "4096 dvd start" "start + n * 4096 \<le> U64_MAX"
      and r: "r \<in> set (regions self)" "rc_start r \<le> start"
        "start + n * 4096 \<le> saturating_add (rc_start r) (saturating_mul (next_page r) 4096)"
      and apart: "\<forall>e\<in>set (free_extents self). FreeExtent_end e \<le> start \<or> start + n * 4096 \<le> fe_start e"
      and es: "release_extent (free_extents self) start (start + n * 4096) n = Some es"
      and self': "self' = self\<lparr>free_extents := es, allocated_pages := allocated_pages self - n\<rparr>"
      using res by (auto simp: deallocate_eq split: if_splits option.splits)
    have wr: "wf_region r" using r(1) init(1) by (simp add: wf_regions_def)
    have we: "\<forall>e\<in>set (free_extents self). wf_extent e" using init(2) by (simp add: wf_extents_def)
    then have apart': "\<forall>e\<in>set (free_extents self). extent_stop e \<le> start \<or> start + n * 4096 \<le> fe_start e"
      using apart by auto
    have "next_page r * 4096 \<le> rc_page_count r * 4096" using wr by (simp add: wf_region_def)
    then have bump: "page_range start n \<subseteq> bumped_pages (regions self)"
      using r ok wr page_range_subset [of start "rc_start r" n "next_page r"]
      by (force simp: wf_region_def bumped_pages_def cursor_pages_def)
    have "page_range start n \<inter> extent_pages e = {}" if "e \<in> set (free_extents self)" for e
      using that apart' we ok page_ranges_disjoint [of start "fe_start e" n "fe_page_count e"]
      by (auto simp: extent_pages_def wf_extent_def extent_stop_def)
    then have "page_range start n \<inter> pages_of (free_extents self) = {}" by (auto simp: pages_of_def)
    then have sub: "page_range start n \<subseteq> live_pages self" using bump by (auto simp: live_pages_def)
    have new: "wf_extents es" "pages_of es = pages_of (free_extents self) \<union> page_range start n"
      using release_extent_correct [OF init(2) ok(2,1,3) apart'] es by simp_all
    then have live': "live_pages self' = live_pages self - page_range start n"
      by (auto simp: self' live_pages_def)
    then have "card (live_pages self') = card (live_pages self) - n"
      using sub by (simp add: card_Diff_subset)
    then have "allocator_inv self'"
      using inv new bump by (simp add: allocator_inv_def self')
    then show ?thesis using res True ok live' sub by (simp add: self')
  qed
qed

text \<open>
  C19: deallocation succeeds only for pages that are all allocated, and then removes exactly these
  from the allocated ones; when it refuses, nothing changes.
\<close>

theorem deallocate_pages_correct:
  assumes inv: "allocator_inv self"
  shows "case deallocate_contiguous_pages self start n of
      (True, self') \<Rightarrow> allocator_inv self' \<and> 0 < n \<and> 4096 dvd start \<and> page_range start n \<subseteq> live_pages self
        \<and> live_pages self' = live_pages self - page_range start n
        \<and> usable_pages (regions self') = usable_pages (regions self)
    | (False, self') \<Rightarrow> self' = self"
  using deallocate_contiguous_law [OF assms] .

definition sample_allocator :: PhysicalPageAllocator where
  "sample_allocator = \<lparr>pa_initialized = True,
    regions = [\<lparr>rc_start = 0x1000, rc_page_count = 1, next_page = 1, rc_kind = Conventional\<rparr>,
               \<lparr>rc_start = 0x2000, rc_page_count = 4, next_page = 2, rc_kind = LoaderData\<rparr>],
    total_usable_pages = 5, allocated_pages = 3, free_extents = []\<rparr>"

lemma sample_allocator_inv: "allocator_inv sample_allocator"
proof -
  have "{Suc 0} \<union> {2 ..< 4} = {1::nat, 2, 3}" "{Suc 0} \<union> {2 ..< 6} = {1::nat, 2, 3, 4, 5}" by auto
  then have "card ({Suc 0} \<union> {2 ..< 4}) = 3" "card ({Suc 0} \<union> {2 ..< 6}) = 5" by simp_all
  then show ?thesis
    by (simp add: allocator_inv_def sample_allocator_def wf_region_def region_pages_def cursor_pages_def
      page_range_def live_pages_def U64_MAX_numeral wf_regions_def)
qed

theorem allocate_pages_correct_witness:
  "case allocate_contiguous_pages sample_allocator 2 of
      (Some a, self') \<Rightarrow> allocator_inv self' \<and> 4096 dvd a \<and> page_range a 2 \<inter> live_pages sample_allocator = {}
    | (None, self') \<Rightarrow> self' = sample_allocator"
  using allocate_pages_correct [OF sample_allocator_inv, of 2]
  by (auto split: option.splits)

lemmas allocator_eval = sample_allocator_def deallocate_contiguous_pages_def allocate_contiguous_pages_def
  release_extent_def is_multiple_of_dvd checked_mul_def checked_add_def U64_MAX_numeral saturating_add_def
  saturating_mul_def FreeExtent_end_def remove_free_extent_def

theorem deallocate_pages_correct_witness:
  "fst (deallocate_contiguous_pages sample_allocator 0x2000 2)
    \<and> live_pages (snd (deallocate_contiguous_pages sample_allocator 0x2000 2))
      = live_pages sample_allocator - page_range 0x2000 2"
proof -
  have "fst (deallocate_contiguous_pages sample_allocator 0x2000 2)"
    by (simp add: allocator_eval)
  then show ?thesis
    using deallocate_pages_correct [OF sample_allocator_inv, where start = 8192 and n = 2]
    by (simp split: prod.splits)
qed

text \<open>
  deallocating allocated pages that lie within one region succeeds as long as the table of free
  extents has room.
\<close>

theorem deallocate_pages_succeeds:
  assumes inv: "allocator_inv self" and n: "0 < n" and start: "4096 dvd start"
    and live: "page_range start n \<subseteq> live_pages self" and r: "r \<in> set (regions self)" "page_range start n \<subseteq> cursor_pages r"
    and room: "length (free_extents self) < MAX_FREE_EXTENTS"
  shows "fst (deallocate_contiguous_pages self start n)"
proof -
  have init: "wf_regions (regions self)" "wf_extents (free_extents self)" "allocated_pages self = card (live_pages self)"
    "pa_initialized self" using inv by (simp_all add: allocator_inv_def)
  have wr: "wf_region r" using r(1) init(1) by (simp add: wf_regions_def)
  have inside: "rc_start r \<le> start" "start + n * 4096 \<le> rc_start r + next_page r * 4096"
    using r(2) wr n start page_range_subset [of start "rc_start r" n "next_page r"]
    by (simp_all add: cursor_pages_def wf_region_def)
  have "rc_start r + next_page r * 4096 \<le> U64_MAX"
    using wr mult_right_mono [of "next_page r" "rc_page_count r" 4096] by (simp add: wf_region_def)
  then have cond: "rc_start r \<le> start \<and> start + n * 4096 \<le> saturating_add (rc_start r) (saturating_mul (next_page r) 4096)"
    and top: "start + n * 4096 \<le> U64_MAX"
    using inside by simp_all
  have we: "\<forall>e\<in>set (free_extents self). wf_extent e" using init(2) by (simp add: wf_extents_def)
  have "page_range start n \<inter> extent_pages e = {}" if "e \<in> set (free_extents self)" for e
    using that live by (auto simp: live_pages_def pages_of_def)
  then have apart: "\<forall>e\<in>set (free_extents self). extent_stop e \<le> start \<or> start + n * 4096 \<le> fe_start e"
    using we n start page_ranges_disjoint [of start _ n]
    by (auto simp: extent_pages_def wf_extent_def extent_stop_def)
  have "n \<le> card (live_pages self)" using card_mono [OF _ live] by simp
  moreover have "release_extent (free_extents self) start (start + n * 4096) n \<noteq> None"
    using release_extent_correct [OF init(2) start n top apart] room by (auto split: option.splits)
  ultimately show ?thesis
    using init n start top cond r(1) apart we by (auto simp: deallocate_eq)
qed

theorem deallocate_pages_succeeds_witness: "fst (deallocate_contiguous_pages sample_allocator 0x2000 2)"
  by (rule deallocate_pages_succeeds [OF sample_allocator_inv,
        where r = "\<lparr>rc_start = 0x2000, rc_page_count = 4, next_page = 2, rc_kind = LoaderData\<rparr>"])
    (auto simp: sample_allocator_def live_pages_def page_range_def cursor_pages_def)


end
