(* ===== verification/MemoryInit.thy ===== *)
theory MemoryInit
  imports MemoryProps
begin

text \<open>
  Initialisation of the physical page allocator (\<^verbatim>\<open>init\<close>, \<^verbatim>\<open>add_region_fragments\<close>,
  \<^verbatim>\<open>push_region\<close> of \<^verbatim>\<open>kernel/src/memory.rs\<close>): the pages it manages are the pages of the usable
  boot regions that no reserved range touches.
\<close>

section \<open>Page alignment\<close>

lemma align_down_eq: "v \<le> U64_MAX \<Longrightarrow> align_down v = v div 4096 * 4096"
  using mask_down_pow2 [of v 12] by (simp add: align_down_def)

lemma align_up_page_eq:
  "align_up_page v = (if v + 4095 \<le> U64_MAX then (v + 4095) div 4096 * 4096 else U64_MAX div 4096 * 4096)"
  using mask_down_pow2 [of "v + 4095" 12] mask_down_pow2 [of U64_MAX 12]
  by (simp add: align_up_page_def saturating_add_def)

lemma last_page: "U64_MAX div 4096 * 4096 = U64_MAX - 4095"
  by (simp add: U64_MAX_numeral)

text \<open>The pages that lie completely inside a span, and the pages a reserved range touches.\<close>

definition whole_pages :: "nat \<Rightarrow> nat \<Rightarrow> nat set" where
  "whole_pages start stop = {p. start \<le> p * 4096 \<and> (p + 1) * 4096 \<le> stop}"

definition touched_pages :: "ReservedMemoryRange \<Rightarrow> nat set" where
  "touched_pages r = {p. p * 4096 < rr_start r + rr_length r \<and> rr_start r < (p + 1) * 4096 \<and> 0 < rr_length r}"

lemma round_up_le: "(s + 4095) div 4096 \<le> x \<longleftrightarrow> s \<le> x * (4096::nat)"
  by linarith

lemma round_down_less: "x < s div 4096 \<longleftrightarrow> (x + 1) * 4096 \<le> (s::nat)"
  using less_eq_div_iff_mult_less_eq [of 4096 "Suc x" s] by (simp add: Suc_le_eq)

lemma less_round_up: "x * 4096 < s \<longleftrightarrow> (x + 1) * 4096 \<le> (s + 4095) div 4096 * (4096::nat)"
  using round_up_le [of s x] by (simp only: mult_le_cancel2) auto

lemma whole_pages_range:
  assumes "stop \<le> U64_MAX"
  shows "whole_pages start stop =
    page_range (align_up_page start) ((align_down stop - align_up_page start) div 4096)"
proof (cases "start + 4095 \<le> U64_MAX")
  case True
  have "whole_pages start stop = {(start + 4095) div 4096 ..< stop div 4096}"
    by (rule set_eqI) (simp add: whole_pages_def round_up_le round_down_less)
  moreover have "(stop div 4096 * 4096 - (start + 4095) div 4096 * 4096) div 4096 = stop div 4096 - (start + 4095) div 4096"
    by (simp flip: diff_mult_distrib)
  moreover have "{u ..< u + (d - u)} = {u ..< d}" for u d :: nat by auto
  ultimately show ?thesis
    using True assms by (simp add: page_range_def align_up_page_eq align_down_eq)
next
  case False
  then have "align_down stop \<le> align_up_page start"
    using assms by (simp add: align_up_page_eq align_down_eq div_le_mono)
  moreover have "whole_pages start stop = {}"
    using False assms by (auto simp: whole_pages_def)
  ultimately show ?thesis by (simp add: page_range_def)
qed

lemma reserved_page_inside:
  assumes p: "(p + 1) * 4096 \<le> U64_MAX" and "0 < rr_length r" and start: "rr_start r \<le> U64_MAX"
  shows "p \<in> touched_pages r \<longleftrightarrow>
    align_down (rr_start r) \<le> p * 4096 \<and> (p + 1) * 4096 \<le> align_up_page (ReservedMemoryRange_end r)"
proof -
  let ?e = "rr_start r + rr_length r"
  have "rr_start r < (p + 1) * 4096 \<longleftrightarrow> rr_start r div 4096 * 4096 \<le> p * 4096"
    using round_down_less [of p "rr_start r"] by linarith
  moreover have "p * 4096 < ?e \<longleftrightarrow> (p + 1) * 4096 \<le> align_up_page (ReservedMemoryRange_end r)"
  proof (cases "?e + 4095 \<le> U64_MAX")
    case True
    then have "align_up_page (ReservedMemoryRange_end r) = (?e + 4095) div 4096 * 4096"
      by (simp add: align_up_page_eq ReservedMemoryRange_end_def)
    then show ?thesis using less_round_up [of p ?e] by simp
  next
    case False
    then have "\<not> ReservedMemoryRange_end r + 4095 \<le> U64_MAX"
      by (auto simp: ReservedMemoryRange_end_def saturating_add_def U64_MAX_numeral)
    then have "align_up_page (ReservedMemoryRange_end r) = U64_MAX div 4096 * 4096"
      by (simp add: align_up_page_eq)
    moreover have "(p + 1) * 4096 \<le> U64_MAX div 4096 * 4096"
      using p round_down_less [of p U64_MAX] by (simp only: mult_le_cancel2) simp
    moreover have "p * 4096 < ?e" using p False by simp
    ultimately show ?thesis by simp
  qed
  ultimately show ?thesis using assms by (auto simp: touched_pages_def align_down_eq)
qed

lemma align_multiple: "v \<le> U64_MAX \<Longrightarrow> 4096 dvd align_down v" "4096 dvd align_up_page v"
  by (simp_all add: align_down_eq align_up_page_eq)

section \<open>Cutting reserved ranges out of a span\<close>

definition span_pages :: "RegionSpan \<Rightarrow> nat set" where
  "span_pages s = whole_pages (span_start s) (span_end s)"

definition spans_pages :: "RegionSpan list \<Rightarrow> nat set" where
  "spans_pages ss = (\<Union>s\<in>set ss. span_pages s)"

definition pieces :: "nat \<Rightarrow> nat \<Rightarrow> RegionSpan \<Rightarrow> RegionSpan list" where
  "pieces lo hi s =
    (if span_is_empty s then []
     else if min (span_end s) hi \<le> max (span_start s) lo then [s]
     else (if span_start s < lo then [\<lparr>span_start = span_start s, span_end = lo\<rparr>] else [])
        @ (if hi < span_end s then [\<lparr>span_start = hi, span_end = span_end s\<rparr>] else []))"

definition wf_spans :: "RegionSpan list \<Rightarrow> bool" where
  "wf_spans ss \<longleftrightarrow> (\<forall>s\<in>set ss. span_start s < span_end s \<and> span_end s \<le> U64_MAX)
    \<and> sorted_wrt (\<lambda>a b. span_end a \<le> span_start b) ss"

lemma split_span_pieces:
  assumes "length acc + length (pieces lo hi s) \<le> MAX_SPANS"
  shows "split_span lo hi acc s = acc @ pieces lo hi s"
  using assms by (auto simp: split_span_def pieces_def push_span_def span_is_empty_def Let_def max_def min_def split: if_splits)

lemma foldl_split_span:
  "length acc + length (concat (map (pieces lo hi) ss)) \<le> MAX_SPANS \<Longrightarrow>
    foldl (split_span lo hi) acc ss = acc @ concat (map (pieces lo hi) ss)"
  by (induction ss arbitrary: acc) (auto simp: split_span_pieces)

lemma pieces_bounds:
  "s' \<in> set (pieces lo hi s) \<Longrightarrow> span_start s \<le> span_start s' \<and> span_end s' \<le> span_end s \<and> span_start s' < span_end s'"
  by (auto simp: pieces_def span_is_empty_def split: if_splits)

lemma pieces_sorted: "lo < hi \<Longrightarrow> sorted_wrt (\<lambda>a b. span_end a \<le> span_start b) (pieces lo hi s)"
  by (auto simp: pieces_def)

lemma pieces_wf:
  assumes "wf_spans ss" and "lo < hi"
  shows "wf_spans (concat (map (pieces lo hi) ss))"
  using assms(1)
proof (induction ss)
  case (Cons s ss)
  have s: "span_end s \<le> U64_MAX" "\<forall>t\<in>set ss. span_end s \<le> span_start t" and "wf_spans ss"
    using Cons.prems by (simp_all add: wf_spans_def)
  then have rest: "wf_spans (concat (map (pieces lo hi) ss))" using Cons.IH by blast
  have "span_end a \<le> span_start b" if a: "a \<in> set (pieces lo hi s)" and b: "b \<in> set (concat (map (pieces lo hi) ss))" for a b
  proof -
    obtain t where t: "t \<in> set ss" "b \<in> set (pieces lo hi t)" using b by auto
    then show ?thesis using pieces_bounds [OF a] pieces_bounds [OF t(2)] s(2) by (meson le_trans)
  qed
  moreover have "span_start a < span_end a \<and> span_end a \<le> U64_MAX" if "a \<in> set (pieces lo hi s)" for a
    using pieces_bounds [OF that] s(1) by simp
  ultimately show ?case
    using rest pieces_sorted [OF assms(2), of s] unfolding wf_spans_def by (simp add: sorted_wrt_append) blast
qed (simp add: wf_spans_def)

lemma pieces_length:
  assumes "wf_spans ss" and "lo < hi"
  shows "length (concat (map (pieces lo hi) ss))
    \<le> length ss + (if \<exists>s\<in>set ss. span_start s < lo \<and> hi < span_end s then 1 else 0)"
  using assms(1)
proof (induction ss)
  case (Cons s ss)
  have IH: "length (concat (map (pieces lo hi) ss))
    \<le> length ss + (if \<exists>s\<in>set ss. span_start s < lo \<and> hi < span_end s then 1 else 0)"
    using Cons by (simp add: wf_spans_def)
  have one: "length (pieces lo hi s) \<le> 1 + (if span_start s < lo \<and> hi < span_end s then 1 else 0)"
    by (auto simp: pieces_def)
  have "\<not> (span_start t < lo \<and> hi < span_end t)" if "span_start s < lo \<and> hi < span_end s" "t \<in> set ss" for t
    using Cons.prems that assms(2) by (fastforce simp: wf_spans_def)
  then show ?case using IH one by (auto split: if_splits)
qed simp

lemma aligned_cases: "4096 dvd b \<Longrightarrow> p * 4096 + 4096 \<le> b \<or> b \<le> p * (4096::nat)"
  by (auto elim!: dvdE)

lemma pieces_pages:
  assumes "4096 dvd lo" and "4096 dvd hi" and "lo < hi"
  shows "(\<Union>s'\<in>set (pieces lo hi s). span_pages s') = span_pages s - {p. lo \<le> p * 4096 \<and> (p + 1) * 4096 \<le> hi}"
proof (rule set_eqI)
  fix p
  define a :: nat where "a = p * 4096"
  have "a + 4096 \<le> lo \<or> lo \<le> a" "a + 4096 \<le> hi \<or> hi \<le> a"
    using aligned_cases assms(1,2) by (simp_all add: a_def)
  then show "p \<in> (\<Union>s'\<in>set (pieces lo hi s). span_pages s') \<longleftrightarrow>
      p \<in> span_pages s - {p. lo \<le> p * 4096 \<and> (p + 1) * 4096 \<le> hi}"
    using assms(3)
    by (cases "span_start s < lo"; cases "hi < span_end s")
      (auto simp: pieces_def span_pages_def whole_pages_def span_is_empty_def add.commute simp flip: a_def split: if_splits)
qed

lemma spans_pages_simps [simp]:
  "spans_pages [] = {}" "spans_pages (s # ss) = span_pages s \<union> spans_pages ss"
  by (auto simp: spans_pages_def)

lemma pieces_all_pages:
  assumes "4096 dvd lo" and "4096 dvd hi" and "lo < hi"
  shows "spans_pages (concat (map (pieces lo hi) ss)) = spans_pages ss - {p. lo \<le> p * 4096 \<and> (p + 1) * 4096 \<le> hi}"
proof -
  have "spans_pages (concat (map (pieces lo hi) ss)) = (\<Union>s\<in>set ss. \<Union>s'\<in>set (pieces lo hi s). span_pages s')"
    by (auto simp: spans_pages_def)
  then show ?thesis by (auto simp: pieces_pages [OF assms] spans_pages_def)
qed

lemma spans_pages_small: "wf_spans ss \<Longrightarrow> p \<in> spans_pages ss \<Longrightarrow> (p + 1) * 4096 \<le> U64_MAX"
  by (fastforce simp: wf_spans_def spans_pages_def span_pages_def whole_pages_def)

lemma cut_reserved_correct:
  assumes "wf_spans active" and "length active + length reserved \<le> MAX_SPANS" and "\<forall>r\<in>set reserved. rr_start r \<le> U64_MAX"
  shows "wf_spans (cut_reserved active reserved)
    \<and> spans_pages (cut_reserved active reserved) = spans_pages active - (\<Union>r\<in>set reserved. touched_pages r)"
  using assms
proof (induction reserved arbitrary: active)
  case (Cons r reserved)
  define lo where "lo = align_down (rr_start r)"
  define hi where "hi = align_up_page (ReservedMemoryRange_end r)"
  have touched: "p \<in> touched_pages r \<longleftrightarrow> lo \<le> p * 4096 \<and> (p + 1) * 4096 \<le> hi"
    if "p \<in> spans_pages active" "rr_length r \<noteq> 0" for p
    using reserved_page_inside [OF spans_pages_small [OF Cons.prems(1) that(1)]] that(2) Cons.prems(3) by (simp add: lo_def hi_def)
  show ?case
  proof (cases "rr_length r = 0 \<or> hi \<le> lo")
    case True
    then have "spans_pages active \<inter> touched_pages r = {}"
      using touched by (fastforce simp: touched_pages_def)
    moreover have "cut_reserved active (r # reserved) = cut_reserved active reserved"
      using True by (auto simp: lo_def hi_def Let_def)
    moreover have "wf_spans (cut_reserved active reserved) \<and> spans_pages (cut_reserved active reserved)
        = spans_pages active - (\<Union>r\<in>set reserved. touched_pages r)"
      using Cons.IH [OF Cons.prems(1)] Cons.prems(2,3) by simp
    ultimately show ?thesis by (auto simp del: cut_reserved.simps)
  next
    case False
    define cut where "cut = concat (map (pieces lo hi) active)"
    have "length cut \<le> length active + 1"
      using pieces_length [OF Cons.prems(1), of lo hi] False by (auto simp: cut_def split: if_splits)
    then have eq: "foldl (split_span lo hi) [] active = cut" and len: "length cut + length reserved \<le> MAX_SPANS"
      using foldl_split_span [of "[]" lo hi active] Cons.prems(2) by (simp_all add: cut_def)
    have wf: "wf_spans cut" using pieces_wf [OF Cons.prems(1)] False by (simp add: cut_def)
    have "spans_pages cut = spans_pages active - touched_pages r"
      using pieces_all_pages [of lo hi active] align_multiple Cons.prems(3) touched False
      by (auto simp: cut_def lo_def hi_def)
    moreover have "cut_reserved active (r # reserved) = (if cut = [] then [] else cut_reserved cut reserved)"
      using False eq by (simp add: lo_def hi_def Let_def)
    moreover have "wf_spans (cut_reserved cut reserved)
        \<and> spans_pages (cut_reserved cut reserved) = spans_pages cut - (\<Union>r\<in>set reserved. touched_pages r)" if "cut \<noteq> []"
      using Cons.IH [OF wf len] Cons.prems(3) by simp
    ultimately show ?thesis using wf by (auto simp del: cut_reserved.simps)
  qed
qed simp

section \<open>Filling the region table\<close>

definition fresh_allocator :: "PhysicalPageAllocator \<Rightarrow> bool" where
  "fresh_allocator self \<longleftrightarrow> pa_initialized self \<and> wf_regions (regions self) \<and> (\<forall>r\<in>set (regions self). next_page r = 0)
    \<and> free_extents self = [] \<and> allocated_pages self = 0 \<and> total_usable_pages self = card (usable_pages (regions self))"

lemma fresh_inv: "fresh_allocator self \<Longrightarrow> allocator_inv self \<and> live_pages self = {}"
  by (auto simp: fresh_allocator_def allocator_inv_def live_pages_def bumped_pages_def cursor_pages_def page_range_def)

text \<open>\<open>grown self self' P\<close>: pages out of \<open>P\<close> were added, all of them unless the table is full.\<close>

definition grown :: "PhysicalPageAllocator \<Rightarrow> PhysicalPageAllocator \<Rightarrow> nat set \<Rightarrow> bool" where
  "grown self self' P \<longleftrightarrow> fresh_allocator self' \<and> length (regions self) \<le> length (regions self')
    \<and> usable_pages (regions self') \<subseteq> usable_pages (regions self) \<union> P
    \<and> (length (regions self') < MAX_ALLOCATOR_REGIONS \<longrightarrow>
         usable_pages (regions self') = usable_pages (regions self) \<union> P)"

lemma grown_trans: "grown a b P \<Longrightarrow> grown b c Q \<Longrightarrow> grown a c (P \<union> Q)"
  by (auto simp: grown_def)

lemma grown_refl: "fresh_allocator a \<Longrightarrow> grown a a {}"
  by (simp add: grown_def)

lemma usable_pages_append [simp]: "usable_pages (xs @ ys) = usable_pages xs \<union> usable_pages ys"
  by (auto simp: usable_pages_def)

lemma wf_regions_snoc:
  "wf_regions (rs @ [r]) \<longleftrightarrow> wf_regions rs \<and> wf_region r \<and> usable_pages rs \<inter> region_pages r = {}"
  by (auto simp: wf_regions_def sorted_wrt_append usable_pages_def)

lemma push_region_grown:
  assumes fresh: "fresh_allocator self" and stop: "span_end span \<le> U64_MAX"
    and disj: "usable_pages (regions self) \<inter> span_pages span = {}"
  shows "grown self (push_region self span kind) (span_pages span)"
proof -
  define start where "start = align_up_page (span_start span)"
  define stop' where "stop' = align_down (span_end span)"
  define n where "n = (stop' - start) div 4096"
  have pages: "span_pages span = page_range start n"
    using whole_pages_range [OF stop, of "span_start span"] by (simp add: span_pages_def start_def stop'_def n_def)
  have dvd: "4096 dvd start" "4096 dvd stop'" and le: "stop' \<le> U64_MAX"
    using align_multiple stop by (auto simp: start_def stop'_def align_down_eq) 
  show ?thesis
  proof (cases "stop' \<le> start \<or> MAX_ALLOCATOR_REGIONS \<le> length (regions self) \<or> n = 0")
    case True
    then have "push_region self span kind = self"
      by (auto simp: push_region_def Let_def start_def stop'_def n_def)
    moreover have "span_pages span = {} \<or> MAX_ALLOCATOR_REGIONS \<le> length (regions self)"
      using True pages by (auto simp: n_def page_range_def)
    ultimately show ?thesis using fresh by (auto simp: grown_def)
  next
    case False
    define r where "r = \<lparr>rc_start = start, rc_page_count = n, next_page = 0, rc_kind = kind\<rparr>"
    have eq: "push_region self span kind = self\<lparr>regions := regions self @ [r],
        total_usable_pages := saturating_add (total_usable_pages self) n\<rparr>"
      using False by (simp add: push_region_def Let_def r_def start_def stop'_def n_def)
    have "start + n * 4096 = stop'"
      using dvd False by (auto simp: n_def elim!: dvdE simp flip: diff_mult_distrib2)
    then have wr: "wf_region r" using le dvd by (simp add: wf_region_def r_def)
    have rp: "region_pages r = span_pages span" by (simp add: region_pages_def r_def pages)
    have wf: "wf_regions (regions self @ [r])"
      using fresh wr disj rp by (simp add: wf_regions_snoc fresh_allocator_def)
    have "card (usable_pages (regions self @ [r])) = card (usable_pages (regions self)) + n"
      using disj card_Un_disjoint [of "usable_pages (regions self)" "span_pages span"] by (simp add: rp pages)
    moreover have "card (usable_pages (regions self @ [r])) \<le> U64_MAX"
      by (rule card_pages_small [OF wf]) simp
    moreover have "next_page r = 0" by (simp add: r_def)
    ultimately show ?thesis
      using fresh wf by (auto simp: grown_def fresh_allocator_def eq rp)
  qed
qed

lemma span_pages_apart:
  "span_end a \<le> span_start b \<Longrightarrow> span_pages a \<inter> span_pages b = {}"
  by (auto simp: span_pages_def whole_pages_def)

lemma push_regions_grown:
  assumes "fresh_allocator self" and "wf_spans ss" and "usable_pages (regions self) \<inter> spans_pages ss = {}"
  shows "grown self (foldl (\<lambda>self span. push_region self span kind) self ss) (spans_pages ss)"
  using assms
proof (induction ss arbitrary: self)
  case Nil
  then show ?case by (simp add: grown_refl)
next
  case (Cons s ss)
  let ?next = "push_region self s kind"
  have s: "span_end s \<le> U64_MAX" "wf_spans ss" "\<forall>t\<in>set ss. span_end s \<le> span_start t"
    using Cons.prems(2) by (simp_all add: wf_spans_def)
  have step: "grown self ?next (span_pages s)"
    using push_region_grown [OF Cons.prems(1) s(1)] Cons.prems(3) by auto
  have "span_pages s \<inter> spans_pages ss = {}"
    using s(3) span_pages_apart by (fastforce simp: spans_pages_def)
  then have "usable_pages (regions ?next) \<inter> spans_pages ss = {}"
    using step Cons.prems(3) by (auto simp: grown_def)
  then have "grown ?next (foldl (\<lambda>self span. push_region self span kind) ?next ss) (spans_pages ss)"
    using Cons.IH [OF _ s(2)] step by (simp add: grown_def)
  then show ?case using grown_trans [OF step] by simp
qed

text \<open>What the boot record offers: whole pages of usable regions that no reserved range touches.\<close>

definition reserved_ok :: "BootInfo \<Rightarrow> bool" where
  "reserved_ok boot_info \<longleftrightarrow> (\<forall>r\<in>set (reserved_memory boot_info). rr_start r \<le> U64_MAX)"

definition boot_region_pages :: "BootInfo \<Rightarrow> MemoryRegion \<Rightarrow> nat set" where
  "boot_region_pages boot_info m =
    (if region_is_currently_usable (firmware_mode boot_info) (mr_kind m)
     then whole_pages (mr_start m) (MemoryRegion_end m) - (\<Union>r\<in>set (reserved_memory boot_info). touched_pages r)
     else {})"

definition boot_pages :: "BootInfo \<Rightarrow> nat set" where
  "boot_pages boot_info = (\<Union>m\<in>set (memory_regions boot_info). boot_region_pages boot_info m)"

definition disjoint_boot_map :: "BootInfo \<Rightarrow> bool" where
  "disjoint_boot_map boot_info \<longleftrightarrow>
    sorted_wrt (\<lambda>a b. MemoryRegion_end a \<le> mr_start b \<or> MemoryRegion_end b \<le> mr_start a) (memory_regions boot_info)"

lemma add_region_fragments_grown:
  assumes "fresh_allocator self" and "reserved_ok boot_info"
    and "usable_pages (regions self) \<inter> whole_pages start stop = {}" and "start < stop" and "stop \<le> U64_MAX"
  shows "grown self (add_region_fragments self start stop kind (reserved_memory boot_info))
    (whole_pages start stop - (\<Union>r\<in>set (reserved_memory boot_info). touched_pages r))"
proof -
  have "length (reserved_memory boot_info) \<le> 16" by (simp add: reserved_memory_def)
  then have cut: "wf_spans (cut_reserved [\<lparr>span_start = start, span_end = stop\<rparr>] (reserved_memory boot_info))"
    "spans_pages (cut_reserved [\<lparr>span_start = start, span_end = stop\<rparr>] (reserved_memory boot_info))
      = whole_pages start stop - (\<Union>r\<in>set (reserved_memory boot_info). touched_pages r)"
    using cut_reserved_correct [of "[\<lparr>span_start = start, span_end = stop\<rparr>]" "reserved_memory boot_info"] assms(2,4,5)
    by (simp_all add: wf_spans_def reserved_ok_def span_pages_def)
  show ?thesis
    using push_regions_grown [OF assms(1) cut(1), of kind] assms(3)
    by (auto simp: add_region_fragments_def cut(2))
qed

lemma boot_region_apart:
  "MemoryRegion_end a \<le> mr_start b \<or> MemoryRegion_end b \<le> mr_start a \<Longrightarrow>
    boot_region_pages boot_info a \<inter> whole_pages (mr_start b) (MemoryRegion_end b) = {}"
  by (auto simp: boot_region_pages_def whole_pages_def)

definition init_step :: "BootInfo \<Rightarrow> PhysicalPageAllocator \<Rightarrow> MemoryRegion \<Rightarrow> PhysicalPageAllocator" where
  "init_step boot_info self region =
    (if \<not> region_is_currently_usable (firmware_mode boot_info) (mr_kind region) \<or> mr_page_count region = 0
     then self
     else add_region_fragments self (mr_start region) (saturating_add (mr_start region) (size_bytes region))
            (mr_kind region) (reserved_memory boot_info))"

lemma init_step_grown:
  assumes "fresh_allocator self" and "reserved_ok boot_info" and start: "4096 dvd mr_start m" "mr_start m \<le> U64_MAX"
    and "usable_pages (regions self) \<inter> whole_pages (mr_start m) (MemoryRegion_end m) = {}"
  shows "grown self (init_step boot_info self m) (boot_region_pages boot_info m)"
proof (cases "region_is_currently_usable (firmware_mode boot_info) (mr_kind m) \<and> mr_page_count m \<noteq> 0")
  case True
  have "\<not> 4096 dvd U64_MAX" by (simp add: U64_MAX_numeral)
  then have "mr_start m \<noteq> U64_MAX" using start by metis
  then have "mr_start m < MemoryRegion_end m" "MemoryRegion_end m \<le> U64_MAX"
    using True start(2)
    by (auto simp: MemoryRegion_end_def size_bytes_def saturating_add_def saturating_mul_def U64_MAX_numeral)
  then show ?thesis
    using add_region_fragments_grown [OF assms(1,2,5), of "mr_kind m"] True
    by (simp add: init_step_def boot_region_pages_def MemoryRegion_end_def)
next
  case False
  then have "boot_region_pages boot_info m = {}"
    by (auto simp: boot_region_pages_def whole_pages_def MemoryRegion_end_def size_bytes_def saturating_add_def
      saturating_mul_def)
  moreover have "init_step boot_info self m = self" using False by (simp add: init_step_def)
  ultimately show ?thesis using grown_refl [OF assms(1)] by simp
qed

definition boot_map_ok :: "BootInfo \<Rightarrow> bool" where
  "boot_map_ok boot_info \<longleftrightarrow> reserved_ok boot_info \<and> disjoint_boot_map boot_info
    \<and> (\<forall>m\<in>set (memory_regions boot_info). 4096 dvd mr_start m \<and> mr_start m \<le> U64_MAX)"

lemma init_fold_grown:
  assumes "fresh_allocator self" and "reserved_ok boot_info"
    and "\<forall>m\<in>set ms. 4096 dvd mr_start m \<and> mr_start m \<le> U64_MAX"
    and "sorted_wrt (\<lambda>a b. MemoryRegion_end a \<le> mr_start b \<or> MemoryRegion_end b \<le> mr_start a) ms"
    and "\<forall>m\<in>set ms. usable_pages (regions self) \<inter> whole_pages (mr_start m) (MemoryRegion_end m) = {}"
  shows "grown self (foldl (init_step boot_info) self ms) (\<Union>m\<in>set ms. boot_region_pages boot_info m)"
  using assms
proof (induction ms arbitrary: self)
  case Nil
  then show ?case by (simp add: grown_refl)
next
  case (Cons m ms)
  let ?next = "init_step boot_info self m"
  have step: "grown self ?next (boot_region_pages boot_info m)"
    by (rule init_step_grown) (use Cons.prems in auto)
  have "usable_pages (regions ?next) \<inter> whole_pages (mr_start t) (MemoryRegion_end t) = {}" if "t \<in> set ms" for t
    using step boot_region_apart [of m t boot_info] that Cons.prems(4,5) by (fastforce simp: grown_def)
  then have "grown ?next (foldl (init_step boot_info) ?next ms) (\<Union>m\<in>set ms. boot_region_pages boot_info m)"
    using Cons.IH [of ?next] step Cons.prems by (simp add: grown_def)
  then show ?case using grown_trans [OF step] by simp
qed

lemma allocator_init_result:
  assumes "boot_map_ok boot_info"
  shows "allocator_inv (allocator_init self boot_info) \<and> live_pages (allocator_init self boot_info) = {}
    \<and> usable_pages (regions (allocator_init self boot_info)) \<subseteq> boot_pages boot_info
    \<and> (length (regions (allocator_init self boot_info)) < MAX_ALLOCATOR_REGIONS \<longrightarrow>
         usable_pages (regions (allocator_init self boot_info)) = boot_pages boot_info)"
proof -
  let ?empty = "self\<lparr>pa_initialized := True, regions := [], total_usable_pages := 0, allocated_pages := 0,
    free_extents := []\<rparr>"
  have "fresh_allocator ?empty" by (simp add: fresh_allocator_def wf_regions_def)
  then have "grown ?empty (foldl (init_step boot_info) ?empty (memory_regions boot_info)) (boot_pages boot_info)"
    using init_fold_grown [of ?empty boot_info "memory_regions boot_info"] assms
    by (simp add: boot_pages_def boot_map_ok_def disjoint_boot_map_def)
  moreover have "allocator_init self boot_info = foldl (init_step boot_info) ?empty (memory_regions boot_info)"
    by (simp add: allocator_init_def init_step_def [abs_def])
  ultimately show ?thesis using fresh_inv by (auto simp: grown_def)
qed

text \<open>
  C26: after initialisation no page is allocated, every managed page lies completely inside a usable
  boot region and is untouched by every reserved range; and unless the region table is full, all such
  pages are managed.
\<close>

theorem allocator_init_correct:
  assumes "boot_map_ok boot_info"
  shows "allocator_inv (allocator_init self boot_info) \<and> live_pages (allocator_init self boot_info) = {}
    \<and> usable_pages (regions (allocator_init self boot_info)) \<subseteq> boot_pages boot_info
    \<and> (length (regions (allocator_init self boot_info)) < MAX_ALLOCATOR_REGIONS \<longrightarrow>
         usable_pages (regions (allocator_init self boot_info)) = boot_pages boot_info)"
  by (rule allocator_init_result [OF assms])

theorem allocator_init_correct_witness:
  "allocator_inv (allocator_init PhysicalPageAllocator_new sample_boot_info)
    \<and> usable_pages (regions (allocator_init PhysicalPageAllocator_new sample_boot_info)) \<subseteq> boot_pages sample_boot_info"
proof -
  have "boot_map_ok sample_boot_info"
    by (simp add: boot_map_ok_def reserved_ok_def disjoint_boot_map_def sample_boot_info_def reserved_memory_def
      memory_regions_def U64_MAX_numeral)
  from allocator_init_correct [OF this] show ?thesis by blast
qed

end
