(* ===== verification/BlockDevice.thy ===== *)
theory BlockDevice
  imports Prelude
begin

text \<open>
  The \<^verbatim>\<open>BlockDevice\<close> trait of \<^verbatim>\<open>kernel/src/block.rs\<close> as a record of operations over a device
  state, the contract a file system relies on as the locale \<open>block_device\<close>, and the in-memory
  \<^verbatim>\<open>TestDisk\<close> of \<^verbatim>\<open>kernel/src/fs.rs\<close>, which implements the trait and satisfies the contract.
\<close>

definition SECTOR_SIZE :: nat where
  [simp]: "SECTOR_SIZE = 512"

datatype BlockError =
    DeviceNotFound
  | InvalidIoBar
  | QueueUnavailable
  | QueueTooSmall
  | QueueAddressTooHigh
  | DmaAddressUnavailable
  | DeviceRejected
  | SectorOutOfRange
  | RequestTimedOut
  | RequestFailed u8

record 'd BlockDevice =
  sector_count :: "'d \<Rightarrow> nat"
  supports_flush :: "'d \<Rightarrow> bool"
  read_sector :: "'d \<Rightarrow> nat \<Rightarrow> (BlockError + bytes) \<times> 'd"
  write_sector :: "'d \<Rightarrow> nat \<Rightarrow> bytes \<Rightarrow> (BlockError + unit) \<times> 'd"
  flush :: "'d \<Rightarrow> (BlockError + unit) \<times> 'd"

section \<open>The contract\<close>

text \<open>
  \<open>content d s\<close> is what sector \<open>s\<close> holds. Reads inside the device succeed and return the content;
  a write that succeeds stores the sector, a write that fails stores it or leaves it alone; no
  operation touches another sector.
\<close>

locale block_device =
  fixes dev :: "'d BlockDevice" and ok :: "'d \<Rightarrow> bool" and content :: "'d \<Rightarrow> nat \<Rightarrow> bytes"
  assumes read_inside: "ok d \<Longrightarrow> s < sector_count dev d \<Longrightarrow> read_sector dev d s = (r, d') \<Longrightarrow>
      r = Ok (content d s) \<and> ok d' \<and> content d' = content d \<and> sector_count dev d' = sector_count dev d"
    and read_outside: "ok d \<Longrightarrow> \<not> s < sector_count dev d \<Longrightarrow> read_sector dev d s = (r, d') \<Longrightarrow>
      (\<exists>e. r = Err e) \<and> ok d' \<and> content d' = content d \<and> sector_count dev d' = sector_count dev d"
    and write_law: "ok d \<Longrightarrow> length b = SECTOR_SIZE \<Longrightarrow> write_sector dev d s b = (w, d') \<Longrightarrow>
      ok d' \<and> sector_count dev d' = sector_count dev d \<and>
      (case w of Ok u \<Rightarrow> s < sector_count dev d \<and> content d' = (content d)(s := b)
       | Err e \<Rightarrow> content d' = content d \<or> s < sector_count dev d \<and> content d' = (content d)(s := b))"
    and flush_law: "ok d \<Longrightarrow> flush dev d = (w, d') \<Longrightarrow>
      ok d' \<and> content d' = content d \<and> sector_count dev d' = sector_count dev d"
    and content_length: "ok d \<Longrightarrow> s < sector_count dev d \<Longrightarrow> length (content d s) = SECTOR_SIZE"
    and sector_count_bound: "ok d \<Longrightarrow> sector_count dev d \<le> U64_MAX"

text \<open>
  A device may cache writes. \<open>images d\<close> are the contents the medium can have when the power is cut
  in state \<open>d\<close>: a write may or may not have reached it, also out of order; a flush that succeeds
  leaves one image.
\<close>

locale durable_block_device = block_device dev ok content
  for dev :: "'d BlockDevice" and ok :: "'d \<Rightarrow> bool" and content :: "'d \<Rightarrow> nat \<Rightarrow> bytes" +
  fixes images :: "'d \<Rightarrow> (nat \<Rightarrow> bytes) set"
  assumes content_image: "ok d \<Longrightarrow> content d \<in> images d"
    and read_images: "ok d \<Longrightarrow> read_sector dev d s = (r, d') \<Longrightarrow> images d' = images d"
    and write_images: "ok d \<Longrightarrow> length b = SECTOR_SIZE \<Longrightarrow> write_sector dev d s b = (w, d') \<Longrightarrow>
      c \<in> images d' \<Longrightarrow> c \<in> images d \<or> (\<exists>c0\<in>images d. c = c0(s := b))"
    and flush_images: "ok d \<Longrightarrow> flush dev d = (w, d') \<Longrightarrow> images d' \<subseteq> images d"
    and flush_durable: "ok d \<Longrightarrow> flush dev d = (Ok u, d') \<Longrightarrow> images d' = {content d'}"

section \<open>Power cuts\<close>

text \<open>
  The same device whose power fails after \<open>k\<close> more writes and flushes: from then on they are refused.
\<close>

definition power_fail :: "'d BlockDevice \<Rightarrow> ('d \<times> nat) BlockDevice" where
  "power_fail dev =
    \<lparr>sector_count = \<lambda>(d, k). sector_count dev d,
     supports_flush = \<lambda>(d, k). supports_flush dev d,
     read_sector = \<lambda>(d, k) s. (case read_sector dev d s of (r, d') \<Rightarrow> (r, (d', k))),
     write_sector = \<lambda>(d, k) s b.
       (if k = 0 then (Err RequestTimedOut, (d, 0))
        else case write_sector dev d s b of (w, d') \<Rightarrow> (w, (d', k - 1))),
     flush = \<lambda>(d, k).
       (if k = 0 then (Err RequestTimedOut, (d, 0)) else case flush dev d of (w, d') \<Rightarrow> (w, (d', k - 1)))\<rparr>"

lemma power_fail_device:
  assumes "durable_block_device dev ok content images"
  shows "durable_block_device (power_fail dev) (\<lambda>(d, k). ok d) (\<lambda>(d, k). content d) (\<lambda>(d, k). images d)"
proof -
  note laws = durable_block_device.axioms [OF assms]
  note base = block_device.read_inside [OF laws(1)] block_device.read_outside [OF laws(1)]
    block_device.write_law [OF laws(1)] block_device.flush_law [OF laws(1)]
    block_device.content_length [OF laws(1)] block_device.sector_count_bound [OF laws(1)]
  note dur = durable_block_device.content_image [OF assms] durable_block_device.read_images [OF assms]
    durable_block_device.write_images [OF assms] durable_block_device.flush_images [OF assms]
    durable_block_device.flush_durable [OF assms]
  show ?thesis
  proof (unfold_locales, goal_cases)
    case (1 d s r d') then show ?case
      by (auto simp: power_fail_def split: prod.splits dest: base(1))
  next
    case (2 d s r d') then show ?case
      by (auto simp: power_fail_def split: prod.splits dest: base(2))
  next
    case (3 d b s w d') then show ?case
      by (cases w) (auto simp: power_fail_def split: prod.splits if_splits dest: base(3))
  next
    case (4 d w d') then show ?case
      by (auto simp: power_fail_def split: prod.splits if_splits dest: base(4))
  next
    case (5 d s) then show ?case by (auto simp: power_fail_def dest: base(5))
  next
    case (6 d) then show ?case by (auto simp: power_fail_def dest: base(6))
  next
    case (7 d) then show ?case by (auto dest: dur(1))
  next
    case (8 d s r d') then show ?case
      by (auto simp: power_fail_def split: prod.splits dest: dur(2))
  next
    case (9 d b s w d' c) then show ?case
      by (auto simp: power_fail_def split: prod.splits if_splits dest: dur(3))
  next
    case (10 d w d') then show ?case
      by (auto simp: power_fail_def split: prod.splits if_splits dest: dur(4))
  next
    case (11 d u d') then show ?case
      by (auto simp: power_fail_def split: prod.splits if_splits dest: dur(5))
  qed
qed

section \<open>The in-memory disk\<close>

record TestDisk =
  sectors :: "bytes list"
  flush_count :: nat

definition TestDisk_new :: "nat \<Rightarrow> TestDisk" where
  "TestDisk_new count = \<lparr>sectors = replicate count (replicate SECTOR_SIZE 0), flush_count = 0\<rparr>"

definition TestDisk_sector_count :: "TestDisk \<Rightarrow> nat" where
  "TestDisk_sector_count self = length (sectors self)"

definition TestDisk_supports_flush :: "TestDisk \<Rightarrow> bool" where
  "TestDisk_supports_flush self = True"

definition TestDisk_read_sector :: "TestDisk \<Rightarrow> nat \<Rightarrow> (BlockError + bytes) \<times> TestDisk" where
  "TestDisk_read_sector self sector =
    (if sector < length (sectors self) then (Ok (sectors self ! sector), self)
     else (Err SectorOutOfRange, self))"

definition TestDisk_write_sector :: "TestDisk \<Rightarrow> nat \<Rightarrow> bytes \<Rightarrow> (BlockError + unit) \<times> TestDisk" where
  "TestDisk_write_sector self sector input =
    (if sector < length (sectors self) then (Ok (), self\<lparr>sectors := (sectors self)[sector := input]\<rparr>)
     else (Err SectorOutOfRange, self))"

definition TestDisk_flush :: "TestDisk \<Rightarrow> (BlockError + unit) \<times> TestDisk" where
  "TestDisk_flush self = (Ok (), self\<lparr>flush_count := flush_count self + 1\<rparr>)"

definition test_disk :: "TestDisk BlockDevice" where
  "test_disk = \<lparr>sector_count = TestDisk_sector_count, supports_flush = TestDisk_supports_flush,
    read_sector = TestDisk_read_sector, write_sector = TestDisk_write_sector, flush = TestDisk_flush\<rparr>"

definition disk_ok :: "TestDisk \<Rightarrow> bool" where
  "disk_ok d \<longleftrightarrow> (\<forall>s\<in>set (sectors d). length s = SECTOR_SIZE) \<and> length (sectors d) \<le> U64_MAX"

definition disk_content :: "TestDisk \<Rightarrow> nat \<Rightarrow> bytes" where
  "disk_content d s = (if s < length (sectors d) then sectors d ! s else [])"

lemmas test_disk_defs = test_disk_def TestDisk_sector_count_def TestDisk_supports_flush_def
  TestDisk_read_sector_def TestDisk_write_sector_def TestDisk_flush_def

interpretation test_disk: durable_block_device test_disk disk_ok disk_content "\<lambda>d. {disk_content d}"
proof (unfold_locales, goal_cases)
  case (3 d b s w d')
  then show ?case
    by (auto simp: test_disk_defs disk_ok_def disk_content_def fun_eq_iff split: if_splits
      dest!: set_update_subset_insert [THEN subsetD])
next
  case (9 d b s w d' c)
  then show ?case
    by (auto simp: test_disk_defs disk_content_def fun_eq_iff split: if_splits)
qed (auto simp: test_disk_defs disk_ok_def disk_content_def fun_eq_iff split: if_splits)

end
