(* ===== verification/FsFormat.thy ===== *)
theory FsFormat
  imports BlockDevice Crc32 "HOL-Library.List_Lexorder"
begin

text \<open>
  The on-disk format of \<^verbatim>\<open>kernel/src/fs.rs\<close>: paths, the directory tree rules, and the encoding and
  decoding of superblocks and snapshot records. Strings are their UTF-8 bytes (Rust's \<^verbatim>\<open>str\<close>
  operations used here split and compare at ASCII bytes only), so name order is the lexicographic
  order of bytes.
\<close>

section \<open>Constants and data\<close>

definition SUPERBLOCK_MAGIC :: bytes where
  "SUPERBLOCK_MAGIC = [0x43, 0x44, 0x58, 0x46, 0x53, 0x31, 0, 0]"

definition RECORD_MAGIC :: bytes where
  "RECORD_MAGIC = [0x43, 0x44, 0x58, 0x52, 0x45, 0x43, 0x31, 0]"

definition FORMAT_VERSION :: u32 where
  [simp]: "FORMAT_VERSION = 3"

definition MIN_FORMAT_VERSION :: u32 where
  [simp]: "MIN_FORMAT_VERSION = 1"

definition SUPERBLOCK_A_SECTOR :: nat where
  [simp]: "SUPERBLOCK_A_SECTOR = 0"

definition SUPERBLOCK_B_SECTOR :: nat where
  [simp]: "SUPERBLOCK_B_SECTOR = 1"

definition RECORD_AREA_START :: nat where
  [simp]: "RECORD_AREA_START = 8"

definition RECORD_SECTORS :: nat where
  [simp]: "RECORD_SECTORS = 64"

definition RECORD_BYTES :: nat where
  [simp]: "RECORD_BYTES = 32768"

definition MAX_RECORD_SECTORS :: nat where
  [simp]: "MAX_RECORD_SECTORS = 8192"

definition MAX_RECORD_BYTES :: nat where
  [simp]: "MAX_RECORD_BYTES = 4194304"

definition RECORD_HEADER_BYTES :: nat where
  [simp]: "RECORD_HEADER_BYTES = 64"

definition LEGACY_RECORD_ENTRY_BYTES :: nat where
  [simp]: "LEGACY_RECORD_ENTRY_BYTES = 8"

definition RECORD_ENTRY_BYTES :: nat where
  [simp]: "RECORD_ENTRY_BYTES = 12"

definition MAX_FILES :: nat where
  [simp]: "MAX_FILES = 128"

definition MAX_PATH_BYTES :: nat where
  [simp]: "MAX_PATH_BYTES = 128"

definition SUPER_CRC_OFFSET :: nat where
  [simp]: "SUPER_CRC_OFFSET = 44"

definition RECORD_HEADER_CRC_OFFSET :: nat where
  [simp]: "RECORD_HEADER_CRC_OFFSET = 36"

definition ENTRY_KIND_FILE :: u16 where
  [simp]: "ENTRY_KIND_FILE = 1"

definition ENTRY_KIND_DIRECTORY :: u16 where
  [simp]: "ENTRY_KIND_DIRECTORY = 2"

definition DEFAULT_FILE_PERMISSIONS :: u16 where
  [simp]: "DEFAULT_FILE_PERMISSIONS = 420"

definition DEFAULT_DIRECTORY_PERMISSIONS :: u16 where
  [simp]: "DEFAULT_DIRECTORY_PERMISSIONS = 493"

definition OWNER_READ :: u16 where
  [simp]: "OWNER_READ = 256"

definition OWNER_WRITE :: u16 where
  [simp]: "OWNER_WRITE = 128"

definition OWNER_EXECUTE :: u16 where
  [simp]: "OWNER_EXECUTE = 64"

datatype EntryKind = File | Directory

datatype FsError =
    Block BlockError
  | FlushUnsupported
  | DeviceTooSmall
  | CorruptSuperblocks
  | CorruptRecord
  | InvalidPath
  | TooManyFiles
  | SnapshotTooLarge
  | ArithmeticOverflow
  | InvalidUtf8
  | VerificationFailed
  | NotFound
  | ParentMissing
  | NotDirectory
  | IsDirectory
  | PermissionDenied
  | DirectoryNotEmpty
  | InvalidPermissions

record FileEntry =
  name :: bytes
  data :: bytes
  kind :: EntryKind
  permissions :: u16

record Superblock =
  sb_generation :: nat
  sb_record_start :: nat
  sb_record_sectors :: nat
  sb_record_bytes :: nat
  sb_record_crc :: u32
  sb_capacity_sectors :: nat

section \<open>Strings\<close>

definition slash :: u8 where
  "slash = 0x2f"

definition root_path :: bytes where
  "root_path = [slash]"

text \<open>\<^verbatim>\<open>str::split('/')\<close>\<close>

fun split_slash :: "bytes \<Rightarrow> bytes list" where
  "split_slash [] = [[]]"
| "split_slash (b # bs) =
    (if b = slash then [] # split_slash bs
     else case split_slash bs of [] \<Rightarrow> [[b]] | c # cs \<Rightarrow> (b # c) # cs)"

text \<open>\<^verbatim>\<open>str::rfind('/')\<close>\<close>

fun rfind_slash :: "bytes \<Rightarrow> nat option" where
  "rfind_slash [] = None"
| "rfind_slash (b # bs) =
    (case rfind_slash bs of
       Some i \<Rightarrow> Some (Suc i)
     | None \<Rightarrow> if b = slash then Some 0 else None)"

definition continuation :: "u8 \<Rightarrow> bool" where
  "continuation b \<longleftrightarrow> 0x80 \<le> b \<and> b \<le> 0xbf"

text \<open>\<^verbatim>\<open>core::str::from_utf8\<close>: well-formed UTF-8 byte sequences.\<close>

fun valid_utf8 :: "bytes \<Rightarrow> bool" where
  "valid_utf8 [] = True"
| "valid_utf8 (b # bs) =
    (if b < 0x80 then valid_utf8 bs
     else if 0xc2 \<le> b \<and> b \<le> 0xdf then
       (case bs of c1 # rest \<Rightarrow> continuation c1 \<and> valid_utf8 rest | _ \<Rightarrow> False)
     else if 0xe0 \<le> b \<and> b \<le> 0xef then
       (case bs of c1 # c2 # rest \<Rightarrow> continuation c1 \<and> continuation c2
            \<and> (b = 0xe0 \<longrightarrow> 0xa0 \<le> c1) \<and> (b = 0xed \<longrightarrow> c1 \<le> 0x9f) \<and> valid_utf8 rest
        | _ \<Rightarrow> False)
     else if 0xf0 \<le> b \<and> b \<le> 0xf4 then
       (case bs of c1 # c2 # c3 # rest \<Rightarrow> continuation c1 \<and> continuation c2 \<and> continuation c3
            \<and> (b = 0xf0 \<longrightarrow> 0x90 \<le> c1) \<and> (b = 0xf4 \<longrightarrow> c1 \<le> 0x8f) \<and> valid_utf8 rest
        | _ \<Rightarrow> False)
     else False)"

section \<open>Paths and the tree rules\<close>

definition validate_path :: "bytes \<Rightarrow> FsError + unit" where
  "validate_path path =
    (if length path < 2 \<or> MAX_PATH_BYTES < length path \<or> hd path \<noteq> slash \<or> last path = slash
        \<or> list_ex (\<lambda>byte. byte = 0 \<or> byte < 0x20) path
        \<or> list_ex (\<lambda>component. component = [] \<or> component = [0x2e] \<or> component = [0x2e, 0x2e])
            (drop 1 (split_slash path))
     then Err InvalidPath else Ok ())"

definition validate_permissions :: "u16 \<Rightarrow> FsError + unit" where
  "validate_permissions perms = (if perms AND NOT 0x1ff \<noteq> 0 then Err InvalidPermissions else Ok ())"

definition parent_path :: "bytes \<Rightarrow> FsError + bytes" where
  "parent_path path =
    (if path = root_path then Err InvalidPath
     else try_bind (validate_path path) (\<lambda>_.
       case rfind_slash path of
         None \<Rightarrow> Err InvalidPath
       | Some index \<Rightarrow> if index = 0 then Ok root_path else Ok (take index path)))"

definition leaf_name :: "bytes \<Rightarrow> bytes" where
  "leaf_name path = last (split_slash path)"

definition find_entry :: "FileEntry list \<Rightarrow> bytes \<Rightarrow> FileEntry option" where
  "find_entry entries path = find (\<lambda>entry. name entry = path) entries"

definition ensure_parent_directory :: "FileEntry list \<Rightarrow> bytes \<Rightarrow> FsError + unit" where
  "ensure_parent_directory entries path =
    try_bind (parent_path path) (\<lambda>parent.
      if parent = root_path then Ok ()
      else case find_entry entries parent of
        None \<Rightarrow> Err ParentMissing
      | Some parent \<Rightarrow>
        if kind parent \<noteq> Directory then Err NotDirectory
        else if permissions parent AND OWNER_EXECUTE = 0 \<or> permissions parent AND OWNER_WRITE = 0
        then Err PermissionDenied else Ok ())"

definition validate_entry :: "FileEntry list \<Rightarrow> bool \<Rightarrow> FileEntry \<Rightarrow> FsError + unit" where
  "validate_entry files require_directories entry =
    try_bind (validate_path (name entry)) (\<lambda>_.
    try_bind (validate_permissions (permissions entry)) (\<lambda>_.
      if kind entry = Directory \<and> data entry \<noteq> [] then Err CorruptRecord
      else if kind entry = Directory \<and> permissions entry AND OWNER_EXECUTE = 0 then Err PermissionDenied
      else if require_directories then ensure_parent_directory files (name entry) else Ok ()))"

fun try_each :: "('a \<Rightarrow> 'e + unit) \<Rightarrow> 'a list \<Rightarrow> 'e + unit" where
  "try_each f [] = Ok ()"
| "try_each f (x # xs) = try_bind (f x) (\<lambda>_. try_each f xs)"

definition validate_tree :: "FileEntry list \<Rightarrow> bool \<Rightarrow> FsError + unit" where
  "validate_tree files require_directories = try_each (validate_entry files require_directories) files"

section \<open>Superblocks\<close>

definition fs_get_u16 :: "bytes \<Rightarrow> nat \<Rightarrow> FsError + u16" where
  "fs_get_u16 input offset = try_bind (ok_or (get_slice input offset (offset + 2)) CorruptRecord) (\<lambda>bs. Ok (from_le bs))"

definition fs_get_u32 :: "bytes \<Rightarrow> nat \<Rightarrow> FsError + u32" where
  "fs_get_u32 input offset = try_bind (ok_or (get_slice input offset (offset + 4)) CorruptRecord) (\<lambda>bs. Ok (from_le bs))"

definition fs_get_u64 :: "bytes \<Rightarrow> nat \<Rightarrow> FsError + u64" where
  "fs_get_u64 input offset = try_bind (ok_or (get_slice input offset (offset + 8)) CorruptRecord) (\<lambda>bs. Ok (from_le bs))"

definition valid_record_layout :: "u32 \<Rightarrow> nat \<Rightarrow> nat \<Rightarrow> bool" where
  "valid_record_layout version record_sectors record_bytes =
    (if record_sectors = 0 \<or> MAX_RECORD_SECTORS < record_sectors then False
     else if \<not> (RECORD_HEADER_BYTES \<le> record_bytes \<and> record_bytes \<le> MAX_RECORD_BYTES) then False
     else if record_bytes \<noteq> record_sectors * SECTOR_SIZE then False
     else 3 \<le> version \<or> record_sectors = RECORD_SECTORS \<and> record_bytes = RECORD_BYTES)"

definition encode_superblock :: "Superblock \<Rightarrow> bytes" where
  "encode_superblock superblock =
    (let sector = replicate SECTOR_SIZE 0;
         sector = copy_from_slice sector 0 SUPERBLOCK_MAGIC;
         sector = put_u32 sector 8 FORMAT_VERSION;
         sector = put_u32 sector 12 64;
         sector = put_u64 sector 16 (word_of_nat (sb_generation superblock));
         sector = put_u64 sector 24 (word_of_nat (sb_record_start superblock));
         sector = put_u32 sector 32 (word_of_nat (sb_record_sectors superblock));
         sector = put_u32 sector 36 (word_of_nat (sb_record_bytes superblock));
         sector = put_u32 sector 40 (sb_record_crc superblock);
         sector = put_u64 sector 48 (word_of_nat (sb_capacity_sectors superblock));
         checksum = crc32 sector
     in put_u32 sector SUPER_CRC_OFFSET checksum)"

definition decode_superblock :: "bytes \<Rightarrow> nat \<Rightarrow> FsError + Superblock" where
  "decode_superblock sector actual_capacity =
    try_bind (fs_get_u32 sector 8) (\<lambda>version.
    try_bind (fs_get_u32 sector 12) (\<lambda>header_bytes.
      if slice sector 0 8 \<noteq> SUPERBLOCK_MAGIC
         \<or> \<not> (MIN_FORMAT_VERSION \<le> version \<and> version \<le> FORMAT_VERSION) \<or> header_bytes \<noteq> 64
      then Err CorruptSuperblocks
      else
        try_bind (fs_get_u32 sector 32) (\<lambda>record_sectors.
        try_bind (fs_get_u32 sector 36) (\<lambda>record_bytes.
          if \<not> valid_record_layout version (unat record_sectors) (unat record_bytes)
          then Err CorruptSuperblocks
          else
            try_bind (fs_get_u32 sector SUPER_CRC_OFFSET) (\<lambda>stored_checksum.
              if crc32 (put_u32 sector SUPER_CRC_OFFSET 0) \<noteq> stored_checksum
              then Err CorruptSuperblocks
              else
                try_bind (fs_get_u64 sector 16) (\<lambda>generation.
                try_bind (fs_get_u64 sector 24) (\<lambda>record_start.
                try_bind (fs_get_u64 sector 48) (\<lambda>capacity_sectors.
                try_bind (ok_or (checked_add (unat record_start) (unat record_sectors)) ArithmeticOverflow)
                  (\<lambda>record_end.
                  if generation = 0 \<or> unat record_start < RECORD_AREA_START \<or> actual_capacity < record_end
                  then Err CorruptSuperblocks
                  else if version < 3 \<and> \<not> is_multiple_of (unat record_start - RECORD_AREA_START) RECORD_SECTORS
                  then Err CorruptSuperblocks
                  else if actual_capacity < unat capacity_sectors then Err CorruptSuperblocks
                  else
                    try_bind (fs_get_u32 sector 40) (\<lambda>record_crc.
                      Ok \<lparr>sb_generation = unat generation, sb_record_start = unat record_start,
                          sb_record_sectors = unat record_sectors, sb_record_bytes = unat record_bytes,
                          sb_record_crc = record_crc,
                          sb_capacity_sectors = unat capacity_sectors\<rparr>))))))))))"

section \<open>Snapshot records\<close>

fun encode_kind :: "EntryKind \<Rightarrow> u16" where
  "encode_kind File = ENTRY_KIND_FILE"
| "encode_kind Directory = ENTRY_KIND_DIRECTORY"

definition decode_kind :: "u16 \<Rightarrow> FsError + EntryKind" where
  "decode_kind raw =
    (if raw = ENTRY_KIND_FILE then Ok File
     else if raw = ENTRY_KIND_DIRECTORY then Ok Directory
     else Err CorruptRecord)"

definition align_up_usize :: "nat \<Rightarrow> nat \<Rightarrow> FsError + nat" where
  "align_up_usize value alignment =
    ok_or (map_option (\<lambda>v. mask_down v alignment) (checked_add value (alignment - 1))) ArithmeticOverflow"

fun required_loop :: "nat \<Rightarrow> FileEntry list \<Rightarrow> FsError + nat" where
  "required_loop bytes [] = Ok bytes"
| "required_loop bytes (file # files) =
    try_bind (ok_or (Option.bind (Option.bind (checked_add bytes RECORD_ENTRY_BYTES)
        (\<lambda>v. checked_add v (length (name file)))) (\<lambda>v. checked_add v (length (data file)))) ArithmeticOverflow)
      (\<lambda>bytes. required_loop bytes files)"

definition required_record_bytes :: "FileEntry list \<Rightarrow> FsError + nat" where
  "required_record_bytes files = required_loop RECORD_HEADER_BYTES files"

definition put_entry :: "bytes \<Rightarrow> nat \<Rightarrow> FileEntry \<Rightarrow> bytes \<times> nat" where
  "put_entry record cursor file =
    (let record = put_u16 record cursor (word_of_nat (length (name file)));
         record = put_u16 record (cursor + 2) (encode_kind (kind file));
         record = put_u32 record (cursor + 4) (word_of_nat (length (data file)));
         record = put_u16 record (cursor + 8) (permissions file);
         record = put_u16 record (cursor + 10) 0;
         cursor = cursor + RECORD_ENTRY_BYTES;
         record = copy_from_slice record cursor (name file);
         cursor = cursor + length (name file);
         record = copy_from_slice record cursor (data file);
         cursor = cursor + length (data file)
     in (record, cursor))"

fun put_entries :: "bytes \<Rightarrow> nat \<Rightarrow> FileEntry list \<Rightarrow> FsError + (bytes \<times> nat)" where
  "put_entries record cursor [] = Ok (record, cursor)"
| "put_entries record cursor (file # files) =
    try_bind (validate_path (name file)) (\<lambda>_.
      let (record, cursor) = put_entry record cursor file in put_entries record cursor files)"

definition encode_record :: "nat \<Rightarrow> FileEntry list \<Rightarrow> FsError + bytes" where
  "encode_record generation files =
    (if MAX_FILES < length files then Err TooManyFiles
     else
       try_bind (validate_tree files True) (\<lambda>_.
       try_bind (required_record_bytes files) (\<lambda>required_bytes.
       try_bind (align_up_usize required_bytes SECTOR_SIZE) (\<lambda>aligned.
         let record_bytes = max aligned RECORD_BYTES in
         if MAX_RECORD_BYTES < record_bytes then Err SnapshotTooLarge
         else
           let record = replicate record_bytes 0;
               record = copy_from_slice record 0 RECORD_MAGIC;
               record = put_u32 record 8 FORMAT_VERSION;
               record = put_u32 record 12 (word_of_nat RECORD_HEADER_BYTES);
               record = put_u64 record 16 (word_of_nat generation);
               record = put_u32 record 24 (word_of_nat (length files))
           in try_bind (put_entries record RECORD_HEADER_BYTES files) (\<lambda>(record, cursor).
             let payload_bytes = cursor - RECORD_HEADER_BYTES;
                 record = put_u32 record 28 (word_of_nat payload_bytes);
                 payload_checksum = crc32 (slice record RECORD_HEADER_BYTES cursor);
                 record = put_u32 record 32 payload_checksum;
                 header_checksum = crc32 (slice record 0 RECORD_HEADER_BYTES);
                 record = put_u32 record RECORD_HEADER_CRC_OFFSET header_checksum
             in Ok record)))))"

text \<open>One round of the decoding loop: the entry at \<open>cursor\<close> and the cursor behind it.\<close>

definition get_entry :: "bytes \<Rightarrow> u32 \<Rightarrow> nat \<Rightarrow> FileEntry list \<Rightarrow> nat \<Rightarrow> FsError + (FileEntry \<times> nat)" where
  "get_entry record version payload_end files cursor =
    (let entry_header_bytes = (if version = 1 then LEGACY_RECORD_ENTRY_BYTES else RECORD_ENTRY_BYTES) in
     try_bind (ok_or (checked_add cursor entry_header_bytes) CorruptRecord) (\<lambda>metadata_end.
       if payload_end < metadata_end then Err CorruptRecord
       else
         try_bind (fs_get_u16 record cursor) (\<lambda>name_len.
         try_bind (fs_get_u16 record (cursor + 2)) (\<lambda>flags.
         try_bind (fs_get_u32 record (cursor + 4)) (\<lambda>data_len.
         try_bind
           (if version = 1 then
              (if flags \<noteq> 0 then Err CorruptRecord else Ok (File, DEFAULT_FILE_PERMISSIONS))
            else
              try_bind (decode_kind flags) (\<lambda>kind.
              try_bind (fs_get_u16 record (cursor + 8)) (\<lambda>perms.
              try_bind (fs_get_u16 record (cursor + 10)) (\<lambda>reserved.
                if reserved \<noteq> 0 then Err CorruptRecord
                else try_bind (validate_permissions perms) (\<lambda>_. Ok (kind, perms))))))
           (\<lambda>(kind, perms).
         try_bind (ok_or (checked_add metadata_end (unat name_len)) CorruptRecord) (\<lambda>name_end.
         try_bind (ok_or (checked_add name_end (unat data_len)) CorruptRecord) (\<lambda>data_end.
           if payload_end < data_end then Err CorruptRecord
           else
             let nm = slice record metadata_end name_end in
             if \<not> valid_utf8 nm then Err InvalidUtf8
             else
               try_bind (validate_path nm) (\<lambda>_.
                 if kind = Directory \<and> data_len \<noteq> 0 then Err CorruptRecord
                 else if list_ex (\<lambda>entry. name entry = nm) files then Err CorruptRecord
                 else Ok (\<lparr>name = nm, data = slice record name_end data_end, kind = kind,
                           permissions = perms\<rparr>, data_end))))))))))"

fun get_entries :: "bytes \<Rightarrow> u32 \<Rightarrow> nat \<Rightarrow> nat \<Rightarrow> FileEntry list \<Rightarrow> nat \<Rightarrow> FsError + (FileEntry list \<times> nat)" where
  "get_entries record version payload_end 0 files cursor = Ok (files, cursor)"
| "get_entries record version payload_end (Suc count) files cursor =
    try_bind (get_entry record version payload_end files cursor) (\<lambda>(entry, cursor).
      get_entries record version payload_end count (files @ [entry]) cursor)"

definition decode_record :: "bytes \<Rightarrow> nat \<Rightarrow> FsError + FileEntry list" where
  "decode_record record expected_generation =
    (if length record < RECORD_HEADER_BYTES then Err CorruptRecord
     else
       try_bind (fs_get_u32 record 8) (\<lambda>version.
       try_bind (fs_get_u32 record 12) (\<lambda>header_bytes.
       try_bind (fs_get_u64 record 16) (\<lambda>generation.
         if slice record 0 8 \<noteq> RECORD_MAGIC
            \<or> \<not> (MIN_FORMAT_VERSION \<le> version \<and> version \<le> FORMAT_VERSION)
            \<or> unat header_bytes \<noteq> RECORD_HEADER_BYTES \<or> unat generation \<noteq> expected_generation
         then Err CorruptRecord
         else
           let header = slice record 0 RECORD_HEADER_BYTES in
           try_bind (fs_get_u32 header RECORD_HEADER_CRC_OFFSET) (\<lambda>stored_header_crc.
             if crc32 (put_u32 header RECORD_HEADER_CRC_OFFSET 0) \<noteq> stored_header_crc
             then Err CorruptRecord
             else
               try_bind (fs_get_u32 record 24) (\<lambda>entry_count.
               try_bind (fs_get_u32 record 28) (\<lambda>payload_bytes.
                 if MAX_FILES < unat entry_count then Err CorruptRecord
                 else
                   try_bind (ok_or (case checked_add RECORD_HEADER_BYTES (unat payload_bytes) of
                               Some e \<Rightarrow> if e \<le> length record then Some e else None
                             | None \<Rightarrow> None) CorruptRecord) (\<lambda>payload_end.
                   try_bind (fs_get_u32 record 32) (\<lambda>payload_crc.
                     if crc32 (slice record RECORD_HEADER_BYTES payload_end) \<noteq> payload_crc
                     then Err CorruptRecord
                     else
                       try_bind (get_entries record version payload_end (unat entry_count) [] RECORD_HEADER_BYTES)
                         (\<lambda>(files, cursor).
                         if cursor \<noteq> payload_end then Err CorruptRecord
                         else try_bind (validate_tree files (version \<noteq> 1)) (\<lambda>_. Ok files)))))))))))"

end
