(* ===== verification/FsCodec.thy ===== *)
theory FsCodec
  imports FsFormat
begin

text \<open>
  Round trips and corruption detection of the superblock and record codecs of
  \<^verbatim>\<open>kernel/src/fs.rs\<close>. Each encoder is first rewritten to the concatenation of its fields; the
  decoder then reads that layout back.
\<close>

section \<open>Superblocks\<close>

definition super_layout :: "Superblock \<Rightarrow> u32 \<Rightarrow> bytes" where
  "super_layout s c =
    SUPERBLOCK_MAGIC @ to_le 4 (3 :: u32) @ to_le 4 (64 :: u32) @
    to_le 8 (word_of_nat (sb_generation s) :: u64) @ to_le 8 (word_of_nat (sb_record_start s) :: u64) @
    to_le 4 (word_of_nat (sb_record_sectors s) :: u32) @ to_le 4 (word_of_nat (sb_record_bytes s) :: u32) @
    to_le 4 (sb_record_crc s) @ to_le 4 c @ to_le 8 (word_of_nat (sb_capacity_sectors s) :: u64) @
    replicate 456 0"

lemma length_fs_magics [simp]: "length SUPERBLOCK_MAGIC = 8" "length RECORD_MAGIC = 8"
  by (simp_all add: SUPERBLOCK_MAGIC_def RECORD_MAGIC_def)

lemma encode_superblock_layout: "encode_superblock s = super_layout s (crc32 (super_layout s 0))"
  unfolding encode_superblock_def super_layout_def Let_def
  by (simp add: put_defs buf_simps flip: replicate_add)

lemma put_super_layout: "put_u32 (super_layout s c) 44 c' = super_layout s c'"
  by (simp add: super_layout_def put_u32_def buf_simps copy_from_slice_def)

lemma length_super_layout [simp]: "length (super_layout s c) = 512"
  by (simp add: super_layout_def)

lemma fs_get_slice:
  "offset + 2 \<le> length b \<Longrightarrow> fs_get_u16 b offset = Ok (from_le (slice b offset (offset + 2)))"
  "offset + 4 \<le> length b \<Longrightarrow> fs_get_u32 b offset = Ok (from_le (slice b offset (offset + 4)))"
  "offset + 8 \<le> length b \<Longrightarrow> fs_get_u64 b offset = Ok (from_le (slice b offset (offset + 8)))"
  by (simp_all add: fs_get_u16_def fs_get_u32_def fs_get_u64_def get_slice_def)

lemma super_layout_fields:
  "slice (super_layout s c) 0 8 = SUPERBLOCK_MAGIC"
  "fs_get_u32 (super_layout s c) 8 = Ok 3" "fs_get_u32 (super_layout s c) 12 = Ok 64"
  "fs_get_u64 (super_layout s c) 16 = Ok (word_of_nat (sb_generation s))"
  "fs_get_u64 (super_layout s c) 24 = Ok (word_of_nat (sb_record_start s))"
  "fs_get_u32 (super_layout s c) 32 = Ok (word_of_nat (sb_record_sectors s))"
  "fs_get_u32 (super_layout s c) 36 = Ok (word_of_nat (sb_record_bytes s))"
  "fs_get_u32 (super_layout s c) 40 = Ok (sb_record_crc s)"
  "fs_get_u32 (super_layout s c) 44 = Ok c"
  "fs_get_u64 (super_layout s c) 48 = Ok (word_of_nat (sb_capacity_sectors s))"
  by (simp_all add: fs_get_slice) (simp_all add: super_layout_def slice_def)

definition valid_superblock :: "Superblock \<Rightarrow> nat \<Rightarrow> bool" where
  "valid_superblock s cap \<longleftrightarrow> 0 < sb_generation s \<and> sb_generation s \<le> U64_MAX
    \<and> 8 \<le> sb_record_start s \<and> sb_record_start s + sb_record_sectors s \<le> cap \<and> cap \<le> U64_MAX
    \<and> 0 < sb_record_sectors s \<and> sb_record_sectors s \<le> MAX_RECORD_SECTORS
    \<and> sb_record_bytes s = sb_record_sectors s * SECTOR_SIZE \<and> sb_capacity_sectors s \<le> cap"

lemma unat_word_u64: "n \<le> U64_MAX \<Longrightarrow> unat (word_of_nat n :: u64) = n"
  by (simp add: U64_MAX_def unat_of_nat take_bit_nat_eq_self_iff)

lemma unat_word_u32: "n < 2 ^ 32 \<Longrightarrow> unat (word_of_nat n :: u32) = n"
  by (simp add: unat_of_nat take_bit_nat_eq_self_iff)

lemma unat_word_u16: "n < 2 ^ 16 \<Longrightarrow> unat (word_of_nat n :: u16) = n"
  by (simp add: unat_of_nat take_bit_nat_eq_self_iff)

lemma decode_encode_superblock:
  assumes "valid_superblock s cap"
  shows "decode_superblock (encode_superblock s) cap = Ok s"
proof -
  have u: "unat (word_of_nat (sb_generation s) :: u64) = sb_generation s"
    "unat (word_of_nat (sb_record_start s) :: u64) = sb_record_start s"
    "unat (word_of_nat (sb_capacity_sectors s) :: u64) = sb_capacity_sectors s"
    "unat (word_of_nat (sb_record_sectors s) :: u32) = sb_record_sectors s"
    using assms by (auto simp: valid_superblock_def intro!: unat_word_u64 unat_word_u32)
  have "sb_record_bytes s < 2 ^ 32" using assms by (simp add: valid_superblock_def)
  note u = u unat_word_u32 [OF this]
  have "(word_of_nat (sb_generation s) :: u64) \<noteq> 0"
    using u(1) assms by (metis valid_superblock_def less_numeral_extra(3) unsigned_0)
  moreover have "valid_record_layout 3 (sb_record_sectors s) (sb_record_bytes s)"
    using assms by (auto simp: valid_record_layout_def valid_superblock_def)
  moreover have "sb_record_start s + sb_record_sectors s \<le> U64_MAX" "\<not> sb_record_start s < 8"
    "\<not> cap < sb_record_start s + sb_record_sectors s" "\<not> cap < sb_capacity_sectors s"
    using assms by (simp_all add: valid_superblock_def)
  ultimately show ?thesis
    unfolding encode_superblock_layout decode_superblock_def
    by (simp add: super_layout_fields put_super_layout u checked_add_def)
qed

lemma decode_superblock_fields:
  assumes "decode_superblock b cap = Ok s"
  shows "0 < sb_generation s" and "8 \<le> sb_record_start s" and "sb_record_start s + sb_record_sectors s \<le> cap"
    and "0 < sb_record_sectors s" and "sb_record_sectors s \<le> MAX_RECORD_SECTORS"
    and "sb_record_bytes s = sb_record_sectors s * SECTOR_SIZE" and "sb_capacity_sectors s \<le> cap"
    and "\<exists>c. fs_get_u32 b 44 = Ok c \<and> crc32 (put_u32 b 44 0) = c"
  using assms by (auto simp: decode_superblock_def valid_record_layout_def word_neq_0_conv unat_gt_0 split: if_splits)

section \<open>Snapshot records\<close>

definition entry_bytes :: "FileEntry \<Rightarrow> bytes" where
  "entry_bytes f =
    to_le 2 (word_of_nat (length (name f)) :: u16) @ to_le 2 (encode_kind (kind f)) @
    to_le 4 (word_of_nat (length (data f)) :: u32) @ to_le 2 (permissions f) @ replicate 2 0 @
    name f @ data f"

definition payload :: "FileEntry list \<Rightarrow> bytes" where
  "payload files = concat (map entry_bytes files)"

lemma length_entry_bytes [simp]: "length (entry_bytes f) = 12 + length (name f) + length (data f)"
  by (simp add: entry_bytes_def)

lemma payload_simps [simp]: "payload [] = []" "payload (f # fs) = entry_bytes f @ payload fs"
  by (simp_all add: payload_def)

lemma put_entry_layout:
  assumes "length pre = cursor" and "length (entry_bytes f) \<le> k"
  shows "put_entry (pre @ replicate k 0) cursor f =
    (pre @ entry_bytes f @ replicate (k - length (entry_bytes f)) 0, cursor + length (entry_bytes f))"
  using assms unfolding put_entry_def Let_def
  by (simp add: put_defs buf_simps entry_bytes_def flip: replicate_add) (simp add: numeral_2_eq_2 ac_simps)

lemma put_entries_layout:
  assumes "length pre = cursor" and "length (payload files) \<le> k"
    and "\<forall>f\<in>set files. validate_path (name f) = Ok ()"
  shows "put_entries (pre @ replicate k 0) cursor files =
    Ok (pre @ payload files @ replicate (k - length (payload files)) 0, cursor + length (payload files))"
  using assms
proof (induction files arbitrary: pre cursor k)
  case (Cons f files)
  have "put_entry (pre @ replicate k 0) cursor f =
      (pre @ entry_bytes f @ replicate (k - length (entry_bytes f)) 0, cursor + length (entry_bytes f))"
    using Cons.prems by (intro put_entry_layout) simp_all
  moreover have "put_entries ((pre @ entry_bytes f) @ replicate (k - length (entry_bytes f)) 0)
        (cursor + length (entry_bytes f)) files =
      Ok ((pre @ entry_bytes f) @ payload files @
          replicate (k - length (entry_bytes f) - length (payload files)) 0,
        cursor + length (entry_bytes f) + length (payload files))"
    using Cons.prems by (intro Cons.IH) simp_all
  ultimately show ?case using Cons.prems by (simp add: ac_simps)
qed simp

lemma required_loop_eq:
  "n \<le> U64_MAX \<Longrightarrow> required_loop n files =
    (if n + length (payload files) \<le> U64_MAX then Ok (n + length (payload files)) else Err ArithmeticOverflow)"
  by (induction files arbitrary: n) (auto simp: checked_add_def ac_simps)

lemma align_up_usize_eq:
  "align_up_usize n 512 =
    (if n + 511 \<le> U64_MAX then Ok ((n + 511) div 512 * 512) else Err ArithmeticOverflow)"
  using mask_down_pow2 [of "n + 511" 9] by (auto simp: align_up_usize_def checked_add_def)

definition record_size :: "FileEntry list \<Rightarrow> nat" where
  "record_size files = max ((64 + length (payload files) + 511) div 512 * 512) RECORD_BYTES"

definition record_header :: "nat \<Rightarrow> FileEntry list \<Rightarrow> u32 \<Rightarrow> bytes" where
  "record_header g files c =
    RECORD_MAGIC @ to_le 4 (3 :: u32) @ to_le 4 (64 :: u32) @ to_le 8 (word_of_nat g :: u64) @
    to_le 4 (word_of_nat (length files) :: u32) @ to_le 4 (word_of_nat (length (payload files)) :: u32) @
    to_le 4 (crc32 (payload files)) @ to_le 4 c @ replicate 24 0"

definition record_layout :: "nat \<Rightarrow> FileEntry list \<Rightarrow> bytes" where
  "record_layout g files =
    record_header g files (crc32 (record_header g files 0)) @ payload files @
    replicate (record_size files - (64 + length (payload files))) 0"

lemma length_record_header [simp]: "length (record_header g files c) = 64"
  by (simp add: record_header_def)

lemma record_size_ge: "64 + length (payload files) \<le> record_size files"
proof -
  have "n \<le> (n + 511) div 512 * 512" for n :: nat by linarith
  from this [of "64 + length (payload files)"] show ?thesis
    by (simp add: record_size_def le_max_iff_disj)
qed

lemma length_record_layout [simp]: "length (record_layout g files) = record_size files"
  using record_size_ge [of files] by (simp add: record_layout_def)

lemma record_size_sectors: "record_size files mod 512 = 0" and record_size_min: "32768 \<le> record_size files"
  by (auto simp: record_size_def max_def)

lemma try_each_Ok: "try_each f xs = Ok () \<longleftrightarrow> (\<forall>x\<in>set xs. f x = Ok ())"
  by (induction xs) (auto simp: try_bind_Ok_iff)

lemma validate_tree_paths:
  "validate_tree files r = Ok () \<Longrightarrow> f \<in> set files \<Longrightarrow>
    validate_path (name f) = Ok () \<and> validate_permissions (permissions f) = Ok ()
    \<and> (kind f = Directory \<longrightarrow> data f = [])"
  by (auto simp: validate_tree_def try_each_Ok validate_entry_def split: if_splits)

lemma put_record_header: "put_u32 (record_header g files c) 36 c' = record_header g files c'"
  by (simp add: record_header_def put_u32_def buf_simps copy_from_slice_def)

lemma encode_record_header:
  assumes "64 \<le> n"
  shows "put_u32 (put_u64 (put_u32 (put_u32 (copy_from_slice (replicate n 0) 0 RECORD_MAGIC) 8 3) 12 64)
      16 (word_of_nat g)) 24 c =
    (RECORD_MAGIC @ to_le 4 (3 :: u32) @ to_le 4 (64 :: u32) @ to_le 8 (word_of_nat g :: u64) @ to_le 4 c
      @ replicate 36 0) @ replicate (n - 64) 0"
  using assms by (simp add: put_defs buf_simps flip: replicate_add)

lemma encode_record_exact:
  "encode_record g files = Ok r \<longleftrightarrow>
    length files \<le> MAX_FILES \<and> validate_tree files True = Ok () \<and> record_size files \<le> MAX_RECORD_BYTES
    \<and> r = record_layout g files" (is "?L \<longleftrightarrow> ?R")
proof (cases "length files \<le> 128 \<and> validate_tree files True = Ok () \<and> record_size files \<le> 4194304")
  case True
  let ?p = "payload files"
  have small: "64 + length ?p + 511 \<le> U64_MAX"
    using True record_size_ge [of files] by (simp add: U64_MAX_def)
  let ?h = "RECORD_MAGIC @ to_le 4 (3 :: u32) @ to_le 4 (64 :: u32) @ to_le 8 (word_of_nat g :: u64) @
    to_le 4 (word_of_nat (length files) :: u32) @ replicate 36 0"
  have put: "put_entries (?h @ replicate (record_size files - 64) 0) 64 files =
      Ok (?h @ ?p @ replicate (record_size files - 64 - length ?p) 0, 64 + length ?p)"
    using True record_size_ge [of files]
    by (intro put_entries_layout) (auto dest: validate_tree_paths)
  have size: "max ((575 + length ?p) div 512 * 512) 32768 = record_size files"
    by (simp add: record_size_def)
  have "encode_record g files = Ok (record_layout g files)"
    using True small record_size_ge [of files] put
    unfolding encode_record_def required_record_bytes_def
    by (simp add: required_loop_eq align_up_usize_eq Let_def encode_record_header size)
      (simp add: record_layout_def record_header_def put_u32_def buf_simps slice_def flip: replicate_add)
  with True show ?thesis by auto
next
  case False
  have "\<not> ?L"
  proof
    assume L: "encode_record g files = Ok r"
    then have "64 + length (payload files) + 511 \<le> U64_MAX"
      by (auto simp: encode_record_def required_record_bytes_def required_loop_eq align_up_usize_eq
          U64_MAX_def split: if_splits)
    with L False show False
      by (auto simp: encode_record_def required_record_bytes_def required_loop_eq align_up_usize_eq
          Let_def record_size_def split: if_splits)
  qed
  with False show ?thesis by auto
qed

lemma decode_encode_kind [simp]: "decode_kind (encode_kind k) = Ok k"
  by (cases k) (simp_all add: decode_kind_def)

lemma validate_path_length: "validate_path p = Ok () \<Longrightarrow> 2 \<le> length p \<and> length p \<le> 128"
  by (auto simp: validate_path_def split: if_splits)

definition storable :: "FileEntry \<Rightarrow> bool" where
  "storable f \<longleftrightarrow> valid_utf8 (name f) \<and> validate_path (name f) = Ok ()
    \<and> validate_permissions (permissions f) = Ok () \<and> (kind f = Directory \<longrightarrow> data f = [])"

lemma from_le_zeros [simp]: "from_le (replicate n 0) = 0"
  by (induction n) auto

lemma entry_fields:
  assumes "length pre = cursor"
  shows "fs_get_u16 (pre @ entry_bytes f @ post) cursor = Ok (word_of_nat (length (name f)))"
    "fs_get_u16 (pre @ entry_bytes f @ post) (cursor + 2) = Ok (encode_kind (kind f))"
    "fs_get_u32 (pre @ entry_bytes f @ post) (cursor + 4) = Ok (word_of_nat (length (data f)))"
    "fs_get_u16 (pre @ entry_bytes f @ post) (cursor + 8) = Ok (permissions f)"
    "fs_get_u16 (pre @ entry_bytes f @ post) (cursor + 10) = Ok 0"
    "slice (pre @ entry_bytes f @ post) (cursor + 12) (cursor + 12 + length (name f)) = name f"
    "slice (pre @ entry_bytes f @ post) (cursor + 12 + length (name f))
      (cursor + 12 + length (name f) + length (data f)) = data f"
  using assms
  by (simp_all add: fs_get_slice) (simp_all add: entry_bytes_def slice_def)

lemma get_entry_layout:
  assumes "length pre = cursor" and "cursor + length (entry_bytes f) \<le> pe" and "pe < 2 ^ 32"
    and "storable f" and "name f \<notin> name ` set files"
  shows "get_entry (pre @ entry_bytes f @ post) 3 pe files cursor = Ok (f, cursor + length (entry_bytes f))"
proof -
  have u: "unat (word_of_nat (length (name f)) :: u16) = length (name f)"
    "unat (word_of_nat (length (data f)) :: u32) = length (data f)"
    using assms(2-4) validate_path_length [of "name f"]
    by (auto simp: storable_def intro!: unat_word_u16 unat_word_u32)
  have "(word_of_nat (length (data f)) :: u32) = 0" if "data f = []" using that by simp
  moreover have "\<not> list_ex (\<lambda>entry. name entry = name f) files"
    using assms(5) by (force simp: list_ex_iff image_iff)
  moreover define rec where "rec = pre @ entry_bytes f @ post"
  ultimately show ?thesis
    using assms unfolding get_entry_def rec_def [symmetric]
    by (auto simp: entry_fields [OF assms(1), of f post, folded rec_def] u checked_add_def U64_MAX_def
        storable_def Let_def simp del: add_2_eq_Suc')
qed

lemma get_entries_layout:
  assumes "length pre = cursor" and "cursor + length (payload fs) \<le> pe" and "pe < 2 ^ 32"
    and "\<forall>f\<in>set fs. storable f" and "distinct (map name (files @ fs))"
  shows "get_entries (pre @ payload fs @ post) 3 pe (length fs) files cursor =
    Ok (files @ fs, cursor + length (payload fs))"
  using assms
proof (induction fs arbitrary: pre cursor files)
  case (Cons f fs)
  have "get_entry (pre @ entry_bytes f @ payload fs @ post) 3 pe files cursor =
      Ok (f, cursor + length (entry_bytes f))"
    using Cons.prems by (intro get_entry_layout) auto
  moreover have "get_entries ((pre @ entry_bytes f) @ payload fs @ post) 3 pe (length fs) (files @ [f])
        (cursor + length (entry_bytes f)) =
      Ok ((files @ [f]) @ fs, cursor + length (entry_bytes f) + length (payload fs))"
    using Cons.prems by (intro Cons.IH) auto
  ultimately show ?case by (simp add: ac_simps)
qed simp

lemma record_header_fields:
  "slice (record_header g files c) 0 8 = RECORD_MAGIC"
  "fs_get_u32 (record_header g files c @ r) 8 = Ok 3" "fs_get_u32 (record_header g files c @ r) 12 = Ok 64"
  "fs_get_u64 (record_header g files c @ r) 16 = Ok (word_of_nat g)"
  "fs_get_u32 (record_header g files c @ r) 24 = Ok (word_of_nat (length files))"
  "fs_get_u32 (record_header g files c @ r) 28 = Ok (word_of_nat (length (payload files)))"
  "fs_get_u32 (record_header g files c @ r) 32 = Ok (crc32 (payload files))"
  "fs_get_u32 (record_header g files c) 36 = Ok c"
  by (simp_all add: fs_get_slice) (simp_all add: record_header_def slice_def)

lemma decode_record_layout:
  assumes "g \<le> U64_MAX" and "length files \<le> MAX_FILES" and "validate_tree files True = Ok ()"
    and "record_size files \<le> MAX_RECORD_BYTES"
    and "distinct (map name files)" and "\<forall>f\<in>set files. valid_utf8 (name f)"
  shows "decode_record (record_layout g files) g = Ok files"
proof -
  let ?h = "record_header g files (crc32 (record_header g files 0))"
  let ?z = "replicate (record_size files - (64 + length (payload files))) (0 :: u8)"
  have st: "\<forall>f\<in>set files. storable f"
    using assms(3,6) by (auto simp: storable_def dest: validate_tree_paths)
  have pl: "64 + length (payload files) < 2 ^ 32"
    using assms(4) record_size_ge [of files] by simp
  have u: "unat (word_of_nat g :: u64) = g" "unat (word_of_nat (length files) :: u32) = length files"
    "unat (word_of_nat (length (payload files)) :: u32) = length (payload files)"
    using assms(1,2) pl by (auto intro!: unat_word_u64 unat_word_u32)
  have "get_entries (?h @ payload files @ ?z) 3 (64 + length (payload files)) (length files) [] 64 =
      Ok ([] @ files, 64 + length (payload files))"
    using st pl assms(5) by (intro get_entries_layout) auto
  moreover have "slice (?h @ payload files @ ?z) 0 64 = ?h"
    "slice (?h @ payload files @ ?z) 64 (64 + length (payload files)) = payload files"
    by (simp_all add: slice_def)
  ultimately show ?thesis
    using assms(2,3) pl record_size_ge [of files]
    unfolding decode_record_def record_layout_def
    by (simp add: record_header_fields put_record_header u checked_add_def U64_MAX_def Let_def)
qed

end
