(* ===== verification/FsOps.thy ===== *)
theory FsOps
  imports FsCodec
begin

text \<open>
  The operations of \<^verbatim>\<open>CodexFs\<close> in \<^verbatim>\<open>kernel/src/fs.rs\<close> over any \<^verbatim>\<open>BlockDevice\<close>: mounting, the
  tree operations, the commit of a snapshot and the selection of the newest valid snapshot. An
  operation that touches the device returns the new state on its error paths too, since the
  sectors written before the error stay written.
\<close>

section \<open>Data\<close>

datatype MountState = Formatted | Existing

fun MountState_as_str :: "MountState \<Rightarrow> string" where
  "MountState_as_str Formatted = ''formatted''"
| "MountState_as_str Existing = ''existing''"

fun EntryKind_as_str :: "EntryKind \<Rightarrow> string" where
  "EntryKind_as_str File = ''file''"
| "EntryKind_as_str Directory = ''directory''"

record FilesystemInfo =
  fi_generation :: nat
  file_count :: nat
  directory_count :: nat
  fi_capacity_sectors :: nat
  fi_record_slots :: nat
  fi_record_slot_sectors :: nat
  fi_active_record_start :: nat
  fi_active_record_sectors :: nat
  max_record_bytes :: nat
  fi_mount_state :: MountState

record Metadata =
  md_path :: bytes
  md_kind :: EntryKind
  md_permissions :: u16
  md_length :: nat

record DirectoryEntry =
  de_path :: bytes
  de_name :: bytes
  de_kind :: EntryKind
  de_permissions :: u16
  de_length :: nat

record LoadedSnapshot =
  ls_superblock :: Superblock
  ls_files :: "FileEntry list"

record 'd CodexFs =
  fs_device :: 'd
  fs_files :: "FileEntry list"
  fs_generation :: nat
  fs_record_slots :: nat
  fs_record_slot_sectors :: nat
  fs_active_record_start :: nat
  fs_active_record_sectors :: nat
  fs_mount_state :: MountState

section \<open>Record slots\<close>

definition record_slot_span :: "nat \<Rightarrow> FsError + nat" where
  "record_slot_span count =
    try_bind (ok_or (checked_sub count RECORD_AREA_START) DeviceTooSmall) (\<lambda>available.
      let half = available div 2 in
      if half < RECORD_SECTORS then Err DeviceTooSmall
      else
        let span = min MAX_RECORD_SECTORS half in
        if span < 2 ^ 32 then Ok span else Err ArithmeticOverflow)"

definition record_slot_count :: "nat \<Rightarrow> nat \<Rightarrow> FsError + nat" where
  "record_slot_count count slot_span_sectors =
    try_bind (ok_or (checked_sub count RECORD_AREA_START) DeviceTooSmall) (\<lambda>available.
      let slots = available div slot_span_sectors in
      if slots < 2 then Err DeviceTooSmall else Ok slots)"

definition ranges_overlap :: "nat \<Rightarrow> nat \<Rightarrow> nat \<Rightarrow> nat \<Rightarrow> FsError + bool" where
  "ranges_overlap left_start left_sectors right_start right_sectors =
    try_bind (ok_or (checked_add left_start left_sectors) ArithmeticOverflow) (\<lambda>left_end.
    try_bind (ok_or (checked_add right_start right_sectors) ArithmeticOverflow) (\<lambda>right_end.
      Ok (left_start < right_end \<and> right_start < left_end)))"

text \<open>The loop over the attempts of \<^verbatim>\<open>select_record_start\<close>; \<open>capacity\<close> is \<^verbatim>\<open>device.sector_count()\<close>.\<close>

fun select_attempts :: "'d CodexFs \<Rightarrow> nat \<Rightarrow> nat \<Rightarrow> nat \<Rightarrow> nat list \<Rightarrow> FsError + nat" where
  "select_attempts self capacity generation record_sectors [] = Err SnapshotTooLarge"
| "select_attempts self capacity generation record_sectors (attempt # attempts) =
    try_bind (ok_or (checked_add generation attempt) ArithmeticOverflow) (\<lambda>sum.
    let slot = sum mod fs_record_slots self in
    try_bind (ok_or (checked_mul slot (fs_record_slot_sectors self)) ArithmeticOverflow) (\<lambda>off.
    try_bind (ok_or (checked_add RECORD_AREA_START off) ArithmeticOverflow) (\<lambda>record_start.
    try_bind (ok_or (checked_add record_start record_sectors) ArithmeticOverflow) (\<lambda>record_end.
      if capacity < record_end then select_attempts self capacity generation record_sectors attempts
      else
        try_bind
          (if fs_active_record_sectors self \<noteq> 0
           then ranges_overlap record_start record_sectors
             (fs_active_record_start self) (fs_active_record_sectors self)
           else Ok False)
          (\<lambda>overlap.
            if overlap then select_attempts self capacity generation record_sectors attempts
            else Ok record_start)))))"

definition select_record_start :: "'d BlockDevice \<Rightarrow> 'd CodexFs \<Rightarrow> nat \<Rightarrow> nat \<Rightarrow> FsError + nat" where
  "select_record_start dev self generation record_sectors =
    select_attempts self (sector_count dev (fs_device self)) generation record_sectors
      [0..<fs_record_slots self]"

section \<open>Reading snapshots\<close>

fun read_sectors ::
  "'d BlockDevice \<Rightarrow> Superblock \<Rightarrow> nat list \<Rightarrow> bytes \<Rightarrow> 'd \<Rightarrow> (FsError + bytes) \<times> 'd" where
  "read_sectors dev superblock [] record d = (Ok record, d)"
| "read_sectors dev superblock (sector_offset # rest) record d =
    st_bind (map_err Block (read_sector dev d (sb_record_start superblock + sector_offset))) (\<lambda>sector d.
      read_sectors dev superblock rest (copy_from_slice record (sector_offset * SECTOR_SIZE) sector) d)"

definition read_record :: "'d BlockDevice \<Rightarrow> 'd \<Rightarrow> Superblock \<Rightarrow> (FsError + FileEntry list) \<times> 'd" where
  "read_record dev d superblock =
    st_bind (read_sectors dev superblock [0..<sb_record_sectors superblock]
        (replicate (sb_record_bytes superblock) 0) d) (\<lambda>record d.
      if crc32 record \<noteq> sb_record_crc superblock then (Err CorruptRecord, d)
      else (decode_record record (sb_generation superblock), d))"

fun read_candidates ::
  "'d BlockDevice \<Rightarrow> nat list \<Rightarrow> Superblock option list \<Rightarrow> bool \<Rightarrow> 'd \<Rightarrow>
    (FsError + (Superblock option list \<times> bool)) \<times> 'd" where
  "read_candidates dev [] candidates saw_nonzero d = (Ok (candidates, saw_nonzero), d)"
| "read_candidates dev (sector_number # rest) candidates saw_nonzero d =
    st_bind (map_err Block (read_sector dev d sector_number)) (\<lambda>sector d.
      read_candidates dev rest
        (candidates @ [case decode_superblock sector (sector_count dev d) of Ok sb \<Rightarrow> Some sb | Err e \<Rightarrow> None])
        (saw_nonzero \<or> list_ex (\<lambda>byte. byte \<noteq> 0) sector) d)"

fun choose_best ::
  "'d BlockDevice \<Rightarrow> Superblock list \<Rightarrow> LoadedSnapshot option \<Rightarrow> 'd \<Rightarrow> LoadedSnapshot option \<times> 'd" where
  "choose_best dev [] best d = (best, d)"
| "choose_best dev (superblock # rest) best d =
    (case read_record dev d superblock of
       (Err e, d) \<Rightarrow> choose_best dev rest best d
     | (Ok files, d) \<Rightarrow>
       choose_best dev rest
         (if (case best of None \<Rightarrow> True
              | Some current \<Rightarrow> sb_generation (ls_superblock current) < sb_generation superblock)
          then Some \<lparr>ls_superblock = superblock, ls_files = files\<rparr> else best) d)"

definition load_latest_snapshot :: "'d BlockDevice \<Rightarrow> 'd \<Rightarrow> (FsError + LoadedSnapshot option) \<times> 'd" where
  "load_latest_snapshot dev d =
    st_bind (read_candidates dev [SUPERBLOCK_A_SECTOR, SUPERBLOCK_B_SECTOR] [] False d)
      (\<lambda>(candidates, saw_nonzero) d.
        case choose_best dev (List.map_filter id candidates) None d of
          (best, d) \<Rightarrow>
            if best = None \<and> saw_nonzero then (Err CorruptSuperblocks, d) else (Ok best, d))"

section \<open>Committing a snapshot\<close>

fun write_sectors :: "'d BlockDevice \<Rightarrow> nat \<Rightarrow> bytes \<Rightarrow> nat list \<Rightarrow> 'd \<Rightarrow> (FsError + unit) \<times> 'd" where
  "write_sectors dev record_start record [] d = (Ok (), d)"
| "write_sectors dev record_start record (sector_offset # rest) d =
    (let byte_offset = sector_offset * SECTOR_SIZE;
         sector = slice record byte_offset (byte_offset + SECTOR_SIZE)
     in st_bind (map_err Block (write_sector dev d (record_start + sector_offset) sector)) (\<lambda>_ d.
          write_sectors dev record_start record rest d))"

text \<open>The device side of \<^verbatim>\<open>commit_files\<close>: the record, a flush, the superblock, a flush.\<close>

definition write_snapshot ::
  "'d BlockDevice \<Rightarrow> nat \<Rightarrow> nat \<Rightarrow> nat \<Rightarrow> bytes \<Rightarrow> 'd \<Rightarrow> (FsError + unit) \<times> 'd" where
  "write_snapshot dev generation record_start record_sectors record d =
    st_bind (write_sectors dev record_start record [0..<record_sectors] d) (\<lambda>_ d.
    st_bind (map_err Block (flush dev d)) (\<lambda>_ d.
      let superblock = \<lparr>sb_generation = generation, sb_record_start = record_start,
            sb_record_sectors = record_sectors, sb_record_bytes = length record,
            sb_record_crc = crc32 record, sb_capacity_sectors = sector_count dev d\<rparr>;
          sector = encode_superblock superblock;
          super_sector = (if even generation then SUPERBLOCK_A_SECTOR else SUPERBLOCK_B_SECTOR)
      in st_bind (map_err Block (write_sector dev d super_sector sector)) (\<lambda>_ d.
           map_err Block (flush dev d))))"

definition commit_files ::
  "'d BlockDevice \<Rightarrow> 'd CodexFs \<Rightarrow> FileEntry list \<Rightarrow> (FsError + unit) \<times> 'd CodexFs" where
  "commit_files dev self files =
    (case
       try_bind (ok_or (checked_add (fs_generation self) 1) ArithmeticOverflow) (\<lambda>generation.
       try_bind (encode_record generation files) (\<lambda>record.
       let record_sectors = length record div SECTOR_SIZE in
       if \<not> record_sectors < 2 ^ 32 then Err ArithmeticOverflow
       else if record_sectors = 0 \<or> fs_record_slot_sectors self < record_sectors then Err SnapshotTooLarge
       else try_bind (select_record_start dev self generation record_sectors) (\<lambda>record_start.
         Ok (generation, record, record_sectors, record_start))))
     of Err e \<Rightarrow> (Err e, self)
      | Ok (generation, record, record_sectors, record_start) \<Rightarrow>
        (case write_snapshot dev generation record_start record_sectors record (fs_device self) of
           (Err e, d) \<Rightarrow> (Err e, self\<lparr>fs_device := d\<rparr>)
         | (Ok _, d) \<Rightarrow> (Ok (), self\<lparr>fs_device := d, fs_generation := generation,
             fs_active_record_start := record_start, fs_active_record_sectors := record_sectors\<rparr>)))"

definition mount_or_format :: "'d BlockDevice \<Rightarrow> 'd \<Rightarrow> FsError + 'd CodexFs" where
  "mount_or_format dev d =
    (if \<not> supports_flush dev d then Err FlushUnsupported
     else
       try_bind (record_slot_span (sector_count dev d)) (\<lambda>record_slot_sectors.
       try_bind (record_slot_count (sector_count dev d) record_slot_sectors) (\<lambda>record_slots.
         case load_latest_snapshot dev d of
           (Err e, d) \<Rightarrow> Err e
         | (Ok (Some snapshot), d) \<Rightarrow>
             Ok \<lparr>fs_device = d, fs_files = ls_files snapshot,
                 fs_generation = sb_generation (ls_superblock snapshot),
                 fs_record_slots = record_slots, fs_record_slot_sectors = record_slot_sectors,
                 fs_active_record_start = sb_record_start (ls_superblock snapshot),
                 fs_active_record_sectors = sb_record_sectors (ls_superblock snapshot),
                 fs_mount_state = Existing\<rparr>
         | (Ok None, d) \<Rightarrow>
             (case commit_files dev
                \<lparr>fs_device = d, fs_files = [], fs_generation = 0, fs_record_slots = record_slots,
                 fs_record_slot_sectors = record_slot_sectors, fs_active_record_start = 0,
                 fs_active_record_sectors = 0, fs_mount_state = Formatted\<rparr> [] of
                (Err e, filesystem) \<Rightarrow> Err e
              | (Ok _, filesystem) \<Rightarrow> Ok filesystem))))"

section \<open>Tree edits\<close>

definition has_name :: "bytes \<Rightarrow> FileEntry \<Rightarrow> bool" where
  "has_name path entry \<longleftrightarrow> name entry = path"

text \<open>\<^verbatim>\<open>sort_unstable_by\<close> on the names; on distinct names every sort gives the same list.\<close>

definition sort_entries :: "FileEntry list \<Rightarrow> FileEntry list" where
  "sort_entries entries = sort_key name entries"

text \<open>\<^verbatim>\<open>iter_mut().find(..)\<close> followed by assignments through the reference.\<close>

fun update_first :: "('a \<Rightarrow> bool) \<Rightarrow> ('a \<Rightarrow> 'a) \<Rightarrow> 'a list \<Rightarrow> 'a list" where
  "update_first P f [] = []"
| "update_first P f (x # xs) = (if P x then f x # xs else x # update_first P f xs)"

definition remove_index :: "nat \<Rightarrow> 'a list \<Rightarrow> 'a list" where
  "remove_index i xs = take i xs @ drop (Suc i) xs"

definition insert_directory :: "FileEntry list \<Rightarrow> bytes \<Rightarrow> u16 \<Rightarrow> FsError + FileEntry list" where
  "insert_directory entries path perms =
    try_bind (ensure_parent_directory entries path) (\<lambda>_.
      case find_entry entries path of
        Some existing \<Rightarrow>
          if kind existing \<noteq> Directory then Err NotDirectory
          else Ok (update_first (has_name path) (\<lambda>e. e\<lparr>permissions := perms\<rparr>) entries)
      | None \<Rightarrow>
          if MAX_FILES \<le> length entries then Err TooManyFiles
          else Ok (sort_entries (entries @
            [\<lparr>name = path, data = [], kind = Directory, permissions = perms\<rparr>])))"

text \<open>
  The \<^verbatim>\<open>while parent != "/"\<close> loop that collects the ancestors of an entry. It ends because the
  parent of a path is shorter than the path.
\<close>

lemma rfind_slash_less: "rfind_slash path = Some i \<Longrightarrow> i < length path"
  by (induction path arbitrary: i) (auto split: option.splits if_splits)

lemma parent_path_shorter: "parent_path path = Ok parent \<Longrightarrow> length parent < length path"
  by (auto simp: parent_path_def root_path_def dest: rfind_slash_less validate_path_length split: if_splits option.splits)

function (sequential) collect_parents :: "bytes list \<Rightarrow> bytes \<Rightarrow> FsError + bytes list" where
  "collect_parents required parent =
    (if parent = root_path then Ok required
     else
       let required = (if list_ex (\<lambda>path. path = parent) required then required else required @ [parent])
       in try_bind (parent_path parent) (\<lambda>parent. collect_parents required parent))"
  by pat_completeness auto
termination
  by (relation "measure (\<lambda>(required, parent). length parent)") (auto dest: parent_path_shorter)

declare collect_parents.simps [simp del]

fun required_parents :: "bytes list \<Rightarrow> FileEntry list \<Rightarrow> FsError + bytes list" where
  "required_parents required [] = Ok required"
| "required_parents required (entry # entries) =
    try_bind (parent_path (name entry)) (\<lambda>parent.
    try_bind (collect_parents required parent) (\<lambda>required.
      required_parents required entries))"

fun add_required :: "bytes list \<Rightarrow> FileEntry list \<Rightarrow> FsError + FileEntry list" where
  "add_required [] entries = Ok entries"
| "add_required (path # required) entries =
    (case find_entry entries path of
       Some existing \<Rightarrow> if kind existing \<noteq> Directory then Err NotDirectory else add_required required entries
     | None \<Rightarrow>
       if MAX_FILES \<le> length entries then Err TooManyFiles
       else add_required required (entries @
         [\<lparr>name = path, data = [], kind = Directory, permissions = DEFAULT_DIRECTORY_PERMISSIONS\<rparr>]))"

definition materialize_missing_parent_directories :: "FileEntry list \<Rightarrow> FsError + FileEntry list" where
  "materialize_missing_parent_directories entries =
    try_bind (required_parents [] entries) (\<lambda>required.
    try_bind (add_required (sort required) entries) (\<lambda>entries.
      Ok (sort_entries entries)))"

section \<open>Queries\<close>

definition info :: "'d BlockDevice \<Rightarrow> 'd CodexFs \<Rightarrow> FilesystemInfo" where
  "info dev self =
    \<lparr>fi_generation = fs_generation self,
     file_count = length (filter (\<lambda>entry. kind entry = File) (fs_files self)),
     directory_count = length (filter (\<lambda>entry. kind entry = Directory) (fs_files self)),
     fi_capacity_sectors = sector_count dev (fs_device self),
     fi_record_slots = fs_record_slots self,
     fi_record_slot_sectors = fs_record_slot_sectors self,
     fi_active_record_start = fs_active_record_start self,
     fi_active_record_sectors = fs_active_record_sectors self,
     max_record_bytes = fs_record_slot_sectors self * SECTOR_SIZE,
     fi_mount_state = fs_mount_state self\<rparr>"

definition read_file :: "'d CodexFs \<Rightarrow> bytes \<Rightarrow> bytes option" where
  "read_file self path =
    map_option data (find (\<lambda>entry. name entry = path \<and> kind entry = File
      \<and> permissions entry AND OWNER_READ \<noteq> 0) (fs_files self))"

definition metadata :: "'d CodexFs \<Rightarrow> bytes \<Rightarrow> FsError + Metadata" where
  "metadata self path =
    (if path = root_path
     then Ok \<lparr>md_path = root_path, md_kind = Directory, md_permissions = DEFAULT_DIRECTORY_PERMISSIONS, md_length = 0\<rparr>
     else
       try_bind (validate_path path) (\<lambda>_.
       try_bind (ok_or (find_entry (fs_files self) path) NotFound) (\<lambda>entry.
         Ok \<lparr>md_path = name entry, md_kind = kind entry, md_permissions = permissions entry,
             md_length = length (data entry)\<rparr>)))"

fun list_entries :: "bytes \<Rightarrow> FileEntry list \<Rightarrow> DirectoryEntry list \<Rightarrow> FsError + DirectoryEntry list" where
  "list_entries path [] entries = Ok entries"
| "list_entries path (entry # rest) entries =
    try_bind (parent_path (name entry)) (\<lambda>parent.
      list_entries path rest
        (if parent = path
         then entries @ [\<lparr>de_path = name entry, de_name = leaf_name (name entry), de_kind = kind entry,
                de_permissions = permissions entry, de_length = length (data entry)\<rparr>]
         else entries))"

definition list_dir :: "'d CodexFs \<Rightarrow> bytes \<Rightarrow> FsError + DirectoryEntry list" where
  "list_dir self path =
    try_bind
      (if path \<noteq> root_path then
         try_bind (validate_path path) (\<lambda>_.
         try_bind (ok_or (find_entry (fs_files self) path) NotFound) (\<lambda>entry.
           if kind entry \<noteq> Directory then Err NotDirectory else Ok ()))
       else Ok ())
      (\<lambda>_. list_entries path (fs_files self) [])"

section \<open>Updates\<close>

text \<open>\<^verbatim>\<open>self.commit_files(&next)?; self.files = next;\<close>\<close>

definition store_files :: "'d BlockDevice \<Rightarrow> 'd CodexFs \<Rightarrow> FileEntry list \<Rightarrow> (FsError + unit) \<times> 'd CodexFs" where
  "store_files dev self next =
    st_bind (commit_files dev self next) (\<lambda>_ self. (Ok (), self\<lparr>fs_files := next\<rparr>))"

definition store_changed :: "'d BlockDevice \<Rightarrow> 'd CodexFs \<Rightarrow> FileEntry list \<Rightarrow> (FsError + unit) \<times> 'd CodexFs" where
  "store_changed dev self next =
    (if next \<noteq> fs_files self then store_files dev self next else (Ok (), self))"

text \<open>Each update computes the next file list (\<open>*_next\<close>) and commits it.\<close>

definition create_dir_next :: "FileEntry list \<Rightarrow> bytes \<Rightarrow> u16 \<Rightarrow> FsError + FileEntry list" where
  "create_dir_next files path perms =
    try_bind (validate_path path) (\<lambda>_.
    try_bind (validate_permissions perms) (\<lambda>_.
    try_bind (insert_directory files path perms) (\<lambda>next.
      materialize_missing_parent_directories next)))"

definition create_dir ::
  "'d BlockDevice \<Rightarrow> 'd CodexFs \<Rightarrow> bytes \<Rightarrow> u16 \<Rightarrow> (FsError + unit) \<times> 'd CodexFs" where
  "create_dir dev self path perms =
    st_bind (create_dir_next (fs_files self) path perms, self) (\<lambda>next self. store_changed dev self next)"

fun create_components ::
  "bytes \<Rightarrow> u16 \<Rightarrow> bytes list \<Rightarrow> bytes \<Rightarrow> FileEntry list \<Rightarrow> FsError + FileEntry list" where
  "create_components path perms [] current next = Ok next"
| "create_components path perms (component # components) current next =
    (let current = current @ [slash] @ component;
         mode = (if current = path then perms else DEFAULT_DIRECTORY_PERMISSIONS)
     in case find_entry next current of
          Some existing \<Rightarrow>
            if kind existing \<noteq> Directory then Err NotDirectory
            else create_components path perms components current next
        | None \<Rightarrow>
            try_bind (insert_directory next current mode) (\<lambda>next.
              create_components path perms components current next))"

definition create_dir_all_next :: "FileEntry list \<Rightarrow> bytes \<Rightarrow> u16 \<Rightarrow> FsError + FileEntry list" where
  "create_dir_all_next files path perms =
    try_bind (validate_path path) (\<lambda>_.
    try_bind (validate_permissions perms) (\<lambda>_.
    try_bind (create_components path perms (drop 1 (split_slash path)) [] files) (\<lambda>next.
      materialize_missing_parent_directories next)))"

definition create_dir_all ::
  "'d BlockDevice \<Rightarrow> 'd CodexFs \<Rightarrow> bytes \<Rightarrow> u16 \<Rightarrow> (FsError + unit) \<times> 'd CodexFs" where
  "create_dir_all dev self path perms =
    st_bind (create_dir_all_next (fs_files self) path perms, self) (\<lambda>next self. store_changed dev self next)"

definition set_permissions_next :: "FileEntry list \<Rightarrow> bytes \<Rightarrow> u16 \<Rightarrow> FsError + FileEntry list" where
  "set_permissions_next files path perms =
    try_bind (validate_path path) (\<lambda>_.
    try_bind (validate_permissions perms) (\<lambda>_.
    try_bind (ok_or (find_entry files path) NotFound) (\<lambda>_.
      materialize_missing_parent_directories
        (update_first (has_name path) (\<lambda>e. e\<lparr>permissions := perms\<rparr>) files))))"

definition set_permissions ::
  "'d BlockDevice \<Rightarrow> 'd CodexFs \<Rightarrow> bytes \<Rightarrow> u16 \<Rightarrow> (FsError + unit) \<times> 'd CodexFs" where
  "set_permissions dev self path perms =
    st_bind (set_permissions_next (fs_files self) path perms, self) (\<lambda>next self. store_changed dev self next)"

definition remove_file_next :: "FileEntry list \<Rightarrow> bytes \<Rightarrow> FsError + FileEntry list" where
  "remove_file_next files path =
    try_bind (validate_path path) (\<lambda>_.
    try_bind (ok_or (position (has_name path) files) NotFound) (\<lambda>index.
      if kind (files ! index) \<noteq> File then Err IsDirectory
      else if permissions (files ! index) AND OWNER_WRITE = 0 then Err PermissionDenied
      else materialize_missing_parent_directories (remove_index index files)))"

definition remove_file :: "'d BlockDevice \<Rightarrow> 'd CodexFs \<Rightarrow> bytes \<Rightarrow> (FsError + unit) \<times> 'd CodexFs" where
  "remove_file dev self path =
    st_bind (remove_file_next (fs_files self) path, self) (\<lambda>next self. store_files dev self next)"

definition no_child :: "bytes \<Rightarrow> FileEntry \<Rightarrow> FsError + unit" where
  "no_child path entry =
    try_bind (parent_path (name entry)) (\<lambda>parent. if parent = path then Err DirectoryNotEmpty else Ok ())"

definition remove_dir_next :: "FileEntry list \<Rightarrow> bytes \<Rightarrow> FsError + FileEntry list" where
  "remove_dir_next files path =
    try_bind (validate_path path) (\<lambda>_.
    try_bind (ok_or (position (has_name path) files) NotFound) (\<lambda>index.
      if kind (files ! index) \<noteq> Directory then Err NotDirectory
      else if permissions (files ! index) AND OWNER_WRITE = 0 then Err PermissionDenied
      else try_bind (try_each (no_child path) files) (\<lambda>_.
        materialize_missing_parent_directories (remove_index index files))))"

definition remove_dir :: "'d BlockDevice \<Rightarrow> 'd CodexFs \<Rightarrow> bytes \<Rightarrow> (FsError + unit) \<times> 'd CodexFs" where
  "remove_dir dev self path =
    st_bind (remove_dir_next (fs_files self) path, self) (\<lambda>next self. store_files dev self next)"

definition write_file_next :: "FileEntry list \<Rightarrow> bytes \<Rightarrow> bytes \<Rightarrow> u16 option \<Rightarrow> FsError + FileEntry list" where
  "write_file_next files path content perms =
    try_bind (validate_path path) (\<lambda>_.
    try_bind (ensure_parent_directory files path) (\<lambda>_.
    try_bind
      (case find_entry files path of
         Some existing \<Rightarrow>
           if kind existing \<noteq> File then Err IsDirectory
           else if permissions existing AND OWNER_WRITE = 0 then Err PermissionDenied
           else Ok (update_first (has_name path)
             (\<lambda>e. (case perms of Some p \<Rightarrow> e\<lparr>data := content, permissions := p\<rparr> | None \<Rightarrow> e\<lparr>data := content\<rparr>)) files)
       | None \<Rightarrow>
           if MAX_FILES \<le> length files then Err TooManyFiles
           else Ok (sort_entries (files @ [\<lparr>name = path, data = content, kind = File,
             permissions = (case perms of Some p \<Rightarrow> p | None \<Rightarrow> DEFAULT_FILE_PERMISSIONS)\<rparr>])))
      (\<lambda>next. materialize_missing_parent_directories next)))"

definition write_file_inner ::
  "'d BlockDevice \<Rightarrow> 'd CodexFs \<Rightarrow> bytes \<Rightarrow> bytes \<Rightarrow> u16 option \<Rightarrow> (FsError + unit) \<times> 'd CodexFs" where
  "write_file_inner dev self path content perms =
    st_bind (write_file_next (fs_files self) path content perms, self) (\<lambda>next self. store_files dev self next)"

definition write_file :: "'d BlockDevice \<Rightarrow> 'd CodexFs \<Rightarrow> bytes \<Rightarrow> bytes \<Rightarrow> (FsError + unit) \<times> 'd CodexFs" where
  "write_file dev self path content = write_file_inner dev self path content None"

definition write_file_with_permissions ::
  "'d BlockDevice \<Rightarrow> 'd CodexFs \<Rightarrow> bytes \<Rightarrow> bytes \<Rightarrow> u16 \<Rightarrow> (FsError + unit) \<times> 'd CodexFs" where
  "write_file_with_permissions dev self path content perms =
    st_bind (validate_permissions perms, self) (\<lambda>_ self. write_file_inner dev self path content (Some perms))"

definition verify_committed_state :: "'d BlockDevice \<Rightarrow> 'd CodexFs \<Rightarrow> (FsError + unit) \<times> 'd CodexFs" where
  "verify_committed_state dev self =
    (case load_latest_snapshot dev (fs_device self) of
       (Err e, d) \<Rightarrow> (Err e, self\<lparr>fs_device := d\<rparr>)
     | (Ok None, d) \<Rightarrow> (Err VerificationFailed, self\<lparr>fs_device := d\<rparr>)
     | (Ok (Some loaded), d) \<Rightarrow>
         if sb_generation (ls_superblock loaded) \<noteq> fs_generation self \<or> ls_files loaded \<noteq> fs_files self
         then (Err VerificationFailed, self\<lparr>fs_device := d\<rparr>)
         else (Ok (), self\<lparr>fs_device := d, fs_active_record_start := sb_record_start (ls_superblock loaded),
           fs_active_record_sectors := sb_record_sectors (ls_superblock loaded)\<rparr>))"

definition unmount :: "'d BlockDevice \<Rightarrow> 'd CodexFs \<Rightarrow> FsError + 'd" where
  "unmount dev self =
    (case flush dev (fs_device self) of (Err e, d) \<Rightarrow> Err (Block e) | (Ok _, d) \<Rightarrow> Ok d)"

end
