(* ===== verification/FsTree.thy ===== *)
theory FsTree
  imports FsOps
begin

text \<open>
  The file tree of \<^verbatim>\<open>kernel/src/fs.rs\<close> without the device: paths and their parents, the rules that
  a stored tree obeys (\<open>wf_tree\<close>), and what each update does to the map from paths to entries.
\<close>

section \<open>Paths\<close>

lemma split_slash_not_Nil [simp]: "split_slash p \<noteq> []"
  by (induction p) (auto split: list.splits)

lemma split_slash_append: "split_slash (a @ slash # b) = split_slash a @ split_slash b"
proof (induction a)
  case (Cons x a)
  then show ?case by (cases "split_slash a") (auto split: list.splits)
qed simp

lemma last_split_slash: "a \<noteq> [] \<Longrightarrow> last (split_slash a) \<noteq> [] \<Longrightarrow> last a \<noteq> slash"
proof (induction a)
  case (Cons x a)
  then show ?case by (cases a) (auto split: list.splits if_splits)
qed simp

lemma rfind_slash_None: "rfind_slash q = None \<longleftrightarrow> slash \<notin> set q"
  by (induction q) (auto split: option.splits)

lemma rfind_slash_Some:
  "rfind_slash p = Some i \<Longrightarrow> p = take i p @ slash # drop (Suc i) p \<and> slash \<notin> set (drop (Suc i) p)"
  by (induction p arbitrary: i) (auto split: option.splits if_splits simp: rfind_slash_None)

definition good_component :: "bytes \<Rightarrow> bool" where
  "good_component c \<longleftrightarrow> c \<noteq> [] \<and> c \<noteq> [0x2e] \<and> c \<noteq> [0x2e, 0x2e]"

definition good_byte :: "u8 \<Rightarrow> bool" where
  "good_byte b \<longleftrightarrow> \<not> (b = 0 \<or> b < 0x20)"

lemma validate_path_Ok:
  "validate_path p = Ok () \<longleftrightarrow> 2 \<le> length p \<and> length p \<le> 128 \<and> hd p = slash \<and> last p \<noteq> slash
    \<and> (\<forall>b\<in>set p. good_byte b) \<and> (\<forall>c\<in>set (drop 1 (split_slash p)). good_component c)"
  by (auto simp: validate_path_def list_ex_iff good_byte_def good_component_def not_less [where 'a = nat])

lemma validate_path_prefix:
  assumes "validate_path (a @ slash # b) = Ok ()" and "a \<noteq> []"
  shows "validate_path a = Ok ()"
proof -
  obtain c a' where a: "a = c # a'" using assms(2) by (cases a) auto
  have c: "c = slash" using assms(1) a by (simp add: validate_path_Ok)
  have comps: "\<forall>x\<in>set (split_slash a'). good_component x"
    using assms(1) a c by (simp add: validate_path_Ok split_slash_append)
  then have ne: "last (split_slash a') \<noteq> []" by (simp add: good_component_def)
  then have "a' \<noteq> []" by auto
  with ne have "last a' \<noteq> slash" by (intro last_split_slash)
  with assms(1) a c comps \<open>a' \<noteq> []\<close> show ?thesis
    by (cases a') (auto simp: validate_path_Ok)
qed

lemma parent_path_Ok:
  "parent_path p = Ok q \<longleftrightarrow> p \<noteq> root_path \<and> validate_path p = Ok () \<and>
    (\<exists>i. rfind_slash p = Some i \<and> q = (if i = 0 then root_path else take i p))"
  by (auto simp: parent_path_def split: option.splits if_splits)

lemma valid_not_root: "validate_path p = Ok () \<Longrightarrow> p \<noteq> root_path"
  by (auto simp: root_path_def validate_path_Ok)

lemma valid_parent_exists:
  assumes "validate_path p = Ok ()"
  obtains q where "parent_path p = Ok q"
proof -
  have "slash \<in> set p" using assms by (cases p) (auto simp: validate_path_Ok)
  then have "rfind_slash p \<noteq> None" by (simp add: rfind_slash_None)
  then obtain i where "rfind_slash p = Some i" by blast
  then show ?thesis using that assms valid_not_root [OF assms] by (simp add: parent_path_Ok)
qed

lemma parent_path_split:
  assumes "parent_path p = Ok q" and "q \<noteq> root_path"
  obtains leaf where "p = q @ slash # leaf" and "slash \<notin> set leaf" and "q \<noteq> []"
proof -
  obtain i where i: "rfind_slash p = Some i" "q = take i p" "i \<noteq> 0"
    using assms by (auto simp: parent_path_Ok split: if_splits)
  with rfind_slash_Some [OF i(1)] rfind_slash_less [OF i(1)] show ?thesis
    by (intro that [of "drop (Suc i) p"]) auto
qed

lemma parent_path_valid:
  assumes "parent_path p = Ok q" and "q \<noteq> root_path"
  shows "validate_path q = Ok ()"
proof -
  obtain leaf where "p = q @ slash # leaf" "q \<noteq> []" using assms by (rule parent_path_split)
  moreover have "validate_path p = Ok ()" using assms(1) by (simp add: parent_path_Ok)
  ultimately show ?thesis by (simp add: validate_path_prefix)
qed

text \<open>A well-formed string starts with a whole character, whose later bytes are not ASCII.\<close>

lemma continuation_not_slash: "continuation c \<Longrightarrow> c \<noteq> slash"
  by (auto simp: continuation_def slash_def)

declare valid_utf8.simps(2) [simp del]

definition utf8_head :: "bytes \<Rightarrow> bytes \<Rightarrow> bool" where
  "utf8_head h t \<longleftrightarrow> h \<noteq> [] \<and> slash \<notin> set (tl h) \<and> valid_utf8 t \<and> (\<forall>t'. valid_utf8 t' \<longrightarrow> valid_utf8 (h @ t'))"

lemma valid_utf8_step:
  "c < 0x80 \<Longrightarrow> valid_utf8 (c # w) = valid_utf8 w"
  "\<not> c < 0x80 \<Longrightarrow> 0xc2 \<le> c \<and> c \<le> 0xdf \<Longrightarrow>
    valid_utf8 (c # w) = (case w of c1 # r \<Rightarrow> continuation c1 \<and> valid_utf8 r | _ \<Rightarrow> False)"
  "\<not> c < 0x80 \<Longrightarrow> \<not> (0xc2 \<le> c \<and> c \<le> 0xdf) \<Longrightarrow> 0xe0 \<le> c \<and> c \<le> 0xef \<Longrightarrow>
    valid_utf8 (c # w) = (case w of c1 # c2 # r \<Rightarrow> continuation c1 \<and> continuation c2
       \<and> (c = 0xe0 \<longrightarrow> 0xa0 \<le> c1) \<and> (c = 0xed \<longrightarrow> c1 \<le> 0x9f) \<and> valid_utf8 r | _ \<Rightarrow> False)"
  "\<not> c < 0x80 \<Longrightarrow> \<not> (0xc2 \<le> c \<and> c \<le> 0xdf) \<Longrightarrow> \<not> (0xe0 \<le> c \<and> c \<le> 0xef) \<Longrightarrow> 0xf0 \<le> c \<and> c \<le> 0xf4 \<Longrightarrow>
    valid_utf8 (c # w) = (case w of c1 # c2 # c3 # r \<Rightarrow> continuation c1 \<and> continuation c2 \<and> continuation c3
       \<and> (c = 0xf0 \<longrightarrow> 0x90 \<le> c1) \<and> (c = 0xf4 \<longrightarrow> c1 \<le> 0x8f) \<and> valid_utf8 r | _ \<Rightarrow> False)"
  "\<not> c < 0x80 \<Longrightarrow> \<not> (0xc2 \<le> c \<and> c \<le> 0xdf) \<Longrightarrow> \<not> (0xe0 \<le> c \<and> c \<le> 0xef) \<Longrightarrow> \<not> (0xf0 \<le> c \<and> c \<le> 0xf4) \<Longrightarrow>
    valid_utf8 (c # w) = False"
  by (simp_all only: valid_utf8.simps(2) if_True if_False simp_thms)

lemma utf8_headI:
  "h \<noteq> [] \<Longrightarrow> \<forall>c\<in>set (tl h). continuation c \<Longrightarrow> valid_utf8 t \<Longrightarrow>
    (\<And>t'. valid_utf8 t' \<Longrightarrow> valid_utf8 (h @ t')) \<Longrightarrow> utf8_head h t"
  unfolding utf8_head_def using continuation_not_slash by blast

lemma valid_utf8_head:
  assumes "valid_utf8 (c # w)"
  obtains h t where "c # w = h @ t" and "utf8_head h t"
proof -
  consider (one) "c < 0x80"
    | (two) "\<not> c < 0x80" "0xc2 \<le> c \<and> c \<le> 0xdf"
    | (three) "\<not> c < 0x80" "\<not> (0xc2 \<le> c \<and> c \<le> 0xdf)" "0xe0 \<le> c \<and> c \<le> 0xef"
    | (four) "\<not> c < 0x80" "\<not> (0xc2 \<le> c \<and> c \<le> 0xdf)" "\<not> (0xe0 \<le> c \<and> c \<le> 0xef)" "0xf0 \<le> c \<and> c \<le> 0xf4"
    using assms valid_utf8_step(5) [of c w] by blast
  then show ?thesis
  proof cases
    case one
    with assms have "utf8_head [c] w"
      by (intro utf8_headI) (simp_all add: valid_utf8_step(1))
    then show ?thesis by (intro that [of "[c]" w]) simp_all
  next
    case two
    note step = valid_utf8_step(2) [OF two]
    from assms obtain c1 r where w: "w = c1 # r" "continuation c1" "valid_utf8 r"
      unfolding step by (cases w) simp_all
    then have "utf8_head [c, c1] r"
      by (intro utf8_headI) (simp_all add: step)
    with w show ?thesis by (intro that [of "[c, c1]" r]) simp_all
  next
    case three
    note step = valid_utf8_step(3) [OF three]
    from assms obtain c1 c2 r where w: "w = c1 # c2 # r" "continuation c1" "continuation c2" "valid_utf8 r"
      "c = 0xe0 \<longrightarrow> 0xa0 \<le> c1" "c = 0xed \<longrightarrow> c1 \<le> 0x9f"
      unfolding step by (cases w; cases "tl w") simp_all
    then have "utf8_head [c, c1, c2] r"
      by (intro utf8_headI) (simp_all add: step)
    with w show ?thesis by (intro that [of "[c, c1, c2]" r]) simp_all
  next
    case four
    note step = valid_utf8_step(4) [OF four]
    from assms obtain c1 c2 c3 r where w: "w = c1 # c2 # c3 # r" "continuation c1" "continuation c2"
      "continuation c3" "valid_utf8 r" "c = 0xf0 \<longrightarrow> 0x90 \<le> c1" "c = 0xf4 \<longrightarrow> c1 \<le> 0x8f"
      unfolding step by (cases w; cases "tl w"; cases "tl (tl w)") simp_all
    then have "utf8_head [c, c1, c2, c3] r"
      by (intro utf8_headI) (simp_all add: step)
    with w show ?thesis by (intro that [of "[c, c1, c2, c3]" r]) simp_all
  qed
qed

lemma valid_utf8_prefix: "valid_utf8 (a @ slash # b) \<Longrightarrow> valid_utf8 a"
proof (induction "length a" arbitrary: a rule: less_induct)
  case less
  show ?case
  proof (cases a)
    case (Cons c w)
    have "valid_utf8 (c # w @ slash # b)" using less.prems Cons by (simp only: append_Cons)
    then obtain h t where "c # w @ slash # b = h @ t" and head: "utf8_head h t" by (rule valid_utf8_head)
    then have ht: "a @ slash # b = h @ t" "utf8_head h t" using Cons by simp_all
    obtain us where "a = h @ us \<and> us @ slash # b = t \<or> a @ us = h \<and> slash # b = us @ t"
      using ht(1) unfolding append_eq_append_conv2 by blast
    then consider (inside) a' where "a = h @ a'" "t = a' @ slash # b" | (across) h' where "h = a @ slash # h'"
      by (cases us) (force, force)
    then show ?thesis
    proof cases
      case inside
      have t: "valid_utf8 t" and ext: "\<And>t'. valid_utf8 t' \<Longrightarrow> valid_utf8 (h @ t')" and "h \<noteq> []"
        using ht(2) unfolding utf8_head_def by blast+
      have "valid_utf8 a'" by (rule less.hyps) (use t inside \<open>h \<noteq> []\<close> in simp_all)
      then show ?thesis unfolding inside(1) by (rule ext)
    next
      case across
      then have "slash \<in> set (tl h)" using Cons by simp
      then show ?thesis using ht(2) unfolding utf8_head_def by blast
    qed
  qed simp
qed

lemma parent_path_utf8: "parent_path p = Ok q \<Longrightarrow> q \<noteq> root_path \<Longrightarrow> valid_utf8 p \<Longrightarrow> valid_utf8 q"
  by (erule parent_path_split) (auto dest: valid_utf8_prefix)

section \<open>Entry lists as maps\<close>

lemma find_entry_Nil [simp]: "find_entry [] p = None"
  by (simp add: find_entry_def)

lemma find_entry_Cons [simp]: "find_entry (e # es) p = (if name e = p then Some e else find_entry es p)"
  by (simp add: find_entry_def)

lemma find_entry_append: "find_entry (es @ es') p = (case find_entry es p of None \<Rightarrow> find_entry es' p | r \<Rightarrow> r)"
  by (induction es) auto

lemma find_entry_None: "find_entry es p = None \<longleftrightarrow> p \<notin> name ` set es"
  by (induction es) auto

lemma find_entry_SomeD: "find_entry es p = Some e \<Longrightarrow> e \<in> set es \<and> name e = p"
  by (induction es) (auto split: if_splits)

lemma find_entry_Some:
  "distinct (map name es) \<Longrightarrow> find_entry es p = Some e \<longleftrightarrow> e \<in> set es \<and> name e = p"
  by (induction es) (auto simp: image_iff)

lemma find_entry_cong_set:
  assumes "distinct (map name es)" and "distinct (map name es')" and "set es = set es'"
  shows "find_entry es = find_entry es'"
proof
  fix p
  show "find_entry es p = find_entry es' p"
    using assms find_entry_Some [OF assms(1), of p] find_entry_Some [OF assms(2), of p]
    by (cases "find_entry es p"; cases "find_entry es' p") auto
qed

lemma distinct_name_inj: "distinct (map name es) \<Longrightarrow> e \<in> set es \<Longrightarrow> e' \<in> set es \<Longrightarrow> name e = name e' \<Longrightarrow> e = e'"
  by (simp add: distinct_map inj_on_def)

lemma set_sort_entries [simp]: "set (sort_entries es) = set es"
  by (simp add: sort_entries_def)

lemma length_sort_entries [simp]: "length (sort_entries es) = length es"
  by (simp add: sort_entries_def)

lemma distinct_sort_entries [simp]: "distinct (map name (sort_entries es)) = distinct (map name es)"
  by (simp add: distinct_map sort_entries_def)

lemma find_entry_sort [simp]: "distinct (map name es) \<Longrightarrow> find_entry (sort_entries es) = find_entry es"
  by (rule find_entry_cong_set) simp_all

lemma sort_entries_sorted: "sorted (map name (sort_entries es))"
  by (simp add: sort_entries_def)

lemma sort_entries_id: "sorted (map name es) \<Longrightarrow> sort_entries es = es"
  by (simp add: sort_entries_def sort_key_id_if_sorted)

lemma find_entry_update_first:
  assumes "\<And>e. name (f e) = name e"
  shows "find_entry (update_first (has_name p) f es) = (find_entry es)(p := map_option f (find_entry es p))"
  by (induction es) (auto simp: fun_eq_iff has_name_def assms)

lemma map_name_update_first:
  assumes "\<And>e. name (f e) = name e"
  shows "map name (update_first P f es) = map name es"
  by (induction es) (auto simp: assms)

lemma position_find: "position (has_name p) es = Some i \<Longrightarrow> find_entry es p = Some (es ! i) \<and> i < length es"
  by (induction es arbitrary: i) (auto simp: has_name_def split: if_splits)

lemma position_find_None: "position (has_name p) es = None \<longleftrightarrow> find_entry es p = None"
  by (auto simp: position_None find_entry_None has_name_def)

lemma remove_index_props:
  assumes "position (has_name p) es = Some i" and d: "distinct (map name es)"
  shows "find_entry (remove_index i es) = (find_entry es)(p := None)" and "distinct (map name (remove_index i es))"
    and "set (remove_index i es) = {e \<in> set es. name e \<noteq> p}" and "length (remove_index i es) = length es - 1"
    and "sorted (map name es) \<Longrightarrow> sorted (map name (remove_index i es))"
proof -
  have split: "es = take i es @ es ! i # drop (Suc i) es" and n: "name (es ! i) = p" and "i < length es"
    using position_split [OF assms(1)] by (simp_all add: has_name_def)
  define a x b where "a = take i es" and "x = es ! i" and "b = drop (Suc i) es"
  have es: "es = a @ x # b" "name x = p" and r: "remove_index i es = a @ b"
    using split n by (simp_all add: a_def x_def b_def remove_index_def)
  have np: "p \<notin> name ` set a" "p \<notin> name ` set b" using d es by auto
  then have "find_entry a p = None" "find_entry b p = None" by (simp_all add: find_entry_None)
  then show "find_entry (remove_index i es) = (find_entry es)(p := None)"
    unfolding r using es(2) by (auto simp: fun_eq_iff es(1) find_entry_append split: option.splits)
  show "distinct (map name (remove_index i es))" using d unfolding r by (simp add: es)
  show "set (remove_index i es) = {e \<in> set es. name e \<noteq> p}"
    unfolding r using np es by (auto simp: image_iff)
  show "length (remove_index i es) = length es - 1" unfolding r by (simp add: es)
  show "sorted (map name (remove_index i es))" if "sorted (map name es)"
    using that unfolding r by (simp add: es sorted_append)
qed

section \<open>Missing parents\<close>

text \<open>A path with all its proper ancestors below the root.\<close>

function (sequential) lineage :: "bytes \<Rightarrow> bytes list" where
  "lineage p = (if p = root_path then [] else p # (case parent_path p of Ok q \<Rightarrow> lineage q | Err e \<Rightarrow> []))"
  by pat_completeness auto
termination
  by (relation "measure length") (auto dest: parent_path_shorter)

declare lineage.simps [simp del]

definition ancestors :: "bytes \<Rightarrow> bytes set" where
  "ancestors p = (case parent_path p of Ok q \<Rightarrow> set (lineage q) | Err e \<Rightarrow> {})"

lemma lineage_root [simp]: "lineage root_path = []"
  by (simp add: lineage.simps)

lemma lineage_set: "p \<noteq> root_path \<Longrightarrow> set (lineage p) = insert p (ancestors p)"
  by (subst lineage.simps) (simp add: ancestors_def split: sum.splits)

lemma lineage_valid:
  "validate_path p = Ok () \<or> p = root_path \<Longrightarrow> a \<in> set (lineage p) \<Longrightarrow> validate_path a = Ok ()"
proof (induction p rule: lineage.induct)
  case (1 p)
  show ?case
  proof (cases "p = root_path")
    case False
    then obtain q where q: "parent_path p = Ok q" using 1 valid_parent_exists by blast
    with 1 False parent_path_valid [OF q] show ?thesis
      by (auto simp: lineage.simps [of p])
  qed (use 1 in simp)
qed

lemma collect_parents_ok:
  assumes "validate_path p = Ok () \<or> p = root_path"
  shows "\<exists>r. collect_parents req p = Ok r \<and> set r = set req \<union> set (lineage p) \<and> (distinct req \<longrightarrow> distinct r)"
  using assms
proof (induction req p rule: collect_parents.induct)
  case (1 req p)
  show ?case
  proof (cases "p = root_path")
    case True
    then show ?thesis by (simp add: collect_parents.simps)
  next
    case False
    then obtain q where q: "parent_path p = Ok q" using 1 valid_parent_exists by blast
    define req' where "req' = (if list_ex (\<lambda>path. path = p) req then req else req @ [p])"
    have "set req' = insert p (set req)" "distinct req \<longrightarrow> distinct req'"
      by (auto simp: req'_def list_ex_iff)
    moreover obtain r where "collect_parents req' q = Ok r" "set r = set req' \<union> set (lineage q)"
      "distinct req' \<longrightarrow> distinct r"
      using "1.IH" [OF False req'_def q] parent_path_valid [OF q] by blast
    ultimately show ?thesis
      using q False by (auto simp: collect_parents.simps [of req p] lineage.simps [of p] req'_def [symmetric] Let_def)
  qed
qed

lemma required_parents_ok:
  assumes "\<forall>e\<in>set es. validate_path (name e) = Ok ()"
  shows "\<exists>r. required_parents req es = Ok r \<and> set r = set req \<union> (\<Union>e\<in>set es. ancestors (name e))
    \<and> (distinct req \<longrightarrow> distinct r)"
  using assms
proof (induction es arbitrary: req)
  case (Cons e es)
  from Cons.prems obtain q where q: "parent_path (name e) = Ok q" using valid_parent_exists by auto
  obtain r where "collect_parents req q = Ok r" "set r = set req \<union> ancestors (name e)" "distinct req \<longrightarrow> distinct r"
    using collect_parents_ok [of q req] parent_path_valid [OF q] q by (auto simp: ancestors_def)
  moreover obtain r' where "required_parents r es = Ok r'"
    "set r' = set r \<union> (\<Union>e\<in>set es. ancestors (name e))" "distinct r \<longrightarrow> distinct r'"
    using Cons.IH [of r] Cons.prems by auto
  ultimately show ?case using q by auto
qed simp

definition new_dir :: "bytes \<Rightarrow> FileEntry" where
  "new_dir p = \<lparr>name = p, data = [], kind = Directory, permissions = DEFAULT_DIRECTORY_PERMISSIONS\<rparr>"

lemma new_dir_sel [simp]: "name (new_dir p) = p" "kind (new_dir p) = Directory" "data (new_dir p) = []"
    "permissions (new_dir p) = 493"
  by (simp_all add: new_dir_def)

lemma add_required_Ok:
  assumes "add_required req es = Ok es'" and "distinct req"
  shows "es' = es @ map new_dir (filter (\<lambda>p. find_entry es p = None) req)"
    and "\<forall>p\<in>set req. \<forall>e. find_entry es p = Some e \<longrightarrow> kind e = Directory"
proof -
  have "es' = es @ map new_dir (filter (\<lambda>p. find_entry es p = None) req) \<and>
      (\<forall>p\<in>set req. \<forall>e. find_entry es p = Some e \<longrightarrow> kind e = Directory)"
    using assms
  proof (induction req arbitrary: es)
    case (Cons p req)
    show ?case
    proof (cases "find_entry es p")
      case None
      let ?es = "es @ [new_dir p]"
      have "add_required req ?es = Ok es'"
        using Cons.prems None by (simp add: new_dir_def split: if_splits)
      note IH = Cons.IH [OF this]
      have "find_entry ?es q = find_entry es q" if "q \<in> set req" for q
        using that Cons.prems(2) None by (auto simp: find_entry_append split: option.splits)
      with IH Cons.prems(2) None show ?thesis by (auto cong: filter_cong)
    next
      case (Some e)
      with Cons show ?thesis by (auto split: if_splits)
    qed
  qed simp
  then show "es' = es @ map new_dir (filter (\<lambda>p. find_entry es p = None) req)"
    and "\<forall>p\<in>set req. \<forall>e. find_entry es p = Some e \<longrightarrow> kind e = Directory" by blast+
qed

lemma add_required_none:
  assumes "\<forall>p\<in>set req. \<exists>e. find_entry es p = Some e \<and> kind e = Directory"
  shows "add_required req es = Ok es"
  using assms by (induction req) auto

text \<open>Every entry's parent is the root or a directory of the list.\<close>

definition parents_present :: "FileEntry list \<Rightarrow> bool" where
  "parents_present es \<longleftrightarrow> (\<forall>e\<in>set es. \<forall>q. parent_path (name e) = Ok q \<longrightarrow> q \<noteq> root_path \<longrightarrow>
    (\<exists>d. find_entry es q = Some d \<and> kind d = Directory))"

lemma ancestors_present:
  assumes "parents_present es" and "find_entry es p = Some e" and "validate_path p = Ok ()" and "a \<in> ancestors p"
  shows "\<exists>d. find_entry es a = Some d \<and> kind d = Directory"
  using assms(2-)
proof (induction p arbitrary: e rule: lineage.induct)
  case (1 p)
  then obtain q where q: "parent_path p = Ok q" using valid_parent_exists by blast
  with 1 have "q \<noteq> root_path" "a \<in> set (lineage q)" by (auto simp: ancestors_def)
  moreover obtain d where d: "find_entry es q = Some d" "kind d = Directory"
    using assms(1) 1 q \<open>q \<noteq> root_path\<close> unfolding parents_present_def by (metis find_entry_SomeD)
  ultimately show ?case
    using "1.IH" [OF valid_not_root q d(1)] 1 parent_path_valid [OF q] by (auto simp: lineage_set)
qed

lemma materialize_present:
  assumes "parents_present es" and "\<forall>e\<in>set es. validate_path (name e) = Ok ()" and "distinct (map name es)"
  shows "materialize_missing_parent_directories es = Ok (sort_entries es)"
proof -
  obtain r where r: "required_parents [] es = Ok r" "set r = (\<Union>e\<in>set es. ancestors (name e))"
    using required_parents_ok [OF assms(2), of "[]"] by auto
  have "\<exists>d. find_entry es a = Some d \<and> kind d = Directory" if "a \<in> set r" for a
  proof -
    from that r obtain e where "e \<in> set es" "a \<in> ancestors (name e)" by auto
    with assms show ?thesis by (intro ancestors_present [of es "name e" e]) (auto simp: find_entry_Some)
  qed
  then have "add_required (sort r) es = Ok es" by (intro add_required_none) auto
  with r show ?thesis by (simp add: materialize_missing_parent_directories_def)
qed

text \<open>
  The general case, which runs on trees loaded from version 1 records: exactly the missing
  ancestors are added, as directories, and nothing else changes.
\<close>

lemma materialize_Ok:
  assumes "materialize_missing_parent_directories es = Ok es'"
    and v: "\<forall>e\<in>set es. validate_path (name e) = Ok ()" and d: "distinct (map name es)"
  defines "missing \<equiv> (\<Union>e\<in>set es. ancestors (name e)) - name ` set es"
  shows "set es' = set es \<union> new_dir ` missing" and "distinct (map name es')" and "sorted (map name es')"
    and "\<forall>e\<in>set es. \<forall>a\<in>ancestors (name e). \<exists>x. find_entry es' a = Some x \<and> kind x = Directory"
    and "\<forall>p. p \<notin> missing \<longrightarrow> find_entry es' p = find_entry es p"
proof -
  obtain r where r: "required_parents [] es = Ok r" "set r = (\<Union>e\<in>set es. ancestors (name e))" "distinct r"
    using required_parents_ok [OF v, of "[]"] by auto
  define add where "add = map new_dir (filter (\<lambda>p. find_entry es p = None) (sort r))"
  have dirs: "\<forall>p\<in>set r. \<forall>e. find_entry es p = Some e \<longrightarrow> kind e = Directory"
    and es': "es' = sort_entries (es @ add)"
    using assms(1) r add_required_Ok [of "sort r" es] unfolding add_def
    by (auto simp: materialize_missing_parent_directories_def)
  have sadd: "set add = new_dir ` missing"
    unfolding add_def missing_def using r by (auto simp: find_entry_None)
  have nadd: "map name add = filter (\<lambda>p. find_entry es p = None) (sort r)"
    by (simp add: add_def comp_def)
  have dist: "distinct (map name (es @ add))"
    using d r nadd by (auto simp: find_entry_None)
  then show "distinct (map name es')" by (simp only: es' distinct_sort_entries)
  show "set es' = set es \<union> new_dir ` missing" by (simp add: es' sadd)
  show "sorted (map name es')" by (simp add: es' sort_entries_sorted)
  have find: "find_entry es' p = (case find_entry es p of None \<Rightarrow> find_entry add p | x \<Rightarrow> x)" for p
    using dist by (simp add: es' find_entry_append del: map_append)
  have fadd: "find_entry add p = (if p \<in> missing then Some (new_dir p) else None)" for p
    using find_entry_Some [of add p] dist sadd find_entry_None [of add p] by auto
  show "\<forall>p. p \<notin> missing \<longrightarrow> find_entry es' p = find_entry es p"
    by (simp add: find fadd split: option.splits)
  show "\<forall>e\<in>set es. \<forall>a\<in>ancestors (name e). \<exists>x. find_entry es' a = Some x \<and> kind x = Directory"
  proof (intro ballI)
    fix e a assume "e \<in> set es" "a \<in> ancestors (name e)"
    then have "a \<in> set r" using r by auto
    moreover have "a \<in> missing" if "find_entry es a = None"
      using that \<open>a \<in> set r\<close> r(2) by (simp add: missing_def find_entry_None)
    ultimately show "\<exists>x. find_entry es' a = Some x \<and> kind x = Directory"
      using dirs by (cases "find_entry es a") (simp_all add: find fadd)
  qed
qed

section \<open>Well-formed trees and the updates\<close>

definition wf_tree :: "FileEntry list \<Rightarrow> bool" where
  "wf_tree es \<longleftrightarrow> validate_tree es True = Ok () \<and> distinct (map name es) \<and> sorted (map name es)
    \<and> (\<forall>e\<in>set es. valid_utf8 (name e)) \<and> length es \<le> MAX_FILES"

lemma ensure_parent_Ok:
  "ensure_parent_directory es p = Ok () \<Longrightarrow> validate_path p = Ok () \<and>
    (\<forall>q. parent_path p = Ok q \<longrightarrow> q \<noteq> root_path \<longrightarrow> (\<exists>d. find_entry es q = Some d \<and> kind d = Directory))"
  by (auto simp: ensure_parent_directory_def parent_path_Ok split: if_splits option.splits)

lemma validate_tree_ensure:
  "validate_tree es True = Ok () \<Longrightarrow> e \<in> set es \<Longrightarrow> ensure_parent_directory es (name e) = Ok ()"
  by (auto simp: validate_tree_def try_each_Ok validate_entry_def split: if_splits)

lemma validate_tree_parents: "validate_tree es True = Ok () \<Longrightarrow> parents_present es"
  unfolding parents_present_def using validate_tree_ensure ensure_parent_Ok by blast

lemma wf_treeD:
  assumes "wf_tree es"
  shows "distinct (map name es)" and "sorted (map name es)" and "parents_present es"
    and "\<forall>e\<in>set es. validate_path (name e) = Ok ()" and "\<forall>e\<in>set es. valid_utf8 (name e)"
    and "validate_tree es True = Ok ()" and "length es \<le> MAX_FILES"
  using assms validate_tree_parents by (auto simp: wf_tree_def dest: validate_tree_paths)

text \<open>
  What an update hands to \<^verbatim>\<open>commit_files\<close>: a list with the names in order, no name twice, all
  well-formed, and the stated map.
\<close>

definition prepared :: "FileEntry list \<Rightarrow> (bytes \<Rightarrow> FileEntry option) \<Rightarrow> bool" where
  "prepared es m \<longleftrightarrow> distinct (map name es) \<and> sorted (map name es) \<and> (\<forall>e\<in>set es. valid_utf8 (name e))
    \<and> find_entry es = m"

lemma prepared_wf:
  "prepared es m \<Longrightarrow> encode_record g es = Ok r \<Longrightarrow> wf_tree es"
  unfolding encode_record_exact by (simp add: prepared_def wf_tree_def)

lemma prepared_materialize:
  assumes "materialize_missing_parent_directories next = Ok es" and "distinct (map name next)"
    and "parents_present next" and "\<forall>e\<in>set next. validate_path (name e) = Ok ()"
    and "\<forall>e\<in>set next. valid_utf8 (name e)"
  shows "prepared es (find_entry next)"
  using assms materialize_present [of "next"] by (auto simp: prepared_def sort_entries_sorted)

text \<open>Changing an entry without its name or kind keeps the parents.\<close>

lemma parents_present_update:
  assumes "parents_present es" and f: "\<And>e. name (f e) = name e" "\<And>e. kind (f e) = kind e"
  shows "parents_present (update_first (has_name p) f es)"
  unfolding parents_present_def
proof (intro ballI allI impI)
  fix e q assume e: "e \<in> set (update_first (has_name p) f es)" "parent_path (name e) = Ok q" "q \<noteq> root_path"
  have "name e \<in> set (map name (update_first (has_name p) f es))" using e(1) by auto
  then obtain e' where "e' \<in> set es" "name e' = name e"
    using map_name_update_first [of f "has_name p" es] f(1) by auto
  then obtain d where "find_entry es q = Some d" "kind d = Directory"
    using assms(1) e unfolding parents_present_def by metis
  then show "\<exists>d. find_entry (update_first (has_name p) f es) q = Some d \<and> kind d = Directory"
    using f by (auto simp: find_entry_update_first)
qed

lemma update_first_set:
  assumes "\<And>e. name (f e) = name e" and "e \<in> set (update_first P f es)"
  obtains e' where "e' \<in> set es" and "name e' = name e"
proof -
  have "name e \<in> set (map name (update_first P f es))" using assms(2) by auto
  then show ?thesis using that map_name_update_first [of f P es] assms(1) by auto
qed

lemma prepared_update:
  assumes wf: "wf_tree es" and f: "\<And>e. name (f e) = name e" "\<And>e. kind (f e) = kind e"
    and "materialize_missing_parent_directories (update_first (has_name p) f es) = Ok es'"
  shows "prepared es' ((find_entry es)(p := map_option f (find_entry es p)))"
proof -
  let ?n = "update_first (has_name p) f es"
  have "\<forall>e\<in>set ?n. validate_path (name e) = Ok () \<and> valid_utf8 (name e)"
  proof
    fix e assume "e \<in> set ?n"
    then obtain e' where "e' \<in> set es" "name e' = name e" by (rule update_first_set [OF f(1)])
    then show "validate_path (name e) = Ok () \<and> valid_utf8 (name e)"
      using wf_treeD(4,5) [OF wf] by metis
  qed
  then have "prepared es' (find_entry ?n)"
    using assms(4) wf_treeD [OF wf] f
    by (intro prepared_materialize) (simp_all add: map_name_update_first parents_present_update)
  then show ?thesis by (simp add: find_entry_update_first f)
qed

lemma parents_present_add:
  assumes "parents_present es" and "find_entry es (name x) = None"
    and "\<And>q. parent_path (name x) = Ok q \<Longrightarrow> q \<noteq> root_path \<Longrightarrow> \<exists>d. find_entry es q = Some d \<and> kind d = Directory"
  shows "parents_present (es @ [x])"
  using assms unfolding parents_present_def by (fastforce simp: find_entry_append)

lemma prepared_add:
  assumes wf: "wf_tree es" and new: "find_entry es (name x) = None" and x: "valid_utf8 (name x)"
    and ens: "ensure_parent_directory es (name x) = Ok ()"
    and m: "materialize_missing_parent_directories (sort_entries (es @ [x])) = Ok es'"
  shows "prepared es' ((find_entry es)(name x \<mapsto> x))"
proof -
  have d: "distinct (map name (es @ [x]))"
    using wf_treeD(1) [OF wf] new by (simp add: find_entry_None)
  have "parents_present (es @ [x])"
    using wf_treeD(3) [OF wf] new ensure_parent_Ok [OF ens] by (intro parents_present_add) auto
  then have "parents_present (sort_entries (es @ [x]))"
    using d unfolding parents_present_def by simp
  then have "prepared es' (find_entry (sort_entries (es @ [x])))"
    using m d wf_treeD(4,5) [OF wf] x ensure_parent_Ok [OF ens]
    by (intro prepared_materialize) auto
  moreover have "find_entry (es @ [x]) = (find_entry es)(name x \<mapsto> x)"
    using new by (auto simp: fun_eq_iff find_entry_append split: option.splits)
  ultimately show ?thesis using d by simp
qed

definition written :: "FileEntry option \<Rightarrow> bytes \<Rightarrow> bytes \<Rightarrow> u16 option \<Rightarrow> FileEntry" where
  "written old path content perms =
    (case old of
       Some e \<Rightarrow> e\<lparr>data := content, permissions := (case perms of Some p \<Rightarrow> p | None \<Rightarrow> permissions e)\<rparr>
     | None \<Rightarrow> \<lparr>name = path, data = content, kind = File,
         permissions = (case perms of Some p \<Rightarrow> p | None \<Rightarrow> DEFAULT_FILE_PERMISSIONS)\<rparr>)"

lemma write_file_next_prepared:
  assumes wf: "wf_tree es" and u: "valid_utf8 path" and ok: "write_file_next es path content perms = Ok es'"
  shows "prepared es' ((find_entry es)(path \<mapsto> written (find_entry es path) path content perms))"
    and "\<forall>e. find_entry es path = Some e \<longrightarrow> kind e = File \<and> permissions e AND OWNER_WRITE \<noteq> 0"
proof -
  let ?f = "\<lambda>e. (case perms of Some p \<Rightarrow> e\<lparr>data := content, permissions := p\<rparr> | None \<Rightarrow> e\<lparr>data := content\<rparr>)"
  have f: "name (?f e) = name e" "kind (?f e) = kind e" for e by (simp_all split: option.splits)
  have ens: "ensure_parent_directory es path = Ok ()" using ok by (auto simp: write_file_next_def)
  show "prepared es' ((find_entry es)(path \<mapsto> written (find_entry es path) path content perms))"
  proof (cases "find_entry es path")
    case None
    let ?x = "\<lparr>name = path, data = content, kind = File,
      permissions = (case perms of Some p \<Rightarrow> p | None \<Rightarrow> DEFAULT_FILE_PERMISSIONS)\<rparr>"
    have "materialize_missing_parent_directories (sort_entries (es @ [?x])) = Ok es'"
      using ok None by (auto simp: write_file_next_def split: if_splits)
    then have "prepared es' ((find_entry es)(name ?x \<mapsto> ?x))"
      using None u ens by (intro prepared_add [OF wf]) simp_all
    then show ?thesis using None by (simp add: written_def)
  next
    case (Some e)
    have "materialize_missing_parent_directories (update_first (has_name path) ?f es) = Ok es'"
      using ok Some by (auto simp: write_file_next_def split: if_splits)
    then have "prepared es' ((find_entry es)(path := map_option ?f (find_entry es path)))"
      using f by (intro prepared_update [OF wf]) simp_all
    moreover have "?f e = written (Some e) path content perms" by (auto simp: written_def split: option.splits)
    ultimately show ?thesis using Some by simp
  qed
  show "\<forall>e. find_entry es path = Some e \<longrightarrow> kind e = File \<and> permissions e AND OWNER_WRITE \<noteq> 0"
    using ok by (auto simp: write_file_next_def split: if_splits)
qed

definition made_dir :: "FileEntry option \<Rightarrow> bytes \<Rightarrow> u16 \<Rightarrow> FileEntry" where
  "made_dir old path perms =
    (case old of Some e \<Rightarrow> e\<lparr>permissions := perms\<rparr>
     | None \<Rightarrow> \<lparr>name = path, data = [], kind = Directory, permissions = perms\<rparr>)"

lemma create_dir_next_prepared:
  assumes wf: "wf_tree es" and u: "valid_utf8 path" and ok: "create_dir_next es path perms = Ok es'"
  shows "prepared es' ((find_entry es)(path \<mapsto> made_dir (find_entry es path) path perms))"
proof (cases "find_entry es path")
  case None
  let ?x = "\<lparr>name = path, data = [], kind = Directory, permissions = perms\<rparr>"
  have "prepared es' ((find_entry es)(name ?x \<mapsto> ?x))"
    using None ok u
    by (intro prepared_add [OF wf]) (auto simp: create_dir_next_def insert_directory_def split: if_splits)
  then show ?thesis using None by (simp add: made_dir_def)
next
  case (Some e)
  have "prepared es' ((find_entry es)(path := map_option (\<lambda>e. e\<lparr>permissions := perms\<rparr>) (find_entry es path)))"
    using Some ok
    by (intro prepared_update [OF wf]) (auto simp: create_dir_next_def insert_directory_def split: if_splits)
  then show ?thesis using Some by (simp add: made_dir_def)
qed

lemma set_permissions_next_prepared:
  assumes wf: "wf_tree es" and ok: "set_permissions_next es path perms = Ok es'"
  obtains e where "find_entry es path = Some e" and "prepared es' ((find_entry es)(path \<mapsto> e\<lparr>permissions := perms\<rparr>))"
proof -
  obtain e where e: "find_entry es path = Some e" using ok by (auto simp: set_permissions_next_def)
  have "prepared es' ((find_entry es)(path := map_option (\<lambda>e. e\<lparr>permissions := perms\<rparr>) (find_entry es path)))"
    using ok by (intro prepared_update [OF wf]) (auto simp: set_permissions_next_def)
  with e that show ?thesis by simp
qed

lemma prepared_remove:
  assumes wf: "wf_tree es" and i: "position (has_name path) es = Some i"
    and leaf: "\<And>e. e \<in> set es \<Longrightarrow> name e \<noteq> path \<Longrightarrow> parent_path (name e) \<noteq> Ok path"
    and m: "materialize_missing_parent_directories (remove_index i es) = Ok es'"
  shows "prepared es' ((find_entry es)(path := None))"
proof -
  note r = remove_index_props [OF i wf_treeD(1) [OF wf]]
  have "parents_present (remove_index i es)"
    using wf_treeD(3) [OF wf] leaf unfolding parents_present_def r(1,3) by auto
  then have "prepared es' (find_entry (remove_index i es))"
    using m r wf_treeD(4,5) [OF wf] by (intro prepared_materialize) auto
  then show ?thesis by (simp add: r)
qed

lemma remove_file_next_prepared:
  assumes wf: "wf_tree es" and ok: "remove_file_next es path = Ok es'"
  obtains e where "find_entry es path = Some e" and "kind e = File" and "permissions e AND OWNER_WRITE \<noteq> 0"
    and "prepared es' ((find_entry es)(path := None))"
proof -
  obtain i where i: "position (has_name path) es = Some i" and k: "kind (es ! i) = File"
    and w: "permissions (es ! i) AND OWNER_WRITE \<noteq> 0"
    and m: "materialize_missing_parent_directories (remove_index i es) = Ok es'"
    using ok by (auto simp: remove_file_next_def split: if_splits)
  have f: "find_entry es path = Some (es ! i)" using position_find [OF i] by simp
  have "parent_path (name e) \<noteq> Ok path" if "e \<in> set es" for e
  proof
    assume p: "parent_path (name e) = Ok path"
    then have "path \<noteq> root_path" using ok by (auto simp: remove_file_next_def dest: valid_not_root)
    with p that wf_treeD(3) [OF wf] f k show False by (auto simp: parents_present_def)
  qed
  then have "prepared es' ((find_entry es)(path := None))" by (intro prepared_remove [OF wf i _ m])
  with f k w that show ?thesis by blast
qed

lemma remove_dir_next_prepared:
  assumes wf: "wf_tree es" and ok: "remove_dir_next es path = Ok es'"
  obtains e where "find_entry es path = Some e" and "kind e = Directory" and "permissions e AND OWNER_WRITE \<noteq> 0"
    and "\<forall>x\<in>set es. parent_path (name x) \<noteq> Ok path"
    and "prepared es' ((find_entry es)(path := None))"
proof -
  obtain i where i: "position (has_name path) es = Some i" and k: "kind (es ! i) = Directory"
    and w: "permissions (es ! i) AND OWNER_WRITE \<noteq> 0" and e: "try_each (no_child path) es = Ok ()"
    and m: "materialize_missing_parent_directories (remove_index i es) = Ok es'"
    using ok by (auto simp: remove_dir_next_def split: if_splits)
  have leaf: "\<forall>x\<in>set es. parent_path (name x) \<noteq> Ok path"
    using e by (auto simp: try_each_Ok no_child_def split: if_splits)
  then have "prepared es' ((find_entry es)(path := None))" by (intro prepared_remove [OF wf i _ m]) blast
  with position_find [OF i] k w leaf that show ?thesis by blast
qed

subsection \<open>Creating a whole path\<close>

fun join_path :: "bytes list \<Rightarrow> bytes" where
  "join_path [] = []"
| "join_path (c # cs) = slash # c @ join_path cs"

fun prefixes :: "bytes \<Rightarrow> bytes list \<Rightarrow> bytes list" where
  "prefixes cur [] = []"
| "prefixes cur (c # cs) = (cur @ slash # c) # prefixes (cur @ slash # c) cs"

lemma split_slash_free: "c \<in> set (split_slash p) \<Longrightarrow> slash \<notin> set c"
  by (induction p arbitrary: c) (fastforce split: if_splits list.splits)+

lemma join_split_slash: "join_path (split_slash p) = slash # p"
  by (induction p) (auto split: list.splits)

lemma join_components: "validate_path p = Ok () \<Longrightarrow> join_path (drop 1 (split_slash p)) = p"
  using join_split_slash by (cases p) (auto simp: validate_path_Ok)

lemma parent_of_child:
  assumes "validate_path (cur @ slash # c) = Ok ()" and "slash \<notin> set c"
  shows "parent_path (cur @ slash # c) = Ok (if cur = [] then root_path else cur)"
proof -
  have "rfind_slash (cur @ slash # c) = Some (length cur)"
    using assms(2) by (induction cur) (auto simp: rfind_slash_None [THEN iffD2])
  then show ?thesis using assms(1) valid_not_root [OF assms(1)] by (simp add: parent_path_Ok)
qed

lemma validate_path_step:
  assumes "validate_path (cur @ join_path (c # cs)) = Ok ()"
  shows "validate_path (cur @ slash # c) = Ok ()"
  using assms validate_path_prefix [of "cur @ slash # c"] by (cases cs) simp_all

lemma lineage_prefixes:
  assumes "validate_path (cur @ join_path cs) = Ok ()" and "\<forall>c\<in>set cs. slash \<notin> set c"
  shows "set (lineage (cur @ join_path cs)) = set (prefixes cur cs) \<union> (if cur = [] then {} else set (lineage cur))"
  using assms
proof (induction cs arbitrary: cur)
  case Nil
  then show ?case by (auto simp: validate_path_Ok)
next
  case (Cons c cs)
  let ?cur = "cur @ slash # c"
  have v: "validate_path ?cur = Ok ()" using Cons.prems by (intro validate_path_step)
  have "lineage ?cur = ?cur # (if cur = [] then [] else lineage cur)"
    using parent_of_child [OF v] Cons.prems valid_not_root [OF v] by (subst lineage.simps) simp
  with Cons.IH [of ?cur] Cons.prems show ?case by (auto split: if_splits)
qed

definition closed_tree :: "FileEntry list \<Rightarrow> bool" where
  "closed_tree es \<longleftrightarrow> distinct (map name es) \<and> parents_present es
    \<and> (\<forall>e\<in>set es. validate_path (name e) = Ok () \<and> valid_utf8 (name e))"

lemma wf_closed: "wf_tree es \<Longrightarrow> closed_tree es"
  using wf_treeD by (simp add: closed_tree_def)

lemma insert_directory_closed:
  assumes "closed_tree es" and new: "find_entry es p = None" and u: "valid_utf8 p"
    and ok: "insert_directory es p perms = Ok es'"
  shows "closed_tree es'" and "find_entry es' = (find_entry es)(p \<mapsto> made_dir None p perms)"
proof -
  let ?x = "made_dir None p perms"
  have es': "es' = sort_entries (es @ [?x])" and ens: "ensure_parent_directory es p = Ok ()"
    using ok new by (auto simp: insert_directory_def made_dir_def split: if_splits)
  have d: "distinct (map name (es @ [?x]))"
    using assms(1) new by (simp add: find_entry_None closed_tree_def made_dir_def)
  have pp: "parents_present (es @ [?x])"
    using assms(1) new ensure_parent_Ok [OF ens]
    by (intro parents_present_add) (auto simp: closed_tree_def made_dir_def)
  have find: "find_entry es' = find_entry (es @ [?x])" using d by (simp add: es')
  then show "find_entry es' = (find_entry es)(p \<mapsto> ?x)"
    using new by (auto simp: fun_eq_iff find_entry_append made_dir_def split: option.splits)
  show "closed_tree es'"
    using d pp assms(1) u ensure_parent_Ok [OF ens]
    unfolding closed_tree_def parents_present_def find
    by (simp add: es' made_dir_def)
qed

definition added_dirs :: "(bytes \<Rightarrow> FileEntry option) \<Rightarrow> bytes set \<Rightarrow> bytes \<Rightarrow> u16 \<Rightarrow> bytes \<Rightarrow> FileEntry option" where
  "added_dirs m ps path perms q =
    (case m q of Some e \<Rightarrow> Some e
     | None \<Rightarrow> if q \<in> ps then Some (made_dir None q (if q = path then perms else DEFAULT_DIRECTORY_PERMISSIONS)) else None)"

lemma prefixes_utf8:
  assumes "valid_utf8 (cur @ join_path (c # cs))"
  shows "valid_utf8 (cur @ slash # c)"
  using assms valid_utf8_prefix [of "cur @ slash # c"] by (cases cs) simp_all

lemma create_components_closed:
  assumes "closed_tree es" and "valid_utf8 (cur @ join_path cs)"
    and "create_components path perms cs cur es = Ok es'"
  shows "closed_tree es' \<and> find_entry es' = added_dirs (find_entry es) (set (prefixes cur cs)) path perms
    \<and> (\<forall>p\<in>set (prefixes cur cs). \<forall>e. find_entry es p = Some e \<longrightarrow> kind e = Directory)"
  using assms
proof (induction cs arbitrary: cur es)
  case Nil
  then show ?case by (auto simp: added_dirs_def fun_eq_iff split: option.splits)
next
  case (Cons c cs)
  let ?cur = "cur @ slash # c"
  show ?case
  proof (cases "find_entry es ?cur")
    case None
    then obtain es1 where es1: "insert_directory es ?cur
          (if ?cur = path then perms else DEFAULT_DIRECTORY_PERMISSIONS) = Ok es1"
        "create_components path perms cs ?cur es1 = Ok es'"
      using Cons.prems by (auto simp: Let_def)
    note i = insert_directory_closed [OF Cons.prems(1) None prefixes_utf8 [OF Cons.prems(2)] es1(1)]
    have "kind (made_dir None q r) = Directory" for q r by (simp add: made_dir_def)
    with Cons.IH [OF i(1) _ es1(2)] Cons.prems(2) None i(2) show ?thesis
      by (auto simp: added_dirs_def fun_eq_iff split: option.splits if_splits)
  next
    case (Some e)
    then have "create_components path perms cs ?cur es = Ok es'" "kind e = Directory"
      using Cons.prems by (auto simp: Let_def split: if_splits)
    with Cons.IH [OF Cons.prems(1) _ this(1)] Cons.prems(2) Some show ?thesis
      by (auto simp: added_dirs_def fun_eq_iff split: option.splits)
  qed
qed

lemma create_dir_all_next_prepared:
  assumes wf: "wf_tree es" and u: "valid_utf8 path" and ok: "create_dir_all_next es path perms = Ok es'"
  shows "prepared es' (added_dirs (find_entry es) (set (lineage path)) path perms)"
    and "\<forall>p\<in>set (lineage path). \<forall>e. find_entry es p = Some e \<longrightarrow> kind e = Directory"
proof -
  define cs where "cs = drop 1 (split_slash path)"
  obtain n where v: "validate_path path = Ok ()" and n: "create_components path perms cs [] es = Ok n"
    and m: "materialize_missing_parent_directories n = Ok es'"
    using ok by (auto simp: create_dir_all_next_def cs_def)
  have j: "join_path cs = path" unfolding cs_def using v by (rule join_components)
  have lin: "set (lineage path) = set (prefixes [] cs)"
    using lineage_prefixes [of "[]" cs] v j split_slash_free by (auto simp: cs_def dest!: in_set_dropD)
  have c: "closed_tree n" "find_entry n = added_dirs (find_entry es) (set (lineage path)) path perms"
    and "\<forall>p\<in>set (lineage path). \<forall>e. find_entry es p = Some e \<longrightarrow> kind e = Directory"
    using create_components_closed [OF wf_closed [OF wf] _ n] u j by (simp_all add: lin)
  then show "\<forall>p\<in>set (lineage path). \<forall>e. find_entry es p = Some e \<longrightarrow> kind e = Directory" by blast
  have "prepared es' (find_entry n)"
    using m c(1) by (intro prepared_materialize) (simp_all add: closed_tree_def)
  then show "prepared es' (added_dirs (find_entry es) (set (lineage path)) path perms)" by (simp add: c(2))
qed

end
