(* ===== verification/FsSnapshot.thy ===== *)
theory FsSnapshot
  imports FsTree
begin

text \<open>
  Snapshots on a device: what \<^verbatim>\<open>load_latest_snapshot\<close> reads from the content of the sectors, and
  what \<^verbatim>\<open>commit_files\<close> of \<^verbatim>\<open>kernel/src/fs.rs\<close> leaves there on success, on a device error and on a
  power cut, for every device that satisfies the contract.
\<close>

section \<open>Snapshots as a function of the content\<close>

definition record_at :: "(nat \<Rightarrow> bytes) \<Rightarrow> nat \<Rightarrow> nat \<Rightarrow> bytes" where
  "record_at c start n = concat (map (\<lambda>i. c (start + i)) [0..<n])"

definition content_record :: "(nat \<Rightarrow> bytes) \<Rightarrow> Superblock \<Rightarrow> FsError + FileEntry list" where
  "content_record c sb =
    (let record = record_at c (sb_record_start sb) (sb_record_sectors sb) in
     if crc32 record \<noteq> sb_record_crc sb then Err CorruptRecord
     else decode_record record (sb_generation sb))"

definition candidate :: "(nat \<Rightarrow> bytes) \<Rightarrow> nat \<Rightarrow> nat \<Rightarrow> LoadedSnapshot option" where
  "candidate c cap s =
    (case decode_superblock (c s) cap of
       Err e \<Rightarrow> None
     | Ok sb \<Rightarrow> (case content_record c sb of
         Err e \<Rightarrow> None | Ok files \<Rightarrow> Some \<lparr>ls_superblock = sb, ls_files = files\<rparr>))"

definition newer :: "LoadedSnapshot option \<Rightarrow> LoadedSnapshot option \<Rightarrow> LoadedSnapshot option" where
  "newer a b =
    (case a of None \<Rightarrow> b
     | Some x \<Rightarrow> (case b of None \<Rightarrow> a
         | Some y \<Rightarrow> if sb_generation (ls_superblock x) < sb_generation (ls_superblock y) then b else a))"

definition load_content :: "(nat \<Rightarrow> bytes) \<Rightarrow> nat \<Rightarrow> FsError + LoadedSnapshot option" where
  "load_content c cap =
    (let best = newer (candidate c cap 0) (candidate c cap 1) in
     if best = None \<and> (list_ex (\<lambda>b. b \<noteq> 0) (c 0) \<or> list_ex (\<lambda>b. b \<noteq> 0) (c 1))
     then Err CorruptSuperblocks else Ok best)"

definition kept :: "'d BlockDevice \<Rightarrow> ('d \<Rightarrow> bool) \<Rightarrow> ('d \<Rightarrow> nat \<Rightarrow> bytes) \<Rightarrow> ('d \<Rightarrow> (nat \<Rightarrow> bytes) set) \<Rightarrow> 'd \<Rightarrow> 'd \<Rightarrow> bool" where
  "kept dev ok content images d d' \<longleftrightarrow>
    ok d' \<and> content d' = content d \<and> images d' = images d \<and> sector_count dev d' = sector_count dev d"

lemma kept_trans: "kept dev ok content images d d1 \<Longrightarrow> kept dev ok content images d1 d2 \<Longrightarrow> kept dev ok content images d d2"
  by (simp add: kept_def)

lemma copy_next_sector:
  assumes "length s = 512" and "k < n"
  shows "copy_from_slice (record_at c st k @ replicate ((n - k) * 512) 0) (length (record_at c st k)) s =
    (record_at c st k @ s) @ replicate ((n - Suc k) * 512) 0"
proof -
  have "n - k = Suc (n - Suc k)" using assms(2) by (rule Suc_diff_Suc [symmetric])
  then have "(n - k) * 512 = 512 + (n - Suc k) * 512" by (simp only: mult_Suc)
  then show ?thesis using assms(1) by (simp add: buf_simps)
qed

lemma length_record_at:
  "(\<And>i. i < n \<Longrightarrow> length (c (start + i)) = 512) \<Longrightarrow> length (record_at c start n) = n * 512"
  by (induction n) (simp_all add: record_at_def)

context durable_block_device
begin

lemma read_sectors_content:
  assumes "ok d" and "k \<le> n" and "start + n \<le> sector_count dev d"
    and "sb_record_start sb = start"
  shows "\<exists>d'. read_sectors dev sb [k..<n] (record_at (content d) start k @ replicate ((n - k) * 512) 0) d =
      (Ok (record_at (content d) start n), d') \<and> kept dev ok content images d d'"
  using assms
proof (induction "n - k" arbitrary: k d)
  case 0
  then show ?case by (auto simp: kept_def)
next
  case (Suc m)
  then have kn: "k < n" and up: "[k..<n] = k # [Suc k..<n]" by (auto simp: upt_conv_Cons)
  have m: "m = n - Suc k" using Suc.hyps(2) by linarith
  obtain r d1 where rd: "read_sector dev d (start + k) = (r, d1)" by fastforce
  have r: "r = Ok (content d (start + k))" and d1: "kept dev ok content images d d1"
    using read_inside [OF Suc.prems(1) _ rd] read_images [OF Suc.prems(1) rd] kn Suc.prems(3)
    by (auto simp: kept_def)
  have len: "length (record_at (content d) start k) = k * 512" "length (content d (start + k)) = 512"
    using content_length [OF Suc.prems(1)] kn Suc.prems(3) by (auto intro!: length_record_at)
  have "record_at (content d) start (Suc k) = record_at (content d) start k @ content d (start + k)"
    by (simp add: record_at_def)
  then have cp: "copy_from_slice (record_at (content d) start k @ replicate ((n - k) * 512) 0) (k * 512) (content d (start + k))
      = record_at (content d1) start (Suc k) @ replicate ((n - Suc k) * 512) 0"
    using copy_next_sector [OF len(2) kn, of "content d" start] len(1) d1 by (simp add: kept_def)
  obtain d' where "read_sectors dev sb [Suc k..<n] (record_at (content d1) start (Suc k) @ replicate ((n - Suc k) * 512) 0) d1 =
      (Ok (record_at (content d1) start n), d')" "kept dev ok content images d1 d'"
    using Suc.hyps(1) [OF m, of d1] Suc.prems d1 kn by (auto simp: kept_def)
  then show ?case
    using cp rd r d1 Suc.prems(4) by (auto simp: up kept_def)
qed

lemma read_record_content:
  assumes "ok d" and "sb_record_start sb + sb_record_sectors sb \<le> sector_count dev d"
    and "sb_record_bytes sb = sb_record_sectors sb * 512"
  shows "\<exists>d'. read_record dev d sb = (content_record (content d) sb, d') \<and> kept dev ok content images d d'"
proof -
  obtain d' where "read_sectors dev sb [0..<sb_record_sectors sb] (replicate (sb_record_bytes sb) 0) d =
      (Ok (record_at (content d) (sb_record_start sb) (sb_record_sectors sb)), d')"
    "kept dev ok content images d d'"
    using read_sectors_content [OF assms(1), of 0 "sb_record_sectors sb" "sb_record_start sb" sb] assms(2,3)
    by (auto simp: record_at_def)
  then show ?thesis
    by (auto simp: read_record_def content_record_def Let_def)
qed

lemma choose_candidate:
  assumes "ok d" and "decode_superblock (content d s) (sector_count dev d) = Ok sb"
  shows "\<exists>d'. choose_best dev (sb # sbs) best d =
      choose_best dev sbs (newer best (candidate (content d) (sector_count dev d) s)) d'
    \<and> kept dev ok content images d d'"
proof -
  obtain d' where d': "read_record dev d sb = (content_record (content d) sb, d')" "kept dev ok content images d d'"
    using read_record_content [OF assms(1)] decode_superblock_fields [OF assms(2)] by auto
  then show ?thesis using assms(2)
    by (cases "content_record (content d) sb") (auto simp: candidate_def newer_def split: option.splits)
qed

lemma load_latest_content:
  assumes "ok d" and "2 \<le> sector_count dev d"
  shows "\<exists>d'. load_latest_snapshot dev d = (load_content (content d) (sector_count dev d), d')
    \<and> kept dev ok content images d d'"
proof -
  let ?c = "content d" and ?cap = "sector_count dev d"
  obtain r0 d0 where rd0: "read_sector dev d 0 = (r0, d0)" by fastforce
  obtain r1 d1 where rd1: "read_sector dev d0 1 = (r1, d1)" by fastforce
  have k0: "r0 = Ok (?c 0)" "kept dev ok content images d d0"
    using read_inside [OF assms(1) _ rd0] read_images [OF assms(1) rd0] assms(2) by (auto simp: kept_def)
  then have k1: "r1 = Ok (?c 1)" "kept dev ok content images d d1"
    using read_inside [OF _ _ rd1] read_images [OF _ rd1] assms(2) by (auto simp: kept_def)
  define dec where "dec s = (case decode_superblock (?c s) ?cap of Ok sb \<Rightarrow> Some sb | Err e \<Rightarrow> None)" for s
  have "read_candidates dev [0, 1] [] False d = (Ok ([dec 0, dec 1],
      list_ex (\<lambda>b. b \<noteq> 0) (?c 0) \<or> list_ex (\<lambda>b. b \<noteq> 0) (?c 1)), d1)"
    using rd0 rd1 k0 k1 by (simp add: dec_def kept_def)
  moreover have "\<exists>d'. choose_best dev (List.map_filter id [dec 0, dec 1]) None d1 =
      (newer (candidate ?c ?cap 0) (candidate ?c ?cap 1), d') \<and> kept dev ok content images d d'"
  proof -
    have none: "candidate ?c ?cap s = None" if "dec s = None" for s
      using that by (simp add: dec_def candidate_def split: sum.splits)
    have some: "decode_superblock (?c s) ?cap = Ok sb" if "dec s = Some sb" for s sb
      using that by (simp add: dec_def split: sum.splits)
    have step: "\<exists>d'. choose_best dev (sb # sbs) best d2 = choose_best dev sbs (newer best (candidate ?c ?cap s)) d'
        \<and> kept dev ok content images d d'" if "dec s = Some sb" "kept dev ok content images d d2" for s sb sbs best d2
      using choose_candidate [of d2 s sb sbs best] some [OF that(1)] that(2) by (auto simp: kept_def)
    have n: "newer None b = b" "newer a None = a" for a b by (simp_all add: newer_def split: option.splits)
    have sel: "\<exists>d'. choose_best dev (case dec s of None \<Rightarrow> sbs | Some sb \<Rightarrow> sb # sbs) best d2 =
        choose_best dev sbs (newer best (candidate ?c ?cap s)) d' \<and> kept dev ok content images d d'"
      if "kept dev ok content images d d2" for s sbs best d2
      using step [OF _ that] none [of s] that by (cases "dec s") (auto simp: n simp del: choose_best.simps(2))
    have mf: "List.map_filter id [dec 0, dec 1] =
        (case dec 0 of None \<Rightarrow> (case dec 1 of None \<Rightarrow> [] | Some sb \<Rightarrow> [sb])
         | Some sb0 \<Rightarrow> sb0 # (case dec 1 of None \<Rightarrow> [] | Some sb \<Rightarrow> [sb]))"
      by (simp add: List.map_filter_def split: option.splits)
    obtain d2 where d2: "choose_best dev (List.map_filter id [dec 0, dec 1]) None d1 =
        choose_best dev (case dec 1 of None \<Rightarrow> [] | Some sb \<Rightarrow> [sb]) (candidate ?c ?cap 0) d2"
      "kept dev ok content images d d2"
      using sel [OF k1(2), where s = 0 and sbs = "case dec 1 of None \<Rightarrow> [] | Some sb \<Rightarrow> [sb]" and best = None]
      unfolding mf n by blast
    from sel [OF this(2), where s = 1 and sbs = "[]"] show ?thesis unfolding d2(1) by simp
  qed
  ultimately show ?thesis
    by (auto simp: load_latest_snapshot_def load_content_def Let_def)
qed

end

section \<open>Committed snapshots\<close>

definition super_slot :: "nat \<Rightarrow> nat" where
  "super_slot g = (if even g then SUPERBLOCK_A_SECTOR else SUPERBLOCK_B_SECTOR)"

text \<open>
  The content holds generation \<open>g\<close> with the files \<open>files\<close>: its superblock and record are valid and the
  other superblock, if it is valid at all, is older.
\<close>

definition committed :: "(nat \<Rightarrow> bytes) \<Rightarrow> nat \<Rightarrow> nat \<Rightarrow> nat \<Rightarrow> nat \<Rightarrow> FileEntry list \<Rightarrow> bool" where
  "committed c cap g start n files \<longleftrightarrow>
    (\<exists>sb. decode_superblock (c (super_slot g)) cap = Ok sb \<and> sb_generation sb = g
      \<and> sb_record_start sb = start \<and> sb_record_sectors sb = n \<and> content_record c sb = Ok files)
    \<and> (\<forall>sb. decode_superblock (c (super_slot (Suc g))) cap = Ok sb \<longrightarrow> sb_generation sb < g)"

lemma super_slot_cases: "super_slot g = 0 \<and> super_slot (Suc g) = 1 \<or> super_slot g = 1 \<and> super_slot (Suc g) = 0"
  by (simp add: super_slot_def)

lemma super_slot_Suc_Suc [simp]: "super_slot (Suc (Suc g)) = super_slot g"
  by (simp add: super_slot_def)

lemma committed_load:
  assumes "committed c cap g start n files"
  obtains s where "load_content c cap = Ok (Some s)" and "ls_files s = files"
    and "sb_generation (ls_superblock s) = g" and "sb_record_start (ls_superblock s) = start"
    and "sb_record_sectors (ls_superblock s) = n"
proof -
  obtain sb where sb: "decode_superblock (c (super_slot g)) cap = Ok sb" "sb_generation sb = g"
    "sb_record_start sb = start" "sb_record_sectors sb = n" "content_record c sb = Ok files"
    using assms by (auto simp: committed_def)
  let ?s = "\<lparr>ls_superblock = sb, ls_files = files\<rparr>"
  have cand: "candidate c cap (super_slot g) = Some ?s" using sb by (simp add: candidate_def)
  have other: "sb_generation (ls_superblock x) < g" if x: "candidate c cap (super_slot (Suc g)) = Some x" for x
  proof -
    obtain sb' where "decode_superblock (c (super_slot (Suc g))) cap = Ok sb'" "ls_superblock x = sb'"
      using x by (auto simp: candidate_def split: sum.splits)
    then show ?thesis using assms by (simp add: committed_def)
  qed
  have "newer (candidate c cap 0) (candidate c cap 1) = Some ?s"
  proof (cases "candidate c cap (super_slot (Suc g))")
    case None
    then show ?thesis using super_slot_cases [of g] cand by (elim disjE) (simp_all add: newer_def)
  next
    case (Some x)
    have "sb_generation (ls_superblock x) < sb_generation sb" using other [OF Some] sb(2) by simp
    with Some show ?thesis using super_slot_cases [of g] cand by (elim disjE) (simp_all add: newer_def)
  qed
  then have "load_content c cap = Ok (Some ?s)" by (simp add: load_content_def)
  with sb that show ?thesis by simp
qed

definition same_outside :: "nat set \<Rightarrow> (nat \<Rightarrow> bytes) \<Rightarrow> (nat \<Rightarrow> bytes) \<Rightarrow> bool" where
  "same_outside S c c' \<longleftrightarrow> (\<forall>s. s \<notin> S \<longrightarrow> c s = c' s)"

lemma committed_frame:
  assumes "committed c0 cap g start n files" and "same_outside {st..<st + m} c c0"
    and "8 \<le> st" and "{st..<st + m} \<inter> {start..<start + n} = {}"
  shows "committed c cap g start n files"
proof -
  have low: "c s = c0 s" if "s < 8" for s using assms(2,3) that by (simp add: same_outside_def)
  have "c (start + i) = c0 (start + i)" if "i < n" for i
  proof -
    have "start + i \<in> {start..<start + n}" using that by simp
    with assms(4) have "start + i \<notin> {st..<st + m}" by blast
    with assms(2) show ?thesis unfolding same_outside_def by blast
  qed
  then have "record_at c start n = record_at c0 start n"
    unfolding record_at_def by (intro arg_cong [of _ _ concat] map_cong) auto
  then have rec: "content_record c sb = content_record c0 sb" if "sb_record_start sb = start" "sb_record_sectors sb = n" for sb
    using that by (simp add: content_record_def)
  have "super_slot k < 8" for k by (simp add: super_slot_def)
  then have "c (super_slot k) = c0 (super_slot k)" for k by (rule low)
  with rec assms(1) show ?thesis unfolding committed_def by auto
qed

definition patched :: "(nat \<Rightarrow> bytes) \<Rightarrow> nat \<Rightarrow> bytes \<Rightarrow> nat list \<Rightarrow> nat \<Rightarrow> bytes" where
  "patched c start record ks s =
    (if start \<le> s \<and> s - start \<in> set ks
     then slice record ((s - start) * SECTOR_SIZE) ((s - start) * SECTOR_SIZE + SECTOR_SIZE) else c s)"

lemma record_at_patched:
  assumes "length record = n * 512"
  shows "record_at (patched c start record [0..<n]) start n = record"
proof -
  have "concat (map (\<lambda>i. slice record (i * 512) (i * 512 + 512)) [0..<k]) = slice record 0 (k * 512)" for k
  proof (induction k)
    case (Suc k)
    then show ?case using slice_join [of 0 "k * 512" "k * 512 + 512" "record"] by (simp add: add.commute)
  qed simp
  then have join: "concat (map (\<lambda>i. slice record (i * 512) (i * 512 + 512)) [0..<n]) = record"
    using slice_full [of "record"] by (simp only: assms)
  have "map (\<lambda>i. patched c start record [0..<n] (start + i)) [0..<n] =
      map (\<lambda>i. slice record (i * 512) (i * 512 + 512)) [0..<n]"
    by (simp add: patched_def)
  then show ?thesis unfolding record_at_def by (simp only: join)
qed

lemma record_at_cong: "(\<And>i. i < n \<Longrightarrow> c (start + i) = c' (start + i)) \<Longrightarrow> record_at c start n = record_at c' start n"
  unfolding record_at_def by (intro arg_cong [of _ _ concat] map_cong) auto

text \<open>The content after the record and its superblock have been written.\<close>

definition new_content :: "(nat \<Rightarrow> bytes) \<Rightarrow> nat \<Rightarrow> nat \<Rightarrow> nat \<Rightarrow> nat \<Rightarrow> bytes \<Rightarrow> nat \<Rightarrow> bytes" where
  "new_content c cap g start n record =
    (patched c start record [0..<n])(super_slot g := encode_superblock
      \<lparr>sb_generation = g, sb_record_start = start, sb_record_sectors = n, sb_record_bytes = length record,
       sb_record_crc = crc32 record, sb_capacity_sectors = cap\<rparr>)"

lemma new_content_committed:
  assumes "decode_record record g = Ok files" and "length record = n * 512" and "0 < n" and "n \<le> 8192"
    and "8 \<le> start" and "start + n \<le> cap" and "cap \<le> U64_MAX" and "0 < g" and "g \<le> U64_MAX"
    and older: "\<forall>sb. decode_superblock (c (super_slot (Suc g))) cap = Ok sb \<longrightarrow> sb_generation sb < g"
  shows "committed (new_content c cap g start n record) cap g start n files"
proof -
  let ?c = "new_content c cap g start n record"
  let ?sb = "\<lparr>sb_generation = g, sb_record_start = start, sb_record_sectors = n, sb_record_bytes = length record,
       sb_record_crc = crc32 record, sb_capacity_sectors = cap\<rparr>"
  have "valid_superblock ?sb cap" using assms by (simp add: valid_superblock_def)
  then have "decode_superblock (?c (super_slot g)) cap = Ok ?sb"
    by (simp add: new_content_def decode_encode_superblock)
  moreover have "record_at ?c start n = record_at (patched c start record [0..<n]) start n"
    using assms(5) by (intro record_at_cong) (auto simp: new_content_def super_slot_def)
  then have "content_record ?c ?sb = Ok files"
    using assms(1,2) by (simp add: content_record_def record_at_patched Let_def)
  moreover have "?c (super_slot (Suc g)) = c (super_slot (Suc g))"
    using assms(5) super_slot_cases [of g] by (auto simp: new_content_def patched_def)
  ultimately show ?thesis using older by (auto simp: committed_def)
qed

context durable_block_device
begin

lemma write_sectors_law:
  assumes "ok d" and "length record = n * 512" and "set ks \<subseteq> {..<n}"
    and "write_sectors dev start record ks d = (r, d')"
  shows "ok d' \<and> sector_count dev d' = sector_count dev d
    \<and> (\<forall>c\<in>images d'. \<exists>c0\<in>images d. same_outside {start..<start + n} c c0)
    \<and> (r = Ok () \<longrightarrow> content d' = patched (content d) start record ks)"
  using assms
proof (induction ks arbitrary: d)
  case Nil
  then show ?case by (auto simp: patched_def fun_eq_iff same_outside_def)
next
  case (Cons k ks)
  define b where "b = slice record (k * 512) (k * 512 + 512)"
  have kn: "k < n" using Cons.prems(3) by simp
  then have "k * 512 + 512 \<le> n * 512" by (metis Suc_leI add.commute mult_Suc mult_le_mono1)
  then have len: "length b = SECTOR_SIZE" using Cons.prems(2) by (simp add: b_def)
  obtain w d1 where wr: "write_sector dev d (start + k) b = (w, d1)" by fastforce
  note law = write_law [OF Cons.prems(1) len wr]
  have im: "\<exists>c0\<in>images d. same_outside {start..<start + n} c c0" if "c \<in> images d1" for c
    using write_images [OF Cons.prems(1) len wr that] kn by (auto simp: same_outside_def)
  show ?case
  proof (cases w)
    case (Inl e)
    then show ?thesis using Cons.prems(4) wr law im by (auto simp: b_def Let_def)
  next
    case (Inr u)
    then have run: "write_sectors dev start record ks d1 = (r, d')"
      using Cons.prems(4) wr by (simp add: b_def Let_def)
    have IH: "ok d'" "sector_count dev d' = sector_count dev d1"
      "\<forall>c\<in>images d'. \<exists>c0\<in>images d1. same_outside {start..<start + n} c c0"
      "r = Ok () \<longrightarrow> content d' = patched (content d1) start record ks"
      using Cons.IH [OF _ Cons.prems(2) _ run] law Cons.prems(3) by auto
    have "content d1 = (content d)(start + k := b)" using law Inr by simp
    then have "patched (content d1) start record ks = patched (content d) start record (k # ks)"
      by (auto simp: patched_def fun_eq_iff b_def)
    then show ?thesis using IH law im by (auto simp: same_outside_def)
  qed
qed

lemma write_snapshot_law:
  assumes ok: "ok d" and len: "length record = n * 512"
    and run: "write_snapshot dev g start n record d = (r, d')"
  defines "cn \<equiv> new_content (content d) (sector_count dev d) g start n record"
  shows "ok d' \<and> sector_count dev d' = sector_count dev d
    \<and> (\<forall>c\<in>images d'. c = cn \<or> (\<exists>c0\<in>images d. same_outside {start..<start + n} c c0))
    \<and> (r = Ok () \<longrightarrow> images d' = {cn} \<and> content d' = cn)"
proof -
  obtain r1 d1 where w1: "write_sectors dev start record [0..<n] d = (r1, d1)" by fastforce
  have sub: "set [0..<n] \<subseteq> {..<n}" by auto
  have l1: "ok d1" "sector_count dev d1 = sector_count dev d"
    "\<forall>c\<in>images d1. \<exists>c0\<in>images d. same_outside {start..<start + n} c c0"
    "r1 = Ok () \<longrightarrow> content d1 = patched (content d) start record [0..<n]"
    using write_sectors_law [OF ok len sub w1] by auto
  obtain r2 d2 where f1: "flush dev d1 = (r2, d2)" by fastforce
  note l2 = flush_law [OF l1(1) f1] flush_images [OF l1(1) f1]
  let ?b = "encode_superblock \<lparr>sb_generation = g, sb_record_start = start, sb_record_sectors = n,
    sb_record_bytes = length record, sb_record_crc = crc32 record, sb_capacity_sectors = sector_count dev d\<rparr>"
  have bl: "length ?b = SECTOR_SIZE" by (simp add: encode_superblock_layout)
  obtain r3 d3 where w2: "write_sector dev d2 (super_slot g) ?b = (r3, d3)" by fastforce
  have l3: "ok d3" "sector_count dev d3 = sector_count dev d2"
    "r3 = Ok () \<Longrightarrow> content d3 = (content d2)(super_slot g := ?b)"
    using write_law [OF _ bl w2] l2 by auto
  obtain r4 d4 where f2: "flush dev d3 = (r4, d4)" by fastforce
  note l4 = flush_law [OF l3(1) f2] flush_images [OF l3(1) f2]
  have sc: "sector_count dev d2 = sector_count dev d" using l1(2) l2(1) by simp
  have "write_snapshot dev g start n record d = (case r1 of Err e \<Rightarrow> (Err e, d1) | Ok _ \<Rightarrow>
      (case r2 of Err e \<Rightarrow> (Err (Block e), d2) | Ok _ \<Rightarrow>
        (case r3 of Err e \<Rightarrow> (Err (Block e), d3) | Ok _ \<Rightarrow>
          (case r4 of Err e \<Rightarrow> (Err (Block e), d4) | Ok u \<Rightarrow> (Ok u, d4)))))"
    unfolding write_snapshot_def w1 Let_def super_slot_def [symmetric]
    by (cases r1; cases r2; cases r3; cases r4) (simp_all add: f1 f2 w2 sc)
  then have "(case r1 of Err e \<Rightarrow> (Err e, d1) | Ok _ \<Rightarrow>
      (case r2 of Err e \<Rightarrow> (Err (Block e), d2) | Ok _ \<Rightarrow>
        (case r3 of Err e \<Rightarrow> (Err (Block e), d3) | Ok _ \<Rightarrow>
          (case r4 of Err e \<Rightarrow> (Err (Block e), d4) | Ok u \<Rightarrow> (Ok u, d4))))) = (r, d')"
    using run by simp
  then consider (a) "d' = d1" "r \<noteq> Ok ()"
    | (b) "r1 = Ok ()" "d' = d2" "r \<noteq> Ok ()"
    | (c) "r1 = Ok ()" "r2 = Ok ()" "d' = d3" "r \<noteq> Ok ()"
    | (d) "r1 = Ok ()" "r2 = Ok ()" "r3 = Ok ()" "d' = d4" "r = Ok () \<longrightarrow> r4 = Ok ()"
    by (cases r1; cases r2; cases r3; cases r4) auto
  then show ?thesis
  proof cases
    case a
    show ?thesis unfolding a(1) using a(2) l1(1-3) by blast
  next
    case b
    have "ok d2" "images d2 \<subseteq> images d1" using l2 by simp_all
    then show ?thesis unfolding b(2) using b(3) l1(3) sc by blast
  next
    case c
    then have im2: "images d2 = {content d2}" using flush_durable [OF l1(1)] f1 by simp
    have c2: "content d2 = patched (content d) start record [0..<n]" using c l1 l2 by simp
    have "c = cn \<or> c = content d2" if "c \<in> images d3" for c
      using write_images [OF _ bl w2 that] l2(1) im2 c2 by (auto simp: cn_def new_content_def)
    moreover have "\<exists>c0\<in>images d. same_outside {start..<start + n} (content d2) c0"
      using content_image [OF l1(1)] l1(3) l2(1) by simp
    ultimately have "\<forall>c\<in>images d3. c = cn \<or> (\<exists>c0\<in>images d. same_outside {start..<start + n} c c0)"
      by blast
    moreover have "ok d3" "sector_count dev d3 = sector_count dev d" using l3 sc by simp_all
    ultimately show ?thesis unfolding c(3) using c(4) by blast
  next
    case d
    then have im2: "images d2 = {content d2}" using flush_durable [OF l1(1)] f1 by simp
    have c2: "content d2 = patched (content d) start record [0..<n]" using d l1 l2 by simp
    have c4: "content d4 = cn" using d l3 l4 c2 by (simp add: cn_def new_content_def)
    have "c = cn \<or> c = content d2" if "c \<in> images d4" for c
    proof -
      have "c \<in> images d3" using that l4(2) by blast
      then show ?thesis
        using write_images [OF _ bl w2] l2(1) im2 c2 by (auto simp: cn_def new_content_def)
    qed
    moreover have "\<exists>c0\<in>images d. same_outside {start..<start + n} (content d2) c0"
      using content_image [OF l1(1)] l1(3) l2(1) by simp
    ultimately have im: "\<forall>c\<in>images d4. c = cn \<or> (\<exists>c0\<in>images d. same_outside {start..<start + n} c c0)"
      by blast
    have "r = Ok () \<longrightarrow> images d4 = {cn}"
      using d flush_durable [OF l3(1)] f2 c4 by auto
    moreover have "ok d4" "sector_count dev d4 = sector_count dev d" using l3 l4(1) sc by simp_all
    ultimately show ?thesis unfolding d(4) using im c4 by blast
  qed
qed

end

end
