(* ===== verification/FsCommit.thy ===== *)
theory FsCommit
  imports FsSnapshot
begin

text \<open>
  The commit protocol of \<^verbatim>\<open>kernel/src/fs.rs\<close> as a whole: the choice of a record slot, the state a
  commit leaves on every path, mounting, and sequences of updates with a power cut anywhere in them.
\<close>

section \<open>Choosing a slot\<close>

lemma ranges_overlap_Ok:
  "ranges_overlap a m b n = Ok o' \<Longrightarrow> o' = (a < b + n \<and> b < a + m)"
  by (auto simp: ranges_overlap_def)

lemma select_attempts_Ok:
  assumes "select_attempts fs cap g n ks = Ok start" and "0 < n"
  shows "8 \<le> start \<and> start + n \<le> cap \<and>
    {start..<start + n} \<inter> {fs_active_record_start fs..<fs_active_record_start fs + fs_active_record_sectors fs} = {}"
  using assms(1)
proof (induction ks)
  case (Cons k ks)
  then show ?case using assms(2)
    by (fastforce simp: Let_def dest: ranges_overlap_Ok split: if_splits)
qed simp

lemma select_record_start_Ok:
  assumes "select_record_start dev fs g n = Ok start" and "0 < n"
  shows "8 \<le> start" and "start + n \<le> sector_count dev (fs_device fs)"
    and "{start..<start + n} \<inter> {fs_active_record_start fs..<fs_active_record_start fs + fs_active_record_sectors fs} = {}"
  using select_attempts_Ok assms unfolding select_record_start_def by blast+

section \<open>The invariant of a mounted file system\<close>

text \<open>Every image of the medium holds the current generation with the files in memory.\<close>

definition consistent ::
  "'d BlockDevice \<Rightarrow> ('d \<Rightarrow> bool) \<Rightarrow> ('d \<Rightarrow> (nat \<Rightarrow> bytes) set) \<Rightarrow> 'd CodexFs \<Rightarrow> bool" where
  "consistent dev ok images fs \<longleftrightarrow> ok (fs_device fs)
    \<and> record_slot_span (sector_count dev (fs_device fs)) = Ok (fs_record_slot_sectors fs)
    \<and> record_slot_count (sector_count dev (fs_device fs)) (fs_record_slot_sectors fs) = Ok (fs_record_slots fs)
    \<and> (\<forall>c\<in>images (fs_device fs). committed c (sector_count dev (fs_device fs)) (fs_generation fs)
        (fs_active_record_start fs) (fs_active_record_sectors fs) (fs_files fs))"

lemma record_slot_span_Ok:
  "record_slot_span cap = Ok span \<Longrightarrow> 64 \<le> span \<and> span \<le> 8192 \<and> 8 + 2 * span \<le> cap"
  by (auto simp: record_slot_span_def Let_def min_def split: if_splits)

text \<open>What a commit that is cut short may leave: the old snapshot or the whole new one.\<close>

definition old_or_new ::
  "(nat \<Rightarrow> bytes) set \<Rightarrow> nat \<Rightarrow> 'd CodexFs \<Rightarrow> FileEntry list \<Rightarrow> bool" where
  "old_or_new cs cap fs next \<longleftrightarrow> (\<forall>c\<in>cs.
    committed c cap (fs_generation fs) (fs_active_record_start fs) (fs_active_record_sectors fs) (fs_files fs)
    \<or> (\<exists>start n. committed c cap (Suc (fs_generation fs)) start n next))"

lemma commit_files_cases:
  assumes "commit_files dev fs next = (r, fs')"
  obtains (refused) e where "r = Err e" and "fs' = fs"
  | (run) start n d' w where "encode_record (Suc (fs_generation fs)) next = Ok (record_layout (Suc (fs_generation fs)) next)"
      and "Suc (fs_generation fs) \<le> U64_MAX" and "record_size next = n * 512" and "0 < n" and "n \<le> 8192"
      and "select_record_start dev fs (Suc (fs_generation fs)) n = Ok start"
      and "write_snapshot dev (Suc (fs_generation fs)) start n (record_layout (Suc (fs_generation fs)) next) (fs_device fs) = (w, d')"
      and "r = w"
      and "fs' = (if w = Ok () then fs\<lparr>fs_device := d', fs_generation := Suc (fs_generation fs),
             fs_active_record_start := start, fs_active_record_sectors := n\<rparr> else fs\<lparr>fs_device := d'\<rparr>)"
proof (cases "\<exists>e. r = Err e \<and> fs' = fs")
  case True
  then show ?thesis using refused by blast
next
  case False
  let ?g = "Suc (fs_generation fs)" and ?rec = "record_layout (Suc (fs_generation fs)) next"
  let ?n = "record_size next div 512"
  from False assms obtain start where g: "?g \<le> U64_MAX"
    and e: "encode_record ?g next = Ok ?rec" and n0: "?n \<noteq> 0"
    and sel: "select_record_start dev fs ?g ?n = Ok start"
    and wr: "(r, fs') = (case write_snapshot dev ?g start ?n ?rec (fs_device fs) of
           (Err e, d) \<Rightarrow> (Err e, fs\<lparr>fs_device := d\<rparr>)
         | (Ok _, d) \<Rightarrow> (Ok (), fs\<lparr>fs_device := d, fs_generation := ?g,
             fs_active_record_start := start, fs_active_record_sectors := ?n\<rparr>))"
    unfolding commit_files_def
    by (auto simp: Let_def encode_record_exact split: sum.splits if_splits prod.splits)
  obtain w d' where w: "write_snapshot dev ?g start ?n ?rec (fs_device fs) = (w, d')" by fastforce
  have "record_size next = ?n * 512" using record_size_sectors [of "next"] by (simp add: dvd_eq_mod_eq_0)
  moreover have "?n \<le> 8192" using e div_le_mono [of "record_size next" 4194304 512] unfolding encode_record_exact by simp
  ultimately show ?thesis
    using run [OF e g _ _ _ sel w] n0 wr w by (cases w) auto
qed

definition named_ok :: "FileEntry list \<Rightarrow> bool" where
  "named_ok es \<longleftrightarrow> distinct (map name es) \<and> (\<forall>e\<in>set es. valid_utf8 (name e))"

lemma committed_not_newer:
  "committed c cap g start n files \<Longrightarrow>
    decode_superblock (c (super_slot (Suc (Suc g)))) cap = Ok sb \<Longrightarrow> sb_generation sb < Suc g"
  by (auto simp: committed_def)

context durable_block_device
begin

lemma snapshot_written:
  assumes ok: "ok (fs_device fs)" and nm: "named_ok next"
    and enc: "encode_record (Suc (fs_generation fs)) next = Ok (record_layout (Suc (fs_generation fs)) next)"
    and g: "Suc (fs_generation fs) \<le> U64_MAX" and n: "record_size next = n * 512" "0 < n" "n \<le> 8192"
    and sel: "select_record_start dev fs (Suc (fs_generation fs)) n = Ok start"
    and older: "\<forall>sb. decode_superblock (content (fs_device fs) (super_slot (fs_generation fs)))
        (sector_count dev (fs_device fs)) = Ok sb \<longrightarrow> sb_generation sb < Suc (fs_generation fs)"
  shows "committed (new_content (content (fs_device fs)) (sector_count dev (fs_device fs)) (Suc (fs_generation fs))
      start n (record_layout (Suc (fs_generation fs)) next)) (sector_count dev (fs_device fs))
    (Suc (fs_generation fs)) start n next"
proof (rule new_content_committed)
  show "decode_record (record_layout (Suc (fs_generation fs)) next) (Suc (fs_generation fs)) = Ok next"
    using enc nm g unfolding encode_record_exact by (intro decode_record_layout) (auto simp: named_ok_def)
qed (use select_record_start_Ok [OF sel n(2)] n g older sector_count_bound [OF ok] in auto)

lemma commit_files_law:
  assumes inv: "consistent dev ok images fs" and nm: "named_ok next"
    and run: "commit_files dev fs next = (r, fs')"
  shows "r = Ok () \<Longrightarrow> consistent dev ok images (fs'\<lparr>fs_files := next\<rparr>) \<and> fs_files fs' = fs_files fs
      \<and> fs_generation fs' = Suc (fs_generation fs) \<and> (\<exists>rec. encode_record (Suc (fs_generation fs)) next = Ok rec)"
    and "r \<noteq> Ok () \<Longrightarrow> fs' = fs\<lparr>fs_device := fs_device fs'\<rparr> \<and> ok (fs_device fs')
      \<and> sector_count dev (fs_device fs') = sector_count dev (fs_device fs)
      \<and> old_or_new (images (fs_device fs')) (sector_count dev (fs_device fs)) fs next"
proof -
  let ?cap = "sector_count dev (fs_device fs)"
  have ok: "ok (fs_device fs)" and old: "c \<in> images (fs_device fs) \<Longrightarrow> committed c ?cap (fs_generation fs)
      (fs_active_record_start fs) (fs_active_record_sectors fs) (fs_files fs)" for c
    using inv by (simp_all add: consistent_def)
  have older: "\<forall>sb. decode_superblock (content (fs_device fs) (super_slot (fs_generation fs))) ?cap = Ok sb
      \<longrightarrow> sb_generation sb < Suc (fs_generation fs)"
    using committed_not_newer [OF old [OF content_image [OF ok]]] by simp
  from run have "(r = Ok () \<longrightarrow> consistent dev ok images (fs'\<lparr>fs_files := next\<rparr>) \<and> fs_files fs' = fs_files fs
      \<and> fs_generation fs' = Suc (fs_generation fs) \<and> (\<exists>rec. encode_record (Suc (fs_generation fs)) next = Ok rec))
    \<and> (r \<noteq> Ok () \<longrightarrow> fs' = fs\<lparr>fs_device := fs_device fs'\<rparr> \<and> ok (fs_device fs')
      \<and> sector_count dev (fs_device fs') = ?cap \<and> old_or_new (images (fs_device fs')) ?cap fs next)"
  proof (cases rule: commit_files_cases)
    case (refused e)
    then show ?thesis using ok old by (simp add: old_or_new_def)
  next
    case (run start n d' w)
    let ?cn = "new_content (content (fs_device fs)) ?cap (Suc (fs_generation fs)) start n
      (record_layout (Suc (fs_generation fs)) next)"
    have new: "committed ?cn ?cap (Suc (fs_generation fs)) start n next"
      by (rule snapshot_written [OF ok nm run(1-6) older])
    have law: "ok d'" "sector_count dev d' = ?cap"
      "\<forall>c\<in>images d'. c = ?cn \<or> (\<exists>c0\<in>images (fs_device fs). same_outside {start..<start + n} c c0)"
      "w = Ok () \<longrightarrow> images d' = {?cn} \<and> content d' = ?cn"
      using write_snapshot_law [OF ok _ run(7)] run(3) by auto
    have frame: "committed c ?cap (fs_generation fs) (fs_active_record_start fs) (fs_active_record_sectors fs) (fs_files fs)"
      if "c0 \<in> images (fs_device fs)" "same_outside {start..<start + n} c c0" for c c0
      using old [OF that(1)] that(2) select_record_start_Ok(1,3) [OF run(6,4)] by (rule committed_frame)
    have "old_or_new (images d') ?cap fs next"
      unfolding old_or_new_def
    proof
      fix c assume "c \<in> images d'"
      with law(3) have "c = ?cn \<or> (\<exists>c0\<in>images (fs_device fs). same_outside {start..<start + n} c c0)" by blast
      then show "committed c ?cap (fs_generation fs) (fs_active_record_start fs) (fs_active_record_sectors fs) (fs_files fs)
          \<or> (\<exists>start n. committed c ?cap (Suc (fs_generation fs)) start n next)"
        using new frame by (elim disjE bexE) (hypsubst, blast, blast)
    qed
    moreover have "consistent dev ok images (fs'\<lparr>fs_files := next\<rparr>)" if "w = Ok ()"
      using that law new inv run(9) by (simp add: consistent_def)
    ultimately show ?thesis using law run by (cases w) auto
  qed
  then show "r = Ok () \<Longrightarrow> consistent dev ok images (fs'\<lparr>fs_files := next\<rparr>) \<and> fs_files fs' = fs_files fs
      \<and> fs_generation fs' = Suc (fs_generation fs) \<and> (\<exists>rec. encode_record (Suc (fs_generation fs)) next = Ok rec)"
    and "r \<noteq> Ok () \<Longrightarrow> fs' = fs\<lparr>fs_device := fs_device fs'\<rparr> \<and> ok (fs_device fs')
      \<and> sector_count dev (fs_device fs') = ?cap \<and> old_or_new (images (fs_device fs')) ?cap fs next" by simp_all
qed

end

section \<open>Updates\<close>

datatype FsOp =
    WriteFile bytes bytes
  | WriteFileWithPermissions bytes bytes u16
  | CreateDir bytes u16
  | CreateDirAll bytes u16
  | SetPermissions bytes u16
  | RemoveFile bytes
  | RemoveDir bytes

fun run_op :: "'d BlockDevice \<Rightarrow> 'd CodexFs \<Rightarrow> FsOp \<Rightarrow> (FsError + unit) \<times> 'd CodexFs" where
  "run_op dev fs (WriteFile path content) = write_file dev fs path content"
| "run_op dev fs (WriteFileWithPermissions path content perms) = write_file_with_permissions dev fs path content perms"
| "run_op dev fs (CreateDir path perms) = create_dir dev fs path perms"
| "run_op dev fs (CreateDirAll path perms) = create_dir_all dev fs path perms"
| "run_op dev fs (SetPermissions path perms) = set_permissions dev fs path perms"
| "run_op dev fs (RemoveFile path) = remove_file dev fs path"
| "run_op dev fs (RemoveDir path) = remove_dir dev fs path"

fun op_path :: "FsOp \<Rightarrow> bytes" where
  "op_path (WriteFile path content) = path"
| "op_path (WriteFileWithPermissions path content perms) = path"
| "op_path (CreateDir path perms) = path"
| "op_path (CreateDirAll path perms) = path"
| "op_path (SetPermissions path perms) = path"
| "op_path (RemoveFile path) = path"
| "op_path (RemoveDir path) = path"

text \<open>The file list an update wants to commit, or why it is refused.\<close>

fun op_next :: "FsOp \<Rightarrow> FileEntry list \<Rightarrow> FsError + FileEntry list" where
  "op_next (WriteFile path content) es = write_file_next es path content None"
| "op_next (WriteFileWithPermissions path content perms) es =
    try_bind (validate_permissions perms) (\<lambda>_. write_file_next es path content (Some perms))"
| "op_next (CreateDir path perms) es = create_dir_next es path perms"
| "op_next (CreateDirAll path perms) es = create_dir_all_next es path perms"
| "op_next (SetPermissions path perms) es = set_permissions_next es path perms"
| "op_next (RemoveFile path) es = remove_file_next es path"
| "op_next (RemoveDir path) es = remove_dir_next es path"

text \<open>The abstract update: a change of the map from paths to entries.\<close>

fun spec_op :: "FsOp \<Rightarrow> (bytes \<Rightarrow> FileEntry option) \<Rightarrow> bytes \<Rightarrow> FileEntry option" where
  "spec_op (WriteFile path content) m = m(path \<mapsto> written (m path) path content None)"
| "spec_op (WriteFileWithPermissions path content perms) m = m(path \<mapsto> written (m path) path content (Some perms))"
| "spec_op (CreateDir path perms) m = m(path \<mapsto> made_dir (m path) path perms)"
| "spec_op (CreateDirAll path perms) m = added_dirs m (set (lineage path)) path perms"
| "spec_op (SetPermissions path perms) m = m(path := map_option (\<lambda>e. e\<lparr>permissions := perms\<rparr>) (m path))"
| "spec_op (RemoveFile path) m = m(path := None)"
| "spec_op (RemoveDir path) m = m(path := None)"

lemma op_prepared:
  assumes "wf_tree es" and "valid_utf8 (op_path op)" and "op_next op es = Ok es'"
  shows "prepared es' (spec_op op (find_entry es))"
proof (cases op)
  case (SetPermissions path perms)
  with assms show ?thesis by (auto elim: set_permissions_next_prepared)
next
  case (RemoveFile path)
  with assms show ?thesis by (auto elim: remove_file_next_prepared)
next
  case (RemoveDir path)
  with assms show ?thesis by (auto elim: remove_dir_next_prepared)
qed (use assms in \<open>auto intro: write_file_next_prepared create_dir_next_prepared create_dir_all_next_prepared\<close>)

lemmas op_defs = write_file_def write_file_inner_def write_file_with_permissions_def create_dir_def
  create_dir_all_def set_permissions_def remove_file_def remove_dir_def store_changed_def

lemma run_op_cases:
  assumes "run_op dev fs op = (r, fs')"
  obtains (refused) e where "op_next op (fs_files fs) = Err e" and "r = Err e" and "fs' = fs"
  | (unchanged) "op_next op (fs_files fs) = Ok (fs_files fs)" and "r = Ok ()" and "fs' = fs"
  | (stored) "next" where "op_next op (fs_files fs) = Ok next" and "store_files dev fs next = (r, fs')"
proof (cases "op_next op (fs_files fs)")
  case (Inl e)
  then have "r = Err e \<and> fs' = fs"
    using assms by (cases op) (auto simp: op_defs try_bind_Err_iff)
  with Inl refused show ?thesis by blast
next
  case (Inr "next")
  then have "store_files dev fs next = (r, fs') \<or> next = fs_files fs \<and> r = Ok () \<and> fs' = fs"
    using assms by (cases op) (auto simp: op_defs split: if_splits)
  with Inr unchanged stored show ?thesis by blast
qed

context durable_block_device
begin

lemma run_op_law:
  assumes inv: "consistent dev ok images fs" and wf: "wf_tree (fs_files fs)" and u: "valid_utf8 (op_path op)"
    and run: "run_op dev fs op = (r, fs')"
  shows "r = Ok () \<Longrightarrow> consistent dev ok images fs' \<and> wf_tree (fs_files fs')
      \<and> find_entry (fs_files fs') = spec_op op (find_entry (fs_files fs))"
    and "r \<noteq> Ok () \<Longrightarrow> fs_files fs' = fs_files fs \<and> fs_generation fs' = fs_generation fs
      \<and> (fs' = fs \<or> (\<exists>next. op_next op (fs_files fs) = Ok next \<and> ok (fs_device fs')
        \<and> sector_count dev (fs_device fs') = sector_count dev (fs_device fs)
        \<and> old_or_new (images (fs_device fs')) (sector_count dev (fs_device fs)) fs next))"
proof -
  have "(r = Ok () \<longrightarrow> consistent dev ok images fs' \<and> wf_tree (fs_files fs')
      \<and> find_entry (fs_files fs') = spec_op op (find_entry (fs_files fs)))
    \<and> (r \<noteq> Ok () \<longrightarrow> fs_files fs' = fs_files fs \<and> fs_generation fs' = fs_generation fs
      \<and> (fs' = fs \<or> (\<exists>next. op_next op (fs_files fs) = Ok next \<and> ok (fs_device fs')
        \<and> sector_count dev (fs_device fs') = sector_count dev (fs_device fs)
        \<and> old_or_new (images (fs_device fs')) (sector_count dev (fs_device fs)) fs next)))"
    using run
  proof (cases rule: run_op_cases)
    case (refused e)
    then show ?thesis by simp
  next
    case unchanged
    then show ?thesis using inv wf op_prepared [OF wf u unchanged(1)] by (simp add: prepared_def)
  next
    case (stored "next")
    note p = op_prepared [OF wf u stored(1)]
    have nm: "named_ok next" using p by (simp add: prepared_def named_ok_def)
    obtain r1 fs1 where c: "commit_files dev fs next = (r1, fs1)" by fastforce
    note law = commit_files_law [OF inv nm c]
    show ?thesis
    proof (cases r1)
      case (Inl e)
      then have "r = Err e" "fs' = fs1" using stored(2) c by (simp_all add: store_files_def)
      moreover have "fs1 = fs\<lparr>fs_device := fs_device fs1\<rparr>" using law(2) Inl by simp
      then have "fs_files fs1 = fs_files fs" "fs_generation fs1 = fs_generation fs"
        by (metis CodexFs.select_convs(2) CodexFs.surjective CodexFs.update_convs(1),
            metis CodexFs.select_convs(3) CodexFs.surjective CodexFs.update_convs(1))
      ultimately show ?thesis using law(2) Inl stored(1) by auto
    next
      case (Inr x)
      then have "r = Ok ()" "fs' = fs1\<lparr>fs_files := next\<rparr>" using stored(2) c by (simp_all add: store_files_def)
      moreover have "wf_tree next" using law(1) Inr prepared_wf [OF p] by auto
      ultimately show ?thesis using law(1) Inr p by (simp add: prepared_def)
    qed
  qed
  then show "r = Ok () \<Longrightarrow> consistent dev ok images fs' \<and> wf_tree (fs_files fs')
      \<and> find_entry (fs_files fs') = spec_op op (find_entry (fs_files fs))"
    and "r \<noteq> Ok () \<Longrightarrow> fs_files fs' = fs_files fs \<and> fs_generation fs' = fs_generation fs
      \<and> (fs' = fs \<or> (\<exists>next. op_next op (fs_files fs) = Ok next \<and> ok (fs_device fs')
        \<and> sector_count dev (fs_device fs') = sector_count dev (fs_device fs)
        \<and> old_or_new (images (fs_device fs')) (sector_count dev (fs_device fs)) fs next))" by simp_all
qed

end

end
