(* ===== verification/FsProps.thy ===== *)
theory FsProps
  imports FsCommit
begin

text \<open>
  The properties of the file system of \<^verbatim>\<open>kernel/src/fs.rs\<close>, each with a witness on the in-memory disk
  of its tests: codecs, updates as changes of a map, power cuts, remounting, slots.
\<close>

section \<open>Sequences of updates\<close>

text \<open>
  Updates one after the other until the device fails one of them. The result lists the updates that
  returned \<^verbatim>\<open>Ok\<close>.
\<close>

fun run_ops :: "'d BlockDevice \<Rightarrow> 'd CodexFs \<Rightarrow> FsOp list \<Rightarrow> FsOp list \<times> 'd CodexFs" where
  "run_ops dev fs [] = ([], fs)"
| "run_ops dev fs (op # ops) =
    (case run_op dev fs op of
       (Ok _, fs') \<Rightarrow> (case run_ops dev fs' ops of (acked, fs'') \<Rightarrow> (op # acked, fs''))
     | (Err (Block e), fs') \<Rightarrow> ([], fs')
     | (Err _, fs') \<Rightarrow> run_ops dev fs' ops)"

definition on_device :: "'d CodexFs \<Rightarrow> 'e \<Rightarrow> 'e CodexFs" where
  "on_device fs d =
    \<lparr>fs_device = d, fs_files = fs_files fs, fs_generation = fs_generation fs,
     fs_record_slots = fs_record_slots fs, fs_record_slot_sectors = fs_record_slot_sectors fs,
     fs_active_record_start = fs_active_record_start fs,
     fs_active_record_sectors = fs_active_record_sectors fs, fs_mount_state = fs_mount_state fs\<rparr>"

text \<open>What the medium holds: the acknowledged tree, or that tree with the update in flight.\<close>

definition recoverable :: "(nat \<Rightarrow> bytes) set \<Rightarrow> nat \<Rightarrow> FileEntry list \<Rightarrow> FsOp list \<Rightarrow> bool" where
  "recoverable cs cap files ops \<longleftrightarrow> (\<forall>c\<in>cs. \<exists>g start n found. committed c cap g start n found
    \<and> (found = files \<or> (\<exists>op\<in>set ops. op_next op files = Ok found)))"

lemma consistent_recoverable:
  "consistent dev ok images fs \<Longrightarrow>
    recoverable (images (fs_device fs)) (sector_count dev (fs_device fs)) (fs_files fs) ops"
  unfolding consistent_def recoverable_def by blast

lemma recoverable_more:
  "recoverable cs cap files ops \<Longrightarrow> set ops \<subseteq> set ops' \<Longrightarrow> recoverable cs cap files ops'"
  unfolding recoverable_def by blast

lemma write_sectors_Err: "write_sectors dev start record ks d = (Err e, d') \<Longrightarrow> \<exists>b. e = Block b"
  by (induction ks arbitrary: d) (auto simp: Let_def elim!: st_bind_cases map_err_cases)

lemma write_snapshot_Err: "write_snapshot dev g start n record d = (Err e, d') \<Longrightarrow> \<exists>b. e = Block b"
  unfolding write_snapshot_def Let_def
  by (elim st_bind_cases map_err_cases) (auto dest: write_sectors_Err)

lemma run_op_Err:
  assumes "run_op dev fs op = (Err e, fs')" and "\<nexists>b. e = Block b"
  shows "fs' = fs"
  using assms(1)
proof (cases rule: run_op_cases)
  case (stored "next")
  then have "commit_files dev fs next = (Err e, fs')"
    by (auto simp: store_files_def elim!: st_bind_cases)
  then show ?thesis
    by (cases rule: commit_files_cases) (use assms(2) write_snapshot_Err in fastforce)+
qed simp_all

context durable_block_device
begin

lemma error_keeps:
  assumes "consistent dev ok images fs" and "wf_tree (fs_files fs)" and "valid_utf8 (op_path op)"
    and "run_op dev fs op = (Err e, fs')"
  shows "recoverable (images (fs_device fs')) (sector_count dev (fs_device fs)) (fs_files fs') [op]"
    and "fs_files fs' = fs_files fs" and "sector_count dev (fs_device fs') = sector_count dev (fs_device fs)"
    and "ok (fs_device fs')"
proof -
  have law: "fs_files fs' = fs_files fs" "fs' = fs \<or> (\<exists>next. op_next op (fs_files fs) = Ok next \<and> ok (fs_device fs')
      \<and> sector_count dev (fs_device fs') = sector_count dev (fs_device fs)
      \<and> old_or_new (images (fs_device fs')) (sector_count dev (fs_device fs)) fs next)"
    using run_op_law(2) [OF assms] by simp_all
  have ok: "ok (fs_device fs)" using assms(1) by (simp add: consistent_def)
  show "fs_files fs' = fs_files fs" by (rule law(1))
  show "sector_count dev (fs_device fs') = sector_count dev (fs_device fs)" using law(2) by auto
  show "ok (fs_device fs')" using law(2) ok by auto
  from law(2) show "recoverable (images (fs_device fs')) (sector_count dev (fs_device fs)) (fs_files fs') [op]"
  proof
    assume "fs' = fs"
    then show ?thesis using consistent_recoverable [OF assms(1)] by simp
  next
    assume "\<exists>next. op_next op (fs_files fs) = Ok next \<and> ok (fs_device fs')
      \<and> sector_count dev (fs_device fs') = sector_count dev (fs_device fs)
      \<and> old_or_new (images (fs_device fs')) (sector_count dev (fs_device fs)) fs next"
    then show ?thesis unfolding recoverable_def old_or_new_def law(1) by fastforce
  qed
qed

lemma run_op_count:
  assumes "consistent dev ok images fs" and "wf_tree (fs_files fs)" and "valid_utf8 (op_path op)"
    and run: "run_op dev fs op = (r, fs')"
  shows "sector_count dev (fs_device fs') = sector_count dev (fs_device fs)"
  using run
proof (cases rule: run_op_cases)
  case (stored "next")
  obtain r1 fs1 where c: "commit_files dev fs next = (r1, fs1)" by fastforce
  then have d: "fs_device fs' = fs_device fs1" using stored(2) by (cases r1) (auto simp: store_files_def)
  have ok: "ok (fs_device fs)" using assms(1) by (simp add: consistent_def)
  from c show ?thesis
  proof (cases rule: commit_files_cases)
    case (run start n d' w)
    then have "sector_count dev d' = sector_count dev (fs_device fs)" "fs_device fs1 = d'"
      using write_snapshot_law [OF ok _ run(7)] by auto
    then show ?thesis by (simp add: d)
  qed (simp add: d)
qed simp_all

lemma run_ops_law:
  assumes "consistent dev ok images fs" and "wf_tree (fs_files fs)" and "\<forall>op\<in>set ops. valid_utf8 (op_path op)"
    and "run_ops dev fs ops = (acked, fs')"
  shows "recoverable (images (fs_device fs')) (sector_count dev (fs_device fs)) (fs_files fs') ops
    \<and> find_entry (fs_files fs') = fold spec_op acked (find_entry (fs_files fs)) \<and> wf_tree (fs_files fs')
    \<and> ok (fs_device fs') \<and> sector_count dev (fs_device fs') = sector_count dev (fs_device fs)"
  using assms
proof (induction ops arbitrary: fs acked)
  case Nil
  then show ?case using consistent_recoverable [OF Nil.prems(1), of "[]"] by (auto simp: consistent_def)
next
  case (Cons op ops)
  have u: "valid_utf8 (op_path op)" using Cons.prems(3) by simp
  obtain r fs1 where r: "run_op dev fs op = (r, fs1)" by fastforce
  note base = Cons.prems(1,2) u r
  show ?case
  proof (cases r)
    case (Inr x)
    obtain acked' where a: "run_ops dev fs1 ops = (acked', fs')" "acked = op # acked'"
      using Cons.prems(4) r Inr by (auto split: prod.splits)
    have l: "consistent dev ok images fs1" "wf_tree (fs_files fs1)"
      "find_entry (fs_files fs1) = spec_op op (find_entry (fs_files fs))"
      using run_op_law(1) [OF base] Inr by simp_all
    have "sector_count dev (fs_device fs1) = sector_count dev (fs_device fs)" using run_op_count [OF base] .
    with Cons.IH [OF l(1,2) _ a(1)] Cons.prems(3) a(2) l(3) show ?thesis
      by (auto intro: recoverable_more)
  next
    case (Inl e)
    note err = error_keeps [OF Cons.prems(1,2) u r [unfolded Inl]]
    show ?thesis
    proof (cases "\<exists>b. e = Block b")
      case True
      then have "fs' = fs1" "acked = []" using Cons.prems(4) r Inl by auto
      then show ?thesis using err Cons.prems(2) by (auto intro: recoverable_more)
    next
      case False
      then have "fs1 = fs" using run_op_Err r Inl by blast
      moreover have "run_ops dev fs1 ops = (acked, fs')"
        using Cons.prems(4) r Inl False by (auto split: FsError.splits)
      ultimately show ?thesis using Cons.IH [OF Cons.prems(1,2)] Cons.prems(3) by (auto intro: recoverable_more)
    qed
  qed
qed

lemma mount_existing:
  assumes "ok d" and "supports_flush dev d"
    and "record_slot_span (sector_count dev d) = Ok span" and "record_slot_count (sector_count dev d) span = Ok slots"
    and "committed (content d) (sector_count dev d) g start n files" and "images d = {content d}"
  shows "\<exists>d'. mount_or_format dev d = Ok \<lparr>fs_device = d', fs_files = files, fs_generation = g, fs_record_slots = slots,
      fs_record_slot_sectors = span, fs_active_record_start = start, fs_active_record_sectors = n, fs_mount_state = Existing\<rparr>
    \<and> kept dev ok content images d d'"
proof -
  obtain s where s: "load_content (content d) (sector_count dev d) = Ok (Some s)" "ls_files s = files"
    "sb_generation (ls_superblock s) = g" "sb_record_start (ls_superblock s) = start"
    "sb_record_sectors (ls_superblock s) = n"
    using assms(5) by (rule committed_load)
  have "2 \<le> sector_count dev d" using record_slot_span_Ok [OF assms(3)] by simp
  then obtain d' where "load_latest_snapshot dev d = (Ok (Some s), d')" "kept dev ok content images d d'"
    using load_latest_content [OF assms(1)] s(1) by auto
  then show ?thesis using s assms by (auto simp: mount_or_format_def)
qed

lemma kept_consistent:
  assumes "kept dev ok content images d d'" and "images d = {content d}"
    and "record_slot_span (sector_count dev d) = Ok span" and "record_slot_count (sector_count dev d) span = Ok slots"
    and "committed (content d) (sector_count dev d) g start n files"
  shows "consistent dev ok images \<lparr>fs_device = d', fs_files = files, fs_generation = g, fs_record_slots = slots,
      fs_record_slot_sectors = span, fs_active_record_start = start, fs_active_record_sectors = n, fs_mount_state = m\<rparr>"
  using assms by (simp add: consistent_def kept_def)

lemma remount:
  assumes "consistent dev ok images fs" and "ok d" and "supports_flush dev d" and "content d \<in> images (fs_device fs)"
    and "images d = {content d}" and "sector_count dev d = sector_count dev (fs_device fs)"
  shows "\<exists>fs'. mount_or_format dev d = Ok fs' \<and> fs_files fs' = fs_files fs \<and> fs_generation fs' = fs_generation fs
    \<and> fs_mount_state fs' = Existing \<and> consistent dev ok images fs'"
proof -
  have c: "record_slot_span (sector_count dev d) = Ok (fs_record_slot_sectors fs)"
    "record_slot_count (sector_count dev d) (fs_record_slot_sectors fs) = Ok (fs_record_slots fs)"
    "committed (content d) (sector_count dev d) (fs_generation fs) (fs_active_record_start fs)
      (fs_active_record_sectors fs) (fs_files fs)"
    using assms by (simp_all add: consistent_def)
  from mount_existing [OF assms(2,3) c assms(5)] obtain d' where
    m: "mount_or_format dev d = Ok \<lparr>fs_device = d', fs_files = fs_files fs, fs_generation = fs_generation fs,
      fs_record_slots = fs_record_slots fs, fs_record_slot_sectors = fs_record_slot_sectors fs,
      fs_active_record_start = fs_active_record_start fs, fs_active_record_sectors = fs_active_record_sectors fs,
      fs_mount_state = Existing\<rparr>" and k: "kept dev ok content images d d'" by blast
  from kept_consistent [OF k assms(5) c, of Existing] m show ?thesis by auto
qed

lemma verify_ok:
  assumes "consistent dev ok images fs"
  shows "\<exists>d'. verify_committed_state dev fs = (Ok (), fs\<lparr>fs_device := d'\<rparr>) \<and> consistent dev ok images (fs\<lparr>fs_device := d'\<rparr>)"
proof -
  let ?d = "fs_device fs" and ?cap = "sector_count dev (fs_device fs)"
  have ok: "ok ?d" and c: "committed (content ?d) ?cap (fs_generation fs) (fs_active_record_start fs)
      (fs_active_record_sectors fs) (fs_files fs)" and span: "record_slot_span ?cap = Ok (fs_record_slot_sectors fs)"
    using assms content_image by (auto simp: consistent_def)
  obtain s where s: "load_content (content ?d) ?cap = Ok (Some s)" "ls_files s = fs_files fs"
    "sb_generation (ls_superblock s) = fs_generation fs" "sb_record_start (ls_superblock s) = fs_active_record_start fs"
    "sb_record_sectors (ls_superblock s) = fs_active_record_sectors fs"
    using c by (rule committed_load)
  have "2 \<le> ?cap" using record_slot_span_Ok [OF span] by simp
  then obtain d' where "load_latest_snapshot dev ?d = (Ok (Some s), d')" "kept dev ok content images ?d d'"
    using load_latest_content [OF ok] s(1) by auto
  then show ?thesis using s assms
    by (intro exI [of _ d']) (cases fs, simp add: verify_committed_state_def consistent_def kept_def)
qed

end

section \<open>Formatting a blank device\<close>

lemma blank_superblock: "decode_superblock (replicate 512 0) cap = Err CorruptSuperblocks"
proof -
  have "fs_get_u32 (replicate 512 0) 8 = Ok 0" "fs_get_u32 (replicate 512 0) 12 = Ok 0"
    by (simp_all add: fs_get_u32_def get_slice_def slice_def)
  moreover have "slice (replicate 512 0) 0 8 \<noteq> SUPERBLOCK_MAGIC"
  proof
    assume "slice (replicate 512 0) 0 8 = SUPERBLOCK_MAGIC"
    then have "hd (slice (replicate 512 0) 0 8) = hd SUPERBLOCK_MAGIC" by simp
    then show False by (simp add: slice_def SUPERBLOCK_MAGIC_def)
  qed
  ultimately show ?thesis by (simp add: decode_superblock_def)
qed

lemma blank_load:
  assumes "c 0 = replicate 512 0" and "c 1 = replicate 512 0"
  shows "load_content c cap = Ok None"
  using assms by (simp add: load_content_def newer_def candidate_def blank_superblock list_ex_iff)

context durable_block_device
begin

lemma format_blank:
  assumes "ok d" and "content d 0 = replicate 512 0" and "content d 1 = replicate 512 0"
    and "mount_or_format dev d = Ok fs"
  shows "consistent dev ok images fs \<and> fs_files fs = [] \<and> fs_generation fs = 1 \<and> fs_mount_state fs = Formatted"
proof -
  obtain span slots where span: "record_slot_span (sector_count dev d) = Ok span"
    and slots: "record_slot_count (sector_count dev d) span = Ok slots"
    using assms(4) by (auto simp: mount_or_format_def split: if_splits)
  have "2 \<le> sector_count dev d" using record_slot_span_Ok [OF span] by simp
  then obtain d1 where l: "load_latest_snapshot dev d = (Ok None, d1)" and k: "kept dev ok content images d d1"
    using load_latest_content [OF assms(1)] blank_load [OF assms(2,3)] by auto
  define fs0 where "fs0 = \<lparr>fs_device = d1, fs_files = [], fs_generation = 0, fs_record_slots = slots,
    fs_record_slot_sectors = span, fs_active_record_start = 0, fs_active_record_sectors = 0, fs_mount_state = Formatted\<rparr>"
  have c: "commit_files dev fs0 [] = (Ok (), fs)"
    using assms(4) span slots l by (auto simp: mount_or_format_def fs0_def split: if_splits sum.splits prod.splits)
  then show ?thesis
  proof (cases rule: commit_files_cases)
    case (run start n d' w)
    have ok: "ok (fs_device fs0)" using k by (simp add: fs0_def kept_def)
    have older: "\<forall>sb. decode_superblock (content (fs_device fs0) (super_slot (fs_generation fs0)))
        (sector_count dev (fs_device fs0)) = Ok sb \<longrightarrow> sb_generation sb < Suc (fs_generation fs0)"
      using assms(2) k by (simp add: fs0_def kept_def super_slot_def blank_superblock)
    have "named_ok []" by (simp add: named_ok_def)
    note new = snapshot_written [OF ok this run(1-6) older]
    have "sector_count dev d' = sector_count dev (fs_device fs0)" "ok d'"
      "images d' = {new_content (content (fs_device fs0)) (sector_count dev (fs_device fs0)) (Suc (fs_generation fs0))
        start n (record_layout (Suc (fs_generation fs0)) [])}"
      using write_snapshot_law [OF ok _ run(7)] run(3,8) by auto
    with new run(8,9) span slots k show ?thesis
      by (simp add: fs0_def consistent_def kept_def)
  qed simp
qed

end

section \<open>A slot is always free\<close>

text \<open>The active record starts a slot of the current geometry.\<close>

definition slot_aligned :: "'d CodexFs \<Rightarrow> nat \<Rightarrow> bool" where
  "slot_aligned fs start \<longleftrightarrow> (\<exists>j<fs_record_slots fs. start = RECORD_AREA_START + j * fs_record_slot_sectors fs)"

definition active_aligned :: "'d CodexFs \<Rightarrow> bool" where
  "active_aligned fs \<longleftrightarrow> fs_active_record_sectors fs = 0
    \<or> slot_aligned fs (fs_active_record_start fs) \<and> fs_active_record_sectors fs \<le> fs_record_slot_sectors fs"

lemma record_slot_count_Ok:
  "record_slot_count cap span = Ok slots \<Longrightarrow> 2 \<le> slots \<and> 8 + slots * span \<le> cap"
  by (auto simp: record_slot_count_def Let_def split: if_splits)
    (metis add_le_imp_le_diff add.commute le_diff_conv2 times_div_less_eq_dividend mult.commute)

lemma slots_disjoint:
  assumes "i \<noteq> j" and "m \<le> (span :: nat)" and "n \<le> span"
  shows "\<not> (8 + i * span < 8 + j * span + m \<and> 8 + j * span < 8 + i * span + n)"
proof (cases "i < j")
  case True
  then have "Suc i * span \<le> j * span" by (intro mult_le_mono1) simp
  with assms(3) show ?thesis by simp
next
  case False
  then have "Suc j * span \<le> i * span" using assms(1) by (intro mult_le_mono1) simp
  with assms(2) show ?thesis by simp
qed

lemma select_attempt_slot:
  assumes "g + k \<le> U64_MAX" and "cap \<le> U64_MAX" and "8 + fs_record_slots fs * fs_record_slot_sectors fs \<le> cap"
    and "0 < fs_record_slots fs" and "n \<le> fs_record_slot_sectors fs" and "active_aligned fs"
  defines "s \<equiv> (g + k) mod fs_record_slots fs"
  shows "select_attempts fs cap g n (k # ks) = Ok (8 + s * fs_record_slot_sectors fs) \<or>
    select_attempts fs cap g n (k # ks) = select_attempts fs cap g n ks
    \<and> fs_active_record_start fs = 8 + s * fs_record_slot_sectors fs \<and> fs_active_record_sectors fs \<noteq> 0"
proof -
  let ?span = "fs_record_slot_sectors fs"
  have "s < fs_record_slots fs" using assms(4) by (simp add: s_def)
  then have "Suc s * ?span \<le> fs_record_slots fs * ?span" by (intro mult_le_mono1) simp
  then have fit: "8 + s * ?span + n \<le> cap" using assms(3,5) by simp
  show ?thesis
  proof (cases "fs_active_record_sectors fs = 0")
    case True
    then show ?thesis using fit assms(1,2) by (simp add: Let_def checked_add_def checked_mul_def s_def [symmetric])
  next
    case False
    then obtain j where j: "j < fs_record_slots fs" "fs_active_record_start fs = 8 + j * ?span"
      "fs_active_record_sectors fs \<le> ?span"
      using assms(6) by (auto simp: active_aligned_def slot_aligned_def)
    then have "Suc j * ?span \<le> fs_record_slots fs * ?span" by (intro mult_le_mono1) simp
    then have "8 + j * ?span + fs_active_record_sectors fs \<le> cap" using assms(3) j(3) by simp
    then have ov: "ranges_overlap (8 + s * ?span) n (fs_active_record_start fs) (fs_active_record_sectors fs) =
        Ok (8 + s * ?span < 8 + j * ?span + fs_active_record_sectors fs \<and> 8 + j * ?span < 8 + s * ?span + n)"
      using fit assms(2) j(2) by (simp add: ranges_overlap_def checked_add_def)
    show ?thesis
      using fit assms(1,2) ov False j(2) slots_disjoint [of s j, OF _ j(3) assms(5)]
      by (cases "s = j") (auto simp: Let_def checked_add_def checked_mul_def s_def [symmetric])
  qed
qed

lemma select_available:
  assumes "record_slot_span cap = Ok (fs_record_slot_sectors fs)"
    and "record_slot_count cap (fs_record_slot_sectors fs) = Ok (fs_record_slots fs)"
    and "cap \<le> U64_MAX" and "g + 1 \<le> U64_MAX" and "n \<le> fs_record_slot_sectors fs" and "active_aligned fs"
    and "sector_count dev (fs_device fs) = cap"
  shows "\<exists>start. select_record_start dev fs g n = Ok start \<and> slot_aligned fs start"
proof -
  note slots = record_slot_count_Ok [OF assms(2)]
  have slots2: "2 \<le> fs_record_slots fs" using slots by simp
  have up: "[0..<fs_record_slots fs] = 0 # 1 # [2..<fs_record_slots fs]"
    using slots2 by (simp add: upt_conv_Cons numeral_2_eq_2)
  let ?s = "\<lambda>k. (g + k) mod fs_record_slots fs"
  have ne: "?s 0 \<noteq> ?s 1"
  proof
    assume "?s 0 = ?s 1"
    then have "(g + 1 - g) mod fs_record_slots fs = 0" by (intro mod_eq_dvd_iff_nat [THEN iffD1, THEN dvd_imp_mod_0]) simp_all
    then show False using slots2 by simp
  qed
  have span: "0 < fs_record_slot_sectors fs" using record_slot_span_Ok [OF assms(1)] by simp
  have al: "slot_aligned fs (8 + ?s k * fs_record_slot_sectors fs)" for k
    using slots2 by (auto simp: slot_aligned_def intro!: exI [of _ "?s k"])
  note att = select_attempt_slot [OF _ assms(3) conjunct2 [OF slots] _ assms(5,6)]
  show ?thesis
    using att [of g 0 "1 # [2..<fs_record_slots fs]"] att [of g 1 "[2..<fs_record_slots fs]"]
      assms(4,7) slots2 ne al [of 0] al [of 1] span
    unfolding select_record_start_def up by (auto simp del: select_attempts.simps)
qed

section \<open>A formatted disk\<close>

text \<open>The in-memory disk accepts every write inside it, so formatting it succeeds.\<close>

lemma test_disk_count [simp]: "sector_count test_disk d = length (sectors d)"
  by (simp add: test_disk_defs)

lemma test_write_sectors:
  assumes "\<forall>k\<in>set ks. start + k < length (sectors d)"
  shows "\<exists>d'. write_sectors test_disk start record ks d = (Ok (), d') \<and> length (sectors d') = length (sectors d)"
  using assms
proof (induction ks arbitrary: d)
  case (Cons k ks)
  define b where "b = slice record (k * 512) (k * 512 + 512)"
  have "write_sector test_disk d (start + k) b = (Ok (), d\<lparr>sectors := (sectors d)[start + k := b]\<rparr>)"
    using Cons.prems by (simp add: test_disk_defs)
  then show ?case using Cons.IH [of "d\<lparr>sectors := (sectors d)[start + k := b]\<rparr>"] Cons.prems
    by (simp add: Let_def b_def)
qed simp

lemma test_write_snapshot:
  assumes "start + n \<le> length (sectors d)" and "2 \<le> length (sectors d)"
  shows "\<exists>d'. write_snapshot test_disk g start n record d = (Ok (), d')"
proof -
  obtain d1 where d1: "write_sectors test_disk start record [0..<n] d = (Ok (), d1)"
    "length (sectors d1) = length (sectors d)"
    using test_write_sectors [of "[0..<n]" start d "record"] assms(1) by auto
  have f: "flush test_disk x = (Ok (), x\<lparr>flush_count := flush_count x + 1\<rparr>)" for x
    by (simp add: test_disk_defs)
  have w: "write_sector test_disk x 0 b = (Ok (), x\<lparr>sectors := (sectors x)[0 := b]\<rparr>)"
    "write_sector test_disk x (Suc 0) b = (Ok (), x\<lparr>sectors := (sectors x)[Suc 0 := b]\<rparr>)"
    if "2 \<le> length (sectors x)" for x b
    using that by (auto simp: test_disk_defs)
  show ?thesis
    unfolding write_snapshot_def Let_def d1(1)
    using assms(2) d1(2) by (simp add: f w)
qed

definition formatted_fs :: "TestDisk CodexFs" where
  "formatted_fs = projr (mount_or_format test_disk (TestDisk_new 300))"

lemma new_disk_ok: "disk_ok (TestDisk_new 300)"
  by (simp add: disk_ok_def TestDisk_new_def U64_MAX_def)

lemma new_disk_content: "s < 300 \<Longrightarrow> disk_content (TestDisk_new 300) s = replicate 512 0"
  by (simp add: disk_content_def TestDisk_new_def)

lemma format_new_disk:
  shows "mount_or_format test_disk (TestDisk_new 300) = Ok formatted_fs" and "active_aligned formatted_fs"
proof -
  let ?d = "TestDisk_new 300"
  have len: "length (sectors ?d) = 300" by (simp add: TestDisk_new_def)
  have flushes: "supports_flush test_disk ?d" by (simp add: test_disk_defs)
  have span: "record_slot_span 300 = Ok 146" and slots: "record_slot_count 300 146 = Ok 2"
    by (simp_all add: record_slot_span_def record_slot_count_def Let_def checked_sub_def)
  obtain d1 where load: "load_latest_snapshot test_disk ?d = (Ok None, d1)"
    and k: "kept test_disk disk_ok disk_content (\<lambda>d. {disk_content d}) ?d d1"
    using test_disk.load_latest_content [OF new_disk_ok] blank_load [of "disk_content ?d"]
    by (auto simp: new_disk_content len)
  then have len1: "length (sectors d1) = 300" by (simp add: kept_def len)
  define fs0 where "fs0 = \<lparr>fs_device = d1, fs_files = [], fs_generation = 0, fs_record_slots = 2,
    fs_record_slot_sectors = 146, fs_active_record_start = 0, fs_active_record_sectors = 0, fs_mount_state = Formatted\<rparr>"
  have enc: "encode_record 1 [] = Ok (record_layout 1 [])" and size: "record_size [] = 32768"
    unfolding encode_record_exact by (simp_all add: validate_tree_def record_size_def)
  have sel: "select_record_start test_disk fs0 1 64 = Ok 154"
    by (simp add: select_record_start_def fs0_def len1 upt_conv_Cons checked_add_def checked_mul_def U64_MAX_def Let_def)
  obtain d2 where w: "write_snapshot test_disk 1 154 64 (record_layout 1 []) d1 = (Ok (), d2)"
    using test_write_snapshot [of 154 64 d1] len1 by auto
  define fs1 where "fs1 = fs0\<lparr>fs_device := d2, fs_generation := 1, fs_active_record_start := 154,
    fs_active_record_sectors := 64\<rparr>"
  have "commit_files test_disk fs0 [] = (Ok (), fs1)"
    using enc size sel w by (simp add: commit_files_def fs0_def fs1_def checked_add_def U64_MAX_def Let_def)
  then have m: "mount_or_format test_disk ?d = Ok fs1"
    using load flushes by (auto simp: mount_or_format_def len span slots fs0_def)
  then have f: "formatted_fs = fs1" by (simp add: formatted_fs_def)
  with m show "mount_or_format test_disk ?d = Ok formatted_fs" by simp
  show "active_aligned formatted_fs"
    unfolding active_aligned_def slot_aligned_def f by (auto simp: fs1_def fs0_def intro!: exI [of _ 1])
qed

lemma formatted_fs_consistent:
  "consistent test_disk disk_ok (\<lambda>d. {disk_content d}) formatted_fs" "fs_files formatted_fs = []"
  "fs_generation formatted_fs = 1"
  using test_disk.format_blank [OF new_disk_ok _ _ format_new_disk(1)] new_disk_content by simp_all

lemma formatted_fs_tree: "wf_tree (fs_files formatted_fs)"
  by (simp add: formatted_fs_consistent(2) wf_tree_def validate_tree_def)

lemma test_commit_ok:
  assumes inv: "consistent test_disk disk_ok (\<lambda>d. {disk_content d}) fs" and "active_aligned fs"
    and enc: "encode_record (Suc (fs_generation fs)) next = Ok r" and "record_size next = 32768"
    and "fs_generation fs + 2 \<le> U64_MAX"
  shows "\<exists>fs'. commit_files test_disk fs next = (Ok (), fs')"
proof -
  let ?cap = "length (sectors (fs_device fs))"
  have geo: "record_slot_span ?cap = Ok (fs_record_slot_sectors fs)"
    "record_slot_count ?cap (fs_record_slot_sectors fs) = Ok (fs_record_slots fs)" and ok: "disk_ok (fs_device fs)"
    using inv by (simp_all add: consistent_def)
  have span: "64 \<le> fs_record_slot_sectors fs" "2 \<le> ?cap" using record_slot_span_Ok [OF geo(1)] by simp_all
  obtain start where sel: "select_record_start test_disk fs (Suc (fs_generation fs)) 64 = Ok start"
    using select_available [OF geo _ _ span(1) assms(2), of "Suc (fs_generation fs)" test_disk] ok assms(5)
    by (auto simp: disk_ok_def)
  then obtain d' where "write_snapshot test_disk (Suc (fs_generation fs)) start 64
      (record_layout (Suc (fs_generation fs)) next) (fs_device fs) = (Ok (), d')"
    using test_write_snapshot [of start 64 "fs_device fs"] select_record_start_Ok(2) [OF sel] span(2) by auto
  moreover have "r = record_layout (Suc (fs_generation fs)) next" using enc unfolding encode_record_exact by simp
  ultimately show ?thesis using enc sel assms(4,5) span(1)
    by (simp add: commit_files_def checked_add_def Let_def)
qed

definition path_a :: bytes where
  "path_a = [0x2f, 0x61]"

lemma legacy_tree_parent:
  "parent_path [0x2f, 0x61, 0x2f, 0x62] = Ok [0x2f, 0x61]" "parent_path [0x2f, 0x61] = Ok root_path"
  by (simp_all add: parent_path_def validate_path_def slash_def root_path_def)

lemma write_sample_ok: "\<exists>fs'. write_file test_disk formatted_fs path_a [1, 2] = (Ok (), fs')"
proof -
  let ?n = "[\<lparr>name = path_a, data = [1, 2], kind = File, permissions = 420\<rparr>]"
  have par: "parent_path [0x2f, 0x61] = Ok root_path" by (rule legacy_tree_parent(2))
  have v: "validate_path [0x2f, 0x61] = Ok ()" by (simp add: validate_path_def slash_def)
  have "write_file_next [] path_a [1, 2] None = Ok ?n"
    by (simp add: write_file_next_def path_a_def v par ensure_parent_directory_def sort_entries_def
        materialize_missing_parent_directories_def collect_parents.simps [of _ root_path])
  moreover have enc: "encode_record (Suc (fs_generation formatted_fs)) ?n = Ok (record_layout (Suc (fs_generation formatted_fs)) ?n)"
    unfolding encode_record_exact
    by (simp add: validate_tree_def validate_entry_def path_a_def v par validate_permissions_def
        ensure_parent_directory_def record_size_def)
  have "\<exists>fs'. commit_files test_disk formatted_fs ?n = (Ok (), fs')"
    by (rule test_commit_ok [OF formatted_fs_consistent(1) format_new_disk(2) enc])
      (simp_all add: record_size_def path_a_def formatted_fs_consistent(3) U64_MAX_def)
  ultimately show ?thesis
    using formatted_fs_consistent(2) by (auto simp: op_defs store_files_def)
qed

section \<open>Properties\<close>

text \<open>
  C1: Power-cut safety. On any device that keeps the contract, start from a mounted file system whose
  medium agrees with it, run updates, and cut the power after any number \<open>k\<close> of device writes and
  flushes, with any subset of the unflushed writes lost. Mounting what is on the medium succeeds and
  gives the tree made by exactly the acknowledged updates, or that tree with one further update of the
  sequence applied as a whole.
\<close>

theorem fs_power_cut_safe:
  assumes "durable_block_device dev ok content images"
    and "consistent dev ok images fs" and "wf_tree (fs_files fs)"
    and "\<forall>op\<in>set ops. valid_utf8 (op_path op)"
    and "run_ops (power_fail dev) (on_device fs (fs_device fs, k)) ops = (acked, fs')"
    and "ok d" and "supports_flush dev d" and "content d \<in> images (fst (fs_device fs'))" and "images d = {content d}"
    and "sector_count dev d = sector_count dev (fs_device fs)"
  shows "find_entry (fs_files fs') = fold spec_op acked (find_entry (fs_files fs))
    \<and> (\<exists>fs2. mount_or_format dev d = Ok fs2 \<and> consistent dev ok images fs2
      \<and> (fs_files fs2 = fs_files fs' \<or> (\<exists>op\<in>set ops. op_next op (fs_files fs') = Ok (fs_files fs2))))"
proof -
  let ?ok = "\<lambda>(d, k). ok d" and ?im = "\<lambda>(d, k). images d" and ?fs = "on_device fs (fs_device fs, k)"
  have sc: "sector_count (power_fail dev) x = sector_count dev (fst x)" for x
    by (cases x) (simp add: power_fail_def)
  have span: "record_slot_span (sector_count dev d) = Ok (fs_record_slot_sectors fs)"
    "record_slot_count (sector_count dev d) (fs_record_slot_sectors fs) = Ok (fs_record_slots fs)"
    using assms(2,10) by (simp_all add: consistent_def)
  have "consistent (power_fail dev) ?ok ?im ?fs"
    using assms(2) by (simp add: consistent_def on_device_def sc)
  then have law: "recoverable (?im (fs_device fs')) (sector_count (power_fail dev) (fs_device ?fs)) (fs_files fs') ops
      \<and> find_entry (fs_files fs') = fold spec_op acked (find_entry (fs_files ?fs)) \<and> wf_tree (fs_files fs')
      \<and> ?ok (fs_device fs') \<and> sector_count (power_fail dev) (fs_device fs') = sector_count (power_fail dev) (fs_device ?fs)"
    by (rule durable_block_device.run_ops_law [OF power_fail_device [OF assms(1)]])
      (use assms(3-5) in \<open>simp_all add: on_device_def\<close>)
  have "content d \<in> ?im (fs_device fs')" using assms(8) by (simp add: split_beta)
  then obtain g start n found where found: "committed (content d) (sector_count dev d) g start n found"
    "found = fs_files fs' \<or> (\<exists>op\<in>set ops. op_next op (fs_files fs') = Ok found)"
    using conjunct1 [OF law] assms(10) unfolding recoverable_def sc by (fastforce simp: on_device_def)
  from durable_block_device.mount_existing [OF assms(1,6,7) span found(1) assms(9)] obtain d' where
    "mount_or_format dev d = Ok \<lparr>fs_device = d', fs_files = found, fs_generation = g,
      fs_record_slots = fs_record_slots fs, fs_record_slot_sectors = fs_record_slot_sectors fs,
      fs_active_record_start = start, fs_active_record_sectors = n, fs_mount_state = Existing\<rparr>"
    "kept dev ok content images d d'" by blast
  with durable_block_device.kept_consistent [OF assms(1) _ assms(9) span found(1)] found(2) law show ?thesis
    by (auto simp: on_device_def)
qed

theorem fs_power_cut_safe_witness:
  "\<exists>fs2. mount_or_format test_disk (fst (fs_device (snd (run_ops (power_fail test_disk)
      (on_device formatted_fs (fs_device formatted_fs, 10)) [CreateDir path_a 493])))) = Ok fs2
    \<and> consistent test_disk disk_ok (\<lambda>d. {disk_content d}) fs2"
proof -
  let ?run = "run_ops (power_fail test_disk) (on_device formatted_fs (fs_device formatted_fs, 10)) [CreateDir path_a 493]"
  let ?d = "fst (fs_device (snd ?run))"
  have u: "\<forall>op\<in>set [CreateDir path_a 493]. valid_utf8 (op_path op)" by (simp add: path_a_def valid_utf8_step)
  have dev: "durable_block_device test_disk disk_ok disk_content (\<lambda>d. {disk_content d})"
    by (rule test_disk.durable_block_device_axioms)
  have keep: "disk_ok ?d \<and> sector_count test_disk ?d = sector_count test_disk (fs_device formatted_fs)"
    using durable_block_device.run_ops_law [OF power_fail_device [OF dev], of
      "on_device formatted_fs (fs_device formatted_fs, 10)" "[CreateDir path_a 493]" "fst ?run" "snd ?run"]
      formatted_fs_consistent formatted_fs_tree u
    by (auto simp: consistent_def on_device_def power_fail_def split: prod.splits)
  have "supports_flush test_disk ?d" by (simp add: test_disk_defs)
  from fs_power_cut_safe [OF dev formatted_fs_consistent(1) formatted_fs_tree u prod.collapse [symmetric]
      conjunct1 [OF keep] this _ _ conjunct2 [OF keep]]
  show ?thesis by blast
qed

text \<open>
  C6: Each update refines its abstract form, on every device that keeps the contract. When it returns
  \<^verbatim>\<open>Ok\<close>, the map from paths to entries changes as \<open>spec_op\<close> says, the tree rules hold again, and every
  image of the medium holds the new tree; when it returns an error, the tree in memory and the
  generation are as before, and unless the device itself failed nothing was written at all.
\<close>

theorem fs_update_refines:
  assumes "durable_block_device dev ok content images"
    and "consistent dev ok images fs" and "wf_tree (fs_files fs)" and "valid_utf8 (op_path op)"
    and "run_op dev fs op = (r, fs')"
  shows "case r of
      Ok _ \<Rightarrow> find_entry (fs_files fs') = spec_op op (find_entry (fs_files fs)) \<and> wf_tree (fs_files fs')
        \<and> consistent dev ok images fs'
    | Err e \<Rightarrow> fs_files fs' = fs_files fs \<and> fs_generation fs' = fs_generation fs \<and> ((\<nexists>b. e = Block b) \<longrightarrow> fs' = fs)"
proof (cases r)
  case (Inl e)
  then show ?thesis
    using durable_block_device.run_op_law(2) [OF assms] run_op_Err [of dev fs op e fs'] assms(5) by auto
next
  case (Inr u)
  then show ?thesis using durable_block_device.run_op_law(1) [OF assms] by simp
qed

theorem fs_update_refines_witness:
  "find_entry (fs_files (snd (run_op test_disk formatted_fs (WriteFile path_a [1, 2])))) =
    spec_op (WriteFile path_a [1, 2]) (find_entry [])"
proof -
  obtain fs' where run: "run_op test_disk formatted_fs (WriteFile path_a [1, 2]) = (Ok (), fs')"
    using write_sample_ok by auto
  have "valid_utf8 (op_path (WriteFile path_a [1, 2]))" by (simp add: path_a_def valid_utf8_step)
  from fs_update_refines [OF test_disk.durable_block_device_axioms formatted_fs_consistent(1) formatted_fs_tree this run]
  show ?thesis unfolding run formatted_fs_consistent(2) snd_conv sum.case by (rule conjunct1)
qed

text \<open>
  C27: Remounting. Whatever image of the medium a mounted file system leaves behind, mounting it again
  gives the same tree and generation, in the state \<^verbatim>\<open>Existing\<close>, and never reformats.
\<close>

theorem fs_remount_same:
  assumes "durable_block_device dev ok content images" and "consistent dev ok images fs"
    and "ok d" and "supports_flush dev d" and "content d \<in> images (fs_device fs)" and "images d = {content d}"
    and "sector_count dev d = sector_count dev (fs_device fs)"
  shows "\<exists>fs'. mount_or_format dev d = Ok fs' \<and> fs_files fs' = fs_files fs \<and> fs_generation fs' = fs_generation fs
    \<and> fs_mount_state fs' = Existing \<and> consistent dev ok images fs'"
  by (rule durable_block_device.remount [OF assms])

theorem fs_remount_same_witness:
  "\<exists>fs'. mount_or_format test_disk (fs_device formatted_fs) = Ok fs' \<and> fs_files fs' = [] \<and> fs_generation fs' = 1
    \<and> fs_mount_state fs' = Existing \<and> consistent test_disk disk_ok (\<lambda>d. {disk_content d}) fs'"
proof -
  have "disk_ok (fs_device formatted_fs)" using formatted_fs_consistent(1) by (simp add: consistent_def)
  moreover have "supports_flush test_disk (fs_device formatted_fs)" by (simp add: test_disk_defs)
  ultimately show ?thesis
    using fs_remount_same [OF test_disk.durable_block_device_axioms formatted_fs_consistent(1),
        of "fs_device formatted_fs"] formatted_fs_consistent(2,3) by simp
qed

text \<open>
  C29: The record codec. A tree with distinct, well-formed names that encodes at all is read back
  exactly, from a buffer of whole sectors between 32 KiB and 4 MiB.
\<close>

theorem fs_record_roundtrip:
  assumes "encode_record g files = Ok r" and "named_ok files" and "g \<le> U64_MAX"
  shows "decode_record r g = Ok files \<and> length r mod SECTOR_SIZE = 0
    \<and> RECORD_BYTES \<le> length r \<and> length r \<le> MAX_RECORD_BYTES"
  using assms decode_record_layout [of g files] record_size_sectors [of files] record_size_min [of files]
  unfolding encode_record_exact named_ok_def by auto

definition sample_tree :: "FileEntry list" where
  "sample_tree = [\<lparr>name = path_a, data = [], kind = Directory, permissions = 493\<rparr>,
    \<lparr>name = path_a @ [0x2f, 0x62], data = [1, 2, 3], kind = File, permissions = 420\<rparr>]"

lemma sample_tree_encodes: "encode_record 9 sample_tree = Ok (record_layout 9 sample_tree)"
  unfolding encode_record_exact
proof (intro conjI)
  have p: "parent_path [0x2f, 0x61, 0x2f, 0x62] = Ok [0x2f, 0x61]" "parent_path [0x2f, 0x61] = Ok root_path"
    by (simp_all add: parent_path_def validate_path_def slash_def root_path_def)
  then show "validate_tree sample_tree True = Ok ()"
    by (simp add: sample_tree_def path_a_def validate_tree_def validate_entry_def validate_path_def slash_def
        root_path_def validate_permissions_def ensure_parent_directory_def)
qed (simp_all add: sample_tree_def path_a_def record_size_def)

theorem fs_record_roundtrip_witness:
  "decode_record (record_layout 9 sample_tree) 9 = Ok sample_tree \<and> length (record_layout 9 sample_tree) mod SECTOR_SIZE = 0
    \<and> RECORD_BYTES \<le> length (record_layout 9 sample_tree) \<and> length (record_layout 9 sample_tree) \<le> MAX_RECORD_BYTES"
proof -
  have "named_ok sample_tree" by (simp add: named_ok_def sample_tree_def path_a_def valid_utf8_step)
  then show ?thesis using fs_record_roundtrip [OF sample_tree_encodes] by (simp add: U64_MAX_def)
qed

text \<open>
  A superblock that decodes stops decoding when any one of its 512 bytes is changed.
\<close>

theorem fs_superblock_corruption_detected:
  assumes "decode_superblock b cap = Ok s" and "length b = SECTOR_SIZE" and "i < SECTOR_SIZE" and "v \<noteq> b ! i"
  shows "\<exists>e. decode_superblock (b[i := v]) cap = Err e"
proof (cases "decode_superblock (b[i := v]) cap")
  case (Inr s')
  have "crc32 (put_u32 b 44 0) = from_le (slice b 44 48)"
    using decode_superblock_fields(8) [OF assms(1)] assms(2) by (simp add: fs_get_slice)
  moreover have "crc32 (put_u32 (b[i := v]) 44 0) = from_le (slice (b[i := v]) 44 48)"
    using decode_superblock_fields(8) [OF Inr] assms(2) by (simp add: fs_get_slice)
  ultimately have "v = b ! i"
    using assms(2,3) checksum_field_single_byte [of 44 b i v] by simp
  with assms(4) show ?thesis by simp
qed simp

definition sample_superblock :: Superblock where
  "sample_superblock = \<lparr>sb_generation = 33, sb_record_start = 4096, sb_record_sectors = 73,
    sb_record_bytes = 37376, sb_record_crc = 0x12345678, sb_capacity_sectors = 131072\<rparr>"

theorem fs_superblock_corruption_detected_witness:
  "\<exists>e. decode_superblock ((encode_superblock sample_superblock)[0 := 0]) 131072 = Err e"
proof (rule fs_superblock_corruption_detected)
  show "decode_superblock (encode_superblock sample_superblock) 131072 = Ok sample_superblock"
    by (rule decode_encode_superblock) (simp add: sample_superblock_def valid_superblock_def U64_MAX_def)
  show "length (encode_superblock sample_superblock) = SECTOR_SIZE" by (simp add: encode_superblock_layout)
  show "0 \<noteq> encode_superblock sample_superblock ! 0"
    by (simp add: encode_superblock_layout super_layout_def SUPERBLOCK_MAGIC_def)
qed simp

lemma record_at_update:
  assumes "k < n" and "i < 512" and "\<And>j. j < n \<Longrightarrow> length (c (start + j)) = 512"
  shows "record_at (c(start + k := (c (start + k))[i := v])) start n = (record_at c start n)[k * 512 + i := v]"
  using assms
proof (induction n)
  case (Suc n)
  have len: "length (record_at c start n) = n * 512" using Suc.prems(3) by (intro length_record_at) simp
  have snoc: "record_at c' start (Suc n) = record_at c' start n @ c' (start + n)" for c'
    by (simp add: record_at_def)
  show ?case
  proof (cases "k = n")
    case True
    moreover have "record_at (c(start + n := x)) start n = record_at c start n" for x
      by (rule record_at_cong) simp
    ultimately show ?thesis using len by (simp add: snoc list_update_append del: fun_upd_apply) simp
  next
    case False
    then have "k < n" using Suc.prems(1) by simp
    then have "Suc k * 512 \<le> n * 512" by (intro mult_le_mono1) simp
    then have "k * 512 + i < n * 512" using Suc.prems(2) by simp
    with Suc \<open>k < n\<close> len show ?thesis by (simp add: snoc list_update_append)
  qed
qed simp

lemma record_at_nth:
  assumes "k < n" and "i < 512" and "\<And>j. j < n \<Longrightarrow> length (c (start + j)) = 512"
  shows "record_at c start n ! (k * 512 + i) = c (start + k) ! i"
proof -
  have "Suc k * 512 \<le> n * 512" using assms(1) by (intro mult_le_mono1) simp
  then have "k * 512 + i < length (record_at c start n)" using assms by (subst length_record_at) simp_all
  moreover have "c(start + k := (c (start + k))[i := c (start + k) ! i]) = c" by simp
  ultimately show ?thesis
    using record_at_update [of k n i c start "c (start + k) ! i"] assms by (metis nth_list_update_eq)
qed

text \<open>
  C30: A record that is read back without error is refused as corrupt as soon as one byte of one of its
  sectors has changed, so a damaged snapshot is never returned (\<open>load_latest_snapshot\<close> then falls
  back to the other superblock).
\<close>

theorem fs_record_corruption_detected:
  assumes "durable_block_device dev ok content images" and "ok d" and "ok d2"
    and "decode_superblock b (sector_count dev d) = Ok sb" and "fst (read_record dev d sb) = Ok files"
    and "sector_count dev d2 = sector_count dev d" and "k < sb_record_sectors sb" and "i < SECTOR_SIZE"
    and "content d2 = (content d)(sb_record_start sb + k := (content d (sb_record_start sb + k))[i := v])"
    and "v \<noteq> content d (sb_record_start sb + k) ! i"
  shows "fst (read_record dev d2 sb) = Err CorruptRecord"
proof -
  let ?s = "sb_record_start sb" and ?n = "sb_record_sectors sb"
  note sb = decode_superblock_fields [OF assms(4)]
  have len: "length (content d (?s + j)) = 512" if "j < ?n" for j
    using block_device.content_length [OF durable_block_device.axioms(1) [OF assms(1)] assms(2)] sb(3) that by simp
  have r: "fst (read_record dev x sb) = content_record (content x) sb"
    if "ok x" "sector_count dev x = sector_count dev d" for x
    using durable_block_device.read_record_content [OF assms(1) that(1), of sb] sb(3,6) that(2) by auto
  have upd: "record_at (content d2) ?s ?n = (record_at (content d) ?s ?n)[k * 512 + i := v]"
    unfolding assms(9) using assms(7,8) len by (intro record_at_update) simp_all
  have "Suc k * 512 \<le> ?n * 512" using assms(7) by (intro mult_le_mono1) simp
  then have i: "k * 512 + i < length (record_at (content d) ?s ?n)"
    using assms(8) len by (subst length_record_at) simp_all
  have "record_at (content d2) ?s ?n ! (k * 512 + i) = v" using upd i by simp
  moreover have "record_at (content d) ?s ?n ! (k * 512 + i) = content d (?s + k) ! i"
    using record_at_nth [of k ?n i "content d" ?s] assms(7,8) len by simp
  moreover have "crc32 (record_at (content d) ?s ?n) = sb_record_crc sb"
    using assms(5) r [OF assms(2)] by (auto simp: content_record_def Let_def split: if_splits)
  ultimately show ?thesis
    using r [OF assms(3,6)] crc32_single_byte_diff [OF i, of v] assms(10) upd
    by (simp add: content_record_def)
qed

definition formatted_sb :: Superblock where
  "formatted_sb = projr (decode_superblock (disk_content (fs_device formatted_fs) 1) (length (sectors (fs_device formatted_fs))))"

definition damaged_disk :: TestDisk where
  "damaged_disk = (let d = fs_device formatted_fs; s = sb_record_start formatted_sb in
    d\<lparr>sectors := (sectors d)[s := (sectors d ! s)[0 := sectors d ! s ! 0 + 1]]\<rparr>)"

theorem fs_record_corruption_detected_witness:
  "fst (read_record test_disk damaged_disk formatted_sb) = Err CorruptRecord"
proof -
  let ?d = "fs_device formatted_fs" and ?s = "sb_record_start formatted_sb"
  have "committed (disk_content ?d) (length (sectors ?d)) 1 (fs_active_record_start formatted_fs)
      (fs_active_record_sectors formatted_fs) []" and ok: "disk_ok ?d"
    using formatted_fs_consistent by (simp_all add: consistent_def)
  then have sb: "decode_superblock (disk_content ?d 1) (sector_count test_disk ?d) = Ok formatted_sb"
    and rec: "content_record (disk_content ?d) formatted_sb = Ok []"
    by (auto simp: committed_def formatted_sb_def super_slot_def)
  note f = decode_superblock_fields [OF sb]
  have s: "?s < length (sectors ?d)" using f(3,4) by simp
  have len: "length (sectors ?d ! ?s) = 512" using ok s by (simp add: disk_ok_def)
  have ok2: "disk_ok damaged_disk"
    using ok s len by (auto simp: disk_ok_def damaged_disk_def Let_def dest!: set_update_subset_insert [THEN subsetD])
  have c2: "disk_content damaged_disk = (disk_content ?d)(?s + 0 := (disk_content ?d (?s + 0))[0 := sectors ?d ! ?s ! 0 + 1])"
    using s by (auto simp: disk_content_def damaged_disk_def Let_def fun_eq_iff)
  have "fst (read_record test_disk ?d formatted_sb) = Ok []"
    using test_disk.read_record_content [OF ok, of formatted_sb] f(3,6) rec by auto
  from fs_record_corruption_detected [OF test_disk.durable_block_device_axioms ok ok2 sb this _ _ _ c2]
  show ?thesis using f(4) s by (simp add: damaged_disk_def Let_def disk_content_def)
qed

section \<open>Loaded trees, migration, loops\<close>

lemma get_entry_storable:
  assumes "get_entry r v pe files cur = Ok (e, cur')"
  shows "storable e \<and> name e \<notin> name ` set files"
proof -
  have default: "validate_permissions 420 = Ok ()" by (simp add: validate_permissions_def)
  show ?thesis
    using assms unfolding get_entry_def Let_def
    by (auto simp: storable_def default list_ex_iff image_iff split: if_splits)
qed

lemma get_entries_storable:
  assumes "get_entries r v pe k files cur = Ok (files', cur')"
    and "\<forall>f\<in>set files. storable f" and "distinct (map name files)"
  shows "(\<forall>f\<in>set files'. storable f) \<and> distinct (map name files') \<and> length files' = length files + k"
  using assms
proof (induction r v pe k files cur rule: get_entries.induct)
  case (2 r v pe k files cur)
  obtain e c where e: "get_entry r v pe files cur = Ok (e, c)" "get_entries r v pe k (files @ [e]) c = Ok (files', cur')"
    using "2.prems"(1) by auto
  then show ?case using "2.IH" [OF e(1)] get_entry_storable [OF e(1)] "2.prems"(2,3) by auto
qed simp

text \<open>
  C31: Whatever bytes a record holds, a list of files that \<^verbatim>\<open>decode_record\<close> accepts is well-formed: at
  most 128 entries, no name twice, every name valid UTF-8 and a valid absolute path, every permission
  in range, every directory empty of data, and, for records of version 2 and 3, every parent a
  traversable directory of the list.
\<close>

theorem fs_decoded_record_well_formed:
  assumes "decode_record r g = Ok files"
  shows "length files \<le> MAX_FILES \<and> named_ok files \<and> (\<forall>f\<in>set files. storable f)
    \<and> (\<exists>version. fs_get_u32 r 8 = Ok version \<and> (version \<noteq> 1 \<longrightarrow> validate_tree files True = Ok ()))"
proof -
  obtain version pe n cur where "fs_get_u32 r 8 = Ok version" "n \<le> 128"
    "get_entries r version pe n [] 64 = Ok (files, cur)" "validate_tree files (version \<noteq> 1) = Ok ()"
    using assms by (auto simp: decode_record_def Let_def not_less split: if_splits intro: that)
  then show ?thesis
    using get_entries_storable [of r version pe n "[]" 64 files cur] by (auto simp: named_ok_def storable_def)
qed

theorem fs_decoded_record_well_formed_witness:
  "length sample_tree \<le> MAX_FILES \<and> named_ok sample_tree"
proof -
  have "decode_record (record_layout 9 sample_tree) 9 = Ok sample_tree"
    using sample_tree_encodes unfolding encode_record_exact
    by (intro decode_record_layout) (auto simp: sample_tree_def path_a_def valid_utf8_step U64_MAX_def)
  from fs_decoded_record_well_formed [OF this] show ?thesis by blast
qed

text \<open>
  Migration of trees without directory entries (version 1 records). When
  \<^verbatim>\<open>materialize_missing_parent_directories\<close> succeeds, exactly the missing ancestors of the entries have
  been added, as empty directories with mode 0755, every old entry is unchanged, and the result is
  sorted, has no name twice and has a directory for every ancestor of every old entry.
\<close>

theorem fs_migration_adds_missing_parents:
  assumes "materialize_missing_parent_directories es = Ok es'"
    and "\<forall>e\<in>set es. validate_path (name e) = Ok ()" and "distinct (map name es)"
  shows "set es' = set es \<union> new_dir ` ((\<Union>e\<in>set es. ancestors (name e)) - name ` set es)
    \<and> distinct (map name es') \<and> sorted (map name es')
    \<and> (\<forall>e\<in>set es. \<forall>a\<in>ancestors (name e). \<exists>x. find_entry es' a = Some x \<and> kind x = Directory)
    \<and> (\<forall>e\<in>set es. find_entry es' (name e) = Some e)"
proof -
  note m = materialize_Ok [OF assms]
  have "find_entry es' (name e) = Some e" if "e \<in> set es" for e
    using m(5) that find_entry_Some [OF assms(3), of "name e" e] by simp
  with m(1-4) show ?thesis by blast
qed

definition legacy_tree :: "FileEntry list" where
  "legacy_tree = [\<lparr>name = path_a @ [0x2f, 0x62], data = [9], kind = File, permissions = 420\<rparr>]"

lemma legacy_tree_migrates:
  "materialize_missing_parent_directories legacy_tree = Ok (sort_entries (legacy_tree @ [new_dir path_a]))"
proof -
  have ne: "[0x2f, 0x61] \<noteq> root_path" by (simp add: root_path_def)
  have "collect_parents [] [0x2f, 0x61] = Ok [[0x2f, 0x61]]"
    by (subst collect_parents.simps) (simp add: legacy_tree_parent ne collect_parents.simps [of _ root_path] Let_def)
  then show ?thesis
    by (simp add: materialize_missing_parent_directories_def legacy_tree_def path_a_def legacy_tree_parent new_dir_def)
qed

theorem fs_migration_adds_missing_parents_witness:
  "sorted (map name (sort_entries (legacy_tree @ [new_dir path_a])))
    \<and> find_entry (sort_entries (legacy_tree @ [new_dir path_a])) (path_a @ [0x2f, 0x62]) = Some (hd legacy_tree)"
  using fs_migration_adds_missing_parents [OF legacy_tree_migrates]
  by (simp add: legacy_tree_def path_a_def validate_path_def slash_def)

text \<open>
  C34: The loop \<^verbatim>\<open>while parent != "/"\<close> that collects the ancestors of a path ends for every valid path: it
  returns \<^verbatim>\<open>Ok\<close> with the ancestors added, each once.
\<close>

theorem fs_parent_walk_terminates:
  assumes "validate_path p = Ok ()"
  shows "\<exists>r. collect_parents req p = Ok r \<and> set r = set req \<union> insert p (ancestors p) \<and> (distinct req \<longrightarrow> distinct r)"
  using collect_parents_ok [of p req] assms lineage_set [OF valid_not_root [OF assms]] by auto

theorem fs_parent_walk_terminates_witness:
  "\<exists>r. collect_parents [] path_a = Ok r \<and> set r = insert path_a (ancestors path_a) \<and> distinct r"
  using fs_parent_walk_terminates [of path_a "[]"] by (simp add: path_a_def validate_path_def slash_def)

text \<open>
  A commit always finds a slot. With the slot geometry computed at mount time and the active record
  in a slot of that geometry, \<^verbatim>\<open>select_record_start\<close> succeeds for every record that fits a slot, with a
  slot-aligned start that overlaps neither the superblocks nor the active record nor the end of the
  device.
\<close>

theorem fs_slot_always_free:
  assumes "record_slot_span (sector_count dev (fs_device fs)) = Ok (fs_record_slot_sectors fs)"
    and "record_slot_count (sector_count dev (fs_device fs)) (fs_record_slot_sectors fs) = Ok (fs_record_slots fs)"
    and "sector_count dev (fs_device fs) \<le> U64_MAX" and "g + 1 \<le> U64_MAX"
    and "0 < n" and "n \<le> fs_record_slot_sectors fs" and "active_aligned fs"
  shows "\<exists>start. select_record_start dev fs g n = Ok start \<and> slot_aligned fs start \<and> RECORD_AREA_START \<le> start
    \<and> start + n \<le> sector_count dev (fs_device fs)
    \<and> {start..<start + n} \<inter> {fs_active_record_start fs..<fs_active_record_start fs + fs_active_record_sectors fs} = {}"
proof -
  obtain start where s: "select_record_start dev fs g n = Ok start" "slot_aligned fs start"
    using select_available [OF assms(1-4,6,7)] by blast
  then show ?thesis using select_record_start_Ok [OF s(1) assms(5)] by auto
qed

definition slot_sample :: "TestDisk CodexFs" where
  "slot_sample = \<lparr>fs_device = TestDisk_new 300, fs_files = [], fs_generation = 1, fs_record_slots = 2,
    fs_record_slot_sectors = 146, fs_active_record_start = 154, fs_active_record_sectors = 64, fs_mount_state = Existing\<rparr>"

theorem fs_slot_always_free_witness:
  "\<exists>start. select_record_start test_disk slot_sample 2 100 = Ok start \<and> slot_aligned slot_sample start
    \<and> RECORD_AREA_START \<le> start \<and> start + 100 \<le> sector_count test_disk (fs_device slot_sample)
    \<and> {start..<start + 100} \<inter> {fs_active_record_start slot_sample..<
        fs_active_record_start slot_sample + fs_active_record_sectors slot_sample} = {}"
proof (rule fs_slot_always_free)
  show "active_aligned slot_sample"
    unfolding active_aligned_def slot_aligned_def by (auto simp: slot_sample_def intro!: exI [of _ 1])
qed (simp_all add: slot_sample_def TestDisk_new_def record_slot_span_def record_slot_count_def Let_def checked_sub_def U64_MAX_def)

lemma read_file_find:
  assumes "distinct (map name (fs_files fs))"
  shows "read_file fs p = (case find_entry (fs_files fs) p of
      Some e \<Rightarrow> if kind e = File \<and> permissions e AND OWNER_READ \<noteq> 0 then Some (data e) else None | None \<Rightarrow> None)"
proof -
  have "map_option data (find (\<lambda>entry. name entry = p \<and> kind entry = File \<and> permissions entry AND 256 \<noteq> 0) es) =
      (case find_entry es p of
        Some e \<Rightarrow> if kind e = File \<and> permissions e AND 256 \<noteq> 0 then Some (data e) else None | None \<Rightarrow> None)"
    if "distinct (map name es)" for es
    using that
  proof (induction es)
    case (Cons e es)
    then have "name e = p \<Longrightarrow> find_entry es p = None" by (auto simp: find_entry_None)
    with Cons show ?case by auto
  qed simp
  from this [OF assms] show ?thesis unfolding read_file_def OWNER_READ_def .
qed

text \<open>
  C28: Reading back. After \<^verbatim>\<open>write_file\<close> returns \<^verbatim>\<open>Ok\<close>, \<^verbatim>\<open>read_file\<close> gives the written bytes at that path
  (unless the file, kept with its old permissions, is not readable), \<^verbatim>\<open>metadata\<close> gives their length, and
  every other path reads as before.
\<close>

theorem fs_write_then_read:
  assumes "durable_block_device dev ok content images"
    and "consistent dev ok images fs" and "wf_tree (fs_files fs)" and "valid_utf8 path"
    and "write_file dev fs path bs = (Ok (), fs')"
  defines "perms \<equiv> (case find_entry (fs_files fs) path of Some e \<Rightarrow> permissions e | None \<Rightarrow> DEFAULT_FILE_PERMISSIONS)"
  shows "read_file fs' path = (if perms AND OWNER_READ \<noteq> 0 then Some bs else None)
    \<and> metadata fs' path = Ok \<lparr>md_path = path, md_kind = File, md_permissions = perms, md_length = length bs\<rparr>
    \<and> (\<forall>q. q \<noteq> path \<longrightarrow> read_file fs' q = read_file fs q \<and> metadata fs' q = metadata fs q)"
proof -
  have run: "run_op dev fs (WriteFile path bs) = (Ok (), fs')" using assms(5) by simp
  have law: "wf_tree (fs_files fs')"
    "find_entry (fs_files fs') = spec_op (WriteFile path bs) (find_entry (fs_files fs))"
    using durable_block_device.run_op_law(1) [OF assms(1-3) _ run] assms(4) by simp_all
  obtain n where n: "write_file_next (fs_files fs) path bs None = Ok n"
    using assms(5) by (cases "write_file_next (fs_files fs) path bs None") (auto simp: op_defs)
  have v: "validate_path path = Ok ()" using n by (auto simp: write_file_next_def)
  have old: "kind e = File \<and> name e = path" if "find_entry (fs_files fs) path = Some e" for e
    using write_file_next_prepared(2) [OF assms(3,4) n] that find_entry_SomeD by blast
  have new: "find_entry (fs_files fs') path = Some \<lparr>name = path, data = bs, kind = File, permissions = perms\<rparr>"
    using law(2) old by (auto simp: written_def perms_def split: option.splits)
  have other: "find_entry (fs_files fs') q = find_entry (fs_files fs) q" if "q \<noteq> path" for q
    using law(2) that by simp
  note rd = read_file_find [OF wf_treeD(1)]
  have "read_file fs' path = (if perms AND OWNER_READ \<noteq> 0 then Some bs else None)"
    using rd [OF law(1)] new by simp
  moreover have "metadata fs' path = Ok \<lparr>md_path = path, md_kind = File, md_permissions = perms, md_length = length bs\<rparr>"
    using new v valid_not_root [OF v] by (simp add: metadata_def)
  moreover have "read_file fs' q = read_file fs q \<and> metadata fs' q = metadata fs q" if "q \<noteq> path" for q
    using rd [OF law(1)] rd [OF assms(3)] other [OF that] by (simp add: metadata_def)
  ultimately show ?thesis by blast
qed

theorem fs_write_then_read_witness:
  "read_file (snd (write_file test_disk formatted_fs path_a [1, 2])) path_a = Some [1, 2]"
proof -
  obtain fs' where run: "write_file test_disk formatted_fs path_a [1, 2] = (Ok (), fs')"
    using write_sample_ok by blast
  have "valid_utf8 path_a" by (simp add: path_a_def valid_utf8_step)
  from fs_write_then_read [OF test_disk.durable_block_device_axioms formatted_fs_consistent(1) formatted_fs_tree this run]
  show ?thesis by (simp add: run formatted_fs_consistent(2))
qed

end
