(* ===== verification/UserElf.thy ===== *)
theory UserElf
  imports Prelude
begin

text \<open>
  The ELF64 loader of \<^verbatim>\<open>kernel/src/user_elf.rs\<close>: parsing of a user executable and the builder of the
  flat read-execute image. What the parser accepts never has a segment that is writable and
  executable, and it starts inside the file-backed bytes of an executable segment.
\<close>

definition ELF_MAGIC :: bytes where
  "ELF_MAGIC = [0x7f, 0x45, 0x4c, 0x46]"

definition ELF_CLASS_64 :: u8 where
  [simp]: "ELF_CLASS_64 = 2"

definition ELF_DATA_LE :: u8 where
  [simp]: "ELF_DATA_LE = 1"

definition ELF_VERSION_CURRENT_U8 :: u8 where
  [simp]: "ELF_VERSION_CURRENT_U8 = 1"

definition ELF_VERSION_CURRENT_U32 :: u32 where
  [simp]: "ELF_VERSION_CURRENT_U32 = 1"

definition ET_EXEC :: u16 where
  [simp]: "ET_EXEC = 2"

definition EM_X86_64 :: u16 where
  [simp]: "EM_X86_64 = 62"

definition PT_LOAD :: u32 where
  [simp]: "PT_LOAD = 1"

definition PF_X :: u32 where
  [simp]: "PF_X = 1"

definition PF_W :: u32 where
  [simp]: "PF_W = 2"

definition PF_R :: u32 where
  [simp]: "PF_R = 4"

definition ELF64_HEADER_BYTES :: nat where
  [simp]: "ELF64_HEADER_BYTES = 64"

definition ELF64_PROGRAM_HEADER_BYTES :: nat where
  [simp]: "ELF64_PROGRAM_HEADER_BYTES = 56"

definition MAX_LOAD_SEGMENTS :: nat where
  [simp]: "MAX_LOAD_SEGMENTS = 16"

definition DEFAULT_LOAD_OFFSET :: nat where
  [simp]: "DEFAULT_LOAD_OFFSET = 4096"

datatype UserElfError =
    ImageTooSmall
  | BadMagic
  | UnsupportedClass
  | UnsupportedEndian
  | UnsupportedVersion
  | UnsupportedType
  | UnsupportedMachine
  | ProgramHeaderTableOutOfBounds
  | UnsupportedProgramHeaderSize
  | TooManyLoadSegments
  | MissingLoadSegment
  | InvalidLoadSegment
  | WritableExecutableSegment
  | EntryNotExecutable
  | UserElf_AddressOverflow

record UserElfSegment =
  es_virtual_address :: nat
  es_data :: bytes
  es_memory_size :: nat
  es_writable :: bool
  es_executable :: bool

record UserElfImage =
  ei_entry :: nat
  ei_segments :: "UserElfSegment list"

section \<open>Reading\<close>

definition elf_read_u16 :: "bytes \<Rightarrow> nat \<Rightarrow> UserElfError + u16" where
  "elf_read_u16 input offset = try_bind (ok_or (get_slice input offset (offset + 2)) ImageTooSmall) (\<lambda>bs. Ok (from_le bs))"

definition elf_read_u32 :: "bytes \<Rightarrow> nat \<Rightarrow> UserElfError + u32" where
  "elf_read_u32 input offset = try_bind (ok_or (get_slice input offset (offset + 4)) ImageTooSmall) (\<lambda>bs. Ok (from_le bs))"

definition elf_read_u64 :: "bytes \<Rightarrow> nat \<Rightarrow> UserElfError + u64" where
  "elf_read_u64 input offset = try_bind (ok_or (get_slice input offset (offset + 8)) ImageTooSmall) (\<lambda>bs. Ok (from_le bs))"

definition is_power_of_two :: "nat \<Rightarrow> bool" where
  "is_power_of_two n \<longleftrightarrow> list_ex (\<lambda>k. n = 2 ^ k) [0..<64]"

definition valid_alignment :: "nat \<Rightarrow> nat \<Rightarrow> nat \<Rightarrow> bool" where
  "valid_alignment file_offset virtual_address alignment =
    (if alignment \<le> 1 then True
     else is_power_of_two alignment \<and> file_offset mod alignment = virtual_address mod alignment)"

text \<open>One program header: nothing for a header that is not \<^verbatim>\<open>PT_LOAD\<close>, else the segment it describes.\<close>

definition parse_segment :: "bytes \<Rightarrow> nat \<Rightarrow> nat \<Rightarrow> UserElfError + UserElfSegment option" where
  "parse_segment bytes offset loaded =
    try_bind (elf_read_u32 bytes offset) (\<lambda>p_type.
      if p_type \<noteq> PT_LOAD then Ok None
      else if MAX_LOAD_SEGMENTS \<le> loaded then Err TooManyLoadSegments
      else
        try_bind (elf_read_u32 bytes (offset + 4)) (\<lambda>flags.
        try_bind (elf_read_u64 bytes (offset + 8)) (\<lambda>file_offset.
        try_bind (elf_read_u64 bytes (offset + 16)) (\<lambda>virtual_address.
        try_bind (elf_read_u64 bytes (offset + 32)) (\<lambda>file_size.
        try_bind (elf_read_u64 bytes (offset + 40)) (\<lambda>memory_size.
        try_bind (elf_read_u64 bytes (offset + 48)) (\<lambda>alignment.
          if memory_size = 0 \<or> memory_size < file_size \<or> flags AND (PF_W OR PF_X) = (PF_W OR PF_X)
             \<or> \<not> valid_alignment (unat file_offset) (unat virtual_address) (unat alignment)
          then (if flags AND (PF_W OR PF_X) = (PF_W OR PF_X) then Err WritableExecutableSegment
                else Err InvalidLoadSegment)
          else
            try_bind (ok_or (checked_add (unat file_offset) (unat file_size)) InvalidLoadSegment) (\<lambda>file_end.
              if length bytes < file_end then Err InvalidLoadSegment
              else
                try_bind (ok_or (checked_add (unat virtual_address) (unat memory_size)) UserElf_AddressOverflow) (\<lambda>_.
                  Ok (Some \<lparr>es_virtual_address = unat virtual_address,
                    es_data = slice bytes (unat file_offset) file_end, es_memory_size = unat memory_size,
                    es_writable = (flags AND PF_W \<noteq> 0), es_executable = (flags AND PF_X \<noteq> 0)\<rparr>))))))))))"

fun parse_segments :: "bytes \<Rightarrow> nat \<Rightarrow> nat list \<Rightarrow> UserElfSegment list \<Rightarrow> UserElfError + UserElfSegment list" where
  "parse_segments bytes phoff [] segments = Ok segments"
| "parse_segments bytes phoff (index # rest) segments =
    try_bind (parse_segment bytes (phoff + index * ELF64_PROGRAM_HEADER_BYTES) (length segments)) (\<lambda>seg.
      parse_segments bytes phoff rest (case seg of None \<Rightarrow> segments | Some s \<Rightarrow> segments @ [s]))"

definition entry_in_segment :: "nat \<Rightarrow> UserElfSegment \<Rightarrow> bool" where
  "entry_in_segment entry segment \<longleftrightarrow> es_executable segment \<and> es_virtual_address segment \<le> entry
    \<and> entry < saturating_add (es_virtual_address segment) (length (es_data segment))"

definition elf_parse :: "bytes \<Rightarrow> UserElfError + UserElfImage" where
  "elf_parse bytes =
    (if length bytes < ELF64_HEADER_BYTES then Err ImageTooSmall
     else if slice bytes 0 4 \<noteq> ELF_MAGIC then Err BadMagic
     else if bytes ! 4 \<noteq> ELF_CLASS_64 then Err UnsupportedClass
     else if bytes ! 5 \<noteq> ELF_DATA_LE then Err UnsupportedEndian
     else if bytes ! 6 \<noteq> ELF_VERSION_CURRENT_U8 then Err UnsupportedVersion
     else
       try_bind (elf_read_u32 bytes 20) (\<lambda>version.
         if version \<noteq> ELF_VERSION_CURRENT_U32 then Err UnsupportedVersion
         else
       try_bind (elf_read_u16 bytes 16) (\<lambda>e_type.
         if e_type \<noteq> ET_EXEC then Err UnsupportedType
         else
       try_bind (elf_read_u16 bytes 18) (\<lambda>machine.
         if machine \<noteq> EM_X86_64 then Err UnsupportedMachine
         else
       try_bind (elf_read_u16 bytes 52) (\<lambda>ehsize.
         if unat ehsize \<noteq> ELF64_HEADER_BYTES then Err ImageTooSmall
         else
       try_bind (elf_read_u16 bytes 54) (\<lambda>phentsize.
         if unat phentsize \<noteq> ELF64_PROGRAM_HEADER_BYTES then Err UnsupportedProgramHeaderSize
         else
       try_bind (elf_read_u64 bytes 24) (\<lambda>entry.
       try_bind (elf_read_u64 bytes 32) (\<lambda>phoff.
       try_bind (elf_read_u16 bytes 56) (\<lambda>phnum.
       try_bind (ok_or (checked_mul (unat phnum) ELF64_PROGRAM_HEADER_BYTES) ProgramHeaderTableOutOfBounds) (\<lambda>ph_table_bytes.
       try_bind (ok_or (checked_add (unat phoff) ph_table_bytes) ProgramHeaderTableOutOfBounds) (\<lambda>ph_end.
         if phnum = 0 \<or> length bytes < ph_end then Err ProgramHeaderTableOutOfBounds
         else
       try_bind (parse_segments bytes (unat phoff) [0..<unat phnum] []) (\<lambda>segments.
         if segments = [] then Err MissingLoadSegment
         else if \<not> list_ex (entry_in_segment (unat entry)) segments then Err EntryNotExecutable
         else Ok \<lparr>ei_entry = unat entry, ei_segments = segments\<rparr>))))))))))))"

section \<open>Building\<close>

definition build_flat_rx_executable :: "nat \<Rightarrow> bytes \<Rightarrow> UserElfError + bytes" where
  "build_flat_rx_executable load_base code =
    (if code = [] then Err InvalidLoadSegment
     else
       let memory_size = length code in
       try_bind (ok_or (checked_add load_base memory_size) UserElf_AddressOverflow) (\<lambda>_.
       try_bind (ok_or (checked_add DEFAULT_LOAD_OFFSET (length code)) UserElf_AddressOverflow) (\<lambda>image_len.
         let image = replicate image_len 0;
             image = copy_from_slice image 0 ELF_MAGIC;
             image = image[4 := ELF_CLASS_64];
             image = image[5 := ELF_DATA_LE];
             image = image[6 := ELF_VERSION_CURRENT_U8];
             image = put_u16 image 16 ET_EXEC;
             image = put_u16 image 18 EM_X86_64;
             image = put_u32 image 20 ELF_VERSION_CURRENT_U32;
             image = put_u64 image 24 (word_of_nat load_base);
             image = put_u64 image 32 (word_of_nat ELF64_HEADER_BYTES);
             image = put_u16 image 52 (word_of_nat ELF64_HEADER_BYTES);
             image = put_u16 image 54 (word_of_nat ELF64_PROGRAM_HEADER_BYTES);
             image = put_u16 image 56 1;
             ph = ELF64_HEADER_BYTES;
             image = put_u32 image ph PT_LOAD;
             image = put_u32 image (ph + 4) (PF_R OR PF_X);
             image = put_u64 image (ph + 8) (word_of_nat DEFAULT_LOAD_OFFSET);
             image = put_u64 image (ph + 16) (word_of_nat load_base);
             image = put_u64 image (ph + 24) (word_of_nat load_base);
             image = put_u64 image (ph + 32) (word_of_nat memory_size);
             image = put_u64 image (ph + 40) (word_of_nat memory_size);
             image = put_u64 image (ph + 48) 0x1000;
             image = copy_from_slice image DEFAULT_LOAD_OFFSET code
         in Ok image)))"

section \<open>What the parser accepts\<close>

definition loadable_segment :: "bytes \<Rightarrow> UserElfSegment \<Rightarrow> bool" where
  "loadable_segment bytes s \<longleftrightarrow>
    \<not> (es_writable s \<and> es_executable s) \<and> 0 < es_memory_size s \<and> length (es_data s) \<le> es_memory_size s \<and>
    es_virtual_address s + es_memory_size s \<le> U64_MAX \<and>
    (\<exists>start. start + length (es_data s) \<le> length bytes \<and> es_data s = slice bytes start (start + length (es_data s)))"

lemma write_execute_flags: "flags AND 3 = 3 \<longleftrightarrow> flags AND 2 \<noteq> 0 \<and> flags AND 1 \<noteq> 0" for flags :: u32
proof -
  have one: "flags AND 1 \<noteq> 0 \<longleftrightarrow> bit flags 0"
    by (simp add: and_one_eq even_iff_mod_2_eq_zero bit_0 odd_iff_mod_2_eq_one)
  have two: "flags AND 2 \<noteq> 0 \<longleftrightarrow> bit flags 1"
    using and_exp_eq_0_iff_not_bit [of flags 1] by simp
  have "flags AND 3 = 3 \<longleftrightarrow> bit flags 0 \<and> bit flags 1"
  proof
    assume "flags AND 3 = 3"
    then have "bit (flags AND 3) 0 = bit (3 :: u32) 0" and "bit (flags AND 3) 1 = bit (3 :: u32) 1" by simp_all
    then show "bit flags 0 \<and> bit flags 1" by (simp add: bit_and_iff)
  next
    assume b: "bit flags 0 \<and> bit flags 1"
    have m: "(3 :: u32) = mask 2" by (simp add: mask_eq_exp_minus_1)
    have "k < 2 \<longleftrightarrow> k = 0 \<or> k = 1" for k :: nat by auto
    with b show "flags AND 3 = 3"
      unfolding m by (intro bit_word_eqI) (auto simp: bit_and_iff bit_mask_iff)
  qed
  then show ?thesis by (simp only: one two) blast
qed

lemma parse_segment_loadable:
  assumes "parse_segment bytes offset loaded = Ok (Some s)"
  shows "loadable_segment bytes s" and "loaded < MAX_LOAD_SEGMENTS"
  using assms
  by (auto simp: parse_segment_def loadable_segment_def write_execute_flags word_less_nat_alt unat_gt_0
      split: if_splits intro!: exI [of _ "unat _"])

lemma parse_segments_loadable:
  assumes "parse_segments bytes phoff indices acc = Ok segments"
    and "\<forall>s\<in>set acc. loadable_segment bytes s" and "length acc \<le> MAX_LOAD_SEGMENTS"
  shows "(\<forall>s\<in>set segments. loadable_segment bytes s) \<and> length segments \<le> MAX_LOAD_SEGMENTS"
  using assms
proof (induction bytes phoff indices acc rule: parse_segments.induct)
  case (2 bytes phoff index rest acc)
  from "2.prems"(1) obtain seg where seg: "parse_segment bytes (phoff + index * ELF64_PROGRAM_HEADER_BYTES) (length acc) = Ok seg"
    and rest: "parse_segments bytes phoff rest (case seg of None \<Rightarrow> acc | Some s \<Rightarrow> acc @ [s]) = Ok segments"
    by (auto simp del: ELF64_PROGRAM_HEADER_BYTES_def)
  show ?case
  proof (rule "2.IH" [OF seg rest])
    show "\<forall>s\<in>set (case seg of None \<Rightarrow> acc | Some s \<Rightarrow> acc @ [s]). loadable_segment bytes s"
      using "2.prems"(2) parse_segment_loadable(1) seg by (auto split: option.splits)
    show "length (case seg of None \<Rightarrow> acc | Some s \<Rightarrow> acc @ [s]) \<le> MAX_LOAD_SEGMENTS"
      using "2.prems"(3) parse_segment_loadable(2) seg by (fastforce split: option.splits)
  qed
qed simp

lemma elf_parse_Ok:
  assumes "elf_parse bytes = Ok img"
  obtains phoff phnum where "parse_segments bytes phoff [0..<phnum] [] = Ok (ei_segments img)"
    and "ei_segments img \<noteq> []" and "list_ex (entry_in_segment (ei_entry img)) (ei_segments img)"
  using assms by (auto simp: elf_parse_def split: if_splits)

text \<open>
  C12: an executable that the loader accepts has between one and sixteen segments. None of them is
  both writable and executable, each one's bytes are a range of the file no longer than the memory it
  asks for, its addresses do not overflow, and the entry point is a file-backed byte of an executable
  segment.
\<close>

theorem elf_accepted_image_safe:
  assumes "elf_parse bytes = Ok img"
  shows "(\<forall>s\<in>set (ei_segments img). loadable_segment bytes s) \<and>
    0 < length (ei_segments img) \<and> length (ei_segments img) \<le> MAX_LOAD_SEGMENTS \<and>
    (\<exists>s\<in>set (ei_segments img). es_executable s \<and> \<not> es_writable s \<and>
      es_virtual_address s \<le> ei_entry img \<and> ei_entry img < es_virtual_address s + length (es_data s))"
proof -
  from assms obtain phoff phnum where p: "parse_segments bytes phoff [0..<phnum] [] = Ok (ei_segments img)"
    and ne: "ei_segments img \<noteq> []" and ex: "list_ex (entry_in_segment (ei_entry img)) (ei_segments img)"
    by (rule elf_parse_Ok)
  have ok: "(\<forall>s\<in>set (ei_segments img). loadable_segment bytes s) \<and> length (ei_segments img) \<le> MAX_LOAD_SEGMENTS"
    by (rule parse_segments_loadable [OF p]) simp_all
  from ex obtain s where s: "s \<in> set (ei_segments img)" "entry_in_segment (ei_entry img) s"
    by (auto simp: list_ex_iff)
  then have l: "loadable_segment bytes s" using ok by blast
  then have "saturating_add (es_virtual_address s) (length (es_data s)) = es_virtual_address s + length (es_data s)"
    by (intro saturating_add_exact) (auto simp: loadable_segment_def)
  then have "es_executable s \<and> \<not> es_writable s \<and>
      es_virtual_address s \<le> ei_entry img \<and> ei_entry img < es_virtual_address s + length (es_data s)"
    using s(2) l by (auto simp: entry_in_segment_def loadable_segment_def)
  then show ?thesis using ok ne s(1) by blast
qed

section \<open>The flat executable\<close>

definition flat_header :: "nat \<Rightarrow> bytes \<Rightarrow> bytes" where
  "flat_header base code =
    ELF_MAGIC @ [ELF_CLASS_64, ELF_DATA_LE, ELF_VERSION_CURRENT_U8] @ replicate 9 0 @
    to_le 2 ET_EXEC @ to_le 2 EM_X86_64 @ to_le 4 ELF_VERSION_CURRENT_U32 @
    to_le 8 (word_of_nat base :: u64) @ to_le 8 (64 :: u64) @ replicate 12 0 @
    to_le 2 (64 :: u16) @ to_le 2 (56 :: u16) @ to_le 2 (1 :: u16) @ replicate 6 0 @
    to_le 4 PT_LOAD @ to_le 4 (PF_R OR PF_X) @ to_le 8 (4096 :: u64) @
    to_le 8 (word_of_nat base :: u64) @ to_le 8 (word_of_nat base :: u64) @
    to_le 8 (word_of_nat (length code) :: u64) @ to_le 8 (word_of_nat (length code) :: u64) @
    to_le 8 (0x1000 :: u64) @ replicate 3976 0"

lemma length_flat_header [simp]: "length (flat_header base code) = 4096"
  by (simp add: flat_header_def ELF_MAGIC_def)

lemma build_flat_layout:
  assumes "build_flat_rx_executable base code = Ok img"
  shows "img = flat_header base code @ code" and "code \<noteq> []" and "base + length code \<le> U64_MAX"
proof -
  show "code \<noteq> []" and "base + length code \<le> U64_MAX"
    using assms by (auto simp: build_flat_rx_executable_def Let_def split: if_splits)
  show "img = flat_header base code @ code"
    using assms unfolding build_flat_rx_executable_def flat_header_def Let_def
    by (simp split: if_splits add: put_defs list_update_copy buf_simps ELF_MAGIC_def del: to_le.simps to_le_zero replicate_Suc)
qed

lemma flat_header_fields:
  "flat_header base code ! 4 = 2" "flat_header base code ! 5 = 1" "flat_header base code ! 6 = 1"
  "slice (flat_header base code) 0 4 = ELF_MAGIC"
  "slice (flat_header base code) 20 24 = to_le 4 (1 :: u32)" "slice (flat_header base code) 16 18 = to_le 2 (2 :: u16)"
  "slice (flat_header base code) 18 20 = to_le 2 (62 :: u16)" "slice (flat_header base code) 52 54 = to_le 2 (64 :: u16)"
  "slice (flat_header base code) 54 56 = to_le 2 (56 :: u16)" "slice (flat_header base code) 56 58 = to_le 2 (1 :: u16)"
  "slice (flat_header base code) 24 32 = to_le 8 (word_of_nat base :: u64)"
  "slice (flat_header base code) 32 40 = to_le 8 (64 :: u64)"
  "slice (flat_header base code) 64 68 = to_le 4 (1 :: u32)" "slice (flat_header base code) 68 72 = to_le 4 (4 OR 1 :: u32)"
  "slice (flat_header base code) 72 80 = to_le 8 (4096 :: u64)"
  "slice (flat_header base code) 80 88 = to_le 8 (word_of_nat base :: u64)"
  "slice (flat_header base code) 96 104 = to_le 8 (word_of_nat (length code) :: u64)"
  "slice (flat_header base code) 104 112 = to_le 8 (word_of_nat (length code) :: u64)"
  "slice (flat_header base code) 112 120 = to_le 8 (4096 :: u64)"
  by (simp_all add: flat_header_def ELF_MAGIC_def slice_def nth_append del: to_le.simps to_le_zero)

lemma flat_reads:
  "elf_read_u16 (flat_header base code @ code) off = elf_read_u16 (flat_header base code) off" if "off < 4000" for off
  using that by (simp add: elf_read_u16_def get_slice_def)

lemma flat_reads32:
  "elf_read_u32 (flat_header base code @ code) off = elf_read_u32 (flat_header base code) off" if "off < 4000" for off
  using that by (simp add: elf_read_u32_def get_slice_def)

lemma flat_reads64:
  "elf_read_u64 (flat_header base code @ code) off = elf_read_u64 (flat_header base code) off" if "off < 4000" for off
  using that by (simp add: elf_read_u64_def get_slice_def)

lemmas flat_read_simps = flat_reads flat_reads32 flat_reads64 elf_read_u16_def elf_read_u32_def elf_read_u64_def get_slice_def
  flat_header_fields

definition flat_image :: "nat \<Rightarrow> bytes \<Rightarrow> UserElfImage" where
  "flat_image base code = \<lparr>ei_entry = base, ei_segments = [\<lparr>es_virtual_address = base, es_data = code,
     es_memory_size = length code, es_writable = False, es_executable = True\<rparr>]\<rparr>"

lemma page_alignment: "valid_alignment 4096 base 4096 \<longleftrightarrow> base mod 4096 = 0"
proof -
  have "is_power_of_two 4096"
    unfolding is_power_of_two_def list_ex_iff by (rule bexI [of _ 12]) simp_all
  then show ?thesis by (auto simp: valid_alignment_def)
qed

lemma flat_parse_segment:
  assumes "code \<noteq> []" and "base + length code \<le> U64_MAX" and "4096 + length code \<le> U64_MAX"
  shows "parse_segment (flat_header base code @ code) 64 0 =
    (if 4096 dvd base then Ok (Some (hd (ei_segments (flat_image base code)))) else Err InvalidLoadSegment)"
proof -
  have b: "unat (word_of_nat base :: u64) = base" and l: "unat (word_of_nat (length code) :: u64) = length code"
    using assms(2) by (simp_all add: unat_of_nat U64_MAX_def take_bit_nat_eq_self_iff)
  have nz: "(word_of_nat (length code) :: u64) \<noteq> 0"
    using l assms(1) by (metis length_0_conv unat_0)
  have u: "unat (4096 :: u64) = 4096" by simp
  have f: "(5 :: u32) AND 3 \<noteq> 3" "(5 :: u32) AND 2 = 0" "(5 :: u32) AND 1 \<noteq> 0" by simp_all
  have d: "slice (flat_header base code @ code) 4096 (4096 + length code) = code" by simp
  show ?thesis
    using assms nz f by (simp add: parse_segment_def flat_read_simps b l d page_alignment flat_image_def mod_eq_0_iff_dvd
        del: to_le.simps slice_append_right)
qed

lemma flat_entry_in_segment:
  assumes "code \<noteq> []" and "base + length code \<le> U64_MAX"
  shows "list_ex (entry_in_segment base) (ei_segments (flat_image base code))"
  using assms by (cases code) (simp_all add: flat_image_def entry_in_segment_def)

lemma flat_parse:
  assumes "code \<noteq> []" and "base + length code \<le> U64_MAX" and "4096 + length code \<le> U64_MAX"
  shows "elf_parse (flat_header base code @ code) =
    (if 4096 dvd base then Ok (flat_image base code) else Err InvalidLoadSegment)"
proof -
  have b: "unat (word_of_nat base :: u64) = base"
    using assms(2) by (simp add: unat_of_nat U64_MAX_def take_bit_nat_eq_self_iff)
  have h: "slice (flat_header base code @ code) 0 4 = ELF_MAGIC" "(flat_header base code @ code) ! 4 = 2"
    "(flat_header base code @ code) ! 5 = 1" "(flat_header base code @ code) ! 6 = 1"
    by (simp_all add: flat_header_fields nth_append)
  have m: "checked_mul (Suc 0) 56 = Some 56" "checked_add 64 56 = Some 120" by (simp_all add: U64_MAX_def)
  have e: "[hd (ei_segments (flat_image base code))] = ei_segments (flat_image base code)"
    "ei_segments (flat_image base code) \<noteq> []" "ei_entry (flat_image base code) = base"
    by (simp_all add: flat_image_def)
  have i: "\<lparr>ei_entry = base, ei_segments = ei_segments (flat_image base code)\<rparr> = flat_image base code"
    by (simp add: flat_image_def)
  show ?thesis
    using flat_parse_segment [OF assms] flat_entry_in_segment [OF assms(1,2)]
    by (simp add: elf_parse_def flat_read_simps h b m e i del: to_le.simps checked_add_Some checked_mul_Some)
qed

text \<open>
  the flat executable that the builder makes of some code is accepted by the loader exactly when the
  load address is page aligned, and it then loads as the single read-execute segment with exactly
  that code, entered at its first byte; for any other load address the loader reports an invalid segment.
\<close>

theorem elf_build_parse:
  assumes "build_flat_rx_executable base code = Ok img"
  shows "elf_parse img = (if 4096 dvd base
    then Ok \<lparr>ei_entry = base, ei_segments = [\<lparr>es_virtual_address = base, es_data = code,
      es_memory_size = length code, es_writable = False, es_executable = True\<rparr>]\<rparr>
    else Err InvalidLoadSegment)"
proof -
  have "4096 + length code \<le> U64_MAX"
    using assms by (auto simp: build_flat_rx_executable_def Let_def split: if_splits)
  then show ?thesis
    unfolding build_flat_layout(1) [OF assms]
    using flat_parse [of code base, OF build_flat_layout(2,3) [OF assms]] by (simp add: flat_image_def)
qed

definition sample_elf :: bytes where
  "sample_elf = flat_header 0x200000000000 [0xcc, 0xc3] @ [0xcc, 0xc3]"

lemma sample_elf_build: "build_flat_rx_executable 0x200000000000 [0xcc, 0xc3] = Ok sample_elf"
proof -
  obtain img where "build_flat_rx_executable 0x200000000000 [0xcc, 0xc3] = Ok img"
    by (simp add: build_flat_rx_executable_def checked_add_def U64_MAX_def Let_def)
  then show ?thesis using build_flat_layout(1) by (simp add: sample_elf_def)
qed

theorem elf_build_parse_witness:
  "elf_parse sample_elf = Ok \<lparr>ei_entry = 0x200000000000, ei_segments = [\<lparr>es_virtual_address = 0x200000000000,
    es_data = [0xcc, 0xc3], es_memory_size = 2, es_writable = False, es_executable = True\<rparr>]\<rparr>"
  using elf_build_parse [OF sample_elf_build] by simp

theorem elf_accepted_image_safe_witness:
  "list_all (loadable_segment sample_elf) (ei_segments (flat_image 0x200000000000 [0xcc, 0xc3]))"
proof -
  have "elf_parse sample_elf = Ok (flat_image 0x200000000000 [0xcc, 0xc3])"
    unfolding sample_elf_def by (subst flat_parse) (simp_all add: U64_MAX_def)
  from elf_accepted_image_safe [OF this] show ?thesis by (simp add: list_all_iff)
qed

end
