(* ===== verification/VmTables.thy ===== *)
theory VmTables
  imports MemoryInit
begin

text \<open>
  \<^verbatim>\<open>kernel/src/vm.rs\<close>, part one: page-table entries and indices, page alignment, the rules a user
  program has to satisfy before it is loaded, and the plan of page permissions for the kernel image.
  Addresses and entries are natural numbers below \<open>2 ^ 64\<close>; the bitwise operations are those of the
  code.
\<close>

section \<open>Constants\<close>

definition DEMO_VIRT_BASE :: nat where
  [simp]: "DEMO_VIRT_BASE = 0x400000000000"

definition HIGH_HALF_DIRECT_MAP_BASE :: nat where
  [simp]: "HIGH_HALF_DIRECT_MAP_BASE = 0xffff800000000000"

definition IDENTITY_BOOT_WINDOW_BYTES :: nat where
  [simp]: "IDENTITY_BOOT_WINDOW_BYTES = 4194304"

definition HIGH_HALF_BOOT_WINDOW_BYTES :: nat where
  [simp]: "HIGH_HALF_BOOT_WINDOW_BYTES = 4194304"

definition STACK_WINDOW_BYTES :: nat where
  [simp]: "STACK_WINDOW_BYTES = 2097152"

definition PAGE_TABLE_ENTRIES :: nat where
  [simp]: "PAGE_TABLE_ENTRIES = 512"

definition ADDRESS_MASK :: nat where
  "ADDRESS_MASK = 0x000ffffffffff000"

definition ENTRY_PRESENT :: nat where
  "ENTRY_PRESENT = 1"

definition ENTRY_WRITABLE :: nat where
  "ENTRY_WRITABLE = 2"

definition ENTRY_USER :: nat where
  "ENTRY_USER = 4"

definition ENTRY_NO_EXECUTE :: nat where
  "ENTRY_NO_EXECUTE = 0x8000000000000000"

definition USER_CODE_BASE :: nat where
  [simp]: "USER_CODE_BASE = 0x200000000000"

definition USER_STACK_TOP :: nat where
  [simp]: "USER_STACK_TOP = USER_CODE_BASE + 0x200000"

definition USER_PROGRAM_LIMIT :: nat where
  [simp]: "USER_PROGRAM_LIMIT = USER_STACK_TOP - PAGE_SIZE"

definition MAX_USER_OWNED_PAGES :: nat where
  [simp]: "MAX_USER_OWNED_PAGES = 128"

datatype VmError =
    FirmwareServicesActive
  | NotInitialized
  | InvalidPageCount
  | UnalignedVirtualAddress
  | UnalignedPhysicalAddress
  | BootIdentityConflict
  | BootStackConflict
  | BootWindowConflict
  | ReservedIdentityConflict
  | ReservedWindowConflict
  | KernelImageConflict
  | KernelWritableExecutable
  | UserProgramEmpty
  | UserProgramTooLarge
  | UserRegionConflict
  | UserMappingConflict
  | UserEntryInvalid
  | UserWritableExecutable
  | UserPageTrackingCapacity
  | ActiveAddressSpace
  | PageReclamationFailed
  | DirectMapUnavailable
  | ReservedRangeCapacity
  | AddressOverflow
  | AlreadyMapped
  | OutOfPhysicalPages

section \<open>Addresses and entries\<close>

definition vm_align_down :: "nat \<Rightarrow> nat" where
  "vm_align_down v = mask_down v PAGE_SIZE"

definition vm_align_up :: "nat \<Rightarrow> nat" where
  "vm_align_up v = mask_down (saturating_add v (PAGE_SIZE - 1)) PAGE_SIZE"

definition vm_align_up_checked :: "nat \<Rightarrow> VmError + nat" where
  "vm_align_up_checked v = ok_or (map_option (\<lambda>v. mask_down v PAGE_SIZE) (checked_add v (PAGE_SIZE - 1))) AddressOverflow"

definition higher_half_phys :: "nat \<Rightarrow> nat option" where
  "higher_half_phys phys = checked_add HIGH_HALF_DIRECT_MAP_BASE phys"

definition split_indices :: "nat \<Rightarrow> nat list" where
  "split_indices virt =
    [drop_bit 39 virt AND 0x1ff, drop_bit 30 virt AND 0x1ff, drop_bit 21 virt AND 0x1ff, drop_bit 12 virt AND 0x1ff]"

definition vm_ranges_overlap :: "nat \<Rightarrow> nat \<Rightarrow> nat \<Rightarrow> nat \<Rightarrow> bool" where
  "vm_ranges_overlap a_start a_end b_start b_end \<longleftrightarrow> a_start < b_end \<and> b_start < a_end"

definition make_table_entry :: "nat \<Rightarrow> nat" where
  "make_table_entry phys = (phys AND ADDRESS_MASK) OR ENTRY_PRESENT OR ENTRY_WRITABLE"

definition make_user_table_entry :: "nat \<Rightarrow> nat" where
  "make_user_table_entry phys = (phys AND ADDRESS_MASK) OR ENTRY_PRESENT OR ENTRY_WRITABLE OR ENTRY_USER"

definition make_leaf_entry :: "nat \<Rightarrow> bool \<Rightarrow> bool \<Rightarrow> nat" where
  "make_leaf_entry phys writable executable =
    (let entry = (phys AND ADDRESS_MASK) OR ENTRY_PRESENT;
         entry = (if writable then entry OR ENTRY_WRITABLE else entry);
         entry = (if \<not> executable then entry OR ENTRY_NO_EXECUTE else entry)
     in entry)"

definition entry_is_present :: "nat \<Rightarrow> bool" where
  "entry_is_present entry \<longleftrightarrow> entry AND ENTRY_PRESENT \<noteq> 0"

definition entry_address :: "nat \<Rightarrow> nat" where
  "entry_address entry = entry AND ADDRESS_MASK"

section \<open>User programs\<close>

record UserSegment =
  us_virtual_address :: nat
  us_data :: bytes
  us_memory_size :: nat
  us_writable :: bool
  us_executable :: bool

fun check_previous :: "nat \<Rightarrow> nat \<Rightarrow> UserSegment list \<Rightarrow> VmError + unit" where
  "check_previous page_start page_end [] = Ok ()"
| "check_previous page_start page_end (previous # rest) =
    try_bind (ok_or (checked_add (us_virtual_address previous) (us_memory_size previous)) AddressOverflow) (\<lambda>previous_end.
    try_bind (vm_align_up_checked previous_end) (\<lambda>previous_page_end.
      if vm_ranges_overlap page_start page_end (vm_align_down (us_virtual_address previous)) previous_page_end
      then Err UserMappingConflict
      else check_previous page_start page_end rest))"

text \<open>One round of the loop; the result is the new value of \<^verbatim>\<open>entry_executable\<close>.\<close>

definition validate_segment :: "nat \<Rightarrow> UserSegment list \<Rightarrow> bool \<Rightarrow> UserSegment \<Rightarrow> VmError + bool" where
  "validate_segment entry previous entry_executable segment =
    (if us_memory_size segment = 0 then Err UserProgramEmpty
     else if us_writable segment \<and> us_executable segment then Err UserWritableExecutable
     else
       let data_len = length (us_data segment) in
       if us_memory_size segment < data_len then Err UserProgramTooLarge
       else
         try_bind (ok_or (checked_add (us_virtual_address segment) (us_memory_size segment)) AddressOverflow) (\<lambda>segment_end.
           if us_virtual_address segment < USER_CODE_BASE \<or> USER_PROGRAM_LIMIT < segment_end then Err UserRegionConflict
           else
             let page_start = vm_align_down (us_virtual_address segment) in
             try_bind (vm_align_up_checked segment_end) (\<lambda>page_end.
               if page_start < USER_CODE_BASE \<or> USER_PROGRAM_LIMIT < page_end then Err UserRegionConflict
               else
                 try_bind (check_previous page_start page_end previous) (\<lambda>_.
                   if us_executable segment \<and> us_virtual_address segment \<le> entry then
                     try_bind (ok_or (checked_add (us_virtual_address segment) data_len) AddressOverflow) (\<lambda>data_end.
                       Ok (if entry < data_end then True else entry_executable))
                   else Ok entry_executable))))"

fun validate_segments :: "nat \<Rightarrow> UserSegment list \<Rightarrow> UserSegment list \<Rightarrow> bool \<Rightarrow> VmError + bool" where
  "validate_segments entry previous [] entry_executable = Ok entry_executable"
| "validate_segments entry previous (segment # rest) entry_executable =
    try_bind (validate_segment entry previous entry_executable segment) (\<lambda>entry_executable.
      validate_segments entry (previous @ [segment]) rest entry_executable)"

definition validate_user_program :: "nat \<Rightarrow> UserSegment list \<Rightarrow> VmError + unit" where
  "validate_user_program entry segs =
    (if segs = [] then Err UserProgramEmpty
     else try_bind (validate_segments entry [] segs False) (\<lambda>entry_executable.
       if \<not> entry_executable then Err UserEntryInvalid else Ok ()))"

section \<open>The kernel image\<close>

definition kernel_virtual_holes :: "BootInfo \<Rightarrow> nat \<Rightarrow> nat \<Rightarrow> (nat \<times> nat) list" where
  "kernel_virtual_holes boot_info start stop =
    sort_key fst (concat (map (\<lambda>segment.
      if ks_load_page_count segment = 0 \<or> memory_size segment = 0 then []
      else
        let hole_start = vm_align_down (max (virtual_address segment) start);
            hole_end = vm_align_up (min (saturating_add (virtual_address segment) (memory_size segment)) stop)
        in if hole_start < hole_end then [(hole_start, hole_end)] else [])
      (segments (kernel_image boot_info))))"

record KernelPagePermissions =
  pp_present :: bool
  pp_writable :: bool
  pp_executable :: bool

record KernelPageMapping =
  km_virt_start :: nat
  km_phys_start :: nat
  km_page_count :: nat
  km_writable :: bool
  km_executable :: bool

definition default_permissions :: KernelPagePermissions where
  "default_permissions = \<lparr>pp_present = False, pp_writable = False, pp_executable = False\<rparr>"

fun mark_pages :: "bool \<Rightarrow> bool \<Rightarrow> nat list \<Rightarrow> KernelPagePermissions list \<Rightarrow> VmError + KernelPagePermissions list" where
  "mark_pages writable executable [] plan = Ok plan"
| "mark_pages writable executable (i # rest) plan =
    (let page = plan ! i;
         page = \<lparr>pp_present = True, pp_writable = pp_writable page \<or> writable,
                 pp_executable = pp_executable page \<or> executable\<rparr>
     in if pp_writable page \<and> pp_executable page then Err KernelWritableExecutable
        else mark_pages writable executable rest (plan[i := page]))"

fun plan_segments ::
    "nat \<Rightarrow> KernelImageSegment list \<Rightarrow> KernelPagePermissions list \<Rightarrow> VmError + KernelPagePermissions list" where
  "plan_segments image_base [] plan = Ok plan"
| "plan_segments image_base (segment # rest) plan =
    (if ks_load_page_count segment = 0 \<or> memory_size segment = 0 then plan_segments image_base rest plan
     else
       let segment_start = vm_align_down (virtual_address segment) in
       try_bind (ok_or (checked_sub segment_start image_base) KernelImageConflict) (\<lambda>delta.
       let first_page = delta div PAGE_SIZE in
       try_bind (ok_or (checked_add first_page (ks_load_page_count segment)) AddressOverflow) (\<lambda>end_page.
         if length plan < end_page then Err KernelImageConflict
         else
           try_bind (mark_pages (ks_flags segment AND KERNEL_SEGMENT_FLAG_WRITE \<noteq> 0)
               (ks_flags segment AND KERNEL_SEGMENT_FLAG_EXECUTE \<noteq> 0) [first_page..<end_page] plan) (\<lambda>plan.
             plan_segments image_base rest plan))))"

text \<open>The end of the run of equal permissions that goes on at an index.\<close>

function run_end :: "KernelPagePermissions list \<Rightarrow> KernelPagePermissions \<Rightarrow> nat \<Rightarrow> nat" where
  "run_end plan permissions index =
    (if index < length plan \<and> plan ! index = permissions then run_end plan permissions (index + 1) else index)"
  by pat_completeness auto
termination by (relation "measure (\<lambda>(plan, _, index). length plan - index)") auto

declare run_end.simps [simp del]

lemma run_end_ge: "index \<le> run_end plan permissions index"
proof (induction plan permissions index rule: run_end.induct)
  case (1 plan permissions index)
  then show ?case by (subst run_end.simps) force
qed

function collect_mappings ::
    "nat \<Rightarrow> nat \<Rightarrow> KernelPagePermissions list \<Rightarrow> nat \<Rightarrow> VmError + KernelPageMapping list" where
  "collect_mappings base image_base plan index =
    (if index < length plan then
       let permissions = plan ! index in
       if \<not> pp_present permissions then collect_mappings base image_base plan (index + 1)
       else
         let start = index;
             index = run_end plan permissions (index + 1)
         in try_bind (ok_or (checked_mul start PAGE_SIZE) AddressOverflow) (\<lambda>page_offset.
            try_bind (ok_or (checked_add image_base page_offset) AddressOverflow) (\<lambda>virt_start.
            try_bind (ok_or (checked_add base page_offset) AddressOverflow) (\<lambda>phys_start.
            try_bind (collect_mappings base image_base plan index) (\<lambda>mappings.
              Ok (\<lparr>km_virt_start = virt_start, km_phys_start = phys_start, km_page_count = index - start,
                   km_writable = pp_writable permissions, km_executable = pp_executable permissions\<rparr> # mappings)))))
     else Ok [])"
  by pat_completeness auto
termination
proof (relation "measure (\<lambda>(_, _, plan, index). length plan - index)", goal_cases)
  case (3 base image_base plan index permissions)
  then show ?case using run_end_ge [of "index + 1" plan permissions] by simp
qed auto

declare collect_mappings.simps [simp del]

definition kernel_page_mappings :: "KernelImageInfo \<Rightarrow> VmError + KernelPageMapping list" where
  "kernel_page_mappings info =
    (if ki_load_page_count info = 0 \<or> load_base info = 0 then Ok []
     else
       case map (\<lambda>segment. vm_align_down (virtual_address segment))
           (filter (\<lambda>segment. ks_load_page_count segment \<noteq> 0 \<and> memory_size segment \<noteq> 0) (segments info)) of
         [] \<Rightarrow> Err KernelImageConflict
       | start # starts \<Rightarrow>
           let image_base = foldl min start starts in
           try_bind (plan_segments image_base (segments info) (replicate (ki_load_page_count info) default_permissions)) (\<lambda>plan.
             collect_mappings (load_base info) image_base plan 0))"

definition remap_conflict :: "VmError \<Rightarrow> VmError \<Rightarrow> VmError" where
  "remap_conflict error remapped = (if error = AlreadyMapped then remapped else error)"

end
