(* ===== verification/VmTableProps.thy ===== *)
theory VmTableProps
  imports VmTables
begin

text \<open>
  Facts about the page-table formats of \<^verbatim>\<open>kernel/src/vm.rs\<close>: alignment, indices and entry bits, the
  exact set of user programs that are accepted, and the permissions of the kernel image.
\<close>

named_theorems entry_simps "address and permission bits of page-table entries"

section \<open>Alignment and indices\<close>

lemma vm_align_down_eq: "v \<le> U64_MAX \<Longrightarrow> vm_align_down v = v div 4096 * 4096"
  using mask_down_pow2 [of v 12] by (simp add: vm_align_down_def)

lemma vm_align_up_eq: "v + 4095 \<le> U64_MAX \<Longrightarrow> vm_align_up v = (v + 4095) div 4096 * 4096"
  using mask_down_pow2 [of "v + 4095" 12] by (simp add: vm_align_up_def)

lemma vm_align_up_checked_eq:
  "vm_align_up_checked v = (if v + 4095 \<le> U64_MAX then Ok ((v + 4095) div 4096 * 4096) else Err AddressOverflow)"
  using mask_down_pow2 [of "v + 4095" 12] by (simp add: vm_align_up_checked_def checked_add_def)

lemma split_indices_eq:
  "split_indices virt = [virt div 2 ^ 39 mod 512, virt div 2 ^ 30 mod 512, virt div 2 ^ 21 mod 512, virt div 2 ^ 12 mod 512]"
proof -
  have m: "(0x1ff :: nat) = mask 9" by (simp add: mask_eq_exp_minus_1)
  show ?thesis
    unfolding split_indices_def m by (simp add: take_bit_eq_mask [symmetric] take_bit_eq_mod drop_bit_eq_div)
qed

section \<open>Entry bits\<close>

lemma ADDRESS_MASK_eq: "ADDRESS_MASK = push_bit 12 (mask 40)"
  by (simp add: ADDRESS_MASK_def mask_eq_exp_minus_1 push_bit_eq_mult)

lemma bit_ADDRESS_MASK: "bit ADDRESS_MASK k \<longleftrightarrow> 12 \<le> k \<and> k < 52"
  by (auto simp: ADDRESS_MASK_eq bit_simps)

lemma bit_entry_flags:
  "bit ENTRY_PRESENT k \<longleftrightarrow> k = 0" "bit ENTRY_WRITABLE k \<longleftrightarrow> k = 1" "bit ENTRY_USER k \<longleftrightarrow> k = 2"
  "bit ENTRY_NO_EXECUTE k \<longleftrightarrow> k = 63"
proof -
  have f: "ENTRY_PRESENT = 2 ^ 0" "ENTRY_WRITABLE = 2 ^ 1" "ENTRY_USER = 2 ^ 2" "ENTRY_NO_EXECUTE = 2 ^ 63"
    by (simp_all add: ENTRY_PRESENT_def ENTRY_WRITABLE_def ENTRY_USER_def ENTRY_NO_EXECUTE_def)
  show "bit ENTRY_PRESENT k \<longleftrightarrow> k = 0" "bit ENTRY_WRITABLE k \<longleftrightarrow> k = 1" "bit ENTRY_USER k \<longleftrightarrow> k = 2"
    "bit ENTRY_NO_EXECUTE k \<longleftrightarrow> k = 63"
    unfolding f bit_exp_iff by simp_all
qed

lemma flag_test:
  "e AND ENTRY_PRESENT \<noteq> 0 \<longleftrightarrow> bit e 0" "e AND ENTRY_WRITABLE \<noteq> 0 \<longleftrightarrow> bit e 1" "e AND ENTRY_USER \<noteq> 0 \<longleftrightarrow> bit e 2"
  "e AND ENTRY_NO_EXECUTE \<noteq> 0 \<longleftrightarrow> bit e 63"
  using and_exp_eq_0_iff_not_bit [of e 0] and_exp_eq_0_iff_not_bit [of e 1] and_exp_eq_0_iff_not_bit [of e 2]
    and_exp_eq_0_iff_not_bit [of e 63]
  by (simp_all add: ENTRY_PRESENT_def ENTRY_WRITABLE_def ENTRY_USER_def ENTRY_NO_EXECUTE_def)

lemma aligned_address:
  assumes "4096 dvd p" and "p < 2 ^ 52"
  shows "p AND ADDRESS_MASK = p"
proof (rule bit_eqI)
  fix k
  have "\<not> bit p k" if "k < 12"
  proof -
    obtain q where "p = 2 ^ 12 * q" using assms(1) by auto
    then have "p = push_bit 12 q" by (simp add: push_bit_eq_mult)
    then show ?thesis using that by (simp add: bit_push_bit_iff)
  qed
  moreover have "\<not> bit p k" if "52 \<le> k"
  proof -
    have "p < 2 ^ k" using assms(2) power_increasing [of 52 k "2 :: nat"] that by (simp del: power_increasing_iff)
    then show ?thesis by (simp add: bit_iff_odd)
  qed
  ultimately show "bit (p AND ADDRESS_MASK) k \<longleftrightarrow> bit p k"
    by (meson bit_ADDRESS_MASK bit_and_iff not_less)
qed

text \<open>What is stored in an entry is read back: the address and every permission bit.\<close>

lemma table_entry_bits [entry_simps]:
  assumes "4096 dvd p" and "p < 2 ^ 52"
  shows "entry_address (make_table_entry p) = p" "bit (make_table_entry p) 0"
    "entry_address (make_user_table_entry p) = p" "bit (make_user_table_entry p) 0"
    "bit (make_user_table_entry p) 2" "bit (make_user_table_entry p) 1" "\<not> bit (make_table_entry p) 2"
proof -
  have "make_table_entry p AND ADDRESS_MASK = p AND ADDRESS_MASK"
    by (rule bit_eqI) (auto simp: make_table_entry_def bit_simps bit_ADDRESS_MASK bit_entry_flags)
  moreover have "make_user_table_entry p AND ADDRESS_MASK = p AND ADDRESS_MASK"
    by (rule bit_eqI) (auto simp: make_user_table_entry_def bit_simps bit_ADDRESS_MASK bit_entry_flags)
  ultimately show "entry_address (make_table_entry p) = p" "entry_address (make_user_table_entry p) = p"
    using aligned_address [OF assms] by (simp_all add: entry_address_def)
qed (simp_all add: make_table_entry_def make_user_table_entry_def bit_or_iff bit_and_iff bit_entry_flags bit_ADDRESS_MASK)

lemma leaf_entry_bits [entry_simps]:
  assumes "4096 dvd p" and "p < 2 ^ 52"
  shows "entry_address (make_leaf_entry p w x) = p" "bit (make_leaf_entry p w x) 0"
    "bit (make_leaf_entry p w x) 1 \<longleftrightarrow> w" "\<not> bit (make_leaf_entry p w x) 2" "bit (make_leaf_entry p w x) 63 \<longleftrightarrow> \<not> x"
proof -
  have "make_leaf_entry p w x AND ADDRESS_MASK = p AND ADDRESS_MASK"
    by (rule bit_eqI) (auto simp: make_leaf_entry_def Let_def bit_simps bit_ADDRESS_MASK bit_entry_flags)
  then show "entry_address (make_leaf_entry p w x) = p"
    using aligned_address [OF assms] by (simp add: entry_address_def)
qed (simp_all add: make_leaf_entry_def Let_def bit_or_iff bit_and_iff bit_entry_flags bit_ADDRESS_MASK)

lemma or_less_64: "a < 2 ^ 64 \<Longrightarrow> b < 2 ^ 64 \<Longrightarrow> a OR b < (2 :: nat) ^ 64"
  by (metis or_eq_0_iff take_bit_or take_bit_nat_eq_self take_bit_nat_less_exp)

lemma entry_less_64 [entry_simps]:
  assumes "p < 2 ^ 52"
  shows "make_table_entry p < 2 ^ 64" "make_user_table_entry p < 2 ^ 64" "make_leaf_entry p w x < 2 ^ 64"
    "make_leaf_entry p w x OR ENTRY_USER < 2 ^ 64"
proof -
  have m: "p AND ADDRESS_MASK \<le> p"
    by (simp add: and_nat_def nat_le_iff AND_upper1)
  have f: "ENTRY_PRESENT < 2 ^ 64" "ENTRY_WRITABLE < 2 ^ 64" "ENTRY_USER < 2 ^ 64" "ENTRY_NO_EXECUTE < 2 ^ 64"
    by (simp_all add: ENTRY_PRESENT_def ENTRY_WRITABLE_def ENTRY_USER_def ENTRY_NO_EXECUTE_def)
  have p: "p AND ADDRESS_MASK < 2 ^ 64" using m assms by (rule le_less_trans [THEN less_trans]) simp
  show "make_table_entry p < 2 ^ 64" "make_user_table_entry p < 2 ^ 64" "make_leaf_entry p w x < 2 ^ 64"
    "make_leaf_entry p w x OR ENTRY_USER < 2 ^ 64"
    unfolding make_table_entry_def make_user_table_entry_def make_leaf_entry_def Let_def
    using p f by (auto intro!: or_less_64 [simplified])
qed

section \<open>User programs\<close>

definition segment_pages :: "UserSegment \<Rightarrow> nat set" where
  "segment_pages s = {us_virtual_address s div 4096 ..< (us_virtual_address s + us_memory_size s + 4095) div 4096}"

definition segments_apart :: "UserSegment \<Rightarrow> UserSegment \<Rightarrow> bool" where
  "segments_apart s t \<longleftrightarrow> segment_pages s \<inter> segment_pages t = {}"

definition acceptable_segment :: "UserSegment \<Rightarrow> bool" where
  "acceptable_segment s \<longleftrightarrow> 0 < us_memory_size s \<and> \<not> (us_writable s \<and> us_executable s)
    \<and> length (us_data s) \<le> us_memory_size s \<and> USER_CODE_BASE \<le> us_virtual_address s
    \<and> us_virtual_address s + us_memory_size s \<le> USER_PROGRAM_LIMIT"

definition contains_entry :: "nat \<Rightarrow> UserSegment \<Rightarrow> bool" where
  "contains_entry entry s \<longleftrightarrow> us_executable s \<and> us_virtual_address s \<le> entry \<and> entry < us_virtual_address s + length (us_data s)"

text \<open>The rules a program is accepted by, without the order of the checks.\<close>

definition acceptable_program :: "nat \<Rightarrow> UserSegment list \<Rightarrow> bool" where
  "acceptable_program entry segs \<longleftrightarrow> list_all acceptable_segment segs
    \<and> sorted_wrt segments_apart segs \<and> list_ex (contains_entry entry) segs"

lemma limit_small: "v \<le> USER_PROGRAM_LIMIT \<Longrightarrow> v + 4095 \<le> U64_MAX"
  by (simp add: U64_MAX_def)

lemma segment_bounds:
  assumes "acceptable_segment s"
  shows "us_virtual_address s \<le> U64_MAX" "us_virtual_address s + us_memory_size s + 4095 \<le> U64_MAX"
    "us_virtual_address s div 4096 < (us_virtual_address s + us_memory_size s + 4095) div 4096"
proof -
  have "us_virtual_address s + us_memory_size s \<le> USER_PROGRAM_LIMIT" and "0 < us_memory_size s"
    using assms by (simp_all add: acceptable_segment_def)
  then show "us_virtual_address s + us_memory_size s + 4095 \<le> U64_MAX" "us_virtual_address s \<le> U64_MAX"
    "us_virtual_address s div 4096 < (us_virtual_address s + us_memory_size s + 4095) div 4096"
    using limit_small [of "us_virtual_address s + us_memory_size s"] by auto
qed

lemma page_overlap:
  "a < b \<Longrightarrow> c < d \<Longrightarrow> vm_ranges_overlap (a * 4096) (b * 4096) (c * 4096) (d * 4096) \<longleftrightarrow> {a ..< b} \<inter> {c ..< d} \<noteq> {}"
proof
  assume l: "a < b" "c < d" and "vm_ranges_overlap (a * 4096) (b * 4096) (c * 4096) (d * 4096)"
  then have "max a c \<in> {a ..< b} \<inter> {c ..< d}" by (auto simp: vm_ranges_overlap_def)
  then show "{a ..< b} \<inter> {c ..< d} \<noteq> {}" by blast
qed (auto simp: vm_ranges_overlap_def)

lemma check_previous_Ok:
  assumes "a < b" and "\<forall>p\<in>set previous. acceptable_segment p"
  shows "check_previous (a * 4096) (b * 4096) previous = Ok () \<longleftrightarrow> (\<forall>p\<in>set previous. {a ..< b} \<inter> segment_pages p = {})"
  using assms(2)
proof (induction previous)
  case (Cons p ps)
  have ov: "vm_ranges_overlap (a * 4096) (b * 4096) (us_virtual_address p div 4096 * 4096)
      ((us_virtual_address p + us_memory_size p + 4095) div 4096 * 4096) \<longleftrightarrow> {a ..< b} \<inter> segment_pages p \<noteq> {}"
    unfolding segment_pages_def using Cons.prems by (intro page_overlap assms(1) segment_bounds(3)) simp
  have sum: "us_virtual_address p + us_memory_size p + 4095 \<le> U64_MAX"
    and add: "checked_add (us_virtual_address p) (us_memory_size p) = Some (us_virtual_address p + us_memory_size p)"
    and va: "us_virtual_address p \<le> U64_MAX"
    using segment_bounds [of p] Cons.prems by (simp_all add: checked_add_def)
  then have "check_previous (a * 4096) (b * 4096) (p # ps) =
      (if {a ..< b} \<inter> segment_pages p \<noteq> {} then Err UserMappingConflict else check_previous (a * 4096) (b * 4096) ps)"
    by (simp add: add vm_align_up_checked_eq vm_align_down_eq [OF va] ov del: checked_add_Some)
  then show ?case using Cons by auto
qed simp

lemma aligned_limits:
  "USER_CODE_BASE \<le> v \<Longrightarrow> USER_CODE_BASE \<le> v div 4096 * 4096"
  "v \<le> USER_PROGRAM_LIMIT \<Longrightarrow> (v + 4095) div 4096 * 4096 \<le> USER_PROGRAM_LIMIT"
  by simp_all

lemma validate_segment_Ok:
  assumes "\<forall>p\<in>set previous. acceptable_segment p"
  shows "validate_segment entry previous b s = Ok b' \<longleftrightarrow> acceptable_segment s \<and>
    (\<forall>p\<in>set previous. segments_apart p s) \<and> b' = (contains_entry entry s \<or> b)"
proof (cases "acceptable_segment s")
  case True
  note sb = segment_bounds [OF True]
  have acc: "0 < us_memory_size s" "\<not> (us_writable s \<and> us_executable s)" "\<not> us_memory_size s < length (us_data s)"
    "\<not> us_virtual_address s < USER_CODE_BASE" "\<not> USER_PROGRAM_LIMIT < us_virtual_address s + us_memory_size s"
    using True by (simp_all add: acceptable_segment_def)
  have al: "\<not> us_virtual_address s div 4096 * 4096 < USER_CODE_BASE"
    "\<not> USER_PROGRAM_LIMIT < (us_virtual_address s + us_memory_size s + 4095) div 4096 * 4096"
    using aligned_limits acc(4,5) by (simp_all only: not_less)
  have add: "checked_add (us_virtual_address s) (us_memory_size s) = Some (us_virtual_address s + us_memory_size s)"
    "checked_add (us_virtual_address s) (length (us_data s)) = Some (us_virtual_address s + length (us_data s))"
    using sb acc(3) by (simp_all add: checked_add_def)
  have "validate_segment entry previous b s =
    try_bind (check_previous (us_virtual_address s div 4096 * 4096)
        ((us_virtual_address s + us_memory_size s + 4095) div 4096 * 4096) previous)
      (\<lambda>_. Ok (contains_entry entry s \<or> b))"
    unfolding validate_segment_def Let_def add ok_or_simps try_bind.simps vm_align_up_checked_eq
      vm_align_down_eq [OF sb(1)] if_P [OF sb(2)]
    using acc al by (auto simp: contains_entry_def intro!: try_bind_cong split: if_splits)
  moreover have "segments_apart p s \<longleftrightarrow> {us_virtual_address s div 4096 ..< (us_virtual_address s + us_memory_size s + 4095) div 4096}
      \<inter> segment_pages p = {}" for p
    unfolding segments_apart_def segment_pages_def [of s] by blast
  ultimately show ?thesis
    using True check_previous_Ok [OF sb(3) assms] by (simp add: conj_commute eq_commute [of b'])
next
  case False
  then show ?thesis
    by (auto simp: validate_segment_def acceptable_segment_def Let_def split: if_splits)
qed

lemma validate_segments_Ok:
  assumes "\<forall>p\<in>set previous. acceptable_segment p"
  shows "validate_segments entry previous segs b = Ok b' \<longleftrightarrow> (\<forall>s\<in>set segs. acceptable_segment s) \<and>
    (\<forall>s\<in>set segs. \<forall>p\<in>set previous. segments_apart p s) \<and>
    sorted_wrt segments_apart segs \<and> b' = (list_ex (contains_entry entry) segs \<or> b)"
  using assms
proof (induction segs arbitrary: previous b)
  case (Cons s segs)
  have "validate_segments entry (previous @ [s]) segs c = Ok b' \<longleftrightarrow> (\<forall>t\<in>set segs. acceptable_segment t) \<and>
    (\<forall>t\<in>set segs. \<forall>p\<in>set (previous @ [s]). segments_apart p t) \<and>
    sorted_wrt segments_apart segs \<and> b' = (list_ex (contains_entry entry) segs \<or> c)"
    if "acceptable_segment s" for c
    by (rule Cons.IH) (use that Cons.prems in auto)
  then show ?case
    using validate_segment_Ok [OF Cons.prems] by auto
qed auto

lemma validate_user_program_Ok:
  "validate_user_program entry segs = Ok () \<longleftrightarrow> acceptable_program entry segs"
proof (cases "segs = []")
  case True
  then show ?thesis by (simp add: validate_user_program_def acceptable_program_def)
next
  case False
  then have "validate_user_program entry segs = Ok () \<longleftrightarrow> validate_segments entry [] segs False = Ok True"
    by (auto simp: validate_user_program_def split: if_splits)
  then show ?thesis
    using validate_segments_Ok [of "[]" entry segs False True] by (simp add: acceptable_program_def list_all_iff)
qed


text \<open>
  C32: a user program is accepted exactly when every segment has memory, is not writable and executable,
  has no more data than memory and lies in the user region below the stack page, no two segments
  touch a common page, and the entry point is a byte of data of an executable segment.
\<close>

theorem user_program_accepted_iff:
  "validate_user_program entry segs = Ok () \<longleftrightarrow> acceptable_program entry segs"
  by (rule validate_user_program_Ok)

end
