(* ===== verification/VmKernelImage.thy ===== *)
theory VmKernelImage
  imports VmTableProps
begin

text \<open>
  The permissions of the kernel image (\<^verbatim>\<open>kernel_page_mappings\<close> of \<^verbatim>\<open>kernel/src/vm.rs\<close>): the mappings it
  plans cover exactly the pages of the loaded segments, once each, with the union of the segments'
  permissions, and none is writable and executable.
\<close>

section \<open>Pages and segments\<close>

definition loaded_segment :: "KernelImageSegment \<Rightarrow> bool" where
  "loaded_segment s \<longleftrightarrow> ks_load_page_count s \<noteq> 0 \<and> memory_size s \<noteq> 0"

definition segment_covers :: "nat \<Rightarrow> KernelImageSegment \<Rightarrow> nat \<Rightarrow> bool" where
  "segment_covers image_base s i \<longleftrightarrow> loaded_segment s \<and>
    (vm_align_down (virtual_address s) - image_base) div 4096 \<le> i \<and>
    i < (vm_align_down (virtual_address s) - image_base) div 4096 + ks_load_page_count s"

definition segment_writable :: "KernelImageSegment \<Rightarrow> bool" where
  "segment_writable s \<longleftrightarrow> ks_flags s AND KERNEL_SEGMENT_FLAG_WRITE \<noteq> 0"

definition segment_executable :: "KernelImageSegment \<Rightarrow> bool" where
  "segment_executable s \<longleftrightarrow> ks_flags s AND KERNEL_SEGMENT_FLAG_EXECUTE \<noteq> 0"

text \<open>The permissions of page \<open>i\<close> of the image that a set of segments asks for.\<close>

definition wanted :: "nat \<Rightarrow> KernelImageSegment set \<Rightarrow> nat \<Rightarrow> KernelPagePermissions" where
  "wanted image_base S i = \<lparr>pp_present = (\<exists>s\<in>S. segment_covers image_base s i),
    pp_writable = (\<exists>s\<in>S. segment_covers image_base s i \<and> segment_writable s),
    pp_executable = (\<exists>s\<in>S. segment_covers image_base s i \<and> segment_executable s)\<rparr>"

definition planned :: "nat \<Rightarrow> KernelImageSegment set \<Rightarrow> KernelPagePermissions list \<Rightarrow> bool" where
  "planned image_base S plan \<longleftrightarrow> (\<forall>i<length plan. plan ! i = wanted image_base S i \<and>
    \<not> (pp_writable (plan ! i) \<and> pp_executable (plan ! i)))"

lemma mark_pages_Ok:
  assumes "mark_pages w x is plan = Ok plan'" and "distinct is" and "\<forall>i\<in>set is. i < length plan"
    and "\<forall>i<length plan. \<not> (pp_writable (plan ! i) \<and> pp_executable (plan ! i))"
  shows "length plan' = length plan \<and> (\<forall>i<length plan. \<not> (pp_writable (plan' ! i) \<and> pp_executable (plan' ! i)) \<and>
    plan' ! i = (if i \<in> set is then \<lparr>pp_present = True, pp_writable = pp_writable (plan ! i) \<or> w,
        pp_executable = pp_executable (plan ! i) \<or> x\<rparr> else plan ! i))"
  using assms
proof (induction w x "is" plan rule: mark_pages.induct)
  case (2 w x i rest plan)
  let ?p = "\<lparr>pp_present = True, pp_writable = pp_writable (plan ! i) \<or> w, pp_executable = pp_executable (plan ! i) \<or> x\<rparr>"
  have ok: "\<not> (pp_writable ?p \<and> pp_executable ?p)" and run: "mark_pages w x rest (plan[i := ?p]) = Ok plan'"
    using "2.prems"(1) by (auto simp: Let_def split: if_splits)
  have "length plan' = length (plan[i := ?p]) \<and> (\<forall>j<length (plan[i := ?p]). \<not> (pp_writable (plan' ! j) \<and> pp_executable (plan' ! j)) \<and>
    plan' ! j = (if j \<in> set rest then \<lparr>pp_present = True, pp_writable = pp_writable (plan[i := ?p] ! j) \<or> w,
        pp_executable = pp_executable (plan[i := ?p] ! j) \<or> x\<rparr> else plan[i := ?p] ! j))"
    by (rule "2.IH" [OF refl refl ok run]) (use "2.prems"(2-4) ok in \<open>auto simp: nth_list_update\<close>)
  then show ?case using "2.prems"(2,3) by (auto simp: nth_list_update)
qed auto

lemma wanted_insert:
  "wanted b (insert s S) i = (if segment_covers b s i then \<lparr>pp_present = True,
     pp_writable = pp_writable (wanted b S i) \<or> segment_writable s,
     pp_executable = pp_executable (wanted b S i) \<or> segment_executable s\<rparr> else wanted b S i)"
  by (auto simp: wanted_def)

lemma plan_segments_planned:
  assumes "plan_segments b segs plan = Ok plan'" and "planned b S plan"
  shows "planned b (set segs \<union> S) plan' \<and> length plan' = length plan"
  using assms
proof (induction b segs plan arbitrary: S rule: plan_segments.induct)
  case (2 b s rest plan)
  show ?case
  proof (cases "loaded_segment s")
    case False
    then have "wanted b (insert s T) = wanted b T" for T
      by (rule_tac ext) (simp add: wanted_insert segment_covers_def)
    then have "planned b (insert s T) p = planned b T p" for T p by (simp add: planned_def)
    then show ?thesis using 2 False by (auto simp: loaded_segment_def)
  next
    case True
    define first where "first = (vm_align_down (virtual_address s) - b) div 4096"
    from "2.prems"(1) True obtain plan1 where le: "b \<le> vm_align_down (virtual_address s)"
      and room: "first + ks_load_page_count s \<le> length plan" and small: "first + ks_load_page_count s \<le> U64_MAX"
      and m: "mark_pages (segment_writable s) (segment_executable s) [first..<first + ks_load_page_count s] plan = Ok plan1"
      and rest: "plan_segments b rest plan1 = Ok plan'"
      by (auto simp: loaded_segment_def Let_def first_def segment_writable_def segment_executable_def split: if_splits)
    have cover: "segment_covers b s i \<longleftrightarrow> i \<in> set [first..<first + ks_load_page_count s]" for i
      using True by (auto simp: segment_covers_def first_def)
    have p1: "length plan1 = length plan \<and> (\<forall>i<length plan. \<not> (pp_writable (plan1 ! i) \<and> pp_executable (plan1 ! i)) \<and>
      plan1 ! i = (if i \<in> set [first..<first + ks_load_page_count s] then \<lparr>pp_present = True,
        pp_writable = pp_writable (plan ! i) \<or> segment_writable s,
        pp_executable = pp_executable (plan ! i) \<or> segment_executable s\<rparr> else plan ! i))"
      by (rule mark_pages_Ok [OF m]) (use room "2.prems"(2) in \<open>auto simp: planned_def\<close>)
    have "plan1 ! i = wanted b (insert s S) i" if "i < length plan" for i
    proof -
      have "plan ! i = wanted b S i" using "2.prems"(2) that by (simp add: planned_def)
      then show ?thesis using p1 that unfolding wanted_insert cover by simp
    qed
    then have "planned b (insert s S) plan1" using p1 unfolding planned_def by metis
    moreover have "planned b (insert s S) plan1 \<Longrightarrow> planned b (set rest \<union> insert s S) plan' \<and> length plan' = length plan1"
      by (rule "2.IH"(2)) (use True le room small m rest in
        \<open>simp_all add: loaded_segment_def first_def segment_writable_def segment_executable_def checked_add_def\<close>)
    ultimately show ?thesis using p1 by simp
  qed
qed simp

section \<open>Runs of equal permissions\<close>

lemma run_end_spec:
  "index \<le> length plan \<Longrightarrow> run_end plan p index \<le> length plan \<and> (\<forall>k. index \<le> k \<and> k < run_end plan p index \<longrightarrow> plan ! k = p)"
proof (induction plan p index rule: run_end.induct)
  case (1 plan p index)
  show ?case
  proof (cases "index < length plan \<and> plan ! index = p")
    case True
    then have eq: "run_end plan p index = run_end plan p (index + 1)" by (subst run_end.simps) simp
    have "run_end plan p (index + 1) \<le> length plan" "index + 1 \<le> k \<Longrightarrow> k < run_end plan p (index + 1) \<Longrightarrow> plan ! k = p" for k
      using 1 True by auto
    then show ?thesis unfolding eq using True by (metis Suc_eq_plus1 Suc_leI le_neq_implies_less)
  next
    case False
    then have "run_end plan p index = index" by (subst run_end.simps) auto
    then show ?thesis using "1.prems" by auto
  qed
qed

definition mapping_covers :: "nat \<Rightarrow> nat \<Rightarrow> KernelPageMapping \<Rightarrow> bool" where
  "mapping_covers image_base i m \<longleftrightarrow> km_virt_start m \<le> image_base + i * 4096
    \<and> image_base + i * 4096 < km_virt_start m + km_page_count m * 4096"

text \<open>A mapping is the run of pages \<open>a\<close> up to \<open>a + n\<close> of the plan.\<close>

definition run_mapping :: "nat \<Rightarrow> nat \<Rightarrow> KernelPagePermissions list \<Rightarrow> nat \<Rightarrow> KernelPageMapping \<Rightarrow> bool" where
  "run_mapping base image_base plan a m \<longleftrightarrow> 0 < km_page_count m \<and> a + km_page_count m \<le> length plan
    \<and> km_virt_start m = image_base + a * 4096 \<and> km_phys_start m = base + a * 4096
    \<and> (\<forall>i. a \<le> i \<and> i < a + km_page_count m \<longrightarrow>
        plan ! i = \<lparr>pp_present = True, pp_writable = km_writable m, pp_executable = km_executable m\<rparr>)"

definition starts_from :: "nat \<Rightarrow> nat \<Rightarrow> KernelPageMapping \<Rightarrow> bool" where
  "starts_from image_base index m \<longleftrightarrow> image_base + index * 4096 \<le> km_virt_start m"

definition mapping_before :: "KernelPageMapping \<Rightarrow> KernelPageMapping \<Rightarrow> bool" where
  "mapping_before m m' \<longleftrightarrow> km_virt_start m + km_page_count m * 4096 \<le> km_virt_start m'"

lemma collect_mappings_Ok:
  assumes "collect_mappings base image_base plan index = Ok ms"
  shows "(\<forall>m\<in>set ms. starts_from image_base index m \<and> (\<exists>a. run_mapping base image_base plan a m)) \<and>
    sorted_wrt mapping_before ms \<and>
    (\<forall>i. index \<le> i \<and> i < length plan \<and> pp_present (plan ! i) \<longrightarrow> (\<exists>m\<in>set ms. mapping_covers image_base i m))"
  using assms
proof (induction base image_base plan index arbitrary: ms rule: collect_mappings.induct)
  case (1 base image_base plan index)
  consider (stop) "length plan \<le> index" | (skip) "index < length plan" "\<not> pp_present (plan ! index)"
    | (run) "index < length plan" "pp_present (plan ! index)" by (meson not_less)
  then show ?case
  proof cases
    case stop
    then have "ms = []" using "1.prems" by (subst (asm) collect_mappings.simps) simp
    then show ?thesis using stop by simp
  next
    case skip
    then have r: "collect_mappings base image_base plan (index + 1) = Ok ms"
      using "1.prems" by (subst (asm) collect_mappings.simps) simp
    note IH = "1.IH"(1) [OF skip(1) refl skip(2) r]
    have "index \<le> i \<and> i < length plan \<and> pp_present (plan ! i) \<longrightarrow> index + 1 \<le> i" for i
      using skip(2) by (metis Suc_eq_plus1 Suc_leI le_neq_implies_less)
    moreover have "starts_from image_base (index + 1) m \<Longrightarrow> starts_from image_base index m" for m
      by (simp add: starts_from_def)
    ultimately show ?thesis using IH by blast
  next
    case run
    define stop where "stop = run_end plan (plan ! index) (index + 1)"
    obtain rest where rest: "collect_mappings base image_base plan stop = Ok rest"
      and ms: "ms = \<lparr>km_virt_start = image_base + index * 4096, km_phys_start = base + index * 4096, km_page_count = stop - index,
                   km_writable = pp_writable (plan ! index), km_executable = pp_executable (plan ! index)\<rparr> # rest" (is "_ = ?m # _")
      and small: "index * 4096 \<le> U64_MAX" "image_base + index * 4096 \<le> U64_MAX" "base + index * 4096 \<le> U64_MAX"
      using "1.prems" run by (subst (asm) collect_mappings.simps) (auto simp: Let_def stop_def)
    have r: "index < stop" "stop \<le> length plan" "index < k \<Longrightarrow> k < stop \<Longrightarrow> plan ! k = plan ! index" for k
      using run_end_ge [of "index + 1" plan "plan ! index"] run_end_spec [of "index + 1" plan "plan ! index"] run(1)
      by (auto simp: stop_def)
    have adds: "ok_or (checked_mul index PAGE_SIZE) AddressOverflow = Ok (index * 4096)"
      "ok_or (checked_add image_base (index * 4096)) AddressOverflow = Ok (image_base + index * 4096)"
      "ok_or (checked_add base (index * 4096)) AddressOverflow = Ok (base + index * 4096)"
      using small by simp_all
    have present: "\<not> \<not> pp_present (plan ! index)" using run(2) by simp
    have IH: "(\<forall>m\<in>set rest. starts_from image_base stop m \<and> (\<exists>a. run_mapping base image_base plan a m)) \<and>
      sorted_wrt mapping_before rest \<and>
      (\<forall>i. stop \<le> i \<and> i < length plan \<and> pp_present (plan ! i) \<longrightarrow> (\<exists>m\<in>set rest. mapping_covers image_base i m))"
      by (rule "1.IH"(2) [OF run(1) refl present refl stop_def adds rest])
    have p: "plan ! k = \<lparr>pp_present = True, pp_writable = pp_writable (plan ! index), pp_executable = pp_executable (plan ! index)\<rparr>"
      if "index \<le> k" "k < stop" for k
      using r(3) [of k] that run(2) by (cases "k = index") simp_all
    have m: "run_mapping base image_base plan index ?m" "starts_from image_base index ?m"
      using r(1,2) by (auto simp: run_mapping_def starts_from_def intro!: p)
    have later: "starts_from image_base index m" "mapping_before ?m m" if "starts_from image_base stop m" for m
      using that mult_le_mono1 [of index stop 4096] r(1) by (auto simp: starts_from_def mapping_before_def diff_mult_distrib)
    have here: "mapping_covers image_base i ?m" if "index \<le> i" "i < stop" for i
      using that r(1) by (simp add: mapping_covers_def)
    show ?thesis
    proof (intro conjI allI impI ballI)
      fix m assume "m \<in> set ms"
      then show "starts_from image_base index m" and "\<exists>a. run_mapping base image_base plan a m"
        using m later(1) IH by (auto simp: ms)
    next
      show "sorted_wrt mapping_before ms" using later(2) IH by (auto simp: ms)
    next
      fix i assume i: "index \<le> i \<and> i < length plan \<and> pp_present (plan ! i)"
      show "\<exists>m\<in>set ms. mapping_covers image_base i m"
      proof (cases "i < stop")
        case True
        then show ?thesis using here [of i] i by (auto simp: ms)
      next
        case False
        then have "\<exists>m\<in>set rest. mapping_covers image_base i m" using IH i by (meson not_less)
        then show ?thesis by (auto simp: ms)
      qed
    qed
  qed
qed

lemma mapping_covers_run:
  assumes "run_mapping base image_base plan a m"
  shows "mapping_covers image_base i m \<longleftrightarrow> a \<le> i \<and> i < a + km_page_count m"
  using assms by (auto simp: mapping_covers_def run_mapping_def)

section \<open>The image\<close>

definition image_base :: "KernelImageInfo \<Rightarrow> nat" where
  "image_base info = Min ((\<lambda>s. vm_align_down (virtual_address s)) ` {s \<in> set (segments info). loaded_segment s})"

lemma foldl_min: "foldl min a xs = Min (insert a (set xs))" for a :: nat
proof (induction xs arbitrary: a)
  case (Cons x xs)
  have "Min (insert a (insert x (set xs))) = Min (insert (min a x) (set xs))"
    by (cases "xs = []") (simp_all add: Min_insert min.assoc)
  then show ?case using Cons by simp
qed simp

lemma kernel_page_mappings_Ok:
  assumes "kernel_page_mappings info = Ok ms" and "ki_load_page_count info \<noteq> 0" and "load_base info \<noteq> 0"
  obtains plan where "planned (image_base info) (set (segments info)) plan" and "length plan = ki_load_page_count info"
    and "collect_mappings (load_base info) (image_base info) plan 0 = Ok ms"
proof -
  let ?loaded = "filter (\<lambda>segment. ks_load_page_count segment \<noteq> 0 \<and> memory_size segment \<noteq> 0) (segments info)"
  let ?d = "replicate (ki_load_page_count info) default_permissions"
  from assms obtain start starts plan
    where l: "map (\<lambda>segment. vm_align_down (virtual_address segment)) ?loaded = start # starts"
      and p: "plan_segments (foldl min start starts) (segments info) ?d = Ok plan"
      and c: "collect_mappings (load_base info) (foldl min start starts) plan 0 = Ok ms"
    by (auto simp: kernel_page_mappings_def Let_def split: list.splits)
  have "foldl min start starts = Min (set (start # starts))" by (simp add: foldl_min)
  also have "\<dots> = image_base info"
    unfolding l [symmetric] image_base_def loaded_segment_def by simp
  finally have b: "foldl min start starts = image_base info" .
  have "planned (image_base info) {} ?d"
    by (simp add: planned_def wanted_def default_permissions_def)
  from plan_segments_planned [OF p [unfolded b] this] show ?thesis
    by (intro that [of plan]) (simp_all add: c [unfolded b])
qed

text \<open>
  C11: the mappings planned for the kernel image are in ascending order without overlap and never
  writable and executable. A page of the image is mapped exactly when a loaded segment covers it,
  to its place in the loaded image, and it is writable (executable) exactly when a segment that
  covers it is.
\<close>

theorem kernel_image_write_xor_execute:
  assumes "kernel_page_mappings info = Ok ms" and "ki_load_page_count info \<noteq> 0" and "load_base info \<noteq> 0"
    and "i < ki_load_page_count info"
  shows "sorted_wrt mapping_before ms \<and> list_all (\<lambda>m. \<not> (km_writable m \<and> km_executable m)) ms \<and>
    (list_ex (mapping_covers (image_base info) i) ms \<longleftrightarrow> (\<exists>s\<in>set (segments info). segment_covers (image_base info) s i)) \<and>
    (\<forall>m\<in>set ms. mapping_covers (image_base info) i m \<longrightarrow>
      km_phys_start m + (image_base info + i * 4096 - km_virt_start m) = load_base info + i * 4096 \<and>
      km_writable m = (\<exists>s\<in>set (segments info). segment_covers (image_base info) s i \<and> segment_writable s) \<and>
      km_executable m = (\<exists>s\<in>set (segments info). segment_covers (image_base info) s i \<and> segment_executable s))"
proof -
  let ?b = "image_base info" and ?S = "set (segments info)"
  from assms(1-3) obtain plan where planned: "planned ?b ?S plan" and len: "length plan = ki_load_page_count info"
    and c: "collect_mappings (load_base info) ?b plan 0 = Ok ms" by (rule kernel_page_mappings_Ok)
  note cs = collect_mappings_Ok [OF c]
  have pl: "plan ! j = wanted ?b ?S j \<and> \<not> (pp_writable (plan ! j) \<and> pp_executable (plan ! j))" if "j < length plan" for j
    using planned that unfolding planned_def by blast
  have run: "\<exists>a. run_mapping (load_base info) ?b plan a m" if "m \<in> set ms" for m using cs that by blast
  have wx: "\<not> (km_writable m \<and> km_executable m)" if m: "m \<in> set ms" for m
  proof -
    obtain a where a: "run_mapping (load_base info) ?b plan a m" using run [OF m] by blast
    then have "a < length plan" "plan ! a = \<lparr>pp_present = True, pp_writable = km_writable m, pp_executable = km_executable m\<rparr>"
      by (auto simp: run_mapping_def)
    then show ?thesis using pl [of a] by (metis KernelPagePermissions.select_convs(2,3))
  qed
  have perm: "plan ! i = \<lparr>pp_present = True, pp_writable = km_writable m, pp_executable = km_executable m\<rparr> \<and>
      km_phys_start m + (?b + i * 4096 - km_virt_start m) = load_base info + i * 4096"
    if m: "m \<in> set ms" and cov: "mapping_covers ?b i m" for m
  proof -
    obtain a where a: "run_mapping (load_base info) ?b plan a m" using run [OF m] by blast
    then have "a \<le> i" "i < a + km_page_count m" using mapping_covers_run [OF a] cov by auto
    then show ?thesis using a by (auto simp: run_mapping_def)
  qed
  have w: "plan ! i = wanted ?b ?S i" using pl assms(4) len by simp
  have "list_ex (mapping_covers ?b i) ms \<longleftrightarrow> pp_present (plan ! i)"
    using cs perm assms(4) len by (force simp: list_ex_iff)
  then show ?thesis
    using cs wx perm unfolding w by (simp add: wanted_def list_all_iff)
qed

definition sample_image :: KernelImageInfo where
  "sample_image = KernelImageInfo_EMPTY\<lparr>load_base := 0x400000, ki_load_page_count := 3, load_segment_count := 2,
    ki_segments := [KernelImageSegment_EMPTY\<lparr>virtual_address := 0x200000, memory_size := 0x1800, ks_flags := 5, ks_load_page_count := 2\<rparr>,
      KernelImageSegment_EMPTY\<lparr>virtual_address := 0x202010, memory_size := 0x100, ks_flags := 3, ks_load_page_count := 1\<rparr>]\<rparr>"

lemma sample_image_segments:
  "segments sample_image = [KernelImageSegment_EMPTY\<lparr>virtual_address := 0x200000, memory_size := 0x1800, ks_flags := 5, ks_load_page_count := 2\<rparr>,
      KernelImageSegment_EMPTY\<lparr>virtual_address := 0x202010, memory_size := 0x100, ks_flags := 3, ks_load_page_count := 1\<rparr>]"
  by (simp add: segments_def sample_image_def)

lemma sample_image_aligned: "vm_align_down 0x200000 = 0x200000" "vm_align_down 0x202010 = 0x202000"
  by (simp_all add: vm_align_down_eq U64_MAX_def)

lemma sample_image_base: "image_base sample_image = 0x200000"
proof -
  have "{s \<in> set (segments sample_image). loaded_segment s} = set (segments sample_image)"
    by (auto simp: sample_image_segments loaded_segment_def)
  then show ?thesis by (simp add: image_base_def sample_image_segments sample_image_aligned)
qed

definition sample_mappings :: "KernelPageMapping list" where
  "sample_mappings =
  [\<lparr>km_virt_start = 0x200000, km_phys_start = 0x400000, km_page_count = 2, km_writable = False, km_executable = True\<rparr>,
   \<lparr>km_virt_start = 0x202000, km_phys_start = 0x402000, km_page_count = 1, km_writable = True, km_executable = False\<rparr>]"

lemma sample_image_plan:
  "plan_segments 0x200000 (segments sample_image) (replicate 3 default_permissions) = Ok
    [\<lparr>pp_present = True, pp_writable = False, pp_executable = True\<rparr>,
     \<lparr>pp_present = True, pp_writable = False, pp_executable = True\<rparr>,
     \<lparr>pp_present = True, pp_writable = True, pp_executable = False\<rparr>]"
proof -
  have r: "replicate 3 p = [p, p, p]" for p :: KernelPagePermissions by (simp add: numeral_3_eq_3)
  have u: "[0..<2] = [0, 1 :: nat]" "[2..<3] = [2 :: nat]" by (simp_all add: upt_rec)
  show ?thesis
    by (simp add: sample_image_segments sample_image_aligned default_permissions_def Let_def r u checked_add_def U64_MAX_def)
qed

lemma sample_image_mappings: "kernel_page_mappings sample_image = Ok sample_mappings"
proof -
  have "ki_load_page_count sample_image = 3" "load_base sample_image = 0x400000" by (simp_all add: sample_image_def)
  moreover have "map (\<lambda>segment. vm_align_down (virtual_address segment))
      (filter (\<lambda>segment. ks_load_page_count segment \<noteq> 0 \<and> memory_size segment \<noteq> 0) (segments sample_image)) = [0x200000, 0x202000]"
    by (simp add: sample_image_segments sample_image_aligned)
  ultimately show ?thesis
    by (simp add: kernel_page_mappings_def sample_image_plan)
      (simp add: collect_mappings.simps run_end.simps Let_def checked_mul_def checked_add_def U64_MAX_def sample_mappings_def)
qed

theorem kernel_image_write_xor_execute_witness:
  "\<exists>s\<in>set (segments sample_image). segment_covers (image_base sample_image) s 2"
proof -
  have "list_ex (mapping_covers (image_base sample_image) 2) sample_mappings"
    by (simp add: sample_mappings_def sample_image_base mapping_covers_def)
  moreover have "ki_load_page_count sample_image = 3" "load_base sample_image = 0x400000" by (simp_all add: sample_image_def)
  ultimately show ?thesis
    using kernel_image_write_xor_execute [OF sample_image_mappings, of 2] by simp
qed

end
