(* ===== verification/PageSource.thy ===== *)
theory PageSource
  imports MemoryInit
begin

text \<open>
  The contract that the page allocator of \<^verbatim>\<open>kernel/src/memory.rs\<close> offers to its clients, who take and
  return single pages (\<^verbatim>\<open>allocate_page\<close>, \<^verbatim>\<open>deallocate_page\<close>), and what follows from it for a client
  that returns a list of pages.
\<close>

fun release_pages :: "('s \<Rightarrow> nat \<Rightarrow> bool \<times> 's) \<Rightarrow> nat list \<Rightarrow> 's \<Rightarrow> bool \<times> 's" where
  "release_pages dealloc [] s = (True, s)"
| "release_pages dealloc (a # rest) s =
    (let (freed, s) = dealloc s a; (all_freed, s) = release_pages dealloc rest s in (freed \<and> all_freed, s))"

definition page_number :: "nat \<Rightarrow> nat" where
  "page_number a = a div 4096"

locale page_source =
  fixes alloc :: "'s \<Rightarrow> nat option \<times> 's"
    and dealloc :: "'s \<Rightarrow> nat \<Rightarrow> bool \<times> 's"
    and ok :: "'s \<Rightarrow> bool"
    and live :: "'s \<Rightarrow> nat set"
    and usable :: "'s \<Rightarrow> nat set"
  assumes alloc_Some: "ok s \<Longrightarrow> alloc s = (Some a, s') \<Longrightarrow> ok s' \<and> 4096 dvd a \<and> page_number a \<in> usable s \<and>
      page_number a \<notin> live s \<and> live s' = insert (page_number a) (live s) \<and> usable s' = usable s"
    and alloc_None: "ok s \<Longrightarrow> alloc s = (None, s') \<Longrightarrow> s' = s"
    and dealloc_True: "ok s \<Longrightarrow> dealloc s a = (True, s') \<Longrightarrow> ok s' \<and> page_number a \<in> live s \<and>
      live s' = live s - {page_number a} \<and> usable s' = usable s"
    and dealloc_False: "ok s \<Longrightarrow> dealloc s a = (False, s') \<Longrightarrow> s' = s"
begin

lemma dealloc_keeps:
  assumes "ok s" and "dealloc s a = (freed, s')"
  shows "ok s' \<and> usable s' = usable s \<and> live s - {page_number a} \<subseteq> live s' \<and> live s' \<subseteq> live s"
proof (cases freed)
  case True
  then show ?thesis using dealloc_True [OF assms(1)] assms(2) by auto
next
  case False
  then have "s' = s" using dealloc_False [OF assms(1)] assms(2) by simp
  then show ?thesis using assms(1) by auto
qed

text \<open>Returning pages never touches another page; when all were taken back, exactly they are free.\<close>

lemma release_pages_keeps:
  "ok s \<Longrightarrow> release_pages dealloc as s = (freed, s') \<Longrightarrow> ok s' \<and> usable s' = usable s \<and>
    live s - page_number ` set as \<subseteq> live s' \<and> live s' \<subseteq> live s \<and> (freed \<longrightarrow> live s' = live s - page_number ` set as)"
proof (induction "as" arbitrary: s freed)
  case (Cons a as)
  obtain f s1 where d: "dealloc s a = (f, s1)" by fastforce
  obtain g where r: "release_pages dealloc as s1 = (g, s')" and f: "freed = (f \<and> g)"
    using Cons.prems(2) d by (auto split: prod.splits)
  note k = dealloc_keeps [OF Cons.prems(1) d]
  then have IH: "ok s' \<and> usable s' = usable s1 \<and> live s1 - page_number ` set as \<subseteq> live s' \<and> live s' \<subseteq> live s1 \<and>
      (g \<longrightarrow> live s' = live s1 - page_number ` set as)"
    using Cons.IH r by blast
  have "live s1 = live s - {page_number a}" if f using dealloc_True [OF Cons.prems(1)] d that by auto
  then show ?case using IH k f by auto
qed auto

end

lemma page_range_single: "page_range a 1 = {page_number a}"
  by (auto simp: page_range_def page_number_def)

interpretation kernel_pages: page_source allocate_page deallocate_page allocator_inv live_pages "\<lambda>s. usable_pages (regions s)"
proof
  fix s s' and a :: nat
  assume ok: "allocator_inv s"
  note al = allocate_contiguous_law [OF ok zero_less_one] and de = deallocate_contiguous_law [OF ok, where start = a and n = 1]
  show "allocate_page s = (Some a, s') \<Longrightarrow> allocator_inv s' \<and> 4096 dvd a \<and> page_number a \<in> usable_pages (regions s) \<and>
      page_number a \<notin> live_pages s \<and> live_pages s' = insert (page_number a) (live_pages s) \<and>
      usable_pages (regions s') = usable_pages (regions s)"
    using al unfolding allocate_page_def page_range_single by auto
  show "allocate_page s = (None, s') \<Longrightarrow> s' = s"
    using al unfolding allocate_page_def by auto
  show "deallocate_page s a = (True, s') \<Longrightarrow> allocator_inv s' \<and> page_number a \<in> live_pages s \<and>
      live_pages s' = live_pages s - {page_number a} \<and> usable_pages (regions s') = usable_pages (regions s)"
    using de unfolding deallocate_page_def page_range_single by auto
  show "deallocate_page s a = (False, s') \<Longrightarrow> s' = s"
    using de unfolding deallocate_page_def by auto
qed

end
