(* ===== verification/UserSpace.thy ===== *)
theory UserSpace
  imports VmTableProps PageSource
begin

text \<open>
  \<^verbatim>\<open>kernel/src/vm.rs\<close>, part two: user address spaces. The state is physical memory as bytes, the page
  allocator and the root register. The code reaches physical memory through the direct map at
  \<^verbatim>\<open>HIGH_HALF_DIRECT_MAP_BASE\<close>; memory is indexed by the physical address here, and an address beyond
  the direct map is the code's error.
\<close>

section \<open>Memory\<close>

type_synonym phys_mem = "nat \<Rightarrow> u8"

record VmWorld =
  vw_mem :: phys_mem
  vw_pages :: PhysicalPageAllocator
  vw_cr3 :: nat

definition peek_u64 :: "phys_mem \<Rightarrow> nat \<Rightarrow> nat" where
  "peek_u64 m a = unat (from_le (map m [a..<a + 8]) :: u64)"

definition poke_u64 :: "phys_mem \<Rightarrow> nat \<Rightarrow> nat \<Rightarrow> phys_mem" where
  "poke_u64 m a v = (\<lambda>x. if a \<le> x \<and> x < a + 8 then to_le 8 (word_of_nat v :: u64) ! (x - a) else m x)"

definition write_bytes :: "phys_mem \<Rightarrow> nat \<Rightarrow> nat \<Rightarrow> u8 \<Rightarrow> phys_mem" where
  "write_bytes m a n v = (\<lambda>x. if a \<le> x \<and> x < a + n then v else m x)"

definition copy_bytes :: "phys_mem \<Rightarrow> nat \<Rightarrow> bytes \<Rightarrow> phys_mem" where
  "copy_bytes m a src = (\<lambda>x. if a \<le> x \<and> x < a + length src then src ! (x - a) else m x)"

definition physical_page_mut :: "nat \<Rightarrow> VmError + nat" where
  "physical_page_mut phys = ok_or (higher_half_phys phys) DirectMapUnavailable"

definition physical_page_ptr :: "nat \<Rightarrow> VmError + nat" where
  "physical_page_ptr phys = ok_or (higher_half_phys phys) DirectMapUnavailable"

definition physical_table_mut :: "nat \<Rightarrow> VmError + nat" where
  "physical_table_mut phys = physical_page_mut phys"

section \<open>Page ownership\<close>

text \<open>\<^verbatim>\<open>UserPageOwnership\<close> is the list of the pages recorded so far.\<close>

type_synonym UserPageOwnership = "nat list"
type_synonym user_state = "VmWorld \<times> UserPageOwnership"

definition ownership_record :: "UserPageOwnership \<Rightarrow> nat \<Rightarrow> VmError + UserPageOwnership" where
  "ownership_record owned phys = (if MAX_USER_OWNED_PAGES \<le> length owned then Err UserPageTrackingCapacity else Ok (owned @ [phys]))"

definition zero_page :: "nat \<Rightarrow> VmWorld \<Rightarrow> VmWorld" where
  "zero_page phys w = w\<lparr>vw_mem := write_bytes (vw_mem w) phys PAGE_SIZE 0\<rparr>"

fun reclaim_pages :: "nat list \<Rightarrow> bool \<Rightarrow> VmWorld \<Rightarrow> bool \<times> VmWorld" where
  "reclaim_pages [] failed w = (failed, w)"
| "reclaim_pages (phys # rest) failed w =
    (let (failed, w) = (case physical_page_mut phys of Ok _ \<Rightarrow> (failed, zero_page phys w) | Err _ \<Rightarrow> (True, w));
         (freed, pages) = deallocate_page (vw_pages w) phys
     in reclaim_pages rest (failed \<or> \<not> freed) (w\<lparr>vw_pages := pages\<rparr>))"

definition ownership_reclaim :: "UserPageOwnership \<Rightarrow> VmWorld \<Rightarrow> (VmError + unit) \<times> VmWorld" where
  "ownership_reclaim owned w =
    (let (failed, w) = reclaim_pages (rev owned) False w
     in (if failed then Err PageReclamationFailed else Ok (), w))"

definition allocate_zeroed_page :: "VmWorld \<Rightarrow> (VmError + nat) \<times> VmWorld" where
  "allocate_zeroed_page w =
    (case allocate_page (vw_pages w) of
       (None, pages) \<Rightarrow> (Err OutOfPhysicalPages, w\<lparr>vw_pages := pages\<rparr>)
     | (Some phys, pages) \<Rightarrow>
         st_bind (physical_page_mut phys, w\<lparr>vw_pages := pages\<rparr>) (\<lambda>_ w. (Ok phys, zero_page phys w)))"

definition allocate_owned_zeroed_page :: "user_state \<Rightarrow> (VmError + nat) \<times> user_state" where
  "allocate_owned_zeroed_page s =
    (case allocate_zeroed_page (fst s) of
       (Err e, w) \<Rightarrow> (Err e, (w, snd s))
     | (Ok phys, w) \<Rightarrow>
         (case ownership_record (snd s) phys of
            Ok owned \<Rightarrow> (Ok phys, (w, owned))
          | Err error \<Rightarrow>
              let (freed, pages) = deallocate_page (vw_pages w) phys;
                  w = w\<lparr>vw_pages := pages\<rparr>
              in (Err (if \<not> freed then PageReclamationFailed else error), (w, snd s))))"

section \<open>User page tables\<close>

definition table_entry :: "phys_mem \<Rightarrow> nat \<Rightarrow> nat \<Rightarrow> nat" where
  "table_entry m table index = peek_u64 m (table + 8 * index)"

definition set_table_entry :: "nat \<Rightarrow> nat \<Rightarrow> nat \<Rightarrow> user_state \<Rightarrow> user_state" where
  "set_table_entry table index entry s =
    ((fst s)\<lparr>vw_mem := poke_u64 (vw_mem (fst s)) (table + 8 * index) entry\<rparr>, snd s)"

text \<open>The loop over the first three indices: the address of the last-level table.\<close>

fun raw_map_tables :: "nat list \<Rightarrow> nat \<Rightarrow> user_state \<Rightarrow> (VmError + nat) \<times> user_state" where
  "raw_map_tables [] table_phys s = (Ok table_phys, s)"
| "raw_map_tables (index # rest) table_phys s =
    st_bind (physical_table_mut table_phys, s) (\<lambda>_ s.
      let entry = table_entry (vw_mem (fst s)) table_phys index in
      if entry AND ENTRY_PRESENT = 0 then
        st_bind (allocate_owned_zeroed_page s) (\<lambda>child s.
          let entry = make_user_table_entry child
          in raw_map_tables rest (entry_address entry) (set_table_entry table_phys index entry s))
      else if entry AND ENTRY_USER = 0 then (Err UserRegionConflict, s)
      else raw_map_tables rest (entry_address entry) s)"

definition raw_map_user_page ::
    "nat \<Rightarrow> nat \<Rightarrow> nat \<Rightarrow> bool \<Rightarrow> bool \<Rightarrow> user_state \<Rightarrow> (VmError + unit) \<times> user_state" where
  "raw_map_user_page root_phys virt phys writable executable s =
    (let indices = split_indices virt in
     st_bind (raw_map_tables (take 3 indices) root_phys s) (\<lambda>table_phys s.
     st_bind (physical_table_mut table_phys, s) (\<lambda>_ s.
       if table_entry (vw_mem (fst s)) table_phys (indices ! 3) AND ENTRY_PRESENT \<noteq> 0 then (Err UserMappingConflict, s)
       else
         let entry = make_leaf_entry phys writable executable OR ENTRY_USER;
             entry = (if \<not> executable then entry OR ENTRY_NO_EXECUTE else entry)
         in (Ok (), set_table_entry table_phys (indices ! 3) entry s))))"

fun raw_walk_tables :: "phys_mem \<Rightarrow> nat list \<Rightarrow> nat \<Rightarrow> VmError + nat" where
  "raw_walk_tables m [] table_phys = Ok table_phys"
| "raw_walk_tables m (index # rest) table_phys =
    try_bind (physical_table_mut table_phys) (\<lambda>_.
      let entry = table_entry m table_phys index in
      if entry AND (ENTRY_PRESENT OR ENTRY_USER) \<noteq> (ENTRY_PRESENT OR ENTRY_USER) then Err UserMappingConflict
      else raw_walk_tables m rest (entry_address entry))"

definition raw_leaf_entry :: "phys_mem \<Rightarrow> nat \<Rightarrow> nat \<Rightarrow> VmError + nat" where
  "raw_leaf_entry m root_phys virt =
    (let indices = split_indices virt in
     try_bind (raw_walk_tables m (take 3 indices) root_phys) (\<lambda>table_phys.
     try_bind (physical_table_mut table_phys) (\<lambda>_.
       let leaf = table_entry m table_phys (indices ! 3) in
       if leaf AND ENTRY_PRESENT = 0 then Err UserMappingConflict else Ok leaf)))"

section \<open>Creating and destroying an address space\<close>

record UserAddressSpace =
  ua_kernel_root_phys :: nat
  ua_root_phys :: nat
  ua_code_phys :: nat
  ua_stack_phys :: nat
  ua_entry :: nat
  ua_stack_top :: nat
  ua_code_bytes :: nat
  ua_kernel_mapping_supervisor_only :: bool
  ua_code_user_read_execute :: bool
  ua_stack_user_read_write :: bool
  ua_owned_pages :: UserPageOwnership

text \<open>The bytes of the segment that fall into one page.\<close>

definition copy_page_data :: "UserSegment \<Rightarrow> nat \<Rightarrow> nat \<Rightarrow> nat \<Rightarrow> user_state \<Rightarrow> (VmError + unit) \<times> user_state" where
  "copy_page_data segment data_end page_virt page_phys s =
    (let copy_start = max page_virt (us_virtual_address segment);
         copy_end = min (saturating_add page_virt PAGE_SIZE) data_end
     in if copy_start < copy_end then
          let source_offset = copy_start - us_virtual_address segment;
              destination_offset = copy_start - page_virt;
              copy_len = copy_end - copy_start
          in st_bind (physical_page_mut page_phys, s) (\<lambda>_ s.
               (Ok (), ((fst s)\<lparr>vw_mem := copy_bytes (vw_mem (fst s)) (page_phys + destination_offset)
                  (slice (us_data segment) source_offset (source_offset + copy_len))\<rparr>, snd s)))
        else (Ok (), s))"

function load_pages :: "nat \<Rightarrow> UserSegment \<Rightarrow> nat \<Rightarrow> nat \<Rightarrow> nat \<Rightarrow> nat \<Rightarrow> user_state \<Rightarrow> (VmError + nat) \<times> user_state" where
  "load_pages root_phys segment data_end page_end page_virt code_phys s =
    (if page_virt < page_end then
       st_bind (allocate_owned_zeroed_page s) (\<lambda>page_phys s.
       st_bind (copy_page_data segment data_end page_virt page_phys s) (\<lambda>_ s.
       st_bind (raw_map_user_page root_phys page_virt page_phys (us_writable segment) (us_executable segment) s) (\<lambda>_ s.
       st_bind (ok_or (checked_add page_virt PAGE_SIZE) AddressOverflow, s) (\<lambda>next_virt s.
         load_pages root_phys segment data_end page_end next_virt
           (if us_executable segment \<and> code_phys = 0 then page_phys else code_phys) s))))
     else (Ok code_phys, s))"
  by pat_completeness auto
termination
  by (relation "measure (\<lambda>(_, _, _, page_end, page_virt, _, _). page_end - page_virt)") (auto split: if_splits)

declare load_pages.simps [simp del]

fun load_segments :: "nat \<Rightarrow> UserSegment list \<Rightarrow> nat \<Rightarrow> nat \<Rightarrow> user_state \<Rightarrow> (VmError + nat \<times> nat) \<times> user_state" where
  "load_segments root_phys [] code_phys loaded_bytes s = (Ok (code_phys, loaded_bytes), s)"
| "load_segments root_phys (segment # rest) code_phys loaded_bytes s =
    st_bind (ok_or (checked_add (us_virtual_address segment) (us_memory_size segment)) AddressOverflow, s) (\<lambda>segment_end s.
    st_bind (vm_align_up_checked segment_end, s) (\<lambda>page_end s.
    st_bind (ok_or (checked_add (us_virtual_address segment) (length (us_data segment))) AddressOverflow, s) (\<lambda>data_end s.
    st_bind (load_pages root_phys segment data_end page_end (vm_align_down (us_virtual_address segment)) code_phys s) (\<lambda>code_phys s.
    st_bind (ok_or (checked_add loaded_bytes (length (us_data segment))) AddressOverflow, s) (\<lambda>loaded_bytes s.
      load_segments root_phys rest code_phys loaded_bytes s)))))"

text \<open>The closure in three parts: the new root, the stack with the report, and the whole.\<close>

definition copy_kernel_root :: "nat \<Rightarrow> nat \<Rightarrow> user_state \<Rightarrow> (VmError + unit) \<times> user_state" where
  "copy_kernel_root kernel_root_phys root_phys s =
    st_bind (physical_page_ptr kernel_root_phys, s) (\<lambda>_ s.
    st_bind (physical_page_mut root_phys, s) (\<lambda>_ s.
      let m = vw_mem (fst s)
      in (Ok (), ((fst s)\<lparr>vw_mem := copy_bytes m root_phys (map m [kernel_root_phys..<kernel_root_phys + PAGE_SIZE])\<rparr>, snd s))))"

definition user_space_report ::
    "nat \<Rightarrow> nat \<Rightarrow> nat \<Rightarrow> nat \<Rightarrow> nat \<Rightarrow> nat \<Rightarrow> nat \<Rightarrow> nat \<Rightarrow> user_state \<Rightarrow> UserAddressSpace" where
  "user_space_report entry kernel_root_phys root_phys code_phys stack_phys loaded_bytes code_entry stack_entry s =
    (let kernel_l4_entry = table_entry (vw_mem (fst s)) root_phys (split_indices 0x200000 ! 0)
     in \<lparr>ua_kernel_root_phys = kernel_root_phys, ua_root_phys = root_phys, ua_code_phys = code_phys,
          ua_stack_phys = stack_phys, ua_entry = entry, ua_stack_top = USER_STACK_TOP - 16,
          ua_code_bytes = loaded_bytes,
          ua_kernel_mapping_supervisor_only = (kernel_l4_entry AND ENTRY_USER = 0),
          ua_code_user_read_execute =
            (code_entry AND (ENTRY_PRESENT OR ENTRY_USER) = (ENTRY_PRESENT OR ENTRY_USER)
             \<and> code_entry AND ENTRY_WRITABLE = 0 \<and> code_entry AND ENTRY_NO_EXECUTE = 0),
          ua_stack_user_read_write =
            (stack_entry AND (ENTRY_PRESENT OR ENTRY_USER OR ENTRY_WRITABLE) = (ENTRY_PRESENT OR ENTRY_USER OR ENTRY_WRITABLE)
             \<and> stack_entry AND ENTRY_NO_EXECUTE \<noteq> 0),
          ua_owned_pages = snd s\<rparr>)"

definition finish_user_space ::
    "nat \<Rightarrow> nat \<Rightarrow> nat \<Rightarrow> nat \<Rightarrow> nat \<Rightarrow> user_state \<Rightarrow> (VmError + UserAddressSpace) \<times> user_state" where
  "finish_user_space entry kernel_root_phys root_phys code_phys loaded_bytes s =
    st_bind (allocate_owned_zeroed_page s) (\<lambda>stack_phys s.
    st_bind (raw_map_user_page root_phys (USER_STACK_TOP - PAGE_SIZE) stack_phys True False s) (\<lambda>_ s.
    st_bind (raw_leaf_entry (vw_mem (fst s)) root_phys entry, s) (\<lambda>code_entry s.
    st_bind (raw_leaf_entry (vw_mem (fst s)) root_phys (USER_STACK_TOP - PAGE_SIZE), s) (\<lambda>stack_entry s.
    st_bind (physical_table_mut root_phys, s) (\<lambda>_ s.
      (Ok (user_space_report entry kernel_root_phys root_phys code_phys stack_phys loaded_bytes code_entry stack_entry s), s))))))"

definition build_user_space :: "nat \<Rightarrow> UserSegment list \<Rightarrow> nat \<Rightarrow> user_state \<Rightarrow> (VmError + UserAddressSpace) \<times> user_state" where
  "build_user_space entry segs kernel_root_phys s =
    st_bind (allocate_owned_zeroed_page s) (\<lambda>root_phys s.
    st_bind (copy_kernel_root kernel_root_phys root_phys s) (\<lambda>_ s.
    st_bind (physical_table_mut root_phys, s) (\<lambda>_ s.
      let user_l4 = split_indices USER_CODE_BASE ! 0 in
      if table_entry (vw_mem (fst s)) root_phys user_l4 AND ENTRY_PRESENT \<noteq> 0 then (Err UserRegionConflict, s)
      else
        st_bind (load_segments root_phys segs 0 0 s) (\<lambda>(code_phys, loaded_bytes) s.
          finish_user_space entry kernel_root_phys root_phys code_phys loaded_bytes s))))"

definition create_user_address_space_from_segments ::
    "nat \<Rightarrow> UserSegment list \<Rightarrow> VmWorld \<Rightarrow> (VmError + UserAddressSpace) \<times> VmWorld" where
  "create_user_address_space_from_segments entry segs w =
    (case validate_user_program entry segs of
       Err e \<Rightarrow> (Err e, w)
     | Ok _ \<Rightarrow>
         (case build_user_space entry segs (vw_cr3 w) (w, []) of
            (Ok space, (w, owned)) \<Rightarrow> (Ok space, w)
          | (Err e, (w, owned)) \<Rightarrow> st_bind (ownership_reclaim owned w) (\<lambda>_ w. (Err e, w))))"

definition create_user_address_space :: "bytes \<Rightarrow> VmWorld \<Rightarrow> (VmError + UserAddressSpace) \<times> VmWorld" where
  "create_user_address_space code w =
    (if code = [] then (Err UserProgramEmpty, w)
     else if PAGE_SIZE < length code then (Err UserProgramTooLarge, w)
     else create_user_address_space_from_segments USER_CODE_BASE
       [\<lparr>us_virtual_address = USER_CODE_BASE, us_data = code, us_memory_size = length code,
         us_writable = False, us_executable = True\<rparr>] w)"

definition destroy_user_address_space :: "UserAddressSpace \<Rightarrow> VmWorld \<Rightarrow> (VmError + unit) \<times> VmWorld" where
  "destroy_user_address_space space w =
    (if vw_cr3 w = ua_root_phys space then (Err ActiveAddressSpace, w)
     else ownership_reclaim (ua_owned_pages space) w)"

definition switch_root :: "nat \<Rightarrow> VmWorld \<Rightarrow> (VmError + unit) \<times> VmWorld" where
  "switch_root root_table_phys w =
    (if \<not> is_multiple_of root_table_phys PAGE_SIZE then (Err UnalignedPhysicalAddress, w)
     else (Ok (), w\<lparr>vw_cr3 := root_table_phys\<rparr>))"

end
