(* ===== verification/UserSpaceInv.thy ===== *)
theory UserSpaceInv
  imports UserSpace
begin

text \<open>
  Invariants of the construction of a user address space: what is allocated is accounted for, memory
  that was in use before is never written, and on every error path the pages go back.
\<close>

section \<open>Memory\<close>

lemma peek_cong: "(\<And>x. a \<le> x \<Longrightarrow> x < a + 8 \<Longrightarrow> m x = m' x) \<Longrightarrow> peek_u64 m a = peek_u64 m' a"
proof -
  assume eq: "\<And>x. a \<le> x \<Longrightarrow> x < a + 8 \<Longrightarrow> m x = m' x"
  have "map m [a..<a + 8] = map m' [a..<a + 8]" using eq by (intro map_cong) auto
  then show ?thesis by (simp only: peek_u64_def)
qed

lemma peek_poke_same: "v < 2 ^ 64 \<Longrightarrow> peek_u64 (poke_u64 m a v) a = v"
proof -
  assume v: "v < 2 ^ 64"
  have "map (poke_u64 m a v) [a..<a + 8] = to_le 8 (word_of_nat v :: u64)"
    by (rule nth_equalityI) (simp_all add: poke_u64_def)
  then show ?thesis using v by (simp add: peek_u64_def unat_of_nat take_bit_nat_eq_self_iff)
qed

lemma peek_poke_other: "b + 8 \<le> a \<or> a + 8 \<le> b \<Longrightarrow> peek_u64 (poke_u64 m a v) b = peek_u64 m b"
  by (rule peek_cong) (auto simp: poke_u64_def)

lemma poke_outside: "x < a \<or> a + 8 \<le> x \<Longrightarrow> poke_u64 m a v x = m x"
  by (auto simp: poke_u64_def)

lemma peek_zeroed: "p \<le> a \<Longrightarrow> a + 8 \<le> p + n \<Longrightarrow> peek_u64 (write_bytes m p n 0) a = 0"
proof -
  assume "p \<le> a" "a + 8 \<le> p + n"
  then have "map (write_bytes m p n 0) [a..<a + 8] = replicate 8 0"
    by (intro nth_equalityI) (auto simp: write_bytes_def)
  moreover have "from_le (replicate 8 0 :: bytes) = (0 :: u64)"
    using from_le_to_le [of 8 "0 :: u64"] by simp
  ultimately show ?thesis by (simp add: peek_u64_def)
qed

text \<open>The page of an address; entries of a table lie in the table's page.\<close>

lemma page_number_offset: "4096 dvd p \<Longrightarrow> x < 4096 \<Longrightarrow> page_number (p + x) = page_number p"
  by (auto simp: page_number_def)

lemma page_number_eq_iff: "4096 dvd p \<Longrightarrow> 4096 dvd q \<Longrightarrow> page_number p = page_number q \<longleftrightarrow> p = q"
  by (auto simp: page_number_def)

lemma page_number_range: "4096 dvd p \<Longrightarrow> page_number x = page_number p \<longleftrightarrow> p \<le> x \<and> x < p + 4096"
proof -
  assume "4096 dvd p"
  then obtain k where k: "p = 4096 * k" by auto
  have "x div 4096 = k \<longleftrightarrow> k * 4096 \<le> x \<and> x < (k + 1) * 4096"
    by (simp add: div_nat_eqI dividend_less_times_div less_mult_imp_div_less) (auto simp: div_nat_eqI)
  then show ?thesis by (auto simp: page_number_def k algebra_simps)
qed

section \<open>Accounting\<close>

definition usable :: "VmWorld \<Rightarrow> nat set" where
  "usable w = usable_pages (regions (vw_pages w))"

definition live :: "VmWorld \<Rightarrow> nat set" where
  "live w = live_pages (vw_pages w)"

definition world_ok :: "VmWorld \<Rightarrow> bool" where
  "world_ok w \<longleftrightarrow> allocator_inv (vw_pages w) \<and> (\<forall>p\<in>usable w. (p + 1) * 4096 \<le> 2 ^ 47) \<and>
    4096 dvd vw_cr3 w \<and> vw_cr3 w + 4096 \<le> 2 ^ 47 \<and> page_number (vw_cr3 w) \<notin> usable w - live w"

text \<open>
  \<open>weak_inv w0 (w, owned)\<close>: the run from \<open>w0\<close> to \<open>w\<close> has only taken pages that were free, and
  has only written to such pages. \<open>strong_inv\<close> adds that what is live is accounted for.
\<close>

definition weak_inv :: "VmWorld \<Rightarrow> user_state \<Rightarrow> bool" where
  "weak_inv w0 s \<longleftrightarrow> allocator_inv (vw_pages (fst s)) \<and> usable (fst s) = usable w0 \<and> vw_cr3 (fst s) = vw_cr3 w0 \<and>
    live w0 \<subseteq> live (fst s) \<and> live (fst s) \<subseteq> usable w0 \<and> (\<forall>p\<in>set (snd s). 4096 dvd p \<and> page_number p \<in> usable w0 - live w0) \<and>
    (\<forall>a. page_number a \<notin> usable w0 - live w0 \<longrightarrow> vw_mem (fst s) a = vw_mem w0 a)"

definition strong_inv :: "VmWorld \<Rightarrow> user_state \<Rightarrow> bool" where
  "strong_inv w0 s \<longleftrightarrow> weak_inv w0 s \<and> distinct (snd s) \<and> live (fst s) = live w0 \<union> page_number ` set (snd s)"

text \<open>A result of the construction: an error leaves an accounted state, unless reclamation itself failed.\<close>

definition safe_result :: "VmWorld \<Rightarrow> ('a \<Rightarrow> user_state \<Rightarrow> bool) \<Rightarrow> (VmError + 'a) \<times> user_state \<Rightarrow> bool" where
  "safe_result w0 Q r \<longleftrightarrow> (case r of (Ok x, s) \<Rightarrow> strong_inv w0 s \<and> Q x s
     | (Err e, s) \<Rightarrow> weak_inv w0 s \<and> (e = PageReclamationFailed \<or> strong_inv w0 s))"

lemma safe_result_bind:
  assumes "safe_result w0 Q m" and "\<And>x s. strong_inv w0 s \<Longrightarrow> Q x s \<Longrightarrow> m = (Ok x, s) \<Longrightarrow> safe_result w0 R (f x s)"
  shows "safe_result w0 R (st_bind m f)"
  using assms by (cases m; cases "fst m") (auto simp: safe_result_def)

lemma safe_result_pure:
  assumes "strong_inv w0 s" and "\<And>x. r = Ok x \<Longrightarrow> safe_result w0 R (f x s)"
  shows "safe_result w0 R (st_bind (r, s) f)"
  using assms by (cases r) (auto simp: safe_result_def strong_inv_def)

lemma safe_result_mono: "safe_result w0 Q r \<Longrightarrow> (\<And>x s. strong_inv w0 s \<Longrightarrow> Q x s \<Longrightarrow> R x s) \<Longrightarrow> safe_result w0 R r"
  by (auto simp: safe_result_def split: sum.splits prod.splits)

lemma page_in_direct_map: "world_ok w0 \<Longrightarrow> 4096 dvd p \<Longrightarrow> page_number p \<in> usable w0 \<Longrightarrow> p + 4096 \<le> 2 ^ 47"
  by (force simp: world_ok_def page_number_def)

lemma direct_map: "p < 2 ^ 47 \<Longrightarrow> physical_page_mut p = Ok (HIGH_HALF_DIRECT_MAP_BASE + p)"
  by (simp add: physical_page_mut_def higher_half_phys_def checked_add_def U64_MAX_def)

section \<open>Taking and returning pages\<close>

lemma weak_inv_zeroed:
  assumes "weak_inv w0 (w, owned)" and "4096 dvd p" and "page_number p \<in> usable w0 - live w0"
    and "page_number a \<notin> usable w0 - live w0"
  shows "vw_mem (zero_page p w) a = vw_mem w0 a"
proof -
  have "\<not> (p \<le> a \<and> a < p + 4096)" using page_number_range [OF assms(2), of a] assms(3,4) by auto
  then have "vw_mem (zero_page p w) a = vw_mem w a" by (auto simp: zero_page_def write_bytes_def)
  then show ?thesis using assms(1,4) by (simp add: weak_inv_def)
qed

definition fresh_page :: "user_state \<Rightarrow> nat \<Rightarrow> user_state \<Rightarrow> bool" where
  "fresh_page s p s' \<longleftrightarrow> snd s' = snd s @ [p] \<and> p \<notin> set (snd s) \<and> 4096 dvd p \<and> p + 4096 \<le> 2 ^ 47 \<and>
    vw_mem (fst s') = write_bytes (vw_mem (fst s)) p 4096 0"

lemma allocated_page:
  assumes "strong_inv w0 (w, owned)" and "allocate_page (vw_pages w) = (Some p, pages)"
  shows "weak_inv w0 (zero_page p (w\<lparr>vw_pages := pages\<rparr>), owned @ [p]) \<and> p \<notin> set owned \<and> 4096 dvd p \<and>
    live_pages pages = live w0 \<union> page_number ` set (owned @ [p]) \<and> page_number p \<notin> live w"
proof -
  have inv: "allocator_inv (vw_pages w)" using assms(1) by (simp add: strong_inv_def weak_inv_def)
  note a = kernel_pages.alloc_Some [OF inv assms(2)]
  have live: "live w = live w0 \<union> page_number ` set owned" using assms(1) by (simp add: strong_inv_def)
  then have fresh: "page_number p \<in> usable w0 - live w0" "p \<notin> set owned"
    using a assms(1) by (auto simp: strong_inv_def weak_inv_def live_def usable_def)
  have weak: "weak_inv w0 (w\<lparr>vw_pages := pages\<rparr>, owned)"
    using assms(1) a by (auto simp: strong_inv_def weak_inv_def live_def usable_def)
  have "weak_inv w0 (zero_page p (w\<lparr>vw_pages := pages\<rparr>), owned @ [p])"
    using weak weak_inv_zeroed [OF weak _ fresh(1)] a fresh(1)
    by (simp add: weak_inv_def) (simp add: zero_page_def live_def usable_def)
  then show ?thesis using a fresh(2) live by (auto simp: live_def)
qed

lemma alloc_safe:
  assumes "world_ok w0" and "strong_inv w0 s"
  shows "safe_result w0 (fresh_page s) (allocate_owned_zeroed_page s)"
proof -
  obtain w owned where s: "s = (w, owned)" by fastforce
  have inv: "allocator_inv (vw_pages w)" using assms(2) by (simp add: s strong_inv_def weak_inv_def)
  obtain r pages where al: "allocate_page (vw_pages w) = (r, pages)" by fastforce
  show ?thesis
  proof (cases r)
    case None
    then have "pages = vw_pages w" using kernel_pages.alloc_None [OF inv] al by simp
    then have "allocate_owned_zeroed_page s = (Err OutOfPhysicalPages, s)"
      using al None by (simp add: s allocate_owned_zeroed_page_def allocate_zeroed_page_def)
    then show ?thesis using assms(2) by (simp add: safe_result_def strong_inv_def)
  next
    case (Some p)
    let ?w = "zero_page p (w\<lparr>vw_pages := pages\<rparr>)"
    note a = allocated_page [OF assms(2) [unfolded s] al [unfolded Some]]
    have u: "page_number p \<in> usable w0" using a by (simp add: weak_inv_def)
    then have dm: "p + 4096 \<le> 2 ^ 47" using a page_in_direct_map [OF assms(1)] by blast
    then have run: "allocate_zeroed_page w = (Ok p, ?w)"
      using al Some direct_map [of p] by (simp add: allocate_zeroed_page_def)
    have mem: "vw_mem ?w = write_bytes (vw_mem w) p 4096 0" and pg: "vw_pages ?w = pages" by (simp_all add: zero_page_def)
    show ?thesis
    proof (cases "length owned < 128")
      case True
      then have "allocate_owned_zeroed_page s = (Ok p, (?w, owned @ [p]))"
        using run by (simp add: s allocate_owned_zeroed_page_def ownership_record_def)
      moreover have "strong_inv w0 (?w, owned @ [p])"
        using a pg assms(2) by (simp add: s strong_inv_def live_def)
      ultimately show ?thesis using a dm mem by (simp add: safe_result_def fresh_page_def s)
    next
      case False
      obtain freed pages' where d: "deallocate_page pages p = (freed, pages')" by fastforce
      let ?s = "(?w\<lparr>vw_pages := pages'\<rparr>, owned)"
      have run': "allocate_owned_zeroed_page s = (Err (if freed then UserPageTrackingCapacity else PageReclamationFailed), ?s)"
        using run False d pg by (simp add: s allocate_owned_zeroed_page_def ownership_record_def)
      have ip: "allocator_inv pages" using a pg by (simp add: weak_inv_def)
      note k = kernel_pages.dealloc_keeps [OF ip d]
      have "live w0 \<subseteq> live_pages pages'" using a k by (auto simp: weak_inv_def)
      then have weak: "weak_inv w0 ?s"
        using a k pg by (auto simp: weak_inv_def live_def usable_def zero_page_def)
      have "live_pages pages' = live w0 \<union> page_number ` set owned" if freed
        using that kernel_pages.dealloc_True [OF ip] d a assms(2) by (auto simp: s strong_inv_def)
      then have "strong_inv w0 ?s" if freed
        using that weak assms(2) by (simp add: s strong_inv_def live_def)
      then show ?thesis using run' weak by (simp add: safe_result_def)
    qed
  qed
qed

lemma reclaim_pages_result:
  "\<forall>p\<in>set ps. physical_page_mut p = Ok (HIGH_HALF_DIRECT_MAP_BASE + p) \<Longrightarrow>
    fst (reclaim_pages ps failed w) = (failed \<or> \<not> fst (release_pages deallocate_page ps (vw_pages w))) \<and>
    vw_pages (snd (reclaim_pages ps failed w)) = snd (release_pages deallocate_page ps (vw_pages w)) \<and>
    vw_cr3 (snd (reclaim_pages ps failed w)) = vw_cr3 w \<and>
    vw_mem (snd (reclaim_pages ps failed w)) = fold (\<lambda>p m. write_bytes m p 4096 0) ps (vw_mem w)"
proof (induction ps arbitrary: failed w)
  case (Cons p ps)
  obtain freed pages where d: "deallocate_page (vw_pages w) p = (freed, pages)" by fastforce
  then have "deallocate_page (vw_pages (zero_page p w)) p = (freed, pages)" by (simp add: zero_page_def)
  then have run: "reclaim_pages (p # ps) failed w = reclaim_pages ps (failed \<or> \<not> freed) ((zero_page p w)\<lparr>vw_pages := pages\<rparr>)"
    using Cons.prems by simp
  show ?case
    unfolding run using Cons.IH [of "failed \<or> \<not> freed" "(zero_page p w)\<lparr>vw_pages := pages\<rparr>"] Cons.prems d
    by (auto simp: zero_page_def Let_def split: prod.splits)
qed simp

lemma fold_zero_pages:
  "\<forall>p\<in>set ps. 4096 dvd p \<Longrightarrow> fold (\<lambda>p m. write_bytes m p 4096 0) ps m a = (if page_number a \<in> page_number ` set ps then 0 else m a)"
proof (induction ps arbitrary: m)
  case (Cons p ps)
  have "write_bytes m p 4096 0 a = (if page_number a = page_number p then 0 else m a)"
    using page_number_range [of p a] Cons.prems by (auto simp: write_bytes_def)
  then show ?case using Cons by auto
qed simp

lemma reclaim_weak:
  assumes "world_ok w0" and "weak_inv w0 (w, owned)" and "ownership_reclaim owned w = (r, w')"
  shows "weak_inv w0 (w', owned) \<and> (strong_inv w0 (w, owned) \<longrightarrow> r = Ok () \<longrightarrow> live w' = live w0) \<and>
    (r = Ok () \<or> r = Err PageReclamationFailed) \<and>
    (\<forall>a. vw_mem w' a = (if page_number a \<in> page_number ` set owned then 0 else vw_mem w a)) \<and>
    (r = Ok () \<longrightarrow> live w' = live w - page_number ` set owned)"
proof -
  have own: "4096 dvd p \<and> page_number p \<in> usable w0 - live w0" if "p \<in> set owned" for p
    using assms(2) that by (simp add: weak_inv_def)
  then have dm: "\<forall>p\<in>set (rev owned). physical_page_mut p = Ok (HIGH_HALF_DIRECT_MAP_BASE + p)"
    using page_in_direct_map [OF assms(1)] direct_map by fastforce
  obtain freed pages where rel: "release_pages deallocate_page (rev owned) (vw_pages w) = (freed, pages)" by fastforce
  note rr = reclaim_pages_result [OF dm, of False w, unfolded rel, simplified]
  have w': "vw_pages w' = pages" "vw_cr3 w' = vw_cr3 w" "vw_mem w' = fold (\<lambda>p m. write_bytes m p 4096 0) (rev owned) (vw_mem w)"
    and r: "r = (if freed then Ok () else Err PageReclamationFailed)"
    using rr assms(3) by (auto simp: ownership_reclaim_def split: prod.splits)
  have inv: "allocator_inv (vw_pages w)" using assms(2) by (simp add: weak_inv_def)
  note k = kernel_pages.release_pages_keeps [OF inv rel, simplified]
  have mem: "vw_mem w' a = (if page_number a \<in> page_number ` set owned then 0 else vw_mem w a)" for a
    unfolding w'(3) using fold_zero_pages [of "rev owned" "vw_mem w" a] own by simp
  have apart: "live w0 \<inter> page_number ` set owned = {}" using own by auto
  have "live w0 \<subseteq> live w" "live w \<subseteq> usable w0" using assms(2) by (simp_all add: weak_inv_def)
  moreover have "live w - page_number ` set owned \<subseteq> live w'" "live w' \<subseteq> live w" using k by (simp_all add: live_def w'(1))
  ultimately have sub: "live w0 \<subseteq> live w'" "live w' \<subseteq> usable w0" using apart by blast+
  have frame: "vw_mem w' a = vw_mem w0 a" if "page_number a \<notin> usable w0 - live w0" for a
  proof -
    have "page_number a \<notin> page_number ` set owned" using that own by (metis imageE)
    then show ?thesis using mem [of a] assms(2) that by (simp add: weak_inv_def)
  qed
  have weak: "weak_inv w0 (w', owned)"
    unfolding weak_inv_def fst_conv snd_conv using sub frame own k assms(2) by (simp add: w' usable_def weak_inv_def)
  have "live w' = live w - page_number ` set owned" if freed using k that by (simp add: live_def w'(1))
  moreover have "live w - page_number ` set owned = live w0" if "strong_inv w0 (w, owned)"
    using that apart by (auto simp: strong_inv_def)
  ultimately show ?thesis using weak mem r by (simp split: if_splits)
qed

end
