(* ===== verification/UserSpaceTables.thy ===== *)
theory UserSpaceTables
  imports UserSpaceInv
begin

text \<open>
  The page tables of a user address space under construction. The user region lies in one last-level
  table, so the tables below the root are either absent or a chain of three pages; every leaf
  refers to a page of its own.
\<close>

section \<open>Entries in memory\<close>

lemma table_entry_cong:
  assumes "4096 dvd t" and "k < 512" and "\<And>a. page_number a = page_number t \<Longrightarrow> m a = m' a"
  shows "table_entry m t k = table_entry m' t k"
  unfolding table_entry_def
  by (rule peek_cong) (use assms page_number_range [OF assms(1)] in auto)

lemma mem_set_table_entry:
  assumes "4096 dvd t" and "k < 512" and "page_number a \<noteq> page_number t"
  shows "vw_mem (fst (set_table_entry t k v s)) a = vw_mem (fst s) a"
  using assms page_number_range [OF assms(1), of a] by (auto simp: set_table_entry_def poke_outside)

lemma table_entry_set:
  assumes "4096 dvd t" "4096 dvd t'" "k < 512" "k' < 512" "v < 2 ^ 64"
  shows "table_entry (vw_mem (fst (set_table_entry t k v s))) t' k' =
    (if t' = t \<and> k' = k then v else table_entry (vw_mem (fst s)) t' k')"
proof (cases "t' = t")
  case True
  have "t + 8 * k' + 8 \<le> t + 8 * k \<or> t + 8 * k + 8 \<le> t + 8 * k'" if "k' \<noteq> k" using that by linarith
  then show ?thesis
    using assms(5) True by (auto simp: set_table_entry_def table_entry_def peek_poke_same intro: peek_poke_other)
next
  case False
  then have "page_number t \<noteq> page_number t'" using assms page_number_eq_iff by metis
  then have "table_entry (vw_mem (fst (set_table_entry t k v s))) t' k' = table_entry (vw_mem (fst s)) t' k'"
    by (intro table_entry_cong [OF assms(2,4)] mem_set_table_entry [OF assms(1,3)]) simp
  then show ?thesis using False by simp
qed

lemma mem_fresh_page:
  assumes "fresh_page s p s'" and "page_number a \<noteq> page_number p"
  shows "vw_mem (fst s') a = vw_mem (fst s) a"
  using assms page_number_range [of p a] by (auto simp: fresh_page_def write_bytes_def)

lemma table_entry_fresh:
  assumes "fresh_page s p s'" and "4096 dvd t" and "k < 512"
  shows "table_entry (vw_mem (fst s')) t k = (if t = p then 0 else table_entry (vw_mem (fst s)) t k)"
proof (cases "t = p")
  case True
  have "peek_u64 (write_bytes (vw_mem (fst s)) p 4096 0) (p + 8 * k) = 0"
    by (rule peek_zeroed) (use assms(3) in simp_all)
  then show ?thesis using True assms(1) by (simp add: fresh_page_def table_entry_def)
next
  case False
  then have "page_number p \<noteq> page_number t" using assms page_number_eq_iff by (metis fresh_page_def)
  then have "table_entry (vw_mem (fst s')) t k = table_entry (vw_mem (fst s)) t k"
    by (intro table_entry_cong [OF assms(2,3)] mem_fresh_page [OF assms(1)]) simp
  then show ?thesis using False by simp
qed

lemma strong_inv_write:
  assumes "strong_inv w0 s" and "t \<in> set (snd s)" and "\<And>a. page_number a \<noteq> page_number t \<Longrightarrow> m a = vw_mem (fst s) a"
  shows "strong_inv w0 ((fst s)\<lparr>vw_mem := m\<rparr>, snd s)"
proof -
  have "page_number t \<in> usable w0 - live w0" using assms(1,2) by (auto simp: strong_inv_def weak_inv_def)
  have "m a = vw_mem w0 a" if "page_number a \<notin> usable w0 - live w0" for a
  proof -
    have "page_number a \<noteq> page_number t" using that \<open>page_number t \<in> _\<close> by metis
    then show ?thesis using assms(1,3) that by (simp add: strong_inv_def weak_inv_def)
  qed
  moreover have "usable ((fst s)\<lparr>vw_mem := m\<rparr>) = usable (fst s)" "live ((fst s)\<lparr>vw_mem := m\<rparr>) = live (fst s)"
    by (simp_all add: usable_def live_def)
  ultimately show ?thesis using assms(1) by (auto simp: strong_inv_def weak_inv_def)
qed

lemma owned_page:
  assumes "world_ok w0" and "strong_inv w0 s" and "t \<in> set (snd s)"
  shows "4096 dvd t" "t + 4096 \<le> 2 ^ 47" "physical_page_mut t = Ok (HIGH_HALF_DIRECT_MAP_BASE + t)"
proof -
  show d: "4096 dvd t" and l: "t + 4096 \<le> 2 ^ 47"
    using assms page_in_direct_map [OF assms(1), of t] by (auto simp: strong_inv_def weak_inv_def)
  show "physical_page_mut t = Ok (HIGH_HALF_DIRECT_MAP_BASE + t)" by (rule direct_map) (use l in simp)
qed

lemma strong_inv_set:
  assumes "world_ok w0" and "strong_inv w0 s" and "t \<in> set (snd s)" and "k < 512"
  shows "strong_inv w0 (set_table_entry t k v s)"
proof -
  have "vw_mem (fst (set_table_entry t k v s)) a = vw_mem (fst s) a" if "page_number a \<noteq> page_number t" for a
    by (rule mem_set_table_entry [OF owned_page(1) [OF assms(1-3)] assms(4) that])
  then show ?thesis
    using strong_inv_write [OF assms(2,3), of "vw_mem (fst (set_table_entry t k v s))"] by (simp add: set_table_entry_def)
qed

lemma snd_set_table_entry [simp]: "snd (set_table_entry t k v s) = snd s"
  by (simp add: set_table_entry_def)

section \<open>Leaves\<close>

definition user_leaf :: "nat \<Rightarrow> bool \<Rightarrow> bool \<Rightarrow> nat" where
  "user_leaf p w x = (let entry = make_leaf_entry p w x OR ENTRY_USER in if \<not> x then entry OR ENTRY_NO_EXECUTE else entry)"

lemma user_leaf_bits:
  assumes "4096 dvd p" and "p < 2 ^ 52"
  shows "entry_address (user_leaf p w x) = p" "bit (user_leaf p w x) 0" "bit (user_leaf p w x) 1 \<longleftrightarrow> w"
    "bit (user_leaf p w x) 2" "bit (user_leaf p w x) 63 \<longleftrightarrow> \<not> x" "user_leaf p w x < 2 ^ 64"
proof -
  have "user_leaf p w x AND ADDRESS_MASK = make_leaf_entry p w x AND ADDRESS_MASK"
    by (rule bit_eqI) (auto simp: user_leaf_def Let_def bit_simps bit_ADDRESS_MASK bit_entry_flags)
  then show "entry_address (user_leaf p w x) = p"
    using leaf_entry_bits(1) [OF assms] by (simp add: entry_address_def)
  have "ENTRY_NO_EXECUTE < 2 ^ 64" by (simp add: ENTRY_NO_EXECUTE_def)
  then show "user_leaf p w x < 2 ^ 64"
    using entry_less_64(4) [OF assms(2)] or_less_64 by (simp add: user_leaf_def Let_def)
qed (use leaf_entry_bits [OF assms] in \<open>auto simp: user_leaf_def Let_def bit_or_iff bit_entry_flags\<close>)

section \<open>The invariant\<close>

type_synonym leaves = "nat \<rightharpoonup> nat \<times> bool \<times> bool"

fun chain_pages :: "(nat \<times> nat \<times> nat) option \<Rightarrow> nat list" where
  "chain_pages None = []"
| "chain_pages (Some (a, b, c)) = [a, b, c]"

definition leaf_pages :: "leaves \<Rightarrow> nat set" where
  "leaf_pages L = {p. \<exists>k w x. L k = Some (p, w, x)}"

definition used_pages :: "nat \<Rightarrow> (nat \<times> nat \<times> nat) option \<Rightarrow> leaves \<Rightarrow> nat set" where
  "used_pages root chain L = set (root # chain_pages chain) \<union> leaf_pages L"

definition chain_entries :: "phys_mem \<Rightarrow> nat \<Rightarrow> (nat \<times> nat \<times> nat) option \<Rightarrow> leaves \<Rightarrow> bool" where
  "chain_entries m root chain L \<longleftrightarrow> (case chain of
     None \<Rightarrow> L = Map.empty \<and> \<not> bit (table_entry m root 64) 0
   | Some (a, b, c) \<Rightarrow> table_entry m root 64 = make_user_table_entry a \<and>
       (\<forall>k<512. table_entry m a k = (if k = 0 then make_user_table_entry b else 0)) \<and>
       (\<forall>k<512. table_entry m b k = (if k = 0 then make_user_table_entry c else 0)) \<and>
       (\<forall>k<512. table_entry m c k = (case L k of None \<Rightarrow> 0 | Some (p, w, x) \<Rightarrow> user_leaf p w x)))"

text \<open>
  The pages of the tables and of the leaves are all different. In memory, \<open>K\<close> gives the entries of
  the kernel's root and \<open>D k\<close> the contents of the page behind leaf \<open>k\<close>.
\<close>

definition tables_shape :: "nat \<Rightarrow> (nat \<times> nat \<times> nat) option \<Rightarrow> leaves \<Rightarrow> bool" where
  "tables_shape root chain L \<longleftrightarrow> distinct (root # chain_pages chain) \<and> set (root # chain_pages chain) \<inter> leaf_pages L = {} \<and>
     (\<forall>k k' p w x w' x'. L k = Some (p, w, x) \<longrightarrow> L k' = Some (p, w', x') \<longrightarrow> k = k') \<and> (\<forall>k. L k \<noteq> None \<longrightarrow> k < 512)"

definition tables_mem ::
    "(nat \<Rightarrow> nat) \<Rightarrow> nat \<Rightarrow> (nat \<times> nat \<times> nat) option \<Rightarrow> leaves \<Rightarrow> (nat \<Rightarrow> nat \<Rightarrow> u8) \<Rightarrow> phys_mem \<Rightarrow> bool" where
  "tables_mem K root chain L D m \<longleftrightarrow> (\<forall>k<512. k \<noteq> 64 \<longrightarrow> table_entry m root k = K k) \<and> chain_entries m root chain L \<and>
     (\<forall>k p w x. L k = Some (p, w, x) \<longrightarrow> (\<forall>i<4096. m (p + i) = D k i))"

definition tables_inv ::
    "(nat \<Rightarrow> nat) \<Rightarrow> nat \<Rightarrow> (nat \<times> nat \<times> nat) option \<Rightarrow> leaves \<Rightarrow> (nat \<Rightarrow> nat \<Rightarrow> u8) \<Rightarrow> user_state \<Rightarrow> bool" where
  "tables_inv K root chain L D s \<longleftrightarrow> used_pages root chain L \<subseteq> set (snd s) \<and> (\<forall>p\<in>set (snd s). 4096 dvd p) \<and>
     tables_shape root chain L \<and> tables_mem K root chain L D (vw_mem (fst s))"

lemma chain_entries_cong:
  assumes "\<And>t k. t \<in> set (root # chain_pages chain) \<Longrightarrow> k < 512 \<Longrightarrow> table_entry m t k = table_entry m' t k"
    and "chain_entries m root chain L"
  shows "chain_entries m' root chain L"
proof (cases chain)
  case None
  then show ?thesis using assms(2) assms(1) [of root 64] by (simp add: chain_entries_def)
next
  case (Some c)
  obtain a1 a2 a3 where c: "chain = Some (a1, a2, a3)" using Some by (cases c) auto
  have "table_entry m' root 64 = table_entry m root 64" using assms(1) [of root 64] by simp
  moreover have "table_entry m' a1 k = table_entry m a1 k" "table_entry m' a2 k = table_entry m a2 k"
    "table_entry m' a3 k = table_entry m a3 k" if "k < 512" for k
    using assms(1) that by (simp_all add: c)
  ultimately show ?thesis using assms(2) by (simp add: c chain_entries_def)
qed

text \<open>Writes to pages outside the tables and their leaves do not matter.\<close>

lemma tables_mem_frame:
  assumes "tables_mem K root chain L D m" and al: "\<And>t. t \<in> used_pages root chain L \<Longrightarrow> 4096 dvd t"
    and same: "\<And>a t. t \<in> used_pages root chain L \<Longrightarrow> page_number a = page_number t \<Longrightarrow> m' a = m a"
  shows "tables_mem K root chain L D m'"
proof -
  have te: "table_entry m t k = table_entry m' t k" if "t \<in> set (root # chain_pages chain)" "k < 512" for t k
  proof (rule table_entry_cong [OF _ that(2)])
    have u: "t \<in> used_pages root chain L" using that(1) by (auto simp: used_pages_def)
    then show "4096 dvd t" by (rule al)
    show "m a = m' a" if "page_number a = page_number t" for a using same [OF u that] by simp
  qed
  have "chain_entries m' root chain L"
    by (rule chain_entries_cong [OF te]) (use assms(1) in \<open>simp_all add: tables_mem_def\<close>)
  moreover have "m' (p + i) = D k i" if "L k = Some (p, w, x)" "i < 4096" for k p w x i
  proof -
    have u: "p \<in> used_pages root chain L" using that(1) by (auto simp: used_pages_def leaf_pages_def)
    then show ?thesis
      using same [OF u, of "p + i"] page_number_offset [OF al [OF u] that(2)] assms(1) that by (simp add: tables_mem_def)
  qed
  moreover have "table_entry m' root k = K k" if "k < 512" "k \<noteq> 64" for k
    using te [of root k] that assms(1) by (simp add: tables_mem_def)
  ultimately show ?thesis by (simp add: tables_mem_def)
qed

lemma tables_inv_frame:
  assumes "tables_inv K root chain L D s" and "set (snd s) \<subseteq> set (snd s')" and "\<forall>p\<in>set (snd s'). 4096 dvd p"
    and same: "\<And>a t. t \<in> used_pages root chain L \<Longrightarrow> page_number a = page_number t \<Longrightarrow> vw_mem (fst s') a = vw_mem (fst s) a"
  shows "tables_inv K root chain L D s'"
proof -
  have "tables_mem K root chain L D (vw_mem (fst s'))"
    by (rule tables_mem_frame [OF _ _ same]) (use assms(1) in \<open>auto simp: tables_inv_def\<close>)
  then show ?thesis using assms(1-3) by (auto simp: tables_inv_def)
qed

section \<open>Mapping a page\<close>

lemma user_entry_tests:
  assumes "4096 dvd p" and "p + 4096 \<le> 2 ^ 47"
  shows "make_user_table_entry p AND ENTRY_PRESENT \<noteq> 0" "make_user_table_entry p AND ENTRY_USER \<noteq> 0"
    "entry_address (make_user_table_entry p) = p" "make_user_table_entry p < 2 ^ 64"
proof -
  have "p < 2 ^ 52" using assms(2) by simp
  then show "make_user_table_entry p AND ENTRY_PRESENT \<noteq> 0" "make_user_table_entry p AND ENTRY_USER \<noteq> 0"
    "entry_address (make_user_table_entry p) = p" "make_user_table_entry p < 2 ^ 64"
    using table_entry_bits [OF assms(1)] entry_less_64(2) unfolding flag_test by simp_all
qed

lemma raw_map_step_present:
  assumes "physical_page_mut t = Ok v" and "table_entry (vw_mem (fst s)) t i = make_user_table_entry c"
    and "4096 dvd c" and "c + 4096 \<le> 2 ^ 47"
  shows "raw_map_tables (i # rest) t s = raw_map_tables rest c s"
  using assms(1,2) user_entry_tests [OF assms(3,4)] by (simp add: physical_table_mut_def)

lemma raw_map_step_absent:
  assumes "physical_page_mut t = Ok v" and "\<not> bit (table_entry (vw_mem (fst s)) t i) 0"
    and "\<And>c s'. fresh_page s c s' \<Longrightarrow> strong_inv w0 s' \<Longrightarrow>
      safe_result w0 Q (raw_map_tables rest c (set_table_entry t i (make_user_table_entry c) s'))"
    and "world_ok w0" and "strong_inv w0 s"
  shows "safe_result w0 Q (raw_map_tables (i # rest) t s)"
proof -
  have run: "raw_map_tables (i # rest) t s = st_bind (allocate_owned_zeroed_page s) (\<lambda>child s.
      raw_map_tables rest (entry_address (make_user_table_entry child)) (set_table_entry t i (make_user_table_entry child) s))"
    using assms(1,2) by (simp add: physical_table_mut_def Let_def flag_test(1) [symmetric])
  show ?thesis unfolding run
  proof (rule safe_result_bind [OF alloc_safe [OF assms(4,5)]])
    fix c s' assume c: "fresh_page s c s'" "strong_inv w0 s'"
    then have "entry_address (make_user_table_entry c) = c"
      by (intro user_entry_tests(3)) (simp_all add: fresh_page_def)
    then show "safe_result w0 Q (raw_map_tables rest (entry_address (make_user_table_entry c))
        (set_table_entry t i (make_user_table_entry c) s'))"
      using assms(3) [OF c] by simp
  qed
qed

text \<open>After the first three levels there is a chain of tables, with the leaves as they were.\<close>

definition chain_ready ::
    "(nat \<Rightarrow> nat) \<Rightarrow> nat \<Rightarrow> leaves \<Rightarrow> (nat \<Rightarrow> nat \<Rightarrow> u8) \<Rightarrow> nat set \<Rightarrow> user_state \<Rightarrow> nat \<Rightarrow> user_state \<Rightarrow> bool" where
  "chain_ready K root L D spare s c s' \<longleftrightarrow> (\<exists>a b. tables_inv K root (Some (a, b, c)) L D s' \<and>
    set (snd s) \<subseteq> set (snd s') \<and> spare \<inter> {root, a, b, c} = {} \<and>
    (\<forall>p\<in>spare. \<forall>x. page_number x = page_number p \<longrightarrow> vw_mem (fst s') x = vw_mem (fst s) x))"

lemma chain_present:
  assumes "world_ok w0" and "strong_inv w0 s" and inv: "tables_inv K root (Some (a, b, c)) L D s"
    and "spare \<inter> used_pages root (Some (a, b, c)) L = {}"
  shows "safe_result w0 (chain_ready K root L D spare s) (raw_map_tables [64, 0, 0] root s)"
proof -
  have own: "root \<in> set (snd s)" "a \<in> set (snd s)" "b \<in> set (snd s)" "c \<in> set (snd s)"
    using inv by (auto simp: tables_inv_def used_pages_def)
  note op = owned_page [OF assms(1,2)]
  have e: "table_entry (vw_mem (fst s)) root 64 = make_user_table_entry a" "table_entry (vw_mem (fst s)) a 0 = make_user_table_entry b"
    "table_entry (vw_mem (fst s)) b 0 = make_user_table_entry c"
    using inv by (simp_all add: tables_inv_def tables_mem_def chain_entries_def)
  have "raw_map_tables [64, 0, 0] root s = (Ok c, s)"
    using raw_map_step_present [OF op(3) [OF own(1)] e(1) op(1,2) [OF own(2)]]
      raw_map_step_present [OF op(3) [OF own(2)] e(2) op(1,2) [OF own(3)]]
      raw_map_step_present [OF op(3) [OF own(3)] e(3) op(1,2) [OF own(4)]] by simp
  moreover have "chain_ready K root L D spare s c s"
    using inv assms(4) by (auto simp: chain_ready_def used_pages_def)
  ultimately show ?thesis using assms(2) by (simp add: safe_result_def)
qed

lemma fresh_pageD:
  assumes "fresh_page s p s'"
  shows "snd s' = snd s @ [p]" "p \<notin> set (snd s)" "4096 dvd p" "p + 4096 \<le> 2 ^ 47"
  using assms by (simp_all add: fresh_page_def)

text \<open>The entries and the spare pages after the three tables were created.\<close>

lemma chain_created:
  assumes al: "\<forall>p\<in>set (snd s). 4096 dvd p" and root: "root \<in> set (snd s)"
    and a: "fresh_page s a s1" and b: "fresh_page (set_table_entry root 64 (make_user_table_entry a) s1) b s2"
    and c: "fresh_page (set_table_entry a 0 (make_user_table_entry b) s2) c s3"
    and K: "\<forall>k<512. k \<noteq> 64 \<longrightarrow> table_entry (vw_mem (fst s)) root k = K k"
  shows "tables_inv K root (Some (a, b, c)) Map.empty D (set_table_entry b 0 (make_user_table_entry c) s3)"
    and "p \<in> set (snd s) - {root} \<Longrightarrow> p \<notin> {root, a, b, c}"
    and "p \<in> set (snd s) - {root} \<Longrightarrow> page_number x = page_number p \<Longrightarrow>
      vw_mem (fst (set_table_entry b 0 (make_user_table_entry c) s3)) x = vw_mem (fst s) x"
proof -
  note fa = fresh_pageD [OF a] and fb = fresh_pageD [OF b] and fc = fresh_pageD [OF c]
  have d: "distinct [root, a, b, c]" and out: "a \<notin> set (snd s)" "b \<notin> set (snd s)" "c \<notin> set (snd s)"
    using fa fb fc root by auto
  have dv: "4096 dvd root" "4096 dvd a" "4096 dvd b" "4096 dvd c" using al root fa fb fc by auto
  have less: "make_user_table_entry a < 2 ^ 64" "make_user_table_entry b < 2 ^ 64" "make_user_table_entry c < 2 ^ 64"
    using user_entry_tests(4) fa fb fc by blast+
  note te = table_entry_set [OF dv(3) _ _ _ less(3)] table_entry_fresh [OF c] table_entry_set [OF dv(2) _ _ _ less(2)]
    table_entry_fresh [OF b] table_entry_set [OF dv(1) _ _ _ less(1)] table_entry_fresh [OF a]
  let ?s = "set_table_entry b 0 (make_user_table_entry c) s3"
  have "tables_mem K root (Some (a, b, c)) Map.empty D (vw_mem (fst ?s))"
    using d dv K by (auto simp: tables_mem_def chain_entries_def te)
  moreover have "tables_shape root (Some (a, b, c)) Map.empty" using d by (simp add: tables_shape_def leaf_pages_def)
  moreover have "snd ?s = snd s @ [a, b, c]" using fa fb fc by simp
  ultimately show "tables_inv K root (Some (a, b, c)) Map.empty D ?s"
    using al root dv by (auto simp: tables_inv_def used_pages_def leaf_pages_def)
  show "p \<notin> {root, a, b, c}" if "p \<in> set (snd s) - {root}" for p using that out by auto
  then have "page_number p \<notin> {page_number root, page_number a, page_number b, page_number c}" if "p \<in> set (snd s) - {root}" for p
    using that al dv page_number_eq_iff by (metis DiffD1 insert_iff empty_iff)
  then show "vw_mem (fst ?s) x = vw_mem (fst s) x" if "p \<in> set (snd s) - {root}" "page_number x = page_number p"
    using that mem_set_table_entry dv mem_fresh_page [OF a] mem_fresh_page [OF b] mem_fresh_page [OF c] by simp
qed

lemma chain_absent:
  assumes "world_ok w0" and "strong_inv w0 s" and inv: "tables_inv K root None L D s"
    and "spare \<subseteq> set (snd s) - {root}"
  shows "safe_result w0 (chain_ready K root L D spare s) (raw_map_tables [64, 0, 0] root s)"
proof -
  have root: "root \<in> set (snd s)" and al: "\<forall>p\<in>set (snd s). 4096 dvd p" and L: "L = Map.empty"
    and nb: "\<not> bit (table_entry (vw_mem (fst s)) root 64) 0"
    and K: "\<forall>k<512. k \<noteq> 64 \<longrightarrow> table_entry (vw_mem (fst s)) root k = K k"
    using inv by (auto simp: tables_inv_def used_pages_def tables_mem_def chain_entries_def)
  show ?thesis
  proof (rule raw_map_step_absent [OF owned_page(3) [OF assms(1,2) root] nb _ assms(1,2)])
    fix a s1 assume a: "fresh_page s a s1" and i1: "strong_inv w0 s1"
    let ?s1 = "set_table_entry root 64 (make_user_table_entry a) s1"
    note fa = fresh_pageD [OF a]
    have j1: "strong_inv w0 ?s1" by (rule strong_inv_set [OF assms(1) i1]) (use root fa in simp_all)
    have o1: "a \<in> set (snd ?s1)" using fa by simp
    have na: "\<not> bit (table_entry (vw_mem (fst ?s1)) a 0) 0"
      using fa root al user_entry_tests(4) [of a] by (auto simp: table_entry_set table_entry_fresh [OF a])
    show "safe_result w0 (chain_ready K root L D spare s) (raw_map_tables [0, 0] a ?s1)"
    proof (rule raw_map_step_absent [OF owned_page(3) [OF assms(1) j1 o1] na _ assms(1) j1])
      fix b s2 assume b: "fresh_page ?s1 b s2" and i2: "strong_inv w0 s2"
      let ?s2 = "set_table_entry a 0 (make_user_table_entry b) s2"
      note fb = fresh_pageD [OF b]
      have j2: "strong_inv w0 ?s2" by (rule strong_inv_set [OF assms(1) i2]) (use o1 fb in simp_all)
      have o2: "b \<in> set (snd ?s2)" using fb by simp
      have nb2: "\<not> bit (table_entry (vw_mem (fst ?s2)) b 0) 0"
        using fb fa o1 user_entry_tests(4) [of b] by (auto simp: table_entry_set table_entry_fresh [OF b])
      show "safe_result w0 (chain_ready K root L D spare s) (raw_map_tables [0] b ?s2)"
      proof (rule raw_map_step_absent [OF owned_page(3) [OF assms(1) j2 o2] nb2 _ assms(1) j2])
        fix c s3 assume c: "fresh_page ?s2 c s3" and i3: "strong_inv w0 s3"
        let ?s3 = "set_table_entry b 0 (make_user_table_entry c) s3"
        have j3: "strong_inv w0 ?s3" by (rule strong_inv_set [OF assms(1) i3]) (use o2 fresh_pageD [OF c] in simp_all)
        note cc = chain_created [OF al root a b c K]
        have "set (snd s) \<subseteq> set (snd ?s3)" using fa fb fresh_pageD [OF c] by auto
        moreover have "spare \<inter> {root, a, b, c} = {}" using cc(2) assms(4) by blast
        moreover have "\<forall>p\<in>spare. \<forall>x. page_number x = page_number p \<longrightarrow> vw_mem (fst ?s3) x = vw_mem (fst s) x"
          using cc(3) assms(4) by blast
        ultimately have "chain_ready K root L D spare s c ?s3"
          using cc(1) [of D] unfolding chain_ready_def L by blast
        then show "safe_result w0 (chain_ready K root L D spare s) (raw_map_tables [] c ?s3)"
          using j3 by (simp add: safe_result_def)
      qed
    qed
  qed
qed

lemma chain_ensured:
  assumes "world_ok w0" and "strong_inv w0 s" and "tables_inv K root chain L D s"
    and "spare \<subseteq> set (snd s)" and "spare \<inter> used_pages root chain L = {}"
  shows "safe_result w0 (chain_ready K root L D spare s) (raw_map_tables [64, 0, 0] root s)"
proof (cases chain)
  case None
  then show ?thesis
    using assms by (intro chain_absent) (auto simp: used_pages_def)
next
  case (Some c)
  then show ?thesis
    using assms by (cases c) (intro chain_present, auto)
qed

lemma leaf_set:
  assumes inv: "tables_inv K root (Some (a, b, c)) L D s" and p: "p \<in> set (snd s)" "p \<notin> used_pages root (Some (a, b, c)) L"
    and "p + 4096 \<le> 2 ^ 47" and k: "k < 512" "L k = None"
  shows "tables_inv K root (Some (a, b, c)) (L(k \<mapsto> (p, w, x))) (D(k := \<lambda>i. vw_mem (fst s) (p + i)))
    (set_table_entry c k (user_leaf p w x) s)"
proof -
  let ?s = "set_table_entry c k (user_leaf p w x) s"
  have used: "used_pages root (Some (a, b, c)) L \<subseteq> set (snd s)" and al: "\<forall>q\<in>set (snd s). 4096 dvd q"
    and shape: "tables_shape root (Some (a, b, c)) L" and mem: "tables_mem K root (Some (a, b, c)) L D (vw_mem (fst s))"
    using inv by (simp_all add: tables_inv_def)
  have dv: "4096 dvd root" "4096 dvd a" "4096 dvd b" "4096 dvd c" "4096 dvd p"
    using used al p(1) by (auto simp: used_pages_def)
  have less: "user_leaf p w x < 2 ^ 64" using user_leaf_bits(6) [OF dv(5)] assms(4) by simp
  have leaf: "leaf_pages (L(k \<mapsto> (p, w, x))) = insert p (leaf_pages L)"
    using k(2) by (auto simp: leaf_pages_def) (metis option.distinct(1))
  have apart: "p \<notin> {root, a, b, c}" "p \<notin> leaf_pages L" "\<forall>q\<in>leaf_pages L. q \<noteq> c" "p \<noteq> c"
    using p(2) shape by (auto simp: used_pages_def tables_shape_def)
  have pn: "page_number (q + i) \<noteq> page_number c" if "4096 dvd q" "q \<noteq> c" "i < 4096" for q i
    using that page_number_offset page_number_eq_iff dv(4) by metis
  have bytes: "vw_mem (fst ?s) (q + i) = vw_mem (fst s) (q + i)" if "4096 dvd q" "q \<noteq> c" "i < 4096" for q i
    by (rule mem_set_table_entry [OF dv(4) k(1) pn [OF that]])
  have "chain_entries (vw_mem (fst ?s)) root (Some (a, b, c)) (L(k \<mapsto> (p, w, x)))"
    using mem shape dv k less by (auto simp: tables_mem_def chain_entries_def tables_shape_def table_entry_set)
  moreover have "\<forall>j<512. j \<noteq> 64 \<longrightarrow> table_entry (vw_mem (fst ?s)) root j = K j"
    using mem shape dv k less by (auto simp: tables_mem_def tables_shape_def table_entry_set)
  moreover have "vw_mem (fst ?s) (q + i) = (D(k := \<lambda>i. vw_mem (fst s) (p + i))) j i"
    if "(L(k \<mapsto> (p, w, x))) j = Some (q, w', x')" "i < 4096" for j q w' x' i
  proof (cases "j = k")
    case True
    then show ?thesis using that bytes [OF dv(5) apart(4)] by simp
  next
    case False
    then have q: "q \<in> leaf_pages L" "L j = Some (q, w', x')" using that(1) by (auto simp: leaf_pages_def)
    then have "4096 dvd q" "q \<noteq> c" using used al apart(3) by (auto simp: used_pages_def)
    then show ?thesis using bytes that(2) mem q(2) False by (simp add: tables_mem_def)
  qed
  ultimately have "tables_mem K root (Some (a, b, c)) (L(k \<mapsto> (p, w, x))) (D(k := \<lambda>i. vw_mem (fst s) (p + i))) (vw_mem (fst ?s))"
    unfolding tables_mem_def by blast
  moreover have "tables_shape root (Some (a, b, c)) (L(k \<mapsto> (p, w, x)))"
    using shape apart k unfolding tables_shape_def leaf by (auto simp: leaf_pages_def split: if_splits)
  ultimately show ?thesis
    using used al p(1) unfolding tables_inv_def used_pages_def leaf by auto
qed

lemma map_page_safe:
  assumes "world_ok w0" and "strong_inv w0 s" and "tables_inv K root chain L D s"
    and p: "p \<in> set (snd s)" "p \<notin> used_pages root chain L"
    and virt: "split_indices virt = [64, 0, 0, k]" and k: "k < 512" "L k = None"
  shows "safe_result w0 (\<lambda>_ s'. \<exists>chain'. tables_inv K root chain' (L(k \<mapsto> (p, w, x))) (D(k := \<lambda>i. vw_mem (fst s) (p + i))) s')
    (raw_map_user_page root virt p w x s)"
proof -
  note op = owned_page [OF assms(1,2) p(1)]
  have "safe_result w0 (chain_ready K root L D {p} s) (raw_map_tables [64, 0, 0] root s)"
    by (rule chain_ensured [OF assms(1-3)]) (use p in auto)
  moreover have run: "raw_map_user_page root virt p w x s = st_bind (raw_map_tables [64, 0, 0] root s) (\<lambda>table s.
      st_bind (physical_table_mut table, s) (\<lambda>_ s.
        if table_entry (vw_mem (fst s)) table k AND ENTRY_PRESENT \<noteq> 0 then (Err UserMappingConflict, s)
        else (Ok (), set_table_entry table k (user_leaf p w x) s)))"
  proof -
    have idx: "take 3 [64, 0, 0, k] = [64, 0, 0]" "[64, 0, 0, k] ! 3 = k" by simp_all
    show ?thesis unfolding raw_map_user_page_def virt user_leaf_def Let_def idx by (rule refl)
  qed
  ultimately show ?thesis
    unfolding run
  proof (elim safe_result_bind)
    fix c s' assume s': "strong_inv w0 s'" and "chain_ready K root L D {p} s c s'"
    then obtain a b where inv: "tables_inv K root (Some (a, b, c)) L D s'" and sub: "set (snd s) \<subseteq> set (snd s')"
      and out: "p \<notin> {root, a, b, c}" and same: "\<And>x. page_number x = page_number p \<Longrightarrow> vw_mem (fst s') x = vw_mem (fst s) x"
      by (auto simp: chain_ready_def)
    have c: "c \<in> set (snd s')" using inv by (auto simp: tables_inv_def used_pages_def)
    have p': "p \<in> set (snd s')" "p \<notin> used_pages root (Some (a, b, c)) L"
      using p sub out by (auto simp: used_pages_def)
    have "table_entry (vw_mem (fst s')) c k = 0"
      using inv k by (simp add: tables_inv_def tables_mem_def chain_entries_def)
    moreover have "(\<lambda>i. vw_mem (fst s') (p + i)) i = vw_mem (fst s) (p + i)" if "i < 4096" for i
      using same page_number_offset [OF op(1) that] by simp
    then have "tables_inv K root (Some (a, b, c)) (L(k \<mapsto> (p, w, x))) (D(k := \<lambda>i. vw_mem (fst s) (p + i)))
        (set_table_entry c k (user_leaf p w x) s')"
      using leaf_set [OF inv p' op(2) k, of w x] by (auto simp: tables_inv_def tables_mem_def split: if_splits)
    moreover have "strong_inv w0 (set_table_entry c k (user_leaf p w x) s')"
      by (rule strong_inv_set [OF assms(1) s' c k(1)])
    ultimately show "safe_result w0 (\<lambda>_ s'. \<exists>chain'. tables_inv K root chain' (L(k \<mapsto> (p, w, x))) (D(k := \<lambda>i. vw_mem (fst s) (p + i))) s')
      (st_bind (physical_table_mut c, s') (\<lambda>_ s.
        if table_entry (vw_mem (fst s)) c k AND ENTRY_PRESENT \<noteq> 0 then (Err UserMappingConflict, s)
        else (Ok (), set_table_entry c k (user_leaf p w x) s)))"
      using owned_page(3) [OF assms(1) s' c] by (auto simp: physical_table_mut_def safe_result_def)
  qed
qed

end
