(* ===== verification/UserSpaceLoad.thy ===== *)
theory UserSpaceLoad
  imports UserSpaceTables
begin

text \<open>
  Loading the segments of a program: every page of a segment gets a fresh page that holds exactly the
  segment's bytes there, and zeros elsewhere.
\<close>

section \<open>Contents of a page\<close>

definition segment_byte :: "UserSegment \<Rightarrow> nat \<Rightarrow> u8" where
  "segment_byte s v = (if us_virtual_address s \<le> v \<and> v < us_virtual_address s + length (us_data s)
     then us_data s ! (v - us_virtual_address s) else 0)"

lemma copy_page_data_result:
  assumes p: "physical_page_mut p = Ok q" and "fresh_page s0 p s" and "page_virt + 4096 \<le> U64_MAX"
    and "data_end = us_virtual_address seg + length (us_data seg)"
  obtains m where "copy_page_data seg data_end page_virt p s = (Ok (), ((fst s)\<lparr>vw_mem := m\<rparr>, snd s))"
    and "\<And>a. page_number a \<noteq> page_number p \<Longrightarrow> m a = vw_mem (fst s) a"
    and "\<And>i. i < 4096 \<Longrightarrow> m (p + i) = segment_byte seg (page_virt + i)"
proof -
  let ?va = "us_virtual_address seg" and ?d = "us_data seg"
  let ?cs = "max page_virt ?va" and ?ce = "min (page_virt + 4096) data_end"
  have sat: "saturating_add page_virt PAGE_SIZE = page_virt + 4096" using assms(3) by simp
  have al: "4096 dvd p" using assms(2) by (simp add: fresh_page_def)
  have zero: "vw_mem (fst s) (p + i) = 0" if "i < 4096" for i
    using assms(2) that by (simp add: fresh_page_def write_bytes_def)
  show ?thesis
  proof (cases "?cs < ?ce")
    case False
    have "copy_page_data seg data_end page_virt p s = (Ok (), ((fst s)\<lparr>vw_mem := vw_mem (fst s)\<rparr>, snd s))"
      by (simp only: copy_page_data_def Let_def sat if_not_P [OF False]) simp
    moreover have "vw_mem (fst s) (p + i) = segment_byte seg (page_virt + i)" if "i < 4096" for i
      using zero [OF that] False that assms(4) by (auto simp: segment_byte_def)
    ultimately show ?thesis using that by blast
  next
    case True
    let ?src = "slice ?d (?cs - ?va) (?cs - ?va + (?ce - ?cs))"
    let ?m = "copy_bytes (vw_mem (fst s)) (p + (?cs - page_virt)) ?src"
    have len: "length ?src = ?ce - ?cs" using True assms(4) by (intro trans [OF length_slice]) auto
    have "copy_page_data seg data_end page_virt p s = (Ok (), ((fst s)\<lparr>vw_mem := ?m\<rparr>, snd s))"
      by (simp only: copy_page_data_def Let_def sat if_P [OF True] p st_bind.simps)
    moreover have "?m a = vw_mem (fst s) a" if "page_number a \<noteq> page_number p" for a
      using that len page_number_range [OF al, of a] True by (auto simp: copy_bytes_def)
    moreover have "?m (p + i) = segment_byte seg (page_virt + i)" if i: "i < 4096" for i
    proof (cases "?cs \<le> page_virt + i \<and> page_virt + i < ?ce")
      case in_data: True
      then have "?m (p + i) = ?src ! (page_virt + i - ?cs)"
        using len by (auto simp: copy_bytes_def add.commute [of page_virt i])
      also have "\<dots> = ?d ! (page_virt + i - ?va)"
        using in_data True assms(4) by (subst nth_slice) auto
      finally show ?thesis using in_data assms(4) by (simp add: segment_byte_def)
    next
      case out: False
      then have "?m (p + i) = vw_mem (fst s) (p + i)" using len by (auto simp: copy_bytes_def)
      then show ?thesis using zero [OF i] out i assms(4) by (auto simp: segment_byte_def)
    qed
    ultimately show ?thesis using that by blast
  qed
qed

section \<open>Virtual pages of the user region\<close>

text \<open>Page \<open>k\<close> of the user region; the region has 512 pages and one last-level table.\<close>

definition user_page :: "nat \<Rightarrow> nat" where
  "user_page k = USER_CODE_BASE + k * 4096"

lemma split_user_page: "k < 512 \<Longrightarrow> i < 4096 \<Longrightarrow> split_indices (user_page k + i) = [64, 0, 0, k]"
proof -
  assume k: "k < 512" and i: "i < 4096"
  have v: "user_page k + i = (2 ^ 33 + k) * 4096 + i" by (simp add: user_page_def)
  have d12: "(user_page k + i) div 2 ^ 12 = 2 ^ 33 + k" using i unfolding v by simp
  have "(user_page k + i) div 2 ^ 21 = (user_page k + i) div 2 ^ 12 div 2 ^ 9" by (simp add: div_mult2_eq [symmetric])
  also have "\<dots> = 2 ^ 24" using k unfolding d12 by simp
  finally have d21: "(user_page k + i) div 2 ^ 21 = 2 ^ 24" .
  have d30: "(user_page k + i) div 2 ^ 30 = 2 ^ 15"
    using d21 div_mult2_eq [of "user_page k + i" "2 ^ 21" "2 ^ 9"] by simp
  have d39: "(user_page k + i) div 2 ^ 39 = 2 ^ 6"
    using d30 div_mult2_eq [of "user_page k + i" "2 ^ 30" "2 ^ 9"] by simp
  have "(2 ^ 33 + k) mod 512 = k" using k mod_mult_self2 [of k 512 "2 ^ 24"] by (simp add: add.commute)
  then show ?thesis unfolding split_indices_eq d12 d21 d30 d39 by simp
qed

section \<open>The page loop\<close>

definition loaded :: "UserSegment \<Rightarrow> nat \<Rightarrow> nat \<Rightarrow> leaves \<Rightarrow> (nat \<Rightarrow> nat \<Rightarrow> u8) \<Rightarrow> leaves \<Rightarrow> (nat \<Rightarrow> nat \<Rightarrow> u8) \<Rightarrow> bool" where
  "loaded seg k e L D L' D' \<longleftrightarrow>
    (\<forall>j. j < k \<or> e \<le> j \<longrightarrow> L' j = L j \<and> D' j = D j) \<and>
    (\<forall>j. k \<le> j \<and> j < e \<longrightarrow> (\<exists>p. L' j = Some (p, us_writable seg, us_executable seg)) \<and>
      (\<forall>i<4096. D' j i = segment_byte seg (user_page j + i)))"

lemma load_pages_safe:
  assumes "world_ok w0" and "e \<le> 511" and "data_end = us_virtual_address seg + length (us_data seg)"
  shows "strong_inv w0 s \<Longrightarrow> tables_inv K root chain L D s \<Longrightarrow> k \<le> e \<Longrightarrow> (\<forall>j. k \<le> j \<and> j < e \<longrightarrow> L j = None) \<Longrightarrow>
    safe_result w0 (\<lambda>_ s'. \<exists>chain' L' D'. tables_inv K root chain' L' D' s' \<and> loaded seg k e L D L' D')
      (load_pages root seg data_end (user_page e) (user_page k) code s)"
proof (induction "e - k" arbitrary: k chain L D s code)
  case 0
  then have "k = e" by simp
  then have "load_pages root seg data_end (user_page e) (user_page k) code s = (Ok code, s)"
    by (subst load_pages.simps) simp
  moreover have "loaded seg k e L D L D" using \<open>k = e\<close> by (auto simp: loaded_def)
  ultimately show ?case using 0 by (auto simp: safe_result_def)
next
  case (Suc n)
  then have ke: "k < e" by simp
  have lt: "user_page k < user_page e" and top: "user_page k + 4096 \<le> U64_MAX"
    using ke assms(2) by (simp_all add: user_page_def U64_MAX_def)
  have nxt: "checked_add (user_page k) 4096 = Some (user_page (Suc k))"
    using top by (simp add: checked_add_def user_page_def)
  have run: "load_pages root seg data_end (user_page e) (user_page k) code s =
      st_bind (allocate_owned_zeroed_page s) (\<lambda>p s. st_bind (copy_page_data seg data_end (user_page k) p s) (\<lambda>_ s.
      st_bind (raw_map_user_page root (user_page k) p (us_writable seg) (us_executable seg) s) (\<lambda>_ s.
        load_pages root seg data_end (user_page e) (user_page (k + 1)) (if us_executable seg \<and> code = 0 then p else code) s)))"
    using lt by (subst load_pages.simps) (simp add: nxt del: checked_add_Some)
  show ?case unfolding run
  proof (rule safe_result_bind [OF alloc_safe [OF assms(1) Suc.prems(1)]])
    fix p s1 assume i1: "strong_inv w0 s1" and f: "fresh_page s p s1"
    note fp = fresh_pageD [OF f]
    have p1: "p \<in> set (snd s1)" using fp by simp
    have dm: "physical_page_mut p = Ok (HIGH_HALF_DIRECT_MAP_BASE + p)" by (rule direct_map) (use fp in simp)
    obtain m where c: "copy_page_data seg data_end (user_page k) p s1 = (Ok (), ((fst s1)\<lparr>vw_mem := m\<rparr>, snd s1))"
      and frame: "\<And>a. page_number a \<noteq> page_number p \<Longrightarrow> m a = vw_mem (fst s1) a"
      and content: "\<And>i. i < 4096 \<Longrightarrow> m (p + i) = segment_byte seg (user_page k + i)"
      using copy_page_data_result [OF dm f top assms(3)] by blast
    let ?s2 = "((fst s1)\<lparr>vw_mem := m\<rparr>, snd s1)"
    have i2: "strong_inv w0 ?s2" by (rule strong_inv_write [OF i1 p1 frame])
    have used: "used_pages root chain L \<subseteq> set (snd s)" and al: "\<forall>q\<in>set (snd s). 4096 dvd q"
      using Suc.prems(2) by (simp_all add: tables_inv_def)
    then have out: "p \<notin> used_pages root chain L" using fp by auto
    have t2: "tables_inv K root chain L D ?s2"
    proof (rule tables_inv_frame [OF Suc.prems(2)])
      fix a t assume t: "t \<in> used_pages root chain L" "page_number a = page_number t"
      then have "page_number a \<noteq> page_number p" using used al fp page_number_eq_iff by (metis subsetD)
      then show "vw_mem (fst ?s2) a = vw_mem (fst s) a" using frame mem_fresh_page [OF f] by simp
    qed (use fp al in auto)
    have ix: "split_indices (user_page k) = [64, 0, 0, k]" using split_user_page [of k 0] ke assms(2) by simp
    let ?L = "L(k \<mapsto> (p, us_writable seg, us_executable seg))" and ?D = "D(k := \<lambda>i. vw_mem (fst ?s2) (p + i))"
    let ?code = "if us_executable seg \<and> code = 0 then p else code"
    have "safe_result w0 (\<lambda>_ s'. \<exists>chain' L' D'. tables_inv K root chain' L' D' s' \<and> loaded seg k e L D L' D')
      (st_bind (raw_map_user_page root (user_page k) p (us_writable seg) (us_executable seg) ?s2) (\<lambda>_ s.
        load_pages root seg data_end (user_page e) (user_page (k + 1)) ?code s))"
    proof (rule safe_result_bind [OF map_page_safe [OF assms(1) i2 t2 _ out ix]])
      show "p \<in> set (snd ?s2)" "k < 512" "L k = None" using p1 ke assms(2) Suc.prems(4) by auto
    next
      fix u s3 assume i3: "strong_inv w0 s3" and "\<exists>chain'. tables_inv K root chain' ?L ?D s3"
      then obtain chain3 where t3: "tables_inv K root chain3 ?L ?D s3" by blast
      have "safe_result w0 (\<lambda>_ s'. \<exists>chain' L' D'. tables_inv K root chain' L' D' s' \<and> loaded seg (k + 1) e ?L ?D L' D')
          (load_pages root seg data_end (user_page e) (user_page (k + 1)) ?code s3)"
        by (rule Suc.hyps(1) [OF _ i3 t3]) (use Suc.hyps(2) Suc.prems(4) ke in auto)
      moreover have "loaded seg k e L D L' D'" if l: "loaded seg (k + 1) e ?L ?D L' D'" for L' D'
        unfolding loaded_def
      proof (intro conjI allI impI)
        fix j assume j: "k \<le> j \<and> j < e"
        show "\<exists>p. L' j = Some (p, us_writable seg, us_executable seg)"
          using l j by (cases "j = k") (auto simp: loaded_def)
        show "D' j i = segment_byte seg (user_page j + i)" if "i < 4096" for i
          using l j content that by (cases "j = k") (auto simp: loaded_def)
      qed (use l ke in \<open>auto simp: loaded_def\<close>)
      ultimately show "safe_result w0 (\<lambda>_ s'. \<exists>chain' L' D'. tables_inv K root chain' L' D' s' \<and> loaded seg k e L D L' D')
          (load_pages root seg data_end (user_page e) (user_page (k + 1)) ?code s3)"
        by (elim safe_result_mono) blast
    qed
    then show "safe_result w0 (\<lambda>_ s'. \<exists>chain' L' D'. tables_inv K root chain' L' D' s' \<and> loaded seg k e L D L' D')
      (st_bind (copy_page_data seg data_end (user_page k) p s1) (\<lambda>_ s.
      st_bind (raw_map_user_page root (user_page k) p (us_writable seg) (us_executable seg) s) (\<lambda>_ s.
        load_pages root seg data_end (user_page e) (user_page (k + 1)) ?code s)))"
      by (simp add: c)
  qed
qed

section \<open>All segments\<close>

definition segment_first :: "UserSegment \<Rightarrow> nat" where
  "segment_first s = us_virtual_address s div 4096 - 2 ^ 33"

definition segment_stop :: "UserSegment \<Rightarrow> nat" where
  "segment_stop s = (us_virtual_address s + us_memory_size s + 4095) div 4096 - 2 ^ 33"

definition segment_range :: "UserSegment \<Rightarrow> nat set" where
  "segment_range s = {segment_first s ..< segment_stop s}"

lemma segment_page_limits:
  assumes "acceptable_segment s"
  shows "2 ^ 33 \<le> us_virtual_address s div 4096" "(us_virtual_address s + us_memory_size s + 4095) div 4096 \<le> 2 ^ 33 + 511"
proof -
  have "2 ^ 33 * 4096 \<le> us_virtual_address s" and hi: "us_virtual_address s + us_memory_size s + 4095 < (2 ^ 33 + 512) * 4096"
    using assms by (simp_all add: acceptable_segment_def)
  then show "2 ^ 33 \<le> us_virtual_address s div 4096" by (simp add: less_eq_div_iff_mult_less_eq)
  show "(us_virtual_address s + us_memory_size s + 4095) div 4096 \<le> 2 ^ 33 + 511"
    using less_mult_imp_div_less [OF hi] by simp
qed

lemma segment_range_bounds:
  assumes "acceptable_segment s"
  shows "segment_first s \<le> segment_stop s" "segment_stop s \<le> 511"
    "vm_align_down (us_virtual_address s) = user_page (segment_first s)"
    "vm_align_up_checked (us_virtual_address s + us_memory_size s) = Ok (user_page (segment_stop s))"
proof -
  note b = segment_bounds [OF assms]
  note lo = segment_page_limits(1) [OF assms] and hi = segment_page_limits(2) [OF assms]
  show "segment_first s \<le> segment_stop s" "segment_stop s \<le> 511"
    using b(3) lo hi by (simp_all add: segment_first_def segment_stop_def)
  have up: "user_page (v - 2 ^ 33) = v * 4096" if "2 ^ 33 \<le> v" for v
    using that by (simp add: user_page_def diff_mult_distrib)
  show "vm_align_down (us_virtual_address s) = user_page (segment_first s)"
    unfolding segment_first_def up [OF lo] by (rule vm_align_down_eq [OF b(1)])
  have "2 ^ 33 \<le> (us_virtual_address s + us_memory_size s + 4095) div 4096" using lo b(3) by simp
  then show "vm_align_up_checked (us_virtual_address s + us_memory_size s) = Ok (user_page (segment_stop s))"
    unfolding segment_stop_def using up b(2) by (simp add: vm_align_up_checked_eq)
qed

lemma segment_range_pages:
  assumes "acceptable_segment s"
  shows "j \<in> segment_range s \<longleftrightarrow> 2 ^ 33 + j \<in> segment_pages s"
proof -
  have "2 ^ 33 \<le> us_virtual_address s div 4096" by (rule segment_page_limits(1) [OF assms])
  then show ?thesis
    using segment_bounds(3) [OF assms] unfolding segment_range_def segment_pages_def segment_first_def segment_stop_def by auto
qed

lemma segments_apart_range:
  assumes "acceptable_segment s" and "acceptable_segment t" and "segments_apart s t"
  shows "segment_range s \<inter> segment_range t = {}"
  using assms segment_range_pages [OF assms(1)] segment_range_pages [OF assms(2)] by (auto simp: segments_apart_def)

definition all_loaded :: "UserSegment list \<Rightarrow> leaves \<Rightarrow> (nat \<Rightarrow> nat \<Rightarrow> u8) \<Rightarrow> leaves \<Rightarrow> (nat \<Rightarrow> nat \<Rightarrow> u8) \<Rightarrow> bool" where
  "all_loaded segs L D L' D' \<longleftrightarrow>
    (\<forall>j. (\<forall>s\<in>set segs. j \<notin> segment_range s) \<longrightarrow> L' j = L j \<and> D' j = D j) \<and>
    (\<forall>s\<in>set segs. \<forall>j\<in>segment_range s. (\<exists>p. L' j = Some (p, us_writable s, us_executable s)) \<and>
      (\<forall>i<4096. D' j i = segment_byte s (user_page j + i)))"

lemma all_loaded_Cons:
  assumes l: "loaded s (segment_first s) (segment_stop s) L D L1 D1" and r: "all_loaded segs L1 D1 L' D'"
    and apart: "\<forall>t\<in>set segs. segment_range s \<inter> segment_range t = {}"
  shows "all_loaded (s # segs) L D L' D'"
  unfolding all_loaded_def
proof (intro conjI allI impI ballI)
  fix j assume "\<forall>t\<in>set (s # segs). j \<notin> segment_range t"
  then have "\<forall>t\<in>set segs. j \<notin> segment_range t" and "j < segment_first s \<or> segment_stop s \<le> j"
    by (auto simp: segment_range_def)
  then show "L' j = L j" "D' j = D j" using l r by (auto simp: all_loaded_def loaded_def)
next
  fix t j assume t: "t \<in> set (s # segs)" "j \<in> segment_range t"
  have "(\<exists>p. L' j = Some (p, us_writable t, us_executable t)) \<and> (\<forall>i<4096. D' j i = segment_byte t (user_page j + i))"
  proof (cases "t \<in> set segs")
    case True
    then show ?thesis using r t(2) by (simp add: all_loaded_def)
  next
    case False
    then have ts: "t = s" using t(1) by simp
    then have "\<forall>u\<in>set segs. j \<notin> segment_range u" using apart t(2) by blast
    then have "L' j = L1 j" "D' j = D1 j" using r by (simp_all add: all_loaded_def)
    then show ?thesis using l t(2) ts by (simp add: loaded_def segment_range_def)
  qed
  then show "\<exists>p. L' j = Some (p, us_writable t, us_executable t)"
    and "\<And>i. i < 4096 \<Longrightarrow> D' j i = segment_byte t (user_page j + i)" by blast+
qed

lemma load_segments_safe:
  assumes "world_ok w0"
  shows "strong_inv w0 s \<Longrightarrow> tables_inv K root chain L D s \<Longrightarrow> \<forall>t\<in>set segs. acceptable_segment t \<Longrightarrow>
    sorted_wrt segments_apart segs \<Longrightarrow> \<forall>t\<in>set segs. \<forall>j\<in>segment_range t. L j = None \<Longrightarrow>
    safe_result w0 (\<lambda>_ s'. \<exists>chain' L' D'. tables_inv K root chain' L' D' s' \<and> all_loaded segs L D L' D')
      (load_segments root segs code bytes s)"
proof (induction segs arbitrary: s chain L D code bytes)
  case Nil
  have "all_loaded [] L D L D" by (simp add: all_loaded_def)
  then show ?case using Nil by (auto simp: safe_result_def)
next
  case (Cons t segs)
  have acc: "acceptable_segment t" using Cons.prems(3) by simp
  note b = segment_range_bounds [OF acc]
  have apart: "\<forall>u\<in>set segs. segment_range t \<inter> segment_range u = {}"
    using Cons.prems(3,4) segments_apart_range [OF acc] by auto
  show ?case unfolding load_segments.simps
  proof (intro safe_result_pure Cons.prems(1))
    fix se pe de
    assume "ok_or (checked_add (us_virtual_address t) (us_memory_size t)) AddressOverflow = Ok se"
      and pe: "vm_align_up_checked se = Ok pe"
      and "ok_or (checked_add (us_virtual_address t) (length (us_data t))) AddressOverflow = Ok de"
    then have de: "de = us_virtual_address t + length (us_data t)" and "se = us_virtual_address t + us_memory_size t" by simp_all
    with pe b(4) have pe: "pe = user_page (segment_stop t)" by simp
    show "safe_result w0 (\<lambda>_ s'. \<exists>chain' L' D'. tables_inv K root chain' L' D' s' \<and> all_loaded (t # segs) L D L' D')
      (st_bind (load_pages root t de pe (vm_align_down (us_virtual_address t)) code s) (\<lambda>code_phys s.
        st_bind (ok_or (checked_add bytes (length (us_data t))) AddressOverflow, s) (\<lambda>loaded_bytes s.
          load_segments root segs code_phys loaded_bytes s)))"
      unfolding pe b(3)
    proof (rule safe_result_bind [OF load_pages_safe [OF assms b(2) de Cons.prems(1,2) b(1)]])
      show "\<forall>j. segment_first t \<le> j \<and> j < segment_stop t \<longrightarrow> L j = None"
        using Cons.prems(5) by (simp add: segment_range_def)
    next
      fix code' s1 assume i1: "strong_inv w0 s1"
        and "\<exists>chain' L' D'. tables_inv K root chain' L' D' s1 \<and> loaded t (segment_first t) (segment_stop t) L D L' D'"
      then obtain chain1 L1 D1 where t1: "tables_inv K root chain1 L1 D1 s1"
        and l1: "loaded t (segment_first t) (segment_stop t) L D L1 D1" by blast
      have none: "\<forall>u\<in>set segs. \<forall>j\<in>segment_range u. L1 j = None"
      proof (intro ballI)
        fix u j assume u: "u \<in> set segs" "j \<in> segment_range u"
        then have "j \<notin> segment_range t" using apart by blast
        then have "j < segment_first t \<or> segment_stop t \<le> j" by (auto simp: segment_range_def)
        then have "L1 j = L j" using l1 unfolding loaded_def by blast
        then show "L1 j = None" using Cons.prems(5) u by simp
      qed
      show "safe_result w0 (\<lambda>_ s'. \<exists>chain' L' D'. tables_inv K root chain' L' D' s' \<and> all_loaded (t # segs) L D L' D')
        (st_bind (ok_or (checked_add bytes (length (us_data t))) AddressOverflow, s1) (\<lambda>loaded_bytes s.
          load_segments root segs code' loaded_bytes s))"
      proof (rule safe_result_pure [OF i1])
        fix n
        have "safe_result w0 (\<lambda>_ s'. \<exists>chain' L' D'. tables_inv K root chain' L' D' s' \<and> all_loaded segs L1 D1 L' D')
            (load_segments root segs code' n s1)"
          by (rule Cons.IH [OF i1 t1 _ _ none]) (use Cons.prems(3,4) in simp_all)
        then show "safe_result w0 (\<lambda>_ s'. \<exists>chain' L' D'. tables_inv K root chain' L' D' s' \<and> all_loaded (t # segs) L D L' D')
            (load_segments root segs code' n s1)"
          by (elim safe_result_mono) (use all_loaded_Cons [OF l1 _ apart] in blast)
      qed
    qed
  qed
qed

end
