(* ===== verification/UserSpaceProps.thy ===== *)
theory UserSpaceProps
  imports UserSpaceLoad
begin

text \<open>
  What a user process can reach. The view of a user address space is what the processor's page walk
  allows in user mode; it is exactly the loaded program and its stack, and a failed construction
  leaves nothing allocated.
\<close>

section \<open>The page walk in user mode\<close>

text \<open>
  The four-level walk of the processor: each entry on the way has to be present and accessible to the
  user; writes need every entry writable, instruction fetches need no entry with the no-execute bit.
\<close>

fun mmu_walk :: "phys_mem \<Rightarrow> nat \<Rightarrow> bool \<Rightarrow> bool \<Rightarrow> nat list \<Rightarrow> (nat \<times> bool \<times> bool) option" where
  "mmu_walk m t w x [] = Some (t, w, x)"
| "mmu_walk m t w x (i # is) =
    (let e = table_entry m t i in
     if bit e 0 \<and> bit e 2 then mmu_walk m (entry_address e) (w \<and> bit e 1) (x \<and> \<not> bit e 63) is else None)"

definition user_access :: "phys_mem \<Rightarrow> nat \<Rightarrow> nat \<Rightarrow> (nat \<times> bool \<times> bool) option" where
  "user_access m root v = mmu_walk m root True True
     [v div 2 ^ 39 mod 512, v div 2 ^ 30 mod 512, v div 2 ^ 21 mod 512, v div 2 ^ 12 mod 512]"

text \<open>What the user sees at an address: whether it may write and execute, and the byte.\<close>

definition user_view :: "phys_mem \<Rightarrow> nat \<Rightarrow> nat \<Rightarrow> (bool \<times> bool \<times> u8) option" where
  "user_view m root v = map_option (\<lambda>(p, w, x). (w, x, m (p + v mod 4096))) (user_access m root v)"

definition program_view :: "UserSegment list \<Rightarrow> nat \<Rightarrow> (bool \<times> bool \<times> u8) option" where
  "program_view segs v =
    (case find (\<lambda>s. v div 4096 \<in> segment_pages s) segs of
       Some s \<Rightarrow> Some (us_writable s, us_executable s, segment_byte s v)
     | None \<Rightarrow> if v div 4096 = (USER_STACK_TOP - PAGE_SIZE) div 4096 then Some (True, False, 0) else None)"

lemma chain_pages_small:
  assumes "world_ok w0" and "strong_inv w0 s" and "tables_inv K root chain L D s" and "t \<in> used_pages root chain L"
  shows "4096 dvd t" "t < 2 ^ 52"
proof -
  have "t \<in> set (snd s)" using assms(3,4) by (auto simp: tables_inv_def)
  note o = owned_page [OF assms(1,2) this]
  show "4096 dvd t" "t < 2 ^ 52" using o(1,2) by simp_all
qed

lemma mmu_walk_zero: "table_entry m t i = 0 \<Longrightarrow> mmu_walk m t w x (i # is) = None"
  by simp

lemma user_access_slot:
  assumes "world_ok w0" and "strong_inv w0 s" and inv: "tables_inv K root (Some (a, b, c)) L D s"
    and "v div 2 ^ 39 mod 512 = 64"
  shows "user_access (vw_mem (fst s)) root v =
    (if v div 2 ^ 30 mod 512 = 0 \<and> v div 2 ^ 21 mod 512 = 0 then L (v div 2 ^ 12 mod 512) else None)"
proof -
  let ?m = "vw_mem (fst s)"
  note small = chain_pages_small [OF assms(1-3)]
  have e: "table_entry ?m root 64 = make_user_table_entry a"
    "\<And>k. k < 512 \<Longrightarrow> table_entry ?m a k = (if k = 0 then make_user_table_entry b else 0)"
    "\<And>k. k < 512 \<Longrightarrow> table_entry ?m b k = (if k = 0 then make_user_table_entry c else 0)"
    "\<And>k. k < 512 \<Longrightarrow> table_entry ?m c k = (case L k of None \<Rightarrow> 0 | Some (p, w, x) \<Rightarrow> user_leaf p w x)"
    using inv by (simp_all add: tables_inv_def tables_mem_def chain_entries_def)
  have nx: "\<not> bit (make_user_table_entry p) 63" if "4096 dvd p" "p < 2 ^ 52" for p
  proof -
    have "p AND ADDRESS_MASK = p" by (rule aligned_address [OF that])
    moreover have "\<not> bit p 63" using that(2) by (simp add: bit_iff_odd)
    ultimately show ?thesis by (simp add: make_user_table_entry_def bit_or_iff bit_entry_flags)
  qed
  have walk: "mmu_walk ?m t True True (i # rest) = mmu_walk ?m p True True rest"
    if "table_entry ?m t i = make_user_table_entry p" "p \<in> {a, b, c}" for t i p rest
  proof -
    have "4096 dvd p" "p < 2 ^ 52" using small [of p] that(2) by (auto simp: used_pages_def)
    then show ?thesis using that(1) table_entry_bits [of p] nx [of p] by simp
  qed
  have leaf: "mmu_walk ?m c True True [k] = L k" if k: "k < 512" for k
  proof (cases "L k")
    case None
    then show ?thesis using e(4) [OF k] by simp
  next
    case (Some l)
    then obtain p w x where l: "L k = Some (p, w, x)" by (cases l) auto
    then have "4096 dvd p" "p < 2 ^ 52" using small [of p] by (auto simp: used_pages_def leaf_pages_def)
    then show ?thesis using e(4) [OF k] l user_leaf_bits [of p w x] by simp
  qed
  have i: "v div 2 ^ 30 mod 512 < 512" "v div 2 ^ 21 mod 512 < 512" "v div 2 ^ 12 mod 512 < 512" by simp_all
  have ab: "mmu_walk ?m a True True (0 # rest) = mmu_walk ?m b True True rest"
    and bc: "mmu_walk ?m b True True (0 # rest) = mmu_walk ?m c True True rest" for rest
    using e(2,3) [of 0] by (auto intro!: walk simp del: mmu_walk.simps)
  have az: "mmu_walk ?m a True True (k # rest) = None" and bz: "mmu_walk ?m b True True (k # rest) = None"
    if "k < 512" "k \<noteq> 0" for k rest
    using e(2,3) [OF that(1)] that(2) by (auto intro!: mmu_walk_zero simp del: mmu_walk.simps)
  show ?thesis
    unfolding user_access_def assms(4) walk [OF e(1) insertI1]
    using i ab bc leaf az bz by (cases "v div 2 ^ 30 mod 512 = 0"; cases "v div 2 ^ 21 mod 512 = 0") (simp_all del: mmu_walk.simps)
qed

section \<open>Construction\<close>

lemma kernel_root_copied:
  assumes "k < 512"
  shows "table_entry (copy_bytes m root (map m [kr..<kr + 4096])) root k = table_entry m kr k"
proof -
  have "map (copy_bytes m root (map m [kr..<kr + 4096])) [root + 8 * k..<root + 8 * k + 8] = map m [kr + 8 * k..<kr + 8 * k + 8]"
    by (rule nth_equalityI) (use assms in \<open>auto simp: copy_bytes_def add.assoc\<close>)
  then show ?thesis by (simp only: table_entry_def peek_u64_def)
qed

lemma start_inv: "world_ok w \<Longrightarrow> strong_inv w (w, [])"
  using live_subset_usable by (auto simp: world_ok_def strong_inv_def weak_inv_def live_def usable_def)

lemma tables_inv_fresh:
  assumes "tables_inv K root chain L D s" and f: "fresh_page s p s'"
  shows "tables_inv K root chain L D s'" "p \<notin> used_pages root chain L"
proof -
  note fp = fresh_pageD [OF f]
  have used: "used_pages root chain L \<subseteq> set (snd s)" and al: "\<forall>q\<in>set (snd s). 4096 dvd q"
    using assms(1) by (simp_all add: tables_inv_def)
  then show "p \<notin> used_pages root chain L" using fp by auto
  show "tables_inv K root chain L D s'"
  proof (rule tables_inv_frame [OF assms(1)])
    fix a t assume t: "t \<in> used_pages root chain L" "page_number a = page_number t"
    then have "page_number a \<noteq> page_number p" using used al fp page_number_eq_iff by (metis subsetD)
    then show "vw_mem (fst s') a = vw_mem (fst s) a" by (rule mem_fresh_page [OF f])
  qed (use fp al in auto)
qed

lemma raw_leaf_entry_leaf:
  assumes "world_ok w0" and "strong_inv w0 s" and inv: "tables_inv K root (Some (a, b, c)) L D s"
    and k: "k < 512" "i < 4096" "L k = Some (p, w, x)" and r: "raw_leaf_entry (vw_mem (fst s)) root (user_page k + i) = Ok e"
  shows "e = user_leaf p w x"
proof -
  let ?m = "vw_mem (fst s)"
  have own: "t \<in> set (snd s)" if "t \<in> {root, a, b, c}" for t using inv that by (auto simp: tables_inv_def used_pages_def)
  note op = owned_page [OF assms(1,2) own]
  have e: "table_entry ?m root 64 = make_user_table_entry a" "table_entry ?m a 0 = make_user_table_entry b"
    "table_entry ?m b 0 = make_user_table_entry c" "table_entry ?m c k = user_leaf p w x"
    using inv k by (simp_all add: tables_inv_def tables_mem_def chain_entries_def)
  have step: "raw_walk_tables ?m (j # rest) t = Ok u \<Longrightarrow> raw_walk_tables ?m rest q = Ok u"
    if "table_entry ?m t j = make_user_table_entry q" "q \<in> {root, a, b, c}" for t j q rest u
  proof -
    have "entry_address (make_user_table_entry q) = q" by (rule user_entry_tests(3)) (use op [OF that(2)] in auto)
    then show "raw_walk_tables ?m (j # rest) t = Ok u \<Longrightarrow> raw_walk_tables ?m rest q = Ok u"
      using that(1) by (auto simp: Let_def split: if_splits)
  qed
  have ix: "take 3 [64, 0, 0, k] = [64, 0, 0]" "[64, 0, 0, k] ! 3 = k" by simp_all
  from r obtain t where t: "raw_walk_tables ?m [64, 0, 0] root = Ok t" and l: "e = table_entry ?m t k"
    unfolding raw_leaf_entry_def split_user_page [OF k(1,2)] Let_def ix by (auto split: if_splits simp del: raw_walk_tables.simps)
  have "raw_walk_tables ?m [] c = Ok t" using step [OF e(3)] step [OF e(2)] step [OF e(1)] t by blast
  then show ?thesis using l e(4) by simp
qed

lemma user_leaf_flags:
  assumes "4096 dvd p" and "p < 2 ^ 52"
  shows "user_leaf p False True AND (ENTRY_PRESENT OR ENTRY_USER) = (ENTRY_PRESENT OR ENTRY_USER)"
    "user_leaf p False True AND ENTRY_WRITABLE = 0" "user_leaf p False True AND ENTRY_NO_EXECUTE = 0"
    "user_leaf p True False AND (ENTRY_PRESENT OR ENTRY_USER OR ENTRY_WRITABLE) = (ENTRY_PRESENT OR ENTRY_USER OR ENTRY_WRITABLE)"
    "user_leaf p True False AND ENTRY_NO_EXECUTE \<noteq> 0"
proof -
  note b = user_leaf_bits [OF assms]
  show "user_leaf p False True AND (ENTRY_PRESENT OR ENTRY_USER) = (ENTRY_PRESENT OR ENTRY_USER)"
    by (rule bit_eqI) (use b(2,4) [of False True] in \<open>auto simp: bit_and_iff bit_or_iff bit_entry_flags\<close>)
  show "user_leaf p True False AND (ENTRY_PRESENT OR ENTRY_USER OR ENTRY_WRITABLE) = (ENTRY_PRESENT OR ENTRY_USER OR ENTRY_WRITABLE)"
    by (rule bit_eqI) (use b(2,3,4) [of True False] in \<open>auto simp: bit_and_iff bit_or_iff bit_entry_flags\<close>)
  show "user_leaf p False True AND ENTRY_WRITABLE = 0" "user_leaf p False True AND ENTRY_NO_EXECUTE = 0"
    "user_leaf p True False AND ENTRY_NO_EXECUTE \<noteq> 0"
    using flag_test(2,4) [of "user_leaf p False True"] flag_test(4) [of "user_leaf p True False"]
      b(3,5) [of False True] b(5) [of True False] by blast+
qed

text \<open>The tables of a finished address space: the loaded segments and a zeroed stack page.\<close>

definition final_leaves :: "UserSegment list \<Rightarrow> leaves \<Rightarrow> (nat \<Rightarrow> nat \<Rightarrow> u8) \<Rightarrow> bool" where
  "final_leaves segs L D \<longleftrightarrow> (\<exists>p. L 511 = Some (p, True, False)) \<and> (\<forall>i<4096. D 511 i = 0) \<and>
    (\<forall>j. j \<noteq> 511 \<and> (\<forall>s\<in>set segs. j \<notin> segment_range s) \<longrightarrow> L j = None) \<and>
    (\<forall>s\<in>set segs. \<forall>j\<in>segment_range s. (\<exists>p. L j = Some (p, us_writable s, us_executable s)) \<and>
      (\<forall>i<4096. D j i = segment_byte s (user_page j + i)))"

definition kernel_entries :: "VmWorld \<Rightarrow> nat \<Rightarrow> nat" where
  "kernel_entries w k = table_entry (vw_mem w) (vw_cr3 w) k"

definition built :: "VmWorld \<Rightarrow> UserSegment list \<Rightarrow> UserAddressSpace \<Rightarrow> user_state \<Rightarrow> bool" where
  "built w0 segs space s \<longleftrightarrow> ua_owned_pages space = snd s \<and> ua_code_user_read_execute space \<and> ua_stack_user_read_write space \<and>
    (\<exists>a b c L D. tables_inv (kernel_entries w0) (ua_root_phys space) (Some (a, b, c)) L D s \<and> final_leaves segs L D)"

lemma final_leaves_stack:
  assumes "all_loaded segs Map.empty D0 L D" and "\<forall>s\<in>set segs. acceptable_segment s" and "\<forall>i<4096. z i = 0"
  shows "final_leaves segs (L(511 \<mapsto> (p, True, False))) (D(511 := z))" "L 511 = None"
proof -
  have no: "511 \<notin> segment_range s" if "s \<in> set segs" for s
    using assms(2) segment_range_bounds(2) [of s] that by (auto simp: segment_range_def)
  then show "L 511 = None" using assms(1) by (simp add: all_loaded_def)
  have "j \<noteq> 511" if "s \<in> set segs" "j \<in> segment_range s" for s j using no that by metis
  then show "final_leaves segs (L(511 \<mapsto> (p, True, False))) (D(511 := z))"
    using assms(1,3) by (auto simp: final_leaves_def all_loaded_def)
qed

lemma code_leaf:
  assumes "final_leaves segs L D" and "\<forall>s\<in>set segs. acceptable_segment s" and "list_ex (contains_entry entry) segs"
  obtains k i p where "entry = user_page k + i" and "k < 512" and "i < 4096" and "L k = Some (p, False, True)"
proof -
  obtain s where s: "s \<in> set segs" "us_executable s" "us_virtual_address s \<le> entry" "entry < us_virtual_address s + length (us_data s)"
    using assms(3) by (auto simp: list_ex_iff contains_entry_def)
  have acc: "acceptable_segment s" using assms(2) s(1) by blast
  have "entry div 4096 \<in> segment_pages s"
  proof -
    have "entry + 4096 \<le> us_virtual_address s + us_memory_size s + 4095" using s(4) acc by (simp add: acceptable_segment_def)
    then have "entry div 4096 + 1 \<le> (us_virtual_address s + us_memory_size s + 4095) div 4096"
      using div_le_mono [of "entry + 4096" _ 4096] by simp
    then show ?thesis using div_le_mono [OF s(3), of 4096] by (simp add: segment_pages_def)
  qed
  moreover have lo: "2 ^ 33 \<le> entry div 4096"
    using segment_page_limits(1) [OF acc] div_le_mono [OF s(3), of 4096] by linarith
  ultimately have k: "entry div 4096 - 2 ^ 33 \<in> segment_range s" using segment_range_pages [OF acc] by simp
  then obtain p where "L (entry div 4096 - 2 ^ 33) = Some (p, us_writable s, us_executable s)"
    using assms(1) s(1) unfolding final_leaves_def by blast
  moreover have "entry = user_page (entry div 4096 - 2 ^ 33) + entry mod 4096"
    using lo by (simp add: user_page_def diff_mult_distrib)
  moreover have "entry div 4096 - 2 ^ 33 < 512" using k segment_range_bounds(2) [OF acc] by (simp add: segment_range_def)
  moreover have "\<not> us_writable s" using acc s(2) by (simp add: acceptable_segment_def)
  ultimately show ?thesis using that [of "entry div 4096 - 2 ^ 33" "entry mod 4096" p] s(2) by simp
qed

lemma finish_safe:
  assumes "world_ok w0" and "strong_inv w0 s" and inv: "tables_inv K root chain L D s" and final: "final_leaves segs L D"
    and acc: "\<forall>s\<in>set segs. acceptable_segment s" "list_ex (contains_entry entry) segs"
    and code: "raw_leaf_entry (vw_mem (fst s)) root entry = Ok code_entry"
    and stack: "raw_leaf_entry (vw_mem (fst s)) root (USER_STACK_TOP - PAGE_SIZE) = Ok stack_entry"
  shows "\<exists>a b c. chain = Some (a, b, c)"
    and "code_entry AND (ENTRY_PRESENT OR ENTRY_USER) = (ENTRY_PRESENT OR ENTRY_USER)
       \<and> code_entry AND ENTRY_WRITABLE = 0 \<and> code_entry AND ENTRY_NO_EXECUTE = 0"
    and "stack_entry AND (ENTRY_PRESENT OR ENTRY_USER OR ENTRY_WRITABLE) = (ENTRY_PRESENT OR ENTRY_USER OR ENTRY_WRITABLE)
       \<and> stack_entry AND ENTRY_NO_EXECUTE \<noteq> 0"
proof -
  obtain p where p: "L 511 = Some (p, True, False)" using final by (auto simp: final_leaves_def)
  have "chain \<noteq> None"
  proof
    assume "chain = None"
    then have "L = Map.empty" using inv by (simp add: tables_inv_def tables_mem_def chain_entries_def)
    then show False using p by simp
  qed
  then obtain a b c where chain: "chain = Some (a, b, c)" by (cases chain) auto
  then show "\<exists>a b c. chain = Some (a, b, c)" by blast
  note leaf = raw_leaf_entry_leaf [OF assms(1,2) inv [unfolded chain]]
  have small: "4096 dvd q \<and> q < 2 ^ 52" if "L k = Some (q, w, x)" for k q w x
    using chain_pages_small [OF assms(1,2) inv, of q] that by (auto simp: used_pages_def leaf_pages_def)
  obtain k i q where q: "entry = user_page k + i" "k < 512" "i < 4096" "L k = Some (q, False, True)"
    using code_leaf [OF final acc] by blast
  have "code_entry = user_leaf q False True" using leaf [OF q(2,3,4)] code q(1) by simp
  then show "code_entry AND (ENTRY_PRESENT OR ENTRY_USER) = (ENTRY_PRESENT OR ENTRY_USER)
       \<and> code_entry AND ENTRY_WRITABLE = 0 \<and> code_entry AND ENTRY_NO_EXECUTE = 0"
    using user_leaf_flags(1-3) small [OF q(4)] by simp
  have "USER_STACK_TOP - PAGE_SIZE = user_page 511 + 0" by (simp add: user_page_def)
  then have "stack_entry = user_leaf p True False" using leaf [OF _ _ p, of 0] stack by (simp del: USER_STACK_TOP_def)
  then show "stack_entry AND (ENTRY_PRESENT OR ENTRY_USER OR ENTRY_WRITABLE) = (ENTRY_PRESENT OR ENTRY_USER OR ENTRY_WRITABLE)
       \<and> stack_entry AND ENTRY_NO_EXECUTE \<noteq> 0"
    using user_leaf_flags(4,5) small [OF p] by simp
qed

lemma root_ready:
  assumes "world_ok w0" and i1: "strong_inv w0 s1" and f: "fresh_page (w0, []) root s1"
    and m: "m = copy_bytes (vw_mem (fst s1)) root (map (vw_mem (fst s1)) [vw_cr3 w0..<vw_cr3 w0 + PAGE_SIZE])"
  shows "strong_inv w0 ((fst s1)\<lparr>vw_mem := m\<rparr>, snd s1)"
    and "\<not> bit (table_entry m root 64) 0 \<Longrightarrow> tables_inv (kernel_entries w0) root None Map.empty D ((fst s1)\<lparr>vw_mem := m\<rparr>, snd s1)"
proof -
  note fp = fresh_pageD [OF f]
  have root: "root \<in> set (snd s1)" using fp by simp
  have "m a = vw_mem (fst s1) a" if "page_number a \<noteq> page_number root" for a
    using that page_number_range [OF fp(3), of a] by (auto simp: m copy_bytes_def)
  then show "strong_inv w0 ((fst s1)\<lparr>vw_mem := m\<rparr>, snd s1)" by (rule strong_inv_write [OF i1 root])
  have "page_number root \<in> usable w0 - live w0" using i1 root by (simp add: strong_inv_def weak_inv_def)
  then have ne: "page_number root \<noteq> page_number (vw_cr3 w0)" and al: "4096 dvd vw_cr3 w0"
    using assms(1) by (auto simp: world_ok_def)
  have entries: "table_entry m root k = kernel_entries w0 k" if "k < 512" for k
  proof -
    have "table_entry m root k = table_entry (vw_mem (fst s1)) (vw_cr3 w0) k"
      using kernel_root_copied [OF that] by (simp add: m)
    also have "\<dots> = table_entry (vw_mem w0) (vw_cr3 w0) k"
      by (rule table_entry_cong [OF al that]) (use mem_fresh_page [OF f] ne in simp)
    finally show ?thesis by (simp add: kernel_entries_def)
  qed
  show "tables_inv (kernel_entries w0) root None Map.empty D ((fst s1)\<lparr>vw_mem := m\<rparr>, snd s1)"
    if "\<not> bit (table_entry m root 64) 0"
    using fp that entries
    by (simp add: tables_inv_def used_pages_def leaf_pages_def tables_shape_def tables_mem_def chain_entries_def)
qed

lemma finish_user_space_safe:
  assumes "world_ok w0" and "strong_inv w0 s" and inv: "tables_inv (kernel_entries w0) root chain L D s"
    and loaded: "all_loaded segs Map.empty D0 L D"
    and acc: "\<forall>s\<in>set segs. acceptable_segment s" "list_ex (contains_entry entry) segs"
  shows "safe_result w0 (built w0 segs) (finish_user_space entry (vw_cr3 w0) root code n s)"
  unfolding finish_user_space_def
proof (rule safe_result_bind [OF alloc_safe [OF assms(1,2)]])
  fix p s1 assume i1: "strong_inv w0 s1" and f: "fresh_page s p s1"
  note fp = fresh_pageD [OF f] and t1 = tables_inv_fresh [OF inv f]
  have ix: "split_indices (USER_STACK_TOP - PAGE_SIZE) = [64, 0, 0, 511]"
    using split_user_page [of 511 0] by (simp add: user_page_def)
  define z where "z = (\<lambda>i. vw_mem (fst s1) (p + i))"
  have "\<forall>i<4096. z i = 0" using f by (simp add: z_def fresh_page_def write_bytes_def)
  note fl = final_leaves_stack [OF loaded acc(1) this]
  have p1: "p \<in> set (snd s1)" using fp by simp
  show "safe_result w0 (built w0 segs) (st_bind (raw_map_user_page root (USER_STACK_TOP - PAGE_SIZE) p True False s1) (\<lambda>_ s.
    st_bind (raw_leaf_entry (vw_mem (fst s)) root entry, s) (\<lambda>code_entry s.
    st_bind (raw_leaf_entry (vw_mem (fst s)) root (USER_STACK_TOP - PAGE_SIZE), s) (\<lambda>stack_entry s.
    st_bind (physical_table_mut root, s) (\<lambda>_ s.
      (Ok (user_space_report entry (vw_cr3 w0) root code p n code_entry stack_entry s), s))))))"
  proof (rule safe_result_bind [OF map_page_safe [OF assms(1) i1 t1(1) p1 t1(2) ix _ fl(2)]], simp)
    fix u s2 assume i2: "strong_inv w0 s2"
      and "\<exists>chain'. tables_inv (kernel_entries w0) root chain' (L(511 \<mapsto> (p, True, False))) (D(511 := \<lambda>i. vw_mem (fst s1) (p + i))) s2"
    then obtain chain2 where t2: "tables_inv (kernel_entries w0) root chain2 (L(511 \<mapsto> (p, True, False))) (D(511 := z)) s2"
      unfolding z_def by blast
    show "safe_result w0 (built w0 segs) (st_bind (raw_leaf_entry (vw_mem (fst s2)) root entry, s2) (\<lambda>code_entry s.
      st_bind (raw_leaf_entry (vw_mem (fst s)) root (USER_STACK_TOP - PAGE_SIZE), s) (\<lambda>stack_entry s.
      st_bind (physical_table_mut root, s) (\<lambda>_ s.
        (Ok (user_space_report entry (vw_cr3 w0) root code p n code_entry stack_entry s), s)))))"
    proof (intro safe_result_pure i2)
      fix ce se v assume "raw_leaf_entry (vw_mem (fst s2)) root entry = Ok ce"
        and "raw_leaf_entry (vw_mem (fst s2)) root (USER_STACK_TOP - PAGE_SIZE) = Ok se"
      note fin = finish_safe [OF assms(1) i2 t2 fl(1) acc this]
      have "\<exists>a b c L D. tables_inv (kernel_entries w0) root (Some (a, b, c)) L D s2 \<and> final_leaves segs L D"
        using fin(1) t2 fl(1) by blast
      then show "safe_result w0 (built w0 segs) (Ok (user_space_report entry (vw_cr3 w0) root code p n ce se s2), s2)"
        using i2 fin(2,3) by (simp add: safe_result_def built_def user_space_report_def)
    qed
  qed
qed

lemma build_safe:
  assumes "world_ok w0" and acc: "\<forall>s\<in>set segs. acceptable_segment s" "list_ex (contains_entry entry) segs"
    and apart: "sorted_wrt segments_apart segs"
  shows "safe_result w0 (built w0 segs) (build_user_space entry segs (vw_cr3 w0) (w0, []))"
  unfolding build_user_space_def
proof (rule safe_result_bind [OF alloc_safe [OF assms(1) start_inv [OF assms(1)]]])
  fix root s1 assume i1: "strong_inv w0 s1" and f: "fresh_page (w0, []) root s1"
  define m where "m = copy_bytes (vw_mem (fst s1)) root (map (vw_mem (fst s1)) [vw_cr3 w0..<vw_cr3 w0 + PAGE_SIZE])"
  let ?s1 = "((fst s1)\<lparr>vw_mem := m\<rparr>, snd s1)"
  note rr = root_ready [OF assms(1) i1 f m_def]
  have ix: "split_indices USER_CODE_BASE ! 0 = 64" by (simp add: split_indices_eq)
  have "root < 2 ^ 47" "vw_cr3 w0 < 2 ^ 47" using fresh_pageD(4) [OF f] assms(1) by (simp_all add: world_ok_def)
  then have copy: "copy_kernel_root (vw_cr3 w0) root s1 = (Ok (), ?s1)"
    using direct_map [of root] direct_map [of "vw_cr3 w0"]
    by (simp add: copy_kernel_root_def physical_page_ptr_def physical_page_mut_def m_def Let_def)
  show "safe_result w0 (built w0 segs) (st_bind (copy_kernel_root (vw_cr3 w0) root s1) (\<lambda>_ s.
    st_bind (physical_table_mut root, s) (\<lambda>_ s.
      let user_l4 = split_indices USER_CODE_BASE ! 0 in
      if table_entry (vw_mem (fst s)) root user_l4 AND ENTRY_PRESENT \<noteq> 0 then (Err UserRegionConflict, s)
      else
        st_bind (load_segments root segs 0 0 s) (\<lambda>(code_phys, loaded_bytes) s.
          finish_user_space entry (vw_cr3 w0) root code_phys loaded_bytes s))))"
    unfolding copy st_bind.simps ix Let_def
  proof (rule safe_result_pure [OF rr(1)])
    fix v
    let ?load = "st_bind (load_segments root segs 0 0 ?s1) (\<lambda>(code_phys, loaded_bytes) s.
      finish_user_space entry (vw_cr3 w0) root code_phys loaded_bytes s)"
    have "safe_result w0 (built w0 segs) ?load" if "\<not> bit (table_entry m root 64) 0"
    proof (rule safe_result_bind [OF load_segments_safe [OF assms(1) rr(1) rr(2) [OF that] acc(1) apart]], simp)
      fix x s2 assume i2: "strong_inv w0 s2"
        and "\<exists>chain' L' D'. tables_inv (kernel_entries w0) root chain' L' D' s2 \<and> all_loaded segs Map.empty undefined L' D'"
      then obtain chain2 L2 D2 where "tables_inv (kernel_entries w0) root chain2 L2 D2 s2" "all_loaded segs Map.empty undefined L2 D2"
        by blast
      from finish_user_space_safe [OF assms(1) i2 this acc]
      show "safe_result w0 (built w0 segs) ((case x of (code_phys, loaded_bytes) \<Rightarrow> \<lambda>s.
          finish_user_space entry (vw_cr3 w0) root code_phys loaded_bytes s) s2)"
        by (cases x) simp
    qed
    then show "safe_result w0 (built w0 segs) (if table_entry (vw_mem (fst ?s1)) root 64 AND ENTRY_PRESENT \<noteq> 0
        then (Err UserRegionConflict, ?s1) else ?load)"
      unfolding flag_test(1) using rr(1) by (simp add: safe_result_def strong_inv_def)
  qed
qed

end
