(* ===== verification/UserSpaceSample.thy ===== *)
theory UserSpaceSample
  imports UserSpaceProps
begin

text \<open>
  A concrete machine: eight usable pages from physical address 4096, memory of zeros, and an empty
  kernel root table at address 0. A one-byte program is created in it, which shows that the
  guarantees on created address spaces are not empty.
\<close>

definition sample_pages :: "nat \<Rightarrow> PhysicalPageAllocator" where
  "sample_pages n = \<lparr>pa_initialized = True,
     regions = [\<lparr>rc_start = 4096, rc_page_count = 8, next_page = n, rc_kind = Conventional\<rparr>],
     total_usable_pages = 8, allocated_pages = n, free_extents = []\<rparr>"

definition sample_page :: "nat \<Rightarrow> nat" where
  "sample_page n = 4096 * (n + 1)"

definition sample_state :: "phys_mem \<Rightarrow> nat \<Rightarrow> user_state" where
  "sample_state m n = (\<lparr>vw_mem = m, vw_pages = sample_pages n, vw_cr3 = 0\<rparr>, map sample_page [0..<n])"

definition sample_machine :: VmWorld where
  "sample_machine = \<lparr>vw_mem = (\<lambda>_. 0), vw_pages = sample_pages 0, vw_cr3 = 0\<rparr>"

definition full_machine :: VmWorld where
  "full_machine = \<lparr>vw_mem = (\<lambda>_. 0), vw_pages = sample_pages 8, vw_cr3 = 0\<rparr>"

definition sample_segment :: UserSegment where
  "sample_segment = \<lparr>us_virtual_address = USER_CODE_BASE, us_data = [0xC3], us_memory_size = 1,
     us_writable = False, us_executable = True\<rparr>"

lemma sample_pages_inv: "n \<le> 8 \<Longrightarrow> allocator_inv (sample_pages n)"
  by (simp add: allocator_inv_def sample_pages_def wf_region_def region_pages_def cursor_pages_def
      page_range_def live_pages_def U64_MAX_numeral wf_regions_def)

lemma sample_alloc:
  assumes "n < 8"
  shows "allocate_owned_zeroed_page (sample_state m n) =
    (Ok (sample_page n), sample_state (write_bytes m (sample_page n) 4096 0) (n + 1))"
proof -
  have "allocate_page (sample_pages n) = (Some (sample_page n), sample_pages (n + 1))"
    using assms by (simp add: allocate_page_def allocate_contiguous_pages_def sample_pages_def sample_page_def
        remaining_pages_def saturating_sub_def saturating_add_def saturating_mul_def U64_MAX_def)
  then show ?thesis
    using assms
    by (simp add: allocate_owned_zeroed_page_def allocate_zeroed_page_def sample_state_def direct_map sample_page_def
        zero_page_def ownership_record_def)
qed

section \<open>Table entries in the sample machine\<close>

definition sample_put :: "phys_mem \<Rightarrow> nat \<Rightarrow> nat \<Rightarrow> nat \<Rightarrow> phys_mem" where
  "sample_put m n k v = poke_u64 m (sample_page n + 8 * k) v"

definition sample_get :: "phys_mem \<Rightarrow> nat \<Rightarrow> nat \<Rightarrow> nat" where
  "sample_get m n k = table_entry m (sample_page n) k"

lemma sample_page_dvd: "4096 dvd sample_page n"
  by (simp add: sample_page_def)

lemma sample_page_number: "page_number (sample_page n) = n + 1"
  by (simp add: sample_page_def page_number_def)

lemma sample_set: "set_table_entry (sample_page n) k v (sample_state m i) = sample_state (sample_put m n k v) i"
  by (simp add: set_table_entry_def sample_put_def sample_state_def)

lemma sample_page_inj: "sample_page n = sample_page n' \<longleftrightarrow> n = n'"
  by (simp add: sample_page_def)

lemma mem_sample_state: "vw_mem (fst (sample_state m n)) = m"
  by (simp add: sample_state_def)

lemma get_put: "k < 512 \<Longrightarrow> k' < 512 \<Longrightarrow> v < 2 ^ 64 \<Longrightarrow>
    sample_get (sample_put m n k v) n' k' = (if n' = n \<and> k' = k then v else sample_get m n' k')"
  using table_entry_set [of "sample_page n" "sample_page n'" k k' v "sample_state m 0"]
  by (simp add: sample_set sample_page_dvd sample_get_def mem_sample_state sample_page_inj)

lemma get_zero: "k < 512 \<Longrightarrow> sample_get (write_bytes m (sample_page n) 4096 0) n' k = (if n' = n then 0 else sample_get m n' k)"
proof (cases "n' = n")
  case True
  then show "k < 512 \<Longrightarrow> ?thesis" by (simp add: sample_get_def table_entry_def peek_zeroed)
next
  case False
  show ?thesis if "k < 512"
    unfolding sample_get_def if_not_P [OF False]
  proof (rule table_entry_cong [OF sample_page_dvd that])
    fix a assume "page_number a = page_number (sample_page n')"
    then have "\<not> (sample_page n \<le> a \<and> a < sample_page n + 4096)"
      using page_number_range [OF sample_page_dvd, of a n] False by (simp add: sample_page_number)
    then show "write_bytes m (sample_page n) 4096 0 a = m a" by (auto simp: write_bytes_def)
  qed
qed

lemma get_copy:
  assumes "k < 512" and "off + length src \<le> 4096" and "n' \<noteq> n"
  shows "sample_get (copy_bytes m (sample_page n + off) src) n' k = sample_get m n' k"
  unfolding sample_get_def
proof (rule table_entry_cong [OF sample_page_dvd assms(1)])
  fix a assume "page_number a = page_number (sample_page n')"
  then have "\<not> (sample_page n \<le> a \<and> a < sample_page n + 4096)"
    using page_number_range [OF sample_page_dvd, of a n] assms(3) by (simp add: sample_page_number)
  then show "copy_bytes m (sample_page n + off) src a = m a" using assms(2) by (auto simp: copy_bytes_def)
qed

lemma get_none: "sample_get (\<lambda>_. 0) n k = 0"
proof -
  have z: "write_bytes (\<lambda>_. 0) a 8 0 = (\<lambda>_. 0)" for a by (auto simp: write_bytes_def)
  show ?thesis using peek_zeroed [of "sample_page n + 8 * k" _ 8 "\<lambda>_. 0"] by (simp add: z sample_get_def table_entry_def)
qed

section \<open>Creating the sample program\<close>

lemma sample_page_small: "n < 8 \<Longrightarrow> sample_page n + 4096 \<le> 2 ^ 47"
  by (simp add: sample_page_def)

lemma sample_direct: "n < 8 \<Longrightarrow> physical_page_mut (sample_page n) = Ok (HIGH_HALF_DIRECT_MAP_BASE + sample_page n)"
  by (rule direct_map) (simp add: sample_page_def)

lemma sample_table_absent:
  assumes "n < 8" and "i < 8" and "sample_get m n k = 0"
  shows "raw_map_tables (k # rest) (sample_page n) (sample_state m i) =
    raw_map_tables rest (sample_page i)
      (sample_state (sample_put (write_bytes m (sample_page i) 4096 0) n k (make_user_table_entry (sample_page i))) (i + 1))"
  using assms user_entry_tests(3) [OF sample_page_dvd sample_page_small [OF assms(2)]]
  by (simp add: physical_table_mut_def sample_direct mem_sample_state sample_get_def [symmetric] sample_alloc sample_set)

lemma sample_table_present:
  assumes "n < 8" and "c < 8" and "sample_get m n k = make_user_table_entry (sample_page c)"
  shows "raw_map_tables (k # rest) (sample_page n) (sample_state m i) = raw_map_tables rest (sample_page c) (sample_state m i)"
  using raw_map_step_present [OF sample_direct [OF assms(1)], of "sample_state m i" k "sample_page c"] assms(3)
    sample_page_dvd sample_page_small [OF assms(2)]
  by (simp add: mem_sample_state sample_get_def)

lemma sample_map:
  assumes "c < 8" and "i \<le> 8" and "split_indices virt = [64, 0, 0, k]" and "k < 512" and "sample_get m c k = 0"
    and "raw_map_tables [64, 0, 0] (sample_page 0) (sample_state m0 j) = (Ok (sample_page c), sample_state m i)"
  shows "raw_map_user_page (sample_page 0) virt p wr ex (sample_state m0 j) =
    (Ok (), sample_state (sample_put m c k (user_leaf p wr ex)) i)"
  using assms
  by (simp add: raw_map_user_page_def physical_table_mut_def sample_direct mem_sample_state sample_get_def [symmetric] sample_set
      user_leaf_def Let_def)

definition sample_tables :: "phys_mem \<Rightarrow> bool" where
  "sample_tables m \<longleftrightarrow> sample_get m 0 64 = make_user_table_entry (sample_page 2) \<and>
     sample_get m 2 0 = make_user_table_entry (sample_page 3) \<and> sample_get m 3 0 = make_user_table_entry (sample_page 4)"

lemma sample_entry_small:
  assumes "n < 8"
  shows "make_user_table_entry (sample_page n) < 18446744073709551616" "user_leaf (sample_page n) wr ex < 18446744073709551616"
  using user_entry_tests(4) [OF sample_page_dvd sample_page_small [OF assms]] user_leaf_bits(6) [OF sample_page_dvd]
    sample_page_small [OF assms]
  by simp_all

lemma sample_code_page:
  assumes "sample_get m 0 64 = 0"
  obtains m' where "raw_map_user_page (sample_page 0) USER_CODE_BASE (sample_page 1) False True (sample_state m 2) =
      (Ok (), sample_state m' 5)"
    and "sample_tables m'" and "sample_get m' 4 0 = user_leaf (sample_page 1) False True" and "sample_get m' 4 511 = 0"
proof -
  let ?m2 = "sample_put (write_bytes m (sample_page 2) 4096 0) 0 64 (make_user_table_entry (sample_page 2))"
  let ?m3 = "sample_put (write_bytes ?m2 (sample_page 3) 4096 0) 2 0 (make_user_table_entry (sample_page 3))"
  let ?m4 = "sample_put (write_bytes ?m3 (sample_page 4) 4096 0) 3 0 (make_user_table_entry (sample_page 4))"
  note eval = get_put get_zero sample_entry_small
  have "split_indices USER_CODE_BASE = [64, 0, 0, 0]" by (simp add: split_indices_eq)
  moreover have "raw_map_tables [64, 0, 0] (sample_page 0) (sample_state m 2) = (Ok (sample_page 4), sample_state ?m4 5)"
    using assms sample_table_absent [of 0 2 m 64 "[0, 0]"] sample_table_absent [of 2 3 ?m2 0 "[0]"]
      sample_table_absent [of 3 4 ?m3 0 "[]"]
    by (simp add: eval)
  moreover have "sample_get ?m4 4 0 = 0" by (simp add: eval)
  ultimately have "raw_map_user_page (sample_page 0) USER_CODE_BASE (sample_page 1) False True (sample_state m 2) =
      (Ok (), sample_state (sample_put ?m4 4 0 (user_leaf (sample_page 1) False True)) 5)"
    by (intro sample_map) simp_all
  then show thesis by (rule that) (simp_all add: eval sample_tables_def)
qed

lemma sample_stack_page:
  assumes "sample_tables m" and "sample_get m 4 511 = 0" and "sample_get m 4 0 = user_leaf (sample_page 1) False True"
  obtains m' where "raw_map_user_page (sample_page 0) (USER_STACK_TOP - PAGE_SIZE) (sample_page 5) True False (sample_state m 6) =
      (Ok (), sample_state m' 6)"
    and "sample_tables m'" and "sample_get m' 4 0 = user_leaf (sample_page 1) False True"
    and "sample_get m' 4 511 = user_leaf (sample_page 5) True False"
proof -
  have "split_indices (USER_STACK_TOP - PAGE_SIZE) = [64, 0, 0, 511]" using split_user_page [of 511 0] by (simp add: user_page_def)
  moreover have "raw_map_tables [64, 0, 0] (sample_page 0) (sample_state m 6) = (Ok (sample_page 4), sample_state m 6)"
    using assms(1) sample_table_present [of 0 2 m 64 "[0, 0]" 6] sample_table_present [of 2 3 m 0 "[0]" 6]
      sample_table_present [of 3 4 m 0 "[]" 6]
    by (simp add: sample_tables_def)
  ultimately have "raw_map_user_page (sample_page 0) (USER_STACK_TOP - PAGE_SIZE) (sample_page 5) True False (sample_state m 6) =
      (Ok (), sample_state (sample_put m 4 511 (user_leaf (sample_page 5) True False)) 6)"
    using assms(2) by (intro sample_map) simp_all
  then show thesis by (rule that) (use assms in \<open>simp_all add: get_put sample_entry_small sample_tables_def\<close>)
qed

lemma user_table_flags:
  assumes "4096 dvd p" and "p < 2 ^ 52"
  shows "make_user_table_entry p AND (ENTRY_PRESENT OR ENTRY_USER) = (ENTRY_PRESENT OR ENTRY_USER)"
  by (rule bit_eqI) (use table_entry_bits [OF assms] in \<open>auto simp: bit_and_iff bit_or_iff bit_entry_flags\<close>)

lemma sample_walk:
  assumes "sample_tables m" and "split_indices virt = [64, 0, 0, k]" and "bit (sample_get m 4 k) 0"
  shows "raw_leaf_entry m (sample_page 0) virt = Ok (sample_get m 4 k)"
proof -
  have e: "make_user_table_entry (sample_page n) AND (ENTRY_PRESENT OR ENTRY_USER) = (ENTRY_PRESENT OR ENTRY_USER)"
      "entry_address (make_user_table_entry (sample_page n)) = sample_page n" if "n < 8" for n
    using that user_entry_tests(3) [OF sample_page_dvd sample_page_small [OF that]]
      user_table_flags [OF sample_page_dvd, of n] sample_page_small [OF that] by simp_all
  have "(sample_get m 4 k AND ENTRY_PRESENT = 0) = False" using assms(3) flag_test(1) by blast
  then show ?thesis
    using assms(1,2)
    by (simp add: raw_leaf_entry_def physical_table_mut_def sample_direct sample_get_def [symmetric] sample_tables_def e Let_def)
qed

lemma sample_finish:
  assumes "sample_tables m" and "sample_get m 4 511 = 0" and "sample_get m 4 0 = user_leaf (sample_page 1) False True"
  obtains space m' where "finish_user_space USER_CODE_BASE 0 (sample_page 0) code n (sample_state m 5) = (Ok space, sample_state m' 6)"
    and "ua_root_phys space = sample_page 0"
proof -
  define z where "z = write_bytes m (sample_page 5) 4096 0"
  have "sample_tables z" "sample_get z 4 511 = 0" "sample_get z 4 0 = user_leaf (sample_page 1) False True"
    using assms by (simp_all add: z_def sample_tables_def get_zero)
  then obtain m' where m': "raw_map_user_page (sample_page 0) (USER_STACK_TOP - PAGE_SIZE) (sample_page 5) True False (sample_state z 6) =
      (Ok (), sample_state m' 6)" "sample_tables m'" "sample_get m' 4 0 = user_leaf (sample_page 1) False True"
      "sample_get m' 4 511 = user_leaf (sample_page 5) True False"
    by (rule sample_stack_page)
  have ix: "split_indices USER_CODE_BASE = [64, 0, 0, 0]" "split_indices (USER_STACK_TOP - PAGE_SIZE) = [64, 0, 0, 511]"
    using split_user_page [of 0 0] split_user_page [of 511 0] by (simp_all add: user_page_def)
  have bits: "bit (user_leaf (sample_page i) wr ex) 0" if "i < 8" for i wr ex
    using user_leaf_bits(2) [OF sample_page_dvd] sample_page_small [OF that] by simp
  have "raw_leaf_entry m' (sample_page 0) USER_CODE_BASE = Ok (sample_get m' 4 0)"
    "raw_leaf_entry m' (sample_page 0) (USER_STACK_TOP - PAGE_SIZE) = Ok (sample_get m' 4 511)"
    by (rule sample_walk [OF m'(2) ix(1)], simp add: m'(3) bits)
      (rule sample_walk [OF m'(2) ix(2)], simp add: m'(4) bits)
  moreover have "allocate_owned_zeroed_page (sample_state m 5) = (Ok (sample_page 5), sample_state z 6)"
    using sample_alloc [of 5 m] by (simp add: z_def)
  ultimately have "finish_user_space USER_CODE_BASE 0 (sample_page 0) code n (sample_state m 5) =
      (Ok (user_space_report USER_CODE_BASE 0 (sample_page 0) code (sample_page 5) n (sample_get m' 4 0) (sample_get m' 4 511)
        (sample_state m' 6)), sample_state m' 6)"
    using m'(1) unfolding finish_user_space_def
    by (simp add: mem_sample_state physical_table_mut_def sample_direct del: USER_CODE_BASE_def USER_STACK_TOP_def)
  then show thesis by (rule that) (simp add: user_space_report_def Let_def)
qed

lemma sample_load:
  obtains m where "load_segments (sample_page 0) [sample_segment] 0 0 (sample_state (\<lambda>_. 0) 1) =
      (Ok (sample_page 1, 1), sample_state m 5)"
    and "sample_tables m" and "sample_get m 4 0 = user_leaf (sample_page 1) False True" and "sample_get m 4 511 = 0"
proof -
  let ?m1 = "write_bytes (\<lambda>_. 0) (sample_page 1) 4096 0"
  let ?m2 = "copy_bytes ?m1 (sample_page 1) [0xC3]"
  have "sample_get ?m2 0 64 = 0" using get_copy [of 64 0 "[0xC3]" 0 1 ?m1] by (simp add: get_zero get_none)
  then obtain m where m: "raw_map_user_page (sample_page 0) USER_CODE_BASE (sample_page 1) False True (sample_state ?m2 2) =
      (Ok (), sample_state m 5)"
      "sample_tables m" "sample_get m 4 0 = user_leaf (sample_page 1) False True" "sample_get m 4 511 = 0"
    by (rule sample_code_page)
  have copy: "copy_page_data sample_segment (USER_CODE_BASE + 1) USER_CODE_BASE (sample_page 1) (sample_state ?m1 2) =
      (Ok (), sample_state ?m2 2)"
    by (simp add: copy_page_data_def sample_segment_def sample_direct sample_state_def slice_def
        saturating_add_def U64_MAX_def)
  have alloc: "allocate_owned_zeroed_page (sample_state (\<lambda>_. 0) 1) = (Ok (sample_page 1), sample_state ?m1 2)"
    using sample_alloc [of 1 "\<lambda>_. 0"] by (simp add: numeral_2_eq_2)
  have "load_pages (sample_page 0) sample_segment (USER_CODE_BASE + 1) (USER_CODE_BASE + 4096) USER_CODE_BASE 0
      (sample_state (\<lambda>_. 0) 1) = (Ok (sample_page 1), sample_state m 5)"
    unfolding load_pages.simps [of _ _ _ _ USER_CODE_BASE] alloc st_bind.simps copy
    using m(1) by (simp add: sample_segment_def checked_add_def U64_MAX_def load_pages.simps)
  then have "load_segments (sample_page 0) [sample_segment] 0 0 (sample_state (\<lambda>_. 0) 1) =
      (Ok (sample_page 1, 1), sample_state m 5)"
    by (simp add: sample_segment_def checked_add_def U64_MAX_def vm_align_up_checked_eq vm_align_down_eq)
  then show thesis using m(2-4) by (rule that)
qed

lemma sample_program: "validate_user_program USER_CODE_BASE [sample_segment] = Ok ()"
  by (simp add: validate_user_program_Ok acceptable_program_def acceptable_segment_def sample_segment_def contains_entry_def)

lemma sample_creation:
  obtains space m where "create_user_address_space_from_segments USER_CODE_BASE [sample_segment] sample_machine =
      (Ok space, fst (sample_state m 6))"
    and "ua_root_phys space = sample_page 0"
proof -
  have start: "allocate_owned_zeroed_page (sample_machine, []) = (Ok (sample_page 0), sample_state (write_bytes (\<lambda>_. 0) (sample_page 0) 4096 0) 1)"
    using sample_alloc [of 0 "\<lambda>_. 0"] by (simp add: sample_state_def sample_machine_def)
  have zero: "write_bytes (\<lambda>_. 0) a n 0 = (\<lambda>_. 0)" "copy_bytes (\<lambda>_. 0) a (map (\<lambda>_. 0) xs) = (\<lambda>_. 0)" for a n and xs :: "nat list"
    by (auto simp: write_bytes_def copy_bytes_def fun_eq_iff)
  have copy: "copy_kernel_root 0 (sample_page 0) (sample_state (\<lambda>_. 0) 1) = (Ok (), sample_state (\<lambda>_. 0) 1)"
    using sample_direct [of 0] direct_map [of 0]
    by (simp add: copy_kernel_root_def physical_page_ptr_def physical_page_mut_def mem_sample_state zero Let_def)
      (simp add: sample_state_def)
  obtain m where load: "load_segments (sample_page 0) [sample_segment] 0 0 (sample_state (\<lambda>_. 0) 1) = (Ok (sample_page 1, 1), sample_state m 5)"
      and m: "sample_tables m" "sample_get m 4 0 = user_leaf (sample_page 1) False True" "sample_get m 4 511 = 0"
    by (rule sample_load)
  obtain space m' where fin: "finish_user_space USER_CODE_BASE 0 (sample_page 0) (sample_page 1) 1 (sample_state m 5) = (Ok space, sample_state m' 6)"
      and root: "ua_root_phys space = sample_page 0"
    by (rule sample_finish [OF m(1,3,2)])
  have ix: "split_indices USER_CODE_BASE ! 0 = 64" by (simp add: split_indices_eq)
  have "build_user_space USER_CODE_BASE [sample_segment] 0 (sample_machine, []) = (Ok space, sample_state m' 6)"
    unfolding build_user_space_def start zero st_bind.simps copy ix mem_sample_state sample_get_def [symmetric] get_none Let_def
    using sample_direct [of 0] load fin
    by (simp add: physical_table_mut_def mem_sample_state get_none del: load_segments.simps)
  moreover note sample_program
  ultimately have "create_user_address_space_from_segments USER_CODE_BASE [sample_segment] sample_machine =
      (Ok space, fst (sample_state m' 6))"
    unfolding create_user_address_space_from_segments_def by (simp add: sample_machine_def sample_state_def)
  then show thesis using root by (rule that)
qed

lemma sample_world_ok: "world_ok sample_machine" "world_ok full_machine"
  using sample_pages_inv [of 0] sample_pages_inv [of 8]
  by (auto simp: world_ok_def sample_machine_def full_machine_def usable_def live_def sample_pages_def usable_pages_def
      region_pages_def page_range_def page_number_def)

lemma sample_kernel_entries: "table_entry (vw_mem sample_machine) (vw_cr3 sample_machine) k = 0"
proof -
  have z: "write_bytes (\<lambda>_. 0) a 8 0 = (\<lambda>_. 0)" for a by (auto simp: write_bytes_def)
  show ?thesis using peek_zeroed [of "8 * k" _ 8 "\<lambda>_. 0"] by (simp add: z table_entry_def sample_machine_def)
qed

lemma full_creation:
  obtains w' where "create_user_address_space_from_segments USER_CODE_BASE [sample_segment] full_machine = (Err OutOfPhysicalPages, w')"
proof -
  have "allocate_page (sample_pages 8) = (None, sample_pages 8)"
    by (simp add: allocate_page_def allocate_contiguous_pages_def sample_pages_def remaining_pages_def saturating_sub_def)
  then have "allocate_owned_zeroed_page (full_machine, []) = (Err OutOfPhysicalPages, (full_machine, []))"
    by (simp add: allocate_owned_zeroed_page_def allocate_zeroed_page_def full_machine_def)
  then have "create_user_address_space_from_segments USER_CODE_BASE [sample_segment] full_machine = (Err OutOfPhysicalPages, full_machine)"
    unfolding create_user_address_space_from_segments_def build_user_space_def sample_program
    by (simp add: ownership_reclaim_def)
  then show thesis by (rule that)
qed

end
