(* ===== verification/UserIsolation.thy ===== *)
theory UserIsolation
  imports UserSpaceSample
begin

text \<open>
  The guarantees of \<^verbatim>\<open>create_user_address_space_from_segments\<close> and \<^verbatim>\<open>destroy_user_address_space\<close>
  (\<^verbatim>\<open>kernel/src/vm.rs\<close>): a user process sees exactly its program and its stack, a failed creation
  leaks nothing, and destruction gives everything back, zeroed.
\<close>

section \<open>The view of a finished address space\<close>

lemma slot_indices:
  fixes v :: nat
  assumes "v div 2 ^ 39 = 64"
  shows "v div 2 ^ 30 mod 512 = 0 \<and> v div 2 ^ 21 mod 512 = 0 \<longleftrightarrow> v div 4096 < 2 ^ 33 + 512"
    and "v div 4096 < 2 ^ 33 + 512 \<Longrightarrow> v div 2 ^ 12 mod 512 = v div 4096 - 2 ^ 33" "2 ^ 33 \<le> v div 4096"
proof -
  have d: "v div 2 ^ 39 = v div 4096 div 2 ^ 27" "v div 2 ^ 30 = v div 4096 div 2 ^ 18" "v div 2 ^ 21 = v div 4096 div 2 ^ 9"
    "v div 2 ^ 12 = v div 4096"
    by (simp_all add: div_mult2_eq [symmetric])
  define n where "n = v div 4096 - 2 ^ 33"
  have "64 * 2 ^ 27 \<le> v div 4096" "v div 4096 < 65 * 2 ^ 27"
    using assms unfolding d by (auto simp: div_nat_eqI div_less_iff_less_mult dest: div_nat_eqI)
  then have n: "v div 4096 = 2 ^ 33 + n" "n < 2 ^ 27" by (simp_all add: n_def)
  show "2 ^ 33 \<le> v div 4096" using n by simp
  have e: "(2 ^ 33 + n) div 2 ^ 18 = 2 ^ 15 + n div 2 ^ 18" "(2 ^ 33 + n) div 2 ^ 9 = 2 ^ 24 + n div 2 ^ 9"
    using div_mult_self4 [of "2 ^ 18" "2 ^ 15" n] div_mult_self4 [of "2 ^ 9" "2 ^ 24" n] by simp_all
  have "n div 2 ^ 18 < 512" using n(2) by (simp add: div_less_iff_less_mult)
  then have "(2 ^ 15 + n div 2 ^ 18) mod 512 = n div 2 ^ 18"
    using mod_mult_self4 [of 512 "2 ^ 6" "n div 2 ^ 18"] by simp
  moreover have "(2 ^ 24 + n div 2 ^ 9) mod 512 = n div 2 ^ 9 mod 512"
    using mod_mult_self4 [of 512 "2 ^ 15" "n div 2 ^ 9"] by simp
  moreover have "n div 2 ^ 18 = 0 \<and> n div 2 ^ 9 mod 512 = 0 \<longleftrightarrow> n < 512"
  proof
    assume z: "n div 2 ^ 18 = 0 \<and> n div 2 ^ 9 mod 512 = 0"
    then have "n < 2 ^ 18" by (simp add: div_eq_0_iff)
    then have "n div 2 ^ 9 < 512" by (simp add: div_less_iff_less_mult)
    then have "n div 2 ^ 9 = 0" using z by simp
    then show "n < 512" by (simp add: div_eq_0_iff)
  qed (simp add: div_eq_0_iff)
  ultimately show "v div 2 ^ 30 mod 512 = 0 \<and> v div 2 ^ 21 mod 512 = 0 \<longleftrightarrow> v div 4096 < 2 ^ 33 + 512"
    unfolding d n(1) e by simp
  show "v div 2 ^ 12 mod 512 = v div 4096 - 2 ^ 33" if "v div 4096 < 2 ^ 33 + 512"
    using that mod_mult_self4 [of 512 "2 ^ 24" n] unfolding d n(1) by simp
qed

lemma built_access:
  assumes "world_ok w0" and "strong_inv w0 s" and "tables_inv K root (Some (a, b, c)) L D s" and "v div 2 ^ 39 = 64"
  shows "user_access (vw_mem (fst s)) root v = (if v div 4096 < 2 ^ 33 + 512 then L (v div 4096 - 2 ^ 33) else None)"
proof -
  have "v div 2 ^ 39 mod 512 = 64" using assms(4) by simp
  from user_access_slot [OF assms(1-3) this] show ?thesis using slot_indices [OF assms(4)] by (simp split: if_splits)
qed

lemma page_in_some_range:
  assumes "\<forall>s\<in>set segs. acceptable_segment s" and "2 ^ 33 \<le> v div 4096"
  shows "find (\<lambda>s. v div 4096 \<in> segment_pages s) segs = find (\<lambda>s. v div 4096 - 2 ^ 33 \<in> segment_range s) segs"
proof (rule find_cong [OF refl])
  fix s assume "s \<in> set segs"
  then have "acceptable_segment s" using assms(1) by blast
  from segment_range_pages [OF this, of "v div 4096 - 2 ^ 33"]
  show "(v div 4096 \<in> segment_pages s) = (v div 4096 - 2 ^ 33 \<in> segment_range s)" using assms(2) by simp
qed

lemma built_view:
  assumes "world_ok w0" and "strong_inv w0 s" and inv: "tables_inv K root (Some (a, b, c)) L D s"
    and final: "final_leaves segs L D" and acc: "\<forall>s\<in>set segs. acceptable_segment s" and v: "v div 2 ^ 39 = 64"
  shows "user_view (vw_mem (fst s)) root v = program_view segs v"
proof -
  define k where "k = v div 4096 - 2 ^ 33"
  have lo: "2 ^ 33 \<le> v div 4096" by (rule slot_indices(3) [OF v])
  have vk: "v = user_page k + v mod 4096"
    using lo by (simp add: k_def user_page_def diff_mult_distrib)
  have access: "user_access (vw_mem (fst s)) root v = (if k < 512 then L k else None)"
    using built_access [OF assms(1,2) inv v] lo by (auto simp: k_def)
  have byte: "vw_mem (fst s) (p + v mod 4096) = D k (v mod 4096)" if "L k = Some (p, w, x)" for p w x
    using inv that by (simp add: tables_inv_def tables_mem_def)
  have range: "k < 512 \<and> k \<noteq> 511" if "t \<in> set segs" "k \<in> segment_range t" for t
    using that acc segment_range_bounds(2) [of t] by (auto simp: segment_range_def)
  have found: "find (\<lambda>s. v div 4096 \<in> segment_pages s) segs = find (\<lambda>s. k \<in> segment_range s) segs"
    using page_in_some_range [OF acc lo] by (simp add: k_def)
  show ?thesis
  proof (cases "find (\<lambda>s. k \<in> segment_range s) segs")
    case (Some t)
    then have t: "t \<in> set segs" "k \<in> segment_range t" by (auto simp: find_Some_iff)
    then obtain p where p: "L k = Some (p, us_writable t, us_executable t)" and "D k (v mod 4096) = segment_byte t v"
      using final vk unfolding final_leaves_def by (metis mod_less_divisor zero_less_numeral)
    then show ?thesis
      using Some access byte [OF p] range [OF t]
      by (simp add: user_view_def program_view_def found)
  next
    case None
    then have out: "\<forall>t\<in>set segs. k \<notin> segment_range t" by (simp add: find_None_iff)
    have stack: "v div 4096 = (USER_STACK_TOP - PAGE_SIZE) div 4096 \<longleftrightarrow> k = 511" using lo by (auto simp: k_def)
    obtain p where p: "L 511 = Some (p, True, False)" and z: "D 511 (v mod 4096) = 0"
      using final by (auto simp: final_leaves_def)
    have "L k = None" if "k \<noteq> 511" using final out that by (simp add: final_leaves_def)
    then show ?thesis
      using None access byte [of p True False] p z stack
      unfolding user_view_def program_view_def found by (cases "k = 511") simp_all
  qed
qed

section \<open>Created address spaces\<close>

lemma failing_bind: "st_bind m (\<lambda>_ s. (Err e, s)) \<noteq> (Ok x, w)"
  by (cases m; cases "fst m") auto

lemma created_space:
  assumes "world_ok w" and "create_user_address_space_from_segments entry segs w = (Ok space, w')"
  shows "acceptable_program entry segs" and "strong_inv w (w', ua_owned_pages space)"
    and "built w segs space (w', ua_owned_pages space)"
proof -
  have v: "validate_user_program entry segs = Ok ()"
    using assms(2) by (auto simp: create_user_address_space_from_segments_def split: sum.splits)
  then show acc: "acceptable_program entry segs" by (simp add: validate_user_program_Ok)
  obtain owned where b: "build_user_space entry segs (vw_cr3 w) (w, []) = (Ok space, (w', owned))"
    using assms(2) v
    by (auto simp: create_user_address_space_from_segments_def failing_bind split: sum.splits prod.splits)
  have "safe_result w (built w segs) (build_user_space entry segs (vw_cr3 w) (w, []))"
    using build_safe [OF assms(1)] acc by (simp add: acceptable_program_def list_all_iff)
  then have "strong_inv w (w', owned) \<and> built w segs space (w', owned)" by (simp add: b safe_result_def)
  moreover from this have "ua_owned_pages space = owned" by (simp add: built_def)
  ultimately show "strong_inv w (w', ua_owned_pages space)" "built w segs space (w', ua_owned_pages space)" by simp_all
qed

lemma program_view_outside:
  assumes "\<forall>s\<in>set segs. acceptable_segment s" and "v div 2 ^ 39 \<noteq> 64"
  shows "program_view segs v = None"
proof -
  have d: "v div 2 ^ 39 = v div 4096 div 2 ^ 27" by (simp add: div_mult2_eq [symmetric])
  have out: "v div 4096 < 2 ^ 33 \<or> 2 ^ 33 + 512 \<le> v div 4096"
  proof (rule ccontr)
    assume "\<not> ?thesis"
    then have "v div 4096 div 2 ^ 27 = 64" by (intro div_nat_eqI) simp_all
    then show False using assms(2) d by simp
  qed
  have "v div 4096 \<notin> segment_pages s" if "s \<in> set segs" for s
    using segment_page_limits [of s] assms(1) that out by (auto simp: segment_pages_def)
  then have "find (\<lambda>s. v div 4096 \<in> segment_pages s) segs = None" by (simp add: find_None_iff)
  then show ?thesis using out by (auto simp: program_view_def)
qed

lemma kernel_slot_view:
  assumes inv: "tables_inv K root chain L D s" and "\<forall>k<512. \<not> (bit (K k) 0 \<and> bit (K k) 2)"
    and "v < 2 ^ 48" and "v div 2 ^ 39 \<noteq> 64"
  shows "user_view (vw_mem (fst s)) root v = None"
proof -
  have "v div 2 ^ 39 < 512" using assms(3) by (simp add: div_less_iff_less_mult)
  moreover from this have "table_entry (vw_mem (fst s)) root (v div 2 ^ 39) = K (v div 2 ^ 39)"
    using inv assms(4) by (simp add: tables_inv_def tables_mem_def)
  ultimately show ?thesis using assms(2) by (auto simp: user_view_def user_access_def Let_def)
qed

text \<open>
  C2: a process sees exactly its program. When the kernel's tables are closed to user mode, the page
  walk over the root of a created address space gives, at every address, the byte and the permissions
  that the program's segments prescribe (data, then zeros up to the memory size of the segment's
  pages), the zeroed writable stack page, and nothing anywhere else.
\<close>

theorem user_space_view_exact:
  assumes "world_ok w" and "\<forall>k<512. \<not> (bit (table_entry (vw_mem w) (vw_cr3 w) k) 0 \<and> bit (table_entry (vw_mem w) (vw_cr3 w) k) 2)"
    and "create_user_address_space_from_segments entry segs w = (Ok space, w')" and "v < 2 ^ 48"
  shows "user_view (vw_mem w') (ua_root_phys space) v = program_view segs v"
proof -
  note c = created_space [OF assms(1,3)]
  have acc: "\<forall>s\<in>set segs. acceptable_segment s" using c(1) by (simp add: acceptable_program_def list_all_iff)
  obtain a b cc L D where t: "tables_inv (kernel_entries w) (ua_root_phys space) (Some (a, b, cc)) L D (w', ua_owned_pages space)"
      "final_leaves segs L D"
    using c(3) by (auto simp: built_def)
  show ?thesis
  proof (cases "v div 2 ^ 39 = 64")
    case True
    from built_view [OF assms(1) c(2) t acc this] show ?thesis by simp
  next
    case False
    with kernel_slot_view [OF t(1) _ assms(4)] assms(2) program_view_outside [OF acc] show ?thesis
      by (simp add: kernel_entries_def)
  qed
qed

theorem user_space_view_exact_witness:
  "\<exists>space w'. create_user_address_space_from_segments USER_CODE_BASE [sample_segment] sample_machine = (Ok space, w') \<and>
    user_view (vw_mem w') (ua_root_phys space) USER_CODE_BASE = Some (False, True, 0xC3) \<and>
    user_view (vw_mem w') (ua_root_phys space) (USER_STACK_TOP - 1) = Some (True, False, 0) \<and>
    user_view (vw_mem w') (ua_root_phys space) 0 = None"
proof -
  obtain space m where c: "create_user_address_space_from_segments USER_CODE_BASE [sample_segment] sample_machine =
      (Ok space, fst (sample_state m 6))"
    by (rule sample_creation)
  have "table_entry (vw_mem sample_machine) (vw_cr3 sample_machine) k = 0" for k by (rule sample_kernel_entries)
  then have "\<forall>k<512. \<not> (bit (table_entry (vw_mem sample_machine) (vw_cr3 sample_machine) k) 0 \<and>
      bit (table_entry (vw_mem sample_machine) (vw_cr3 sample_machine) k) 2)" by simp
  note view = user_space_view_exact [OF sample_world_ok(1) this c]
  have "segment_pages sample_segment = {2 ^ 33}" by (auto simp: segment_pages_def sample_segment_def)
  then show ?thesis using c view [of USER_CODE_BASE] view [of "USER_STACK_TOP - 1"] view [of 0]
    by (simp add: program_view_def segment_byte_def) (simp add: sample_segment_def)
qed

lemma leaf_facts:
  assumes "tables_inv K root chain L D s" and final: "final_leaves segs L D" and L: "L k = Some (p, wr, ex)"
    and acc: "\<forall>s\<in>set segs. acceptable_segment s"
  shows "p \<in> set (snd s)" "p \<noteq> root" "\<not> (wr \<and> ex)" "\<forall>k' wr' ex'. L k' = Some (p, wr', ex') \<longrightarrow> k' = k"
proof -
  have "p \<in> leaf_pages L" using L by (auto simp: leaf_pages_def intro: ranI)
  then show "p \<in> set (snd s)" "p \<noteq> root"
    using assms(1) by (auto simp: tables_inv_def used_pages_def tables_shape_def)
  show "\<forall>k' wr' ex'. L k' = Some (p, wr', ex') \<longrightarrow> k' = k"
    using assms(1) L unfolding tables_inv_def tables_shape_def by blast
  show "\<not> (wr \<and> ex)"
  proof (cases "\<exists>t\<in>set segs. k \<in> segment_range t")
    case True
    then obtain t where t: "t \<in> set segs" "k \<in> segment_range t" by blast
    then have "wr = us_writable t \<and> ex = us_executable t" using final L unfolding final_leaves_def by fastforce
    then show ?thesis using acc t(1) by (auto simp: acceptable_segment_def)
  next
    case False
    then have "k = 511" using final L unfolding final_leaves_def by (metis option.distinct(1))
    then show ?thesis using final L by (auto simp: final_leaves_def)
  qed
qed

definition reaches :: "VmWorld \<Rightarrow> UserAddressSpace \<Rightarrow> nat \<Rightarrow> nat \<Rightarrow> bool" where
  "reaches w space vpage p \<longleftrightarrow> (\<exists>wr ex. user_access (vw_mem w) (ua_root_phys space) (vpage * 4096) = Some (p, wr, ex))"

lemma created_reach:
  assumes "world_ok w" and "create_user_address_space_from_segments entry segs w = (Ok space, w')" and "n div 2 ^ 27 = 64"
    and "user_access (vw_mem w') (ua_root_phys space) (n * 4096) = Some (p, wr, ex)"
  shows "p \<in> set (ua_owned_pages space)" "p \<noteq> ua_root_phys space" "\<not> (wr \<and> ex)"
    "\<forall>n'. n' div 2 ^ 27 = 64 \<longrightarrow> reaches w' space n' p \<longrightarrow> n' = n"
proof -
  note c = created_space [OF assms(1,2)]
  obtain a b cc L D where t: "tables_inv (kernel_entries w) (ua_root_phys space) (Some (a, b, cc)) L D (w', ua_owned_pages space)"
      "final_leaves segs L D"
    using c(3) by (auto simp: built_def)
  have segs: "\<forall>s\<in>set segs. acceptable_segment s" using c(1) by (simp add: acceptable_program_def list_all_iff)
  have slot: "n' * 4096 div 2 ^ 39 = n' div 2 ^ 27" for n' :: nat
    using div_mult_mult2 [of 4096 n' "2 ^ 27"] by simp
  have leaf: "user_access (vw_mem w') (ua_root_phys space) (n' * 4096) = (if n' < 2 ^ 33 + 512 then L (n' - 2 ^ 33) else None) \<and> 2 ^ 33 \<le> n'"
    if "n' div 2 ^ 27 = 64" for n'
    using built_access [OF assms(1) c(2) t(1), of "n' * 4096"] slot_indices(3) [of "n' * 4096"] that slot [of n'] by simp
  have L: "L (n - 2 ^ 33) = Some (p, wr, ex)" using leaf [OF assms(3)] assms(4) by (simp split: if_splits)
  note f = leaf_facts [OF t L segs]
  show "p \<in> set (ua_owned_pages space)" "p \<noteq> ua_root_phys space" "\<not> (wr \<and> ex)" using f(1-3) by simp_all
  show "\<forall>n'. n' div 2 ^ 27 = 64 \<longrightarrow> reaches w' space n' p \<longrightarrow> n' = n"
  proof (intro allI impI)
    fix n' assume n': "n' div 2 ^ 27 = 64" "reaches w' space n' p"
    then obtain wr' ex' where "L (n' - 2 ^ 33) = Some (p, wr', ex')"
      using leaf [OF n'(1)] by (auto simp: reaches_def split: if_splits)
    then have "n' - 2 ^ 33 = n - 2 ^ 33" using f(4) by blast
    then show "n' = n" using leaf [OF n'(1)] leaf [OF assms(3)] by linarith
  qed
qed

text \<open>
  C3: processes are isolated. The pages of a created address space were free before and are live after,
  nothing else of the allocator or of the memory changes, the kernel's root entries are shared
  unchanged, and what user mode can reach in the program's slot are owned pages, none of them the root
  table, each at one virtual page only and never both writable and executable.
\<close>

theorem user_space_isolated:
  assumes "world_ok w" and "create_user_address_space_from_segments entry segs w = (Ok space, w')"
  shows "page_number ` set (ua_owned_pages space) \<inter> live w = {} \<and>
    live w' = live w \<union> page_number ` set (ua_owned_pages space) \<and> vw_cr3 w' = vw_cr3 w \<and>
    (\<forall>a. page_number a \<notin> usable w - live w \<longrightarrow> vw_mem w' a = vw_mem w a) \<and>
    (\<forall>k<512. k \<noteq> 64 \<longrightarrow> table_entry (vw_mem w') (ua_root_phys space) k = table_entry (vw_mem w) (vw_cr3 w) k) \<and>
    (\<forall>n p wr ex. n div 2 ^ 27 = 64 \<longrightarrow> user_access (vw_mem w') (ua_root_phys space) (n * 4096) = Some (p, wr, ex) \<longrightarrow>
      p \<in> set (ua_owned_pages space) \<and> p \<noteq> ua_root_phys space \<and> \<not> (wr \<and> ex) \<and>
      (\<forall>n'. n' div 2 ^ 27 = 64 \<longrightarrow> reaches w' space n' p \<longrightarrow> n' = n))"
proof -
  note c = created_space [OF assms]
  obtain a b cc L D where "tables_inv (kernel_entries w) (ua_root_phys space) (Some (a, b, cc)) L D (w', ua_owned_pages space)"
    using c(3) by (auto simp: built_def)
  then have "\<forall>k<512. k \<noteq> 64 \<longrightarrow> table_entry (vw_mem w') (ua_root_phys space) k = table_entry (vw_mem w) (vw_cr3 w) k"
    by (simp add: tables_inv_def tables_mem_def kernel_entries_def)
  moreover have "page_number ` set (ua_owned_pages space) \<inter> live w = {}" "live w' = live w \<union> page_number ` set (ua_owned_pages space)"
    "vw_cr3 w' = vw_cr3 w" "\<forall>a. page_number a \<notin> usable w - live w \<longrightarrow> vw_mem w' a = vw_mem w a"
    using c(2) by (auto simp: strong_inv_def weak_inv_def)
  ultimately show ?thesis using created_reach [OF assms] by (intro conjI allI impI) simp_all
qed

theorem user_space_isolated_witness:
  "\<exists>space w'. create_user_address_space_from_segments USER_CODE_BASE [sample_segment] sample_machine = (Ok space, w') \<and>
    page_number ` set (ua_owned_pages space) \<inter> live sample_machine = {} \<and>
    live w' = live sample_machine \<union> page_number ` set (ua_owned_pages space)"
proof -
  obtain space m where c: "create_user_address_space_from_segments USER_CODE_BASE [sample_segment] sample_machine =
      (Ok space, fst (sample_state m 6))"
    by (rule sample_creation)
  from user_space_isolated [OF sample_world_ok(1) c] c show ?thesis by blast
qed

text \<open>
  C20: a failed creation leaks nothing. Unless the allocator refuses to take a page back, every page is
  free again after an error, and in any case the memory outside the free pages, the set of usable
  pages and the active root are as before.
\<close>

theorem user_space_failure_leaks_nothing:
  assumes "world_ok w" and "create_user_address_space_from_segments entry segs w = (Err e, w')"
  shows "(e = PageReclamationFailed \<or> live w' = live w) \<and> live w \<subseteq> live w' \<and> usable w' = usable w \<and> vw_cr3 w' = vw_cr3 w \<and>
    (\<forall>a. page_number a \<notin> usable w - live w \<longrightarrow> vw_mem w' a = vw_mem w a)"
proof (cases "validate_user_program entry segs")
  case (Inl e')
  then show ?thesis using assms by (simp add: create_user_address_space_from_segments_def)
next
  case (Inr u)
  then have acc: "acceptable_program entry segs" by (simp add: validate_user_program_Ok [symmetric])
  have safe: "safe_result w (built w segs) (build_user_space entry segs (vw_cr3 w) (w, []))"
    using build_safe [OF assms(1)] acc by (simp add: acceptable_program_def list_all_iff)
  obtain x w1 owned where x: "build_user_space entry segs (vw_cr3 w) (w, []) = (x, (w1, owned))" by (metis surj_pair)
  obtain r w2 where r: "ownership_reclaim owned w1 = (r, w2)" by fastforce
  obtain e1 where b: "build_user_space entry segs (vw_cr3 w) (w, []) = (Err e1, (w1, owned))"
      and res: "st_bind (r, w2) (\<lambda>_ w. (Err e1, w)) = (Err e :: VmError + UserAddressSpace, w')"
    using assms(2) by (cases x) (auto simp: create_user_address_space_from_segments_def Inr x r)
  have weak: "weak_inv w (w1, owned)" "e1 = PageReclamationFailed \<or> strong_inv w (w1, owned)"
    using safe by (auto simp: b safe_result_def)
  note rw = reclaim_weak [OF assms(1) weak(1) r]
  have w': "w' = w2" using res by (cases r) auto
  have "e = PageReclamationFailed \<or> live w' = live w"
  proof (cases r)
    case (Inl e')
    then show ?thesis using rw res by simp
  next
    case (Inr u')
    then show ?thesis using rw res weak(2) w' by auto
  qed
  then show ?thesis using rw [THEN conjunct1] by (simp add: w' weak_inv_def)
qed

theorem user_space_failure_leaks_nothing_witness:
  "\<exists>w'. create_user_address_space_from_segments USER_CODE_BASE [sample_segment] full_machine = (Err OutOfPhysicalPages, w') \<and>
    live w' = live full_machine"
proof -
  obtain w' where c: "create_user_address_space_from_segments USER_CODE_BASE [sample_segment] full_machine = (Err OutOfPhysicalPages, w')"
    by (rule full_creation)
  from user_space_failure_leaks_nothing [OF sample_world_ok(2) c] c show ?thesis by auto
qed

text \<open>
  C21: destroying a created address space undoes its creation. When the space is not the active one and
  the allocator takes the pages back, exactly the pages that were live before the creation are live
  again, and every byte of the pages the process owned is zero; the active space is refused.
\<close>

theorem user_space_destroy_undoes_create:
  assumes "world_ok w" and "create_user_address_space_from_segments entry segs w = (Ok space, w')"
  shows "(case destroy_user_address_space space w' of
      (Ok _, w'') \<Rightarrow> vw_cr3 w \<noteq> ua_root_phys space \<and> live w'' = live w \<and>
        (\<forall>a. vw_mem w'' a = (if page_number a \<in> page_number ` set (ua_owned_pages space) then 0 else vw_mem w' a))
    | (Err e, w'') \<Rightarrow> if vw_cr3 w = ua_root_phys space then e = ActiveAddressSpace \<and> w'' = w' else e = PageReclamationFailed)"
proof -
  note c = created_space [OF assms]
  have weak: "weak_inv w (w', ua_owned_pages space)" using c(2) by (simp add: strong_inv_def)
  then have cr3: "vw_cr3 w' = vw_cr3 w" by (simp add: weak_inv_def)
  obtain r w'' where r: "ownership_reclaim (ua_owned_pages space) w' = (r, w'')" by fastforce
  from reclaim_weak [OF assms(1) weak r] c(2) show ?thesis
    by (cases r) (auto simp: destroy_user_address_space_def cr3 r)
qed

theorem user_space_destroy_undoes_create_witness:
  "\<exists>space w'. create_user_address_space_from_segments USER_CODE_BASE [sample_segment] sample_machine = (Ok space, w') \<and>
    (case destroy_user_address_space space w' of (Ok _, w'') \<Rightarrow> live w'' = live sample_machine
      | (Err e, w'') \<Rightarrow> e = PageReclamationFailed)"
proof -
  obtain space m where c: "create_user_address_space_from_segments USER_CODE_BASE [sample_segment] sample_machine =
      (Ok space, fst (sample_state m 6))" and root: "ua_root_phys space = sample_page 0"
    by (rule sample_creation)
  have "vw_cr3 sample_machine \<noteq> ua_root_phys space" by (simp add: root sample_machine_def sample_page_def)
  with user_space_destroy_undoes_create [OF sample_world_ok(1) c] c show ?thesis
    by (auto split: prod.splits sum.splits)
qed

end
