(* ===== verification/Interrupts.thy ===== *)
theory Interrupts
  imports Prelude
begin

text \<open>
  \<^verbatim>\<open>kernel/src/interrupts.rs\<close>: descriptor tables, the interrupt controller and timer set-up as traces of
  port writes, trap frames, and the bookkeeping of ticks. Addresses of the assembly stubs are
  arguments; the dispatcher that calls the kernel's trap handlers is in \<open>TrapDispatch\<close>.
\<close>

section \<open>Constants\<close>

definition IDT_ENTRIES :: nat where
  [simp]: "IDT_ENTRIES = 256"

definition INTERRUPT_GATE :: u8 where
  [simp]: "INTERRUPT_GATE = 0x8E"

definition PIC1_CMD :: u16 where
  [simp]: "PIC1_CMD = 0x20"

definition PIC1_DATA :: u16 where
  [simp]: "PIC1_DATA = 0x21"

definition PIC2_CMD :: u16 where
  [simp]: "PIC2_CMD = 0xA0"

definition PIC2_DATA :: u16 where
  [simp]: "PIC2_DATA = 0xA1"

definition PIC_EOI :: u8 where
  [simp]: "PIC_EOI = 0x20"

definition PIT_CMD :: u16 where
  [simp]: "PIT_CMD = 0x43"

definition PIT_CH0 :: u16 where
  [simp]: "PIT_CH0 = 0x40"

definition PIT_BASE_HZ :: nat where
  [simp]: "PIT_BASE_HZ = 1193182"

definition TIMER_VECTOR :: u8 where
  [simp]: "TIMER_VECTOR = 32"

definition TIMER_HZ :: nat where
  [simp]: "TIMER_HZ = 100"

definition KERNEL_CODE_SELECTOR :: u16 where
  [simp]: "KERNEL_CODE_SELECTOR = 0x08"

definition KERNEL_DATA_SELECTOR :: u16 where
  [simp]: "KERNEL_DATA_SELECTOR = 0x10"

definition TSS_SELECTOR :: u16 where
  [simp]: "TSS_SELECTOR = 0x18"

definition USER_DATA_SELECTOR :: u16 where
  [simp]: "USER_DATA_SELECTOR = 0x2b"

definition USER_CODE_SELECTOR :: u16 where
  [simp]: "USER_CODE_SELECTOR = 0x33"

definition USER_SYSCALL_VECTOR :: u8 where
  [simp]: "USER_SYSCALL_VECTOR = 0x80"

definition DOUBLE_FAULT_IST :: u8 where
  [simp]: "DOUBLE_FAULT_IST = 1"

definition DOUBLE_FAULT_STACK_BYTES :: nat where
  [simp]: "DOUBLE_FAULT_STACK_BYTES = 64 * 1024"

section \<open>Descriptors and frames\<close>

record IdtEntry =
  ie_offset_low :: u16
  ie_selector :: u16
  ie_ist :: u8
  ie_type_attr :: u8
  ie_offset_mid :: u16
  ie_offset_high :: u32
  ie_reserved :: u32

definition IdtEntry_MISSING :: IdtEntry where
  "IdtEntry_MISSING = \<lparr>ie_offset_low = 0, ie_selector = 0, ie_ist = 0, ie_type_attr = 0,
     ie_offset_mid = 0, ie_offset_high = 0, ie_reserved = 0\<rparr>"

definition idt_from_addr :: "u64 \<Rightarrow> u16 \<Rightarrow> IdtEntry" where
  "idt_from_addr addr selector = \<lparr>ie_offset_low = ucast addr, ie_selector = selector, ie_ist = 0,
     ie_type_attr = INTERRUPT_GATE, ie_offset_mid = ucast (drop_bit 16 addr),
     ie_offset_high = ucast (drop_bit 32 addr), ie_reserved = 0\<rparr>"

definition with_ist :: "IdtEntry \<Rightarrow> u8 \<Rightarrow> IdtEntry" where
  "with_ist self ist = self\<lparr>ie_ist := ist AND 0x07\<rparr>"

definition with_dpl :: "IdtEntry \<Rightarrow> u8 \<Rightarrow> IdtEntry" where
  "with_dpl self dpl = self\<lparr>ie_type_attr := (ie_type_attr self AND NOT 0x60) OR push_bit 5 (dpl AND 0x03)\<rparr>"

record TaskStateSegment =
  ts_reserved0 :: u32
  ts_privilege_stacks :: "u64 list"
  ts_reserved1 :: u64
  ts_interrupt_stacks :: "u64 list"
  ts_reserved2 :: u64
  ts_reserved3 :: u16
  ts_io_map_base :: u16

definition TaskStateSegment_EMPTY :: TaskStateSegment where
  "TaskStateSegment_EMPTY = \<lparr>ts_reserved0 = 0, ts_privilege_stacks = replicate 3 0, ts_reserved1 = 0,
     ts_interrupt_stacks = replicate 7 0, ts_reserved2 = 0, ts_reserved3 = 0, ts_io_map_base = 0\<rparr>"

text \<open>The packed size: 4 + 3 * 8 + 8 + 7 * 8 + 8 + 2 + 2 bytes.\<close>

definition SIZE_OF_TSS :: nat where
  [simp]: "SIZE_OF_TSS = 104"

record TrapFrame =
  tf_r15 :: u64
  tf_r14 :: u64
  tf_r13 :: u64
  tf_r12 :: u64
  tf_r11 :: u64
  tf_r10 :: u64
  tf_r9 :: u64
  tf_r8 :: u64
  tf_rbp :: u64
  tf_rdi :: u64
  tf_rsi :: u64
  tf_rdx :: u64
  tf_rcx :: u64
  tf_rbx :: u64
  tf_rax :: u64
  tf_vector :: u64
  tf_error_code :: u64
  tf_rip :: u64
  tf_cs :: u64
  tf_rflags :: u64

text \<open>
  A frame on the kernel stack. Behind the fields of \<^verbatim>\<open>TrapFrame\<close> lie the two words that the processor
  pushes when it comes from user mode; the code reaches them by pointer arithmetic.
\<close>

record HwFrame =
  hw_frame :: TrapFrame
  hw_user_rsp :: u64
  hw_user_ss :: u64

definition from_user :: "TrapFrame \<Rightarrow> bool" where
  "from_user frame \<longleftrightarrow> tf_cs frame AND 3 = 3"

definition user_stack :: "HwFrame \<Rightarrow> (u64 \<times> u64) option" where
  "user_stack frame = (if tf_cs (hw_frame frame) AND 3 \<noteq> 3 then None else Some (hw_user_rsp frame, hw_user_ss frame))"

definition set_user_stack :: "HwFrame \<Rightarrow> u64 \<Rightarrow> u64 \<Rightarrow> bool \<times> HwFrame" where
  "set_user_stack frame user_rsp user_ss =
    (if tf_cs (hw_frame frame) AND 3 \<noteq> 3 then (False, frame)
     else (True, frame\<lparr>hw_user_rsp := user_rsp, hw_user_ss := user_ss\<rparr>))"

section \<open>State\<close>

text \<open>The two functions that the kernel registers as trap handler.\<close>

datatype UserTrapHandler = process_handle_user_trap | scheduler_handle_user_trap

record InterruptState =
  is_idt :: "IdtEntry list"
  is_gdt :: "u64 list"
  is_tss :: TaskStateSegment
  is_gdt_loaded :: bool
  is_idt_loaded :: bool
  is_hardware_enabled :: bool
  is_ticks :: u64
  is_timer_seen :: bool
  is_breakpoint_hits :: u64
  is_handler :: "UserTrapHandler option"
  is_port_writes :: "(u16 \<times> u8) list"

definition interrupt_statics :: InterruptState where
  "interrupt_statics = \<lparr>is_idt = replicate IDT_ENTRIES IdtEntry_MISSING, is_gdt = replicate 7 0, is_tss = TaskStateSegment_EMPTY,
     is_gdt_loaded = False, is_idt_loaded = False, is_hardware_enabled = False, is_ticks = 0, is_timer_seen = False,
     is_breakpoint_hits = 0, is_handler = None, is_port_writes = []\<rparr>"

record InterruptStatus =
  st_gdt_loaded :: bool
  st_task_register :: u16
  st_idt_loaded :: bool
  st_hardware_enabled :: bool
  st_ticks :: u64
  st_timer_hz :: nat
  st_breakpoint_hits :: u64

definition outb :: "u16 \<Rightarrow> u8 \<Rightarrow> InterruptState \<Rightarrow> InterruptState" where
  "outb port v irq = irq\<lparr>is_port_writes := is_port_writes irq @ [(port, v)]\<rparr>"

definition io_wait :: "InterruptState \<Rightarrow> InterruptState" where
  "io_wait irq = outb 0x80 0 irq"

text \<open>The masks are read before the sequence starts; a read of a mask register has no effect.\<close>

definition remap_pic :: "u8 \<Rightarrow> u8 \<Rightarrow> InterruptState \<Rightarrow> InterruptState" where
  "remap_pic master_mask slave_mask irq =
    (let irq = io_wait (outb PIC1_CMD 0x11 irq);
         irq = io_wait (outb PIC2_CMD 0x11 irq);
         irq = io_wait (outb PIC1_DATA TIMER_VECTOR irq);
         irq = io_wait (outb PIC2_DATA 40 irq);
         irq = io_wait (outb PIC1_DATA 0x04 irq);
         irq = io_wait (outb PIC2_DATA 0x02 irq);
         irq = io_wait (outb PIC1_DATA 0x01 irq);
         irq = io_wait (outb PIC2_DATA 0x01 irq);
         irq = outb PIC1_DATA master_mask irq
     in outb PIC2_DATA slave_mask irq)"

definition mask_pic :: "u8 \<Rightarrow> u8 \<Rightarrow> InterruptState \<Rightarrow> InterruptState" where
  "mask_pic master_mask slave_mask irq = outb PIC2_DATA slave_mask (outb PIC1_DATA master_mask irq)"

definition send_eoi :: "u8 \<Rightarrow> InterruptState \<Rightarrow> InterruptState" where
  "send_eoi vector irq = outb PIC1_CMD PIC_EOI (if 40 \<le> vector then outb PIC2_CMD PIC_EOI irq else irq)"

definition program_pit :: "nat \<Rightarrow> InterruptState \<Rightarrow> InterruptState" where
  "program_pit hz irq =
    (let divisor = word_of_nat (PIT_BASE_HZ div max hz 1) :: u16
     in outb PIT_CH0 (ucast (drop_bit 8 divisor)) (outb PIT_CH0 (ucast (divisor AND 0x00FF)) (outb PIT_CMD 0x36 irq)))"

definition tss_descriptor :: "u64 \<Rightarrow> u64 \<times> u64" where
  "tss_descriptor base =
    (let limit = word_of_nat (SIZE_OF_TSS - 1) :: u64;
         low = (limit AND 0xffff) OR push_bit 16 (base AND 0x00ffffff) OR push_bit 40 0x89
           OR push_bit 48 (drop_bit 16 limit AND 0x0f) OR push_bit 56 (drop_bit 24 base AND 0xff)
     in (low, drop_bit 32 base))"

text \<open>\<open>tss\<close> and \<open>stack_base\<close> are the addresses of the statics.\<close>

definition init_gdt_tss :: "u64 \<Rightarrow> u64 \<Rightarrow> InterruptState \<Rightarrow> InterruptState" where
  "init_gdt_tss tss stack_base irq =
    (if is_gdt_loaded irq then irq
     else
       let stack_top = (stack_base + word_of_nat DOUBLE_FAULT_STACK_BYTES) AND NOT 0x0f;
           segment = (is_tss irq)\<lparr>ts_interrupt_stacks := (ts_interrupt_stacks (is_tss irq))[0 := stack_top],
             ts_io_map_base := word_of_nat SIZE_OF_TSS\<rparr>;
           (tss_low, tss_high) = tss_descriptor tss
       in irq\<lparr>is_tss := segment, is_gdt := [0, 0x00af9a000000ffff, 0x00cf92000000ffff, tss_low, tss_high,
            0x00cff2000000ffff, 0x00affa000000ffff], is_gdt_loaded := True\<rparr>)"

text \<open>
  \<open>stub v\<close> is the address of \<^verbatim>\<open>interrupt_exception_v\<close>, of the timer stub and of the system call stub;
  \<open>default_stub\<close> that of the remaining vectors. After \<open>init_gdt_tss\<close> the code segment is the kernel's.
\<close>

definition idt_entry :: "(nat \<Rightarrow> u64) \<Rightarrow> u64 \<Rightarrow> u16 \<Rightarrow> nat \<Rightarrow> IdtEntry" where
  "idt_entry stub default_stub selector v =
    (if v = 8 then with_ist (idt_from_addr (stub 8) selector) DOUBLE_FAULT_IST
     else if v < 32 \<or> v = unat TIMER_VECTOR then idt_from_addr (stub v) selector
     else if v = unat USER_SYSCALL_VECTOR then with_dpl (idt_from_addr (stub v) selector) 3
     else idt_from_addr default_stub selector)"

definition init_idt :: "(nat \<Rightarrow> u64) \<Rightarrow> u64 \<Rightarrow> u64 \<Rightarrow> u64 \<Rightarrow> u16 \<Rightarrow> InterruptState \<Rightarrow> bool \<times> InterruptState" where
  "init_idt stub default_stub tss stack_base selector irq =
    (if is_idt_loaded irq then (False, irq)
     else
       let irq = init_gdt_tss tss stack_base (irq\<lparr>is_idt_loaded := True\<rparr>)
       in (True, irq\<lparr>is_idt := map (idt_entry stub default_stub selector) [0..<IDT_ENTRIES]\<rparr>))"

definition activate_hardware :: "u8 \<Rightarrow> u8 \<Rightarrow> InterruptState \<Rightarrow> bool \<times> InterruptState" where
  "activate_hardware master_mask slave_mask irq =
    (if \<not> is_idt_loaded irq \<or> is_hardware_enabled irq
     then (False, if is_idt_loaded irq then irq\<lparr>is_hardware_enabled := True\<rparr> else irq)
     else (True, program_pit TIMER_HZ (mask_pic 0xFE 0xFF (remap_pic master_mask slave_mask (irq\<lparr>is_hardware_enabled := True\<rparr>)))))"

definition register_user_trap_handler :: "UserTrapHandler \<Rightarrow> InterruptState \<Rightarrow> InterruptState" where
  "register_user_trap_handler handler irq = irq\<lparr>is_handler := Some handler\<rparr>"

definition set_privilege_stack :: "u64 \<Rightarrow> InterruptState \<Rightarrow> bool \<times> InterruptState" where
  "set_privilege_stack stack_top irq =
    (if \<not> is_gdt_loaded irq \<or> stack_top = 0 then (False, irq)
     else (True, irq\<lparr>is_tss := (is_tss irq)\<lparr>ts_privilege_stacks := (ts_privilege_stacks (is_tss irq))[0 := stack_top]\<rparr>\<rparr>))"

definition interrupt_status :: "u16 \<Rightarrow> InterruptState \<Rightarrow> InterruptStatus" where
  "interrupt_status task_register irq = \<lparr>st_gdt_loaded = is_gdt_loaded irq, st_task_register = task_register,
     st_idt_loaded = is_idt_loaded irq, st_hardware_enabled = is_hardware_enabled irq, st_ticks = is_ticks irq,
     st_timer_hz = TIMER_HZ, st_breakpoint_hits = is_breakpoint_hits irq\<rparr>"

definition record_timer_tick :: "InterruptState \<Rightarrow> InterruptState" where
  "record_timer_tick irq = send_eoi TIMER_VECTOR (irq\<lparr>is_ticks := is_ticks irq + 1, is_timer_seen := True\<rparr>)"

definition exception_has_error_code :: "u8 \<Rightarrow> bool" where
  "exception_has_error_code vector \<longleftrightarrow> vector \<in> {8, 10, 11, 12, 13, 14, 17, 21, 29, 30}"

definition exception_name :: "u8 \<Rightarrow> string" where
  "exception_name vector =
    (if vector = 0 then ''divide error''
     else if vector = 1 then ''debug exception''
     else if vector = 2 then ''non-maskable interrupt''
     else if vector = 3 then ''breakpoint''
     else if vector = 4 then ''overflow''
     else if vector = 5 then ''bound range exceeded''
     else if vector = 6 then ''invalid opcode''
     else if vector = 7 then ''device not available''
     else if vector = 8 then ''double fault''
     else if vector = 9 then ''coprocessor segment overrun''
     else if vector = 10 then ''invalid tss''
     else if vector = 11 then ''segment not present''
     else if vector = 12 then ''stack-segment fault''
     else if vector = 13 then ''general protection fault''
     else if vector = 14 then ''page fault''
     else if vector = 16 then ''x87 floating-point exception''
     else if vector = 17 then ''alignment check''
     else if vector = 18 then ''machine check''
     else if vector = 19 then ''simd floating-point exception''
     else if vector = 20 then ''virtualization exception''
     else if vector = 21 then ''control protection exception''
     else if vector = 28 then ''hypervisor injection exception''
     else if vector = 29 then ''vmm communication exception''
     else if vector = 30 then ''security exception''
     else ''reserved exception'')"

section \<open>What the processor reads from the tables\<close>

text \<open>
  The target, privilege level and stack of a gate, and the base and limit of a task segment descriptor,
  as the processor decodes them.
\<close>

definition gate_address :: "IdtEntry \<Rightarrow> u64" where
  "gate_address e = ucast (ie_offset_low e) OR push_bit 16 (ucast (ie_offset_mid e)) OR push_bit 32 (ucast (ie_offset_high e))"

definition gate_dpl :: "IdtEntry \<Rightarrow> u8" where
  "gate_dpl e = drop_bit 5 (ie_type_attr e) AND 3"

definition gate_type :: "IdtEntry \<Rightarrow> u8" where
  "gate_type e = ie_type_attr e AND NOT 0x60"

definition descriptor_base :: "u64 \<times> u64 \<Rightarrow> u64" where
  "descriptor_base d = (drop_bit 16 (fst d) AND 0x00ffffff) OR push_bit 24 (drop_bit 56 (fst d) AND 0xff) OR push_bit 32 (snd d)"

definition descriptor_limit :: "u64 \<times> u64 \<Rightarrow> u64" where
  "descriptor_limit d = (fst d AND 0xffff) OR push_bit 16 (drop_bit 48 (fst d) AND 0x0f)"

lemma word_parts: "(ucast (ucast a :: u16) :: u64) OR push_bit 16 (ucast (ucast (drop_bit 16 a) :: u16)) OR
    push_bit 32 (ucast (ucast (drop_bit 32 a) :: u32)) = a" for a :: u64
proof (rule bit_word_eqI)
  fix n :: nat assume n: "n < LENGTH(64)"
  consider "n < 16" | "16 \<le> n" "n < 32" | "32 \<le> n" by linarith
  then show "bit ((ucast (ucast a :: u16) :: u64) OR push_bit 16 (ucast (ucast (drop_bit 16 a) :: u16)) OR
      push_bit 32 (ucast (ucast (drop_bit 32 a) :: u32))) n \<longleftrightarrow> bit a n"
    using n by cases (auto simp: bit_simps)
qed

lemma and_low_mask: "x AND 0x00ffffff = take_bit 24 x" "x AND 0xffff = take_bit 16 x" "x AND 0xff = take_bit 8 x" for x :: u64
  by (simp_all add: take_bit_eq_mask mask_eq_exp_minus_1)

lemma small_word_bit: "bit (w :: 'a :: len word) n \<Longrightarrow> drop_bit k w = 0 \<Longrightarrow> n < k"
proof (rule ccontr)
  assume b: "bit w n" "drop_bit k w = 0" "\<not> n < k"
  have "bit (drop_bit k w) (n - k)" using b(1,3) by (simp add: bit_drop_bit_eq not_less)
  then show False using b(2) by simp
qed

lemma descriptor_shape:
  assumes "\<And>m. bit l m \<Longrightarrow> m < 8" and "\<And>m. bit t m \<Longrightarrow> m < 8"
  shows "descriptor_base (l OR push_bit 16 (take_bit 24 base) OR push_bit 40 t OR push_bit 56 (take_bit 8 (drop_bit 24 base)),
    drop_bit 32 base) = base"
  unfolding descriptor_base_def fst_conv snd_conv and_low_mask
proof (rule bit_word_eqI)
  fix n :: nat assume n: "n < LENGTH(64)"
  consider "n < 24" | "24 \<le> n" "n < 32" | "32 \<le> n" by linarith
  then show "bit (take_bit 24 (drop_bit 16 (l OR push_bit 16 (take_bit 24 base) OR push_bit 40 t OR
      push_bit 56 (take_bit 8 (drop_bit 24 base)))) OR
    push_bit 24 (take_bit 8 (drop_bit 56 (l OR push_bit 16 (take_bit 24 base) OR push_bit 40 t OR
      push_bit 56 (take_bit 8 (drop_bit 24 base))))) OR push_bit 32 (drop_bit 32 base)) n \<longleftrightarrow> bit base n"
    using n by cases (auto simp: bit_simps dest: assms)
qed

lemma tss_descriptor_base: "descriptor_base (tss_descriptor base) = base"
proof -
  have "bit (103 :: u64) m \<Longrightarrow> m < 8" "bit (0x89 :: u64) m \<Longrightarrow> m < 8" for m by (rule small_word_bit, assumption, simp)+
  from descriptor_shape [of 103 "0x89", OF this] show ?thesis
    by (simp add: tss_descriptor_def Let_def and_low_mask)
qed

lemma idt_from_addr_gate [simp]: "gate_address (idt_from_addr addr selector) = addr" "gate_dpl (idt_from_addr addr selector) = 0"
  "gate_type (idt_from_addr addr selector) = 0x8E"
  using word_parts [of addr] by (simp_all add: gate_address_def gate_dpl_def gate_type_def idt_from_addr_def)

lemma with_ist_gate [simp]: "gate_address (with_ist e i) = gate_address e" "gate_dpl (with_ist e i) = gate_dpl e"
  "gate_type (with_ist e i) = gate_type e"
  by (simp_all add: gate_address_def gate_dpl_def gate_type_def with_ist_def)

lemma with_dpl_gate: "gate_address (with_dpl e i) = gate_address e" "ie_ist (with_dpl e i) = ie_ist e"
  by (simp_all add: gate_address_def with_dpl_def)



end
