(* ===== verification/Process.thy ===== *)
theory Process
  imports Interrupts UserSpaceProps FsFormat
begin

text \<open>
  \<^verbatim>\<open>kernel/src/process.rs\<close>: the system call numbers, the state of the isolation probe and its trap handler.
  The machine is the memory with the page allocator and the root register, and the interrupt state.
\<close>

record Machine =
  m_vm :: VmWorld
  m_irq :: InterruptState

definition PROCESS_ID :: nat where
  [simp]: "PROCESS_ID = 1"

definition SYSCALL_ABI_VERSION :: nat where
  [simp]: "SYSCALL_ABI_VERSION = 2"

definition SYS_LOG :: u64 where
  [simp]: "SYS_LOG = 1"

definition SYS_EXIT :: u64 where
  [simp]: "SYS_EXIT = 2"

definition SYS_YIELD :: u64 where
  [simp]: "SYS_YIELD = 3"

definition SYS_GETPID :: u64 where
  [simp]: "SYS_GETPID = 4"

definition SYS_GETTICKS :: u64 where
  [simp]: "SYS_GETTICKS = 5"

definition SYS_SLEEP :: u64 where
  [simp]: "SYS_SLEEP = 6"

definition ERR_INVALID_ARGUMENT :: u64 where
  "ERR_INVALID_ARGUMENT = - 22"

definition ERR_NOT_IMPLEMENTED :: u64 where
  "ERR_NOT_IMPLEMENTED = - 38"

definition KERNEL_WRITE_PROBE_ADDRESS :: u64 where
  [simp]: "KERNEL_WRITE_PROBE_ADDRESS = 0x200000"

definition MAX_USER_LOG_BYTES :: nat where
  [simp]: "MAX_USER_LOG_BYTES = 256"

record IsolationReport =
  ir_syscall_abi_version :: nat
  ir_process_id :: nat
  ir_kernel_root :: nat
  ir_user_root :: nat
  ir_entry :: nat
  ir_stack_top :: nat
  ir_syscall_count :: nat
  ir_denied_address :: u64
  ir_page_fault_error :: u64
  ir_kernel_mapping_supervisor_only :: bool
  ir_code_read_execute :: bool
  ir_stack_read_write_no_execute :: bool

datatype ProcessError =
    Process_VirtualMemory VmError
  | KernelMappingExposed
  | InvalidCodePermissions
  | InvalidStackPermissions
  | Process_ProgramImageInvalid
  | ProbeReturnedWithoutFault
  | UnexpectedExit u64
  | UnexpectedFault u8 u64 u64
  | KernelRootRestoreFailed

datatype ProcessOutcome =
    NotStarted
  | Running
  | IsolationEnforced u64 u64
  | Outcome_Exited u64
  | Fault u8 u64 u64
  | RootRestoreFailed

text \<open>\<open>ps_log\<close> collects the messages that the log system call prints on the serial line.\<close>

record ProcessState =
  ps_active :: bool
  ps_kernel_root :: nat
  ps_code_start :: nat
  ps_code_end :: nat
  ps_syscall_count :: nat
  ps_outcome :: ProcessOutcome
  ps_log :: "bytes list"

definition ProcessState_new :: ProcessState where
  "ProcessState_new = \<lparr>ps_active = False, ps_kernel_root = 0, ps_code_start = 0, ps_code_end = 0,
     ps_syscall_count = 0, ps_outcome = NotStarted, ps_log = []\<rparr>"

definition user_buffer_within :: "nat \<Rightarrow> nat \<Rightarrow> nat \<Rightarrow> nat \<Rightarrow> nat \<Rightarrow> bool" where
  "user_buffer_within region_start region_end address len maximum_length \<longleftrightarrow>
    len \<le> maximum_length \<and> region_start \<le> address \<and>
    (case checked_add address len of Some end \<Rightarrow> end \<le> region_end | None \<Rightarrow> False)"

section \<open>Reading memory through the active root\<close>

text \<open>In kernel mode the walk ignores the user bit. A byte that is not mapped is a fatal page fault.\<close>

fun kernel_walk :: "phys_mem \<Rightarrow> nat \<Rightarrow> nat list \<Rightarrow> nat option" where
  "kernel_walk m t [] = Some t"
| "kernel_walk m t (i # is) = (let e = table_entry m t i in if bit e 0 then kernel_walk m (entry_address e) is else None)"

definition read_virtual :: "VmWorld \<Rightarrow> nat \<Rightarrow> u8 option" where
  "read_virtual w v = map_option (\<lambda>p. vw_mem w (p + v mod 4096))
    (kernel_walk (vw_mem w) (vw_cr3 w) [v div 2 ^ 39 mod 512, v div 2 ^ 30 mod 512, v div 2 ^ 21 mod 512, v div 2 ^ 12 mod 512])"

fun collect :: "'a option list \<Rightarrow> 'a list option" where
  "collect [] = Some []"
| "collect (x # xs) = (case x of None \<Rightarrow> None | Some y \<Rightarrow> map_option ((#) y) (collect xs))"

definition read_bytes :: "VmWorld \<Rightarrow> nat \<Rightarrow> nat \<Rightarrow> bytes option" where
  "read_bytes w address len = collect (map (read_virtual w) [address..<address + len])"

section \<open>The trap handler of the probe\<close>

definition resume_kernel :: "u64 \<Rightarrow> HwFrame \<Rightarrow> HwFrame" where
  "resume_kernel resume frame = frame\<lparr>hw_frame := (hw_frame frame)\<lparr>tf_rip := resume, tf_cs := ucast KERNEL_CODE_SELECTOR,
     tf_rflags := (tf_rflags (hw_frame frame) OR 0x02) AND NOT 0x400\<rparr>\<rparr>"

definition terminate_user_process ::
    "u64 \<Rightarrow> ProcessState \<Rightarrow> HwFrame \<Rightarrow> Machine \<Rightarrow> ProcessState \<times> HwFrame \<times> Machine" where
  "terminate_user_process resume state frame m =
    (let (r, vm) = switch_root (ps_kernel_root state) (m_vm m);
         state = (case r of Err _ \<Rightarrow> state\<lparr>ps_outcome := RootRestoreFailed\<rparr> | Ok _ \<Rightarrow> state)
     in (state\<lparr>ps_active := False\<rparr>, resume_kernel resume frame, m\<lparr>m_vm := vm\<rparr>))"

definition set_rax :: "HwFrame \<Rightarrow> u64 \<Rightarrow> HwFrame" where
  "set_rax frame v = frame\<lparr>hw_frame := (hw_frame frame)\<lparr>tf_rax := v\<rparr>\<rparr>"

text \<open>The result is \<open>None\<close> when the kernel itself faults.\<close>

definition handle_syscall ::
    "u64 \<Rightarrow> ProcessState \<Rightarrow> HwFrame \<Rightarrow> Machine \<Rightarrow> (bool \<times> ProcessState \<times> HwFrame \<times> Machine) option" where
  "handle_syscall resume state frame m =
    (let state = state\<lparr>ps_syscall_count := saturating_add (ps_syscall_count state) 1\<rparr>;
         number = tf_rax (hw_frame frame)
     in if number = SYS_LOG then
          (let address = unat (tf_rdi (hw_frame frame));
               len = unat (tf_rsi (hw_frame frame))
           in if \<not> user_buffer_within (ps_code_start state) (ps_code_end state) address len MAX_USER_LOG_BYTES
              then Some (True, state, set_rax frame ERR_INVALID_ARGUMENT, m)
              else
                (case read_bytes (m_vm m) address len of
                   None \<Rightarrow> None
                 | Some bytes \<Rightarrow>
                     if valid_utf8 bytes
                     then Some (True, state\<lparr>ps_log := ps_log state @ [bytes]\<rparr>, set_rax frame (word_of_nat len), m)
                     else Some (True, state, set_rax frame ERR_INVALID_ARGUMENT, m)))
        else if number = SYS_EXIT then
          Some (True, terminate_user_process resume (state\<lparr>ps_outcome := Outcome_Exited (tf_rdi (hw_frame frame))\<rparr>) frame m)
        else Some (True, state, set_rax frame ERR_NOT_IMPLEMENTED, m))"

definition process_handle_trap ::
    "u64 \<Rightarrow> ProcessState \<Rightarrow> HwFrame \<Rightarrow> u64 \<Rightarrow> Machine \<Rightarrow> (bool \<times> ProcessState \<times> HwFrame \<times> Machine) option" where
  "process_handle_trap resume state frame fault_address m =
    (if \<not> ps_active state then Some (False, state, frame, m)
     else
       let vector = ucast (tf_vector (hw_frame frame)) :: u8;
           error_code = tf_error_code (hw_frame frame)
       in if vector = 0x80 then handle_syscall resume state frame m
          else if vector = 14 then
            (let expected_error_bits = (error_code AND 0x07 = 0x07);
                 outcome = (if fault_address = KERNEL_WRITE_PROBE_ADDRESS \<and> expected_error_bits
                   then IsolationEnforced fault_address error_code else Fault 14 fault_address error_code)
             in Some (True, terminate_user_process resume (state\<lparr>ps_outcome := outcome\<rparr>) frame m))
          else if vector \<le> 31 then
            Some (True, terminate_user_process resume (state\<lparr>ps_outcome := Fault vector fault_address error_code\<rparr>) frame m)
          else Some (False, state, frame, m))"

end
