(* ===== verification/Scheduler.thy ===== *)
theory Scheduler
  imports Process UserElf
begin

text \<open>
  \<^verbatim>\<open>kernel/src/scheduler.rs\<close>, part one: processes with their saved contexts, the round-robin scheduler and
  its trap handler. A panic of the code (an index out of range, a process without address space) and an
  endless idle loop are the result \<open>None\<close>.
\<close>

section \<open>Processes\<close>

definition KERNEL_STACK_BYTES :: nat where
  [simp]: "KERNEL_STACK_BYTES = 64 * 1024"

definition FIRST_PID :: u64 where
  [simp]: "FIRST_PID = 1001"

definition PERSISTENT_PID :: u64 where
  [simp]: "PERSISTENT_PID = 2001"

definition ISOLATION_FAULT_ADDRESS :: u64 where
  [simp]: "ISOLATION_FAULT_ADDRESS = 0x200000"

datatype SchedulerError =
    VirtualMemory VmError
  | Filesystem FsError
  | UserExecutable UserElfError
  | ProgramImageInvalid
  | PersistentProgramMissing
  | PersistentProgramHashMismatch
  | PersistentProgramPermissions
  | TimerInactive
  | PrivilegeStackUnavailable
  | RuntimeRootSwitch
  | ProcessDidNotExit u64
  | FaultIsolationFailed
  | PreemptionNotObserved
  | IdleNotObserved
  | FairnessViolation u64
  | PhysicalPageLeak nat nat

text \<open>The \<^verbatim>\<open>enum ProcessState\<close> of the scheduler; wake ticks are the values of the tick counter.\<close>

datatype TaskState =
    Runnable
  | Sleeping nat
  | Exited u64
  | Faulted u8 u64 u64

record UserContext =
  uc_frame :: TrapFrame
  uc_stack_pointer :: u64
  uc_stack_selector :: u64

definition context_initial :: "nat \<Rightarrow> nat \<Rightarrow> UserContext" where
  "context_initial entry stack_pointer = \<lparr>uc_frame = \<lparr>tf_r15 = 0, tf_r14 = 0, tf_r13 = 0, tf_r12 = 0, tf_r11 = 0,
       tf_r10 = 0, tf_r9 = 0, tf_r8 = 0, tf_rbp = 0, tf_rdi = 0, tf_rsi = 0, tf_rdx = 0, tf_rcx = 0, tf_rbx = 0,
       tf_rax = 0, tf_vector = 0, tf_error_code = 0, tf_rip = word_of_nat entry,
       tf_cs = ucast USER_CODE_SELECTOR, tf_rflags = 0x202\<rparr>,
     uc_stack_pointer = word_of_nat stack_pointer, uc_stack_selector = ucast USER_DATA_SELECTOR\<rparr>"

definition context_capture :: "HwFrame \<Rightarrow> UserContext option" where
  "context_capture frame =
    map_option (\<lambda>(stack_pointer, stack_selector).
      \<lparr>uc_frame = hw_frame frame, uc_stack_pointer = stack_pointer, uc_stack_selector = stack_selector\<rparr>)
    (user_stack frame)"

definition context_restore :: "UserContext \<Rightarrow> HwFrame \<Rightarrow> bool \<times> HwFrame" where
  "context_restore self frame = set_user_stack (frame\<lparr>hw_frame := uc_frame self\<rparr>) (uc_stack_pointer self) (uc_stack_selector self)"

text \<open>\<open>pr_kernel_stack\<close> is the address of the boxed kernel stack, which the heap chooses.\<close>

record Process =
  pr_pid :: u64
  pr_space :: "UserAddressSpace option"
  pr_kernel_stack :: u64
  pr_context :: UserContext
  pr_state :: TaskState
  pr_dispatches :: nat
  pr_syscalls :: nat

definition process_from_space :: "u64 \<Rightarrow> u64 \<Rightarrow> UserAddressSpace \<Rightarrow> VmWorld \<Rightarrow> (SchedulerError + Process) \<times> VmWorld" where
  "process_from_space kernel_stack pid space w =
    (if \<not> ua_kernel_mapping_supervisor_only space \<or> \<not> ua_code_user_read_execute space \<or> \<not> ua_stack_user_read_write space
     then st_bind (map_err VirtualMemory (destroy_user_address_space space w)) (\<lambda>_ w. (Err ProgramImageInvalid, w))
     else (Ok \<lparr>pr_pid = pid, pr_space = Some space, pr_kernel_stack = kernel_stack,
       pr_context = context_initial (ua_entry space) (ua_stack_top space), pr_state = Runnable,
       pr_dispatches = 0, pr_syscalls = 0\<rparr>, w))"

definition process_new :: "u64 \<Rightarrow> u64 \<Rightarrow> bytes \<Rightarrow> VmWorld \<Rightarrow> (SchedulerError + Process) \<times> VmWorld" where
  "process_new kernel_stack pid code w =
    st_bind (map_err VirtualMemory (create_user_address_space code w)) (\<lambda>space w. process_from_space kernel_stack pid space w)"

definition user_segment :: "UserElfSegment \<Rightarrow> UserSegment" where
  "user_segment segment = \<lparr>us_virtual_address = es_virtual_address segment, us_data = es_data segment,
     us_memory_size = es_memory_size segment, us_writable = es_writable segment, us_executable = es_executable segment\<rparr>"

definition process_from_elf :: "u64 \<Rightarrow> u64 \<Rightarrow> bytes \<Rightarrow> VmWorld \<Rightarrow> (SchedulerError + Process) \<times> VmWorld" where
  "process_from_elf kernel_stack pid code w =
    st_bind (map_err UserExecutable (elf_parse code, w)) (\<lambda>executable w.
    st_bind (map_err VirtualMemory
        (create_user_address_space_from_segments (ei_entry executable) (map user_segment (ei_segments executable)) w)) (\<lambda>space w.
      process_from_space kernel_stack pid space w))"

definition process_root :: "Process \<Rightarrow> nat option" where
  "process_root self = map_option ua_root_phys (pr_space self)"

definition kernel_stack_top :: "Process \<Rightarrow> u64" where
  "kernel_stack_top self = (pr_kernel_stack self + word_of_nat KERNEL_STACK_BYTES) AND NOT 0x0f"

section \<open>The scheduler\<close>

datatype RuntimeFailure = MissingUserStack | RootSwitch | PrivilegeStack

record SchedulerState =
  ss_active :: bool
  ss_kernel_root :: nat
  ss_current :: "nat option"
  ss_processes :: "Process list"
  ss_timer_preemptions :: nat
  ss_context_switches :: nat
  ss_failure :: "RuntimeFailure option"
  ss_idle_halts :: nat

definition SchedulerState_new :: SchedulerState where
  "SchedulerState_new = \<lparr>ss_active = False, ss_kernel_root = 0, ss_current = None, ss_processes = [],
     ss_timer_preemptions = 0, ss_context_switches = 0, ss_failure = None, ss_idle_halts = 0\<rparr>"

definition wake :: "nat \<Rightarrow> Process \<Rightarrow> Process" where
  "wake ticks process =
    (case pr_state process of Sleeping wake_tick \<Rightarrow> if wake_tick \<le> ticks then process\<lparr>pr_state := Runnable\<rparr> else process
     | _ \<Rightarrow> process)"

definition wake_sleepers :: "InterruptState \<Rightarrow> SchedulerState \<Rightarrow> SchedulerState" where
  "wake_sleepers irq self = self\<lparr>ss_processes := map (wake (unat (is_ticks irq))) (ss_processes self)\<rparr>"

definition is_sleeping :: "TaskState \<Rightarrow> bool" where
  "is_sleeping state = (case state of Sleeping _ \<Rightarrow> True | _ \<Rightarrow> False)"

definition has_sleepers :: "SchedulerState \<Rightarrow> bool" where
  "has_sleepers self = list_ex (\<lambda>process. is_sleeping (pr_state process)) (ss_processes self)"

definition next_runnable :: "SchedulerState \<Rightarrow> nat \<Rightarrow> nat option" where
  "next_runnable self current =
    find (\<lambda>index. pr_state (ss_processes self ! index) = Runnable)
      (map (\<lambda>offset. (current + offset) mod length (ss_processes self)) [1..<length (ss_processes self) + 1])"

text \<open>
  \<^verbatim>\<open>sti; hlt; cli\<close>: the processor sleeps until an interrupt. The only line that \<^verbatim>\<open>activate_hardware\<close> leaves
  open is the timer, whose handler in kernel mode records one tick.
\<close>

definition idle_halt :: "InterruptState \<Rightarrow> InterruptState" where
  "idle_halt irq = record_timer_tick irq"

partial_function (option) idle_loop ::
    "nat \<Rightarrow> SchedulerState \<Rightarrow> InterruptState \<Rightarrow> (nat option \<times> SchedulerState \<times> InterruptState) option" where
  "idle_loop current self irq =
    (if next_runnable self current = None \<and> has_sleepers self then
       let irq = idle_halt irq;
           self = wake_sleepers irq (self\<lparr>ss_idle_halts := saturating_add (ss_idle_halts self) 1\<rparr>)
       in idle_loop current self irq
     else Some (next_runnable self current, self, irq))"

type_synonym sched_state = "SchedulerState \<times> HwFrame \<times> Machine"

definition return_to_kernel :: "u64 \<Rightarrow> SchedulerState \<Rightarrow> HwFrame \<Rightarrow> Machine \<Rightarrow> sched_state" where
  "return_to_kernel resume self frame m =
    (let (r, vm) = switch_root (ss_kernel_root self) (m_vm m);
         self = (case r of Err _ \<Rightarrow> self\<lparr>ss_failure := Some RootSwitch\<rparr> | Ok _ \<Rightarrow> self)
     in (self\<lparr>ss_active := False, ss_current := None\<rparr>, resume_kernel resume frame, m\<lparr>m_vm := vm\<rparr>))"

definition fail_to_kernel :: "u64 \<Rightarrow> RuntimeFailure \<Rightarrow> SchedulerState \<Rightarrow> HwFrame \<Rightarrow> Machine \<Rightarrow> sched_state" where
  "fail_to_kernel resume failure self frame m = return_to_kernel resume (self\<lparr>ss_failure := Some failure\<rparr>) frame m"

text \<open>\<^verbatim>\<open>schedule\<close> in three parts: saving the context, choosing the next process, and the switch to it.\<close>

definition save_context :: "nat \<Rightarrow> SchedulerState \<Rightarrow> HwFrame \<Rightarrow> SchedulerState option" where
  "save_context current self frame =
    (case pr_state (ss_processes self ! current) of
       Exited _ \<Rightarrow> Some self
     | Faulted _ _ _ \<Rightarrow> Some self
     | _ \<Rightarrow> map_option (\<lambda>context. self\<lparr>ss_processes := (ss_processes self)
              [current := (ss_processes self ! current)\<lparr>pr_context := context\<rparr>]\<rparr>) (context_capture frame))"

definition choose_next :: "nat \<Rightarrow> SchedulerState \<Rightarrow> Machine \<Rightarrow> ((VmError + nat option) \<times> SchedulerState \<times> Machine) option" where
  "choose_next current self m =
    (let self = wake_sleepers (m_irq m) self;
         next_index = next_runnable self current
     in if next_index = None \<and> has_sleepers self then
          (case switch_root (ss_kernel_root self) (m_vm m) of
             (Err e, vm) \<Rightarrow> Some (Err e, self, m\<lparr>m_vm := vm\<rparr>)
           | (Ok _, vm) \<Rightarrow>
               map_option (\<lambda>(next_index, self, irq). (Ok next_index, self, m\<lparr>m_vm := vm, m_irq := irq\<rparr>))
                 (idle_loop current self (m_irq m)))
        else Some (Ok next_index, self, m))"

definition dispatch :: "u64 \<Rightarrow> nat \<Rightarrow> nat \<Rightarrow> bool \<Rightarrow> SchedulerState \<Rightarrow> HwFrame \<Rightarrow> Machine \<Rightarrow> sched_state option" where
  "dispatch resume current next_index timer self frame m =
    (let self = (if next_index \<noteq> current then
           self\<lparr>ss_context_switches := saturating_add (ss_context_switches self) 1,
                ss_timer_preemptions := (if timer then saturating_add (ss_timer_preemptions self) 1 else ss_timer_preemptions self)\<rparr>
         else self);
         process = ss_processes self ! next_index;
         process = process\<lparr>pr_dispatches := saturating_add (pr_dispatches process) 1\<rparr>;
         self = self\<lparr>ss_current := Some next_index, ss_processes := (ss_processes self)[next_index := process]\<rparr>
     in case process_root process of
          None \<Rightarrow> None
        | Some root \<Rightarrow>
            let stack_top = kernel_stack_top process;
                context = pr_context process
            in (case switch_root root (m_vm m) of
                  (Err _, vm) \<Rightarrow> Some (fail_to_kernel resume RootSwitch self frame (m\<lparr>m_vm := vm\<rparr>))
                | (Ok _, vm) \<Rightarrow>
                    let m = m\<lparr>m_vm := vm\<rparr>;
                        (installed, irq) = set_privilege_stack stack_top (m_irq m);
                        m = m\<lparr>m_irq := irq\<rparr>
                    in if \<not> installed then Some (fail_to_kernel resume PrivilegeStack self frame m)
                       else
                         let (restored, frame) = context_restore context frame
                         in if \<not> restored then Some (fail_to_kernel resume MissingUserStack self frame m)
                            else Some (self, frame, m)))"

definition schedule :: "u64 \<Rightarrow> bool \<Rightarrow> SchedulerState \<Rightarrow> HwFrame \<Rightarrow> Machine \<Rightarrow> sched_state option" where
  "schedule resume timer self frame m =
    (case ss_current self of
       None \<Rightarrow> Some (self, frame, m)
     | Some current \<Rightarrow>
         if length (ss_processes self) \<le> current then None
         else
           (case save_context current self frame of
              None \<Rightarrow> Some (fail_to_kernel resume MissingUserStack self frame m)
            | Some self \<Rightarrow>
                (case choose_next current self m of
                   None \<Rightarrow> None
                 | Some (Err _, self, m) \<Rightarrow> Some (fail_to_kernel resume RootSwitch self frame m)
                 | Some (Ok None, self, m) \<Rightarrow> Some (return_to_kernel resume self frame m)
                 | Some (Ok (Some next_index), self, m) \<Rightarrow> dispatch resume current next_index timer self frame m)))"

section \<open>The trap handler\<close>

definition update_process :: "nat \<Rightarrow> (Process \<Rightarrow> Process) \<Rightarrow> SchedulerState \<Rightarrow> SchedulerState" where
  "update_process current f self = self\<lparr>ss_processes := (ss_processes self)[current := f (ss_processes self ! current)]\<rparr>"

definition sched_syscall :: "u64 \<Rightarrow> nat \<Rightarrow> SchedulerState \<Rightarrow> HwFrame \<Rightarrow> Machine \<Rightarrow> sched_state option" where
  "sched_syscall resume current self frame m =
    (let self = update_process current (\<lambda>p. p\<lparr>pr_syscalls := saturating_add (pr_syscalls p) 1\<rparr>) self;
         number = tf_rax (hw_frame frame);
         argument = tf_rdi (hw_frame frame);
         ticks = is_ticks (m_irq m)
     in if number = SYS_EXIT then
          schedule resume False (update_process current (\<lambda>p. p\<lparr>pr_state := Exited argument\<rparr>) self) frame m
        else if number = SYS_YIELD then schedule resume False self (set_rax frame 0) m
        else if number = SYS_GETPID then Some (self, set_rax frame (pr_pid (ss_processes self ! current)), m)
        else if number = SYS_GETTICKS then Some (self, set_rax frame ticks, m)
        else if number = SYS_SLEEP then
          (let wake_tick = saturating_add (unat ticks) (unat argument)
           in schedule resume False (update_process current (\<lambda>p. p\<lparr>pr_state := Sleeping wake_tick\<rparr>) self) (set_rax frame 0) m)
        else Some (self, set_rax frame ERR_NOT_IMPLEMENTED, m))"

definition sched_handle_trap ::
    "u64 \<Rightarrow> SchedulerState \<Rightarrow> HwFrame \<Rightarrow> u64 \<Rightarrow> Machine \<Rightarrow> (bool \<times> sched_state) option" where
  "sched_handle_trap resume self frame fault_address m =
    (if \<not> ss_active self then Some (False, self, frame, m)
     else
       (case ss_current self of
          None \<Rightarrow> Some (False, self, frame, m)
        | Some current \<Rightarrow>
            let vector = ucast (tf_vector (hw_frame frame)) :: u8
            in if vector = TIMER_VECTOR then map_option (Pair True) (schedule resume True self frame m)
               else if length (ss_processes self) \<le> current then None
               else if vector = USER_SYSCALL_VECTOR then map_option (Pair True) (sched_syscall resume current self frame m)
               else if vector \<le> 31 then
                 map_option (Pair True) (schedule resume False
                   (update_process current (\<lambda>p. p\<lparr>pr_state := Faulted vector fault_address (tf_error_code (hw_frame frame))\<rparr>) self)
                   frame m)
               else Some (False, self, frame, m)))"

end
