(* ===== verification/SchedulerProps.thy ===== *)
theory SchedulerProps
  imports Scheduler
begin

text \<open>
  Correctness of the scheduler of \<^verbatim>\<open>kernel/src/scheduler.rs\<close>: the choice of the next process, the idle
  loop, the invariant that every trap keeps, and what a trap does to each process.
\<close>

section \<open>The choice of the next process\<close>

text \<open>The distance from one process to another in the cyclic order, from 1 to the number of processes.\<close>

definition cyclic_distance :: "nat \<Rightarrow> nat \<Rightarrow> nat \<Rightarrow> nat" where
  "cyclic_distance n c i = (if c < i then i - c else i + n - c)"

definition runnable :: "SchedulerState \<Rightarrow> nat \<Rightarrow> bool" where
  "runnable self i \<longleftrightarrow> i < length (ss_processes self) \<and> pr_state (ss_processes self ! i) = Runnable"

lemma no_runnable_iff: "(\<forall>i. \<not> runnable self i) \<longleftrightarrow> (\<forall>p\<in>set (ss_processes self). pr_state p \<noteq> Runnable)"
  unfolding runnable_def by (metis in_set_conv_nth)

lemma cyclic_step: "c < n \<Longrightarrow> 1 \<le> k \<Longrightarrow> k \<le> n \<Longrightarrow> cyclic_distance n c ((c + k) mod n) = k \<and> (c + k) mod n < n"
proof (cases "c + k < n")
  case False
  assume "c < n" "1 \<le> k" "k \<le> n"
  then have "(c + k) mod n = c + k - n" using False by (simp add: mod_if)
  then show ?thesis using False \<open>c < n\<close> \<open>k \<le> n\<close> by (auto simp: cyclic_distance_def)
qed (auto simp: cyclic_distance_def)

lemma cyclic_distance_range: "c < n \<Longrightarrow> i < n \<Longrightarrow> 1 \<le> cyclic_distance n c i \<and> cyclic_distance n c i \<le> n \<and> (c + cyclic_distance n c i) mod n = i"
  by (auto simp: cyclic_distance_def)

lemma candidates: "length (map (\<lambda>offset. (c + offset) mod n) [1..<n + 1]) = n"
  "k < n \<Longrightarrow> map (\<lambda>offset. (c + offset) mod n) [1..<n + 1] ! k = (c + (1 + k)) mod n"
  by (simp_all del: upt_Suc)

lemma next_runnable_Some:
  assumes "next_runnable self c = Some i" and "c < length (ss_processes self)"
  shows "runnable self i" and "runnable self j \<Longrightarrow> cyclic_distance (length (ss_processes self)) c i \<le> cyclic_distance (length (ss_processes self)) c j"
proof -
  let ?n = "length (ss_processes self)"
  obtain k where k: "k < ?n" "i = (c + (1 + k)) mod ?n" "pr_state (ss_processes self ! i) = Runnable"
      "\<forall>k'<k. pr_state (ss_processes self ! ((c + (1 + k')) mod ?n)) \<noteq> Runnable"
    using assms(1) unfolding next_runnable_def find_Some_iff candidates(1) by (metis candidates(2) less_trans)
  note step = cyclic_step [OF assms(2)]
  have d: "cyclic_distance ?n c i = 1 + k" "i < ?n" using step [of "1 + k"] k(1,2) by simp_all
  then show "runnable self i" using k(3) by (simp add: runnable_def)
  assume j: "runnable self j"
  then have jn: "j < ?n" by (simp add: runnable_def)
  note dj = cyclic_distance_range [OF assms(2) this]
  show "cyclic_distance ?n c i \<le> cyclic_distance ?n c j"
  proof (rule ccontr)
    assume "\<not> ?thesis"
    then have "cyclic_distance ?n c j - 1 < k" using d dj by linarith
    then have "pr_state (ss_processes self ! ((c + (1 + (cyclic_distance ?n c j - 1))) mod ?n)) \<noteq> Runnable" using k(4) by blast
    then show False using j dj by (simp add: runnable_def)
  qed
qed

lemma next_runnable_None:
  assumes "c < length (ss_processes self)"
  shows "next_runnable self c = None \<longleftrightarrow> (\<forall>i. \<not> runnable self i)"
proof
  assume none: "next_runnable self c = None"
  show "\<forall>i. \<not> runnable self i"
  proof (rule allI, rule notI)
    fix i assume i: "runnable self i"
    let ?n = "length (ss_processes self)"
    have d: "1 \<le> cyclic_distance ?n c i" "cyclic_distance ?n c i \<le> ?n" "(c + cyclic_distance ?n c i) mod ?n = i"
      using cyclic_distance_range [OF assms, of i] i by (simp_all add: runnable_def)
    have "map (\<lambda>offset. (c + offset) mod ?n) [1..<?n + 1] ! (cyclic_distance ?n c i - 1) = i"
      using d by (subst candidates(2)) auto
    then have "i \<in> set (map (\<lambda>offset. (c + offset) mod ?n) [1..<?n + 1])"
      using d candidates(1) [of c ?n] by (metis One_nat_def diff_less le_less_trans less_le_trans nth_mem zero_less_one)
    then show False using none i by (auto simp: next_runnable_def find_None_iff runnable_def)
  qed
next
  assume "\<forall>i. \<not> runnable self i"
  moreover have "(c + k) mod length (ss_processes self) < length (ss_processes self)" for k
    using assms by (intro mod_less_divisor) linarith
  ultimately show "next_runnable self c = None"
    by (auto simp: next_runnable_def find_None_iff runnable_def simp del: upt_Suc)
qed

lemma cyclic_closer:
  assumes "c < n" "i < n" "j < n" "cyclic_distance n c i \<le> cyclic_distance n c j" "i \<noteq> j"
  shows "cyclic_distance n i j < cyclic_distance n c j"
  using assms by (auto simp: cyclic_distance_def split: if_splits)

section \<open>Waking and idling\<close>

lemma wake_simps [simp]:
  "pr_context (wake t p) = pr_context p" "pr_space (wake t p) = pr_space p" "pr_pid (wake t p) = pr_pid p"
  "pr_kernel_stack (wake t p) = pr_kernel_stack p" "pr_dispatches (wake t p) = pr_dispatches p"
  "kernel_stack_top (wake t p) = kernel_stack_top p" "process_root (wake t p) = process_root p"
  by (auto simp: wake_def kernel_stack_top_def process_root_def split: TaskState.splits)

lemma wake_state: "pr_state (wake t p) = (case pr_state p of Sleeping w \<Rightarrow> if w \<le> t then Runnable else Sleeping w | s \<Rightarrow> s)"
  by (auto simp: wake_def split: TaskState.splits)

lemma wake_state_iff:
  "pr_state (wake t p) = Sleeping w \<longleftrightarrow> pr_state p = Sleeping w \<and> t < w"
  "pr_state (wake t p) = Runnable \<longleftrightarrow> pr_state p = Runnable \<or> (\<exists>w. pr_state p = Sleeping w \<and> w \<le> t)"
  "pr_state (wake t p) = Exited x \<longleftrightarrow> pr_state p = Exited x" "pr_state (wake t p) = Faulted a b e \<longleftrightarrow> pr_state p = Faulted a b e"
  by (cases "pr_state p"; auto simp: wake_state)+

lemma wake_wake: "t \<le> t' \<Longrightarrow> wake t' (wake t p) = wake t' p"
  by (auto simp: wake_def split: TaskState.splits)

definition sleeps_until :: "SchedulerState \<Rightarrow> nat \<Rightarrow> bool" where
  "sleeps_until self t \<longleftrightarrow> (\<exists>p\<in>set (ss_processes self). pr_state p = Sleeping t)"

text \<open>What idling leaves of the interrupt state.\<close>

definition irq_kept :: "InterruptState \<Rightarrow> InterruptState \<Rightarrow> bool" where
  "irq_kept irq irq' \<longleftrightarrow> is_tss irq' = is_tss irq \<and> is_gdt_loaded irq' = is_gdt_loaded irq \<and> is_handler irq' = is_handler irq
    \<and> is_idt irq' = is_idt irq \<and> is_hardware_enabled irq' = is_hardware_enabled irq"

lemma irq_kept_refl [simp]: "irq_kept irq irq"
  by (simp add: irq_kept_def)

lemma idle_halt_kept: "irq_kept irq (idle_halt irq)" "is_ticks (idle_halt irq) = is_ticks irq + 1"
  by (simp_all add: irq_kept_def idle_halt_def record_timer_tick_def send_eoi_def outb_def)

lemma is_sleeping_iff: "is_sleeping s \<longleftrightarrow> (\<exists>t. s = Sleeping t)"
  by (cases s) (simp_all add: is_sleeping_def)

lemma has_sleepers_iff: "has_sleepers self \<longleftrightarrow> (\<exists>t. sleeps_until self t)"
  by (auto simp: has_sleepers_def sleeps_until_def list_ex_iff is_sleeping_iff)

lemma runnable_woken:
  "runnable (self\<lparr>ss_processes := map (wake t) ps, ss_idle_halts := h\<rparr>) i \<longleftrightarrow>
    i < length ps \<and> (pr_state (ps ! i) = Runnable \<or> (\<exists>w. pr_state (ps ! i) = Sleeping w \<and> w \<le> t))"
  by (auto simp: runnable_def wake_state_iff)

lemma idle_loop_wakes:
  assumes "\<forall>t. sleeps_until self t \<longrightarrow> unat (is_ticks irq) < t \<and> t \<le> U64_MAX" and "\<forall>i. \<not> runnable self i"
    and "has_sleepers self" and "c < length (ss_processes self)"
  shows "\<exists>irq' h self'. self' = self\<lparr>ss_processes := map (wake (unat (is_ticks irq'))) (ss_processes self), ss_idle_halts := h\<rparr> \<and>
    idle_loop c self irq = Some (next_runnable self' c, self', irq') \<and> next_runnable self' c \<noteq> None \<and> irq_kept irq irq' \<and>
    sleeps_until self (unat (is_ticks irq')) \<and> (\<forall>t. sleeps_until self t \<longrightarrow> unat (is_ticks irq') \<le> t)"
  using assms
proof (induction "U64_MAX - unat (is_ticks irq)" arbitrary: self irq rule: less_induct)
  case less
  let ?irq = "idle_halt irq"
  define s1 where "s1 = wake_sleepers ?irq (self\<lparr>ss_idle_halts := saturating_add (ss_idle_halts self) 1\<rparr>)"
  obtain t0 where t0: "sleeps_until self t0" using less.prems(3) has_sleepers_iff by blast
  have lt: "unat (is_ticks irq) < U64_MAX" using less.prems(1) t0 by (meson order_less_le_trans)
  have ticks: "unat (is_ticks ?irq) = unat (is_ticks irq) + 1"
    using lt idle_halt_kept(2) [of irq] by (simp add: unat_word_ariths U64_MAX_def)
  have step: "idle_loop c self irq = idle_loop c s1 ?irq"
    using less.prems(2,3) next_runnable_None [OF less.prems(4)] by (subst idle_loop.simps) (simp add: Let_def s1_def)
  have procs: "ss_processes s1 = map (wake (unat (is_ticks ?irq))) (ss_processes self)" by (simp add: s1_def wake_sleepers_def)
  have len: "c < length (ss_processes s1)" using less.prems(4) procs by simp
  have asleep: "sleeps_until s1 t \<longleftrightarrow> sleeps_until self t \<and> unat (is_ticks ?irq) < t" for t
    unfolding sleeps_until_def procs by (auto simp: wake_state_iff)
  have run: "runnable s1 i \<longleftrightarrow> i < length (ss_processes self) \<and> (\<exists>t. pr_state (ss_processes self ! i) = Sleeping t \<and> t \<le> unat (is_ticks ?irq))" for i
    using less.prems(2) by (auto simp: runnable_def procs wake_state_iff)
  show ?case
  proof (cases "\<exists>i. runnable s1 i")
    case True
    then have some: "next_runnable s1 c \<noteq> None" using next_runnable_None [OF len] by blast
    then have "idle_loop c self irq = Some (next_runnable s1 c, s1, ?irq)" unfolding step by (subst idle_loop.simps) auto
    moreover from True obtain i t where it: "i < length (ss_processes self)" "pr_state (ss_processes self ! i) = Sleeping t" "t \<le> unat (is_ticks ?irq)"
      using run by blast
    then have sl: "sleeps_until self t" by (auto simp: sleeps_until_def intro: bexI [OF _ nth_mem])
    then have "t = unat (is_ticks ?irq)" using it(3) less.prems(1) ticks by fastforce
    moreover have "\<forall>t. sleeps_until self t \<longrightarrow> unat (is_ticks ?irq) \<le> t" using less.prems(1) ticks by fastforce
    ultimately show ?thesis
      using some sl idle_halt_kept(1) by (intro exI [of _ ?irq] exI [of _ "saturating_add (ss_idle_halts self) 1"] exI [of _ s1])
        (simp add: s1_def wake_sleepers_def)
  next
    case False
    have all: "sleeps_until s1 t" if sl: "sleeps_until self t" for t
    proof -
      obtain i where "i < length (ss_processes self)" "pr_state (ss_processes self ! i) = Sleeping t"
        using sl by (auto simp: sleeps_until_def in_set_conv_nth)
      then have "\<not> t \<le> unat (is_ticks ?irq)" using False run by blast
      then show ?thesis using sl asleep by simp
    qed
    have "U64_MAX - unat (is_ticks ?irq) < U64_MAX - unat (is_ticks irq)" using ticks lt by simp
    moreover have "\<forall>t. sleeps_until s1 t \<longrightarrow> unat (is_ticks ?irq) < t \<and> t \<le> U64_MAX" using asleep less.prems(1) by blast
    moreover have "has_sleepers s1" using all t0 has_sleepers_iff by blast
    ultimately obtain irq' h self' where r: "self' = s1\<lparr>ss_processes := map (wake (unat (is_ticks irq'))) (ss_processes s1), ss_idle_halts := h\<rparr>"
        "idle_loop c s1 ?irq = Some (next_runnable self' c, self', irq')" "next_runnable self' c \<noteq> None" "irq_kept ?irq irq'"
        "sleeps_until s1 (unat (is_ticks irq'))" "\<forall>t. sleeps_until s1 t \<longrightarrow> unat (is_ticks irq') \<le> t"
      using less.hyps [of ?irq s1] False len by blast
    have later: "unat (is_ticks ?irq) \<le> unat (is_ticks irq')" using r(5) asleep by (simp add: order_less_imp_le)
    have "map (wake (unat (is_ticks irq'))) (ss_processes s1) = map (wake (unat (is_ticks irq'))) (ss_processes self)"
      using later by (simp add: procs wake_wake)
    then have "self' = self\<lparr>ss_processes := map (wake (unat (is_ticks irq'))) (ss_processes self), ss_idle_halts := h\<rparr>"
      unfolding r(1) by (simp add: s1_def wake_sleepers_def)
    then show ?thesis
      using r(2-6) idle_halt_kept(1) [of irq] step asleep all
      by (intro exI [of _ irq'] exI [of _ h] exI [of _ self']) (auto simp: irq_kept_def)
  qed
qed

section \<open>The invariant\<close>

definition finished :: "TaskState \<Rightarrow> bool" where
  "finished state \<longleftrightarrow> (case state of Exited _ \<Rightarrow> True | Faulted _ _ _ \<Rightarrow> True | _ \<Rightarrow> False)"

text \<open>
  What every process of the table has: a page-aligned root, a saved context that returns to user mode,
  a kernel stack, and a wake tick within the range of the tick counter.
\<close>

definition task_ok :: "Process \<Rightarrow> bool" where
  "task_ok p \<longleftrightarrow> (\<exists>space. pr_space p = Some space \<and> 4096 dvd ua_root_phys space) \<and> from_user (uc_frame (pr_context p)) \<and>
     kernel_stack_top p \<noteq> 0 \<and> (\<forall>t. pr_state p = Sleeping t \<longrightarrow> t \<le> U64_MAX)"

definition sched_ready :: "nat \<Rightarrow> SchedulerState \<Rightarrow> Machine \<Rightarrow> bool" where
  "sched_ready c self m \<longleftrightarrow> ss_active self \<and> ss_failure self = None \<and> ss_current self = Some c \<and> c < length (ss_processes self) \<and>
     4096 dvd ss_kernel_root self \<and> is_gdt_loaded (m_irq m) \<and> ts_privilege_stacks (is_tss (m_irq m)) \<noteq> [] \<and>
     (\<forall>p\<in>set (ss_processes self). task_ok p)"

text \<open>
  The state in which a process runs in user mode: the current process is runnable, its root is active
  and the processor will enter the kernel on its kernel stack.
\<close>

definition sched_inv :: "SchedulerState \<Rightarrow> Machine \<Rightarrow> bool" where
  "sched_inv self m \<longleftrightarrow> (\<exists>c. sched_ready c self m \<and> pr_state (ss_processes self ! c) = Runnable \<and>
     process_root (ss_processes self ! c) = Some (vw_cr3 (m_vm m)) \<and>
     ts_privilege_stacks (is_tss (m_irq m)) ! 0 = kernel_stack_top (ss_processes self ! c))"

lemma task_ok_wake [simp]: "task_ok p \<Longrightarrow> task_ok (wake t p)"
  by (auto simp: task_ok_def wake_state_iff)

lemma switch_root_aligned [simp]: "4096 dvd r \<Longrightarrow> switch_root r w = (Ok (), w\<lparr>vw_cr3 := r\<rparr>)"
  by (simp add: switch_root_def is_multiple_of_dvd)

text \<open>The processes after the choice: everyone whose tick has come is awake.\<close>

definition chosen :: "nat \<Rightarrow> SchedulerState \<Rightarrow> Machine \<Rightarrow> nat option \<Rightarrow> SchedulerState \<Rightarrow> Machine \<Rightarrow> bool" where
  "chosen c self m next_index self' m' \<longleftrightarrow>
     (\<exists>h. self' = self\<lparr>ss_processes := map (wake (unat (is_ticks (m_irq m')))) (ss_processes self), ss_idle_halts := h\<rparr>) \<and>
     next_index = next_runnable self' c \<and> irq_kept (m_irq m) (m_irq m') \<and>
     vw_mem (m_vm m') = vw_mem (m_vm m) \<and> vw_pages (m_vm m') = vw_pages (m_vm m) \<and>
     unat (is_ticks (m_irq m)) \<le> unat (is_ticks (m_irq m')) \<and>
     (next_index = None \<longrightarrow> (\<forall>p\<in>set (ss_processes self'). finished (pr_state p))) \<and>
     (m_irq m' \<noteq> m_irq m \<longrightarrow> (\<forall>i. \<not> runnable self i) \<and> sleeps_until self (unat (is_ticks (m_irq m'))) \<and>
        (\<forall>t. sleeps_until self t \<longrightarrow> unat (is_ticks (m_irq m')) \<le> t))"

lemma finished_iff: "finished s \<longleftrightarrow> s \<noteq> Runnable \<and> (\<forall>t. s \<noteq> Sleeping t)"
  by (cases s) (simp_all add: finished_def)

lemma choose_next_result:
  assumes "c < length (ss_processes self)" and "4096 dvd ss_kernel_root self" and "\<forall>p\<in>set (ss_processes self). task_ok p"
  obtains next_index self' m' where "choose_next c self m = Some (Ok next_index, self', m')" and "chosen c self m next_index self' m'"
proof -
  define s1 where "s1 = wake_sleepers (m_irq m) self"
  have procs: "ss_processes s1 = map (wake (unat (is_ticks (m_irq m)))) (ss_processes self)" by (simp add: s1_def wake_sleepers_def)
  have s1: "s1 = self\<lparr>ss_processes := map (wake (unat (is_ticks (m_irq m)))) (ss_processes self), ss_idle_halts := ss_idle_halts self\<rparr>"
    by (simp add: s1_def wake_sleepers_def)
  have len: "c < length (ss_processes s1)" using assms(1) by (simp add: procs)
  have all_finished: "\<forall>p\<in>set (ss_processes s1). finished (pr_state p)" if "\<not> has_sleepers s1" "\<forall>i. \<not> runnable s1 i"
    using that by (auto simp: finished_iff has_sleepers_iff sleeps_until_def runnable_def in_set_conv_nth)
  show thesis
  proof (cases "next_runnable s1 c = None \<and> has_sleepers s1")
    case False
    have "choose_next c self m = Some (Ok (next_runnable s1 c), s1, m)"
      unfolding choose_next_def Let_def s1_def [symmetric] if_not_P [OF False] by (rule refl)
    moreover have "chosen c self m (next_runnable s1 c) s1 m"
      unfolding chosen_def using False all_finished next_runnable_None [OF len]
      by (intro conjI exI [of _ "ss_idle_halts self"]) (rule s1, auto)
    ultimately show thesis by (rule that)
  next
    case True
    have quiet: "\<forall>i. \<not> runnable s1 i" using True next_runnable_None [OF len] by blast
    have later_ticks: "\<forall>t. sleeps_until s1 t \<longrightarrow> unat (is_ticks (m_irq m)) < t \<and> t \<le> U64_MAX"
      using assms(3) by (auto simp: sleeps_until_def procs wake_state_iff task_ok_def)
    obtain irq' h s2 where i: "s2 = s1\<lparr>ss_processes := map (wake (unat (is_ticks irq'))) (ss_processes s1), ss_idle_halts := h\<rparr>"
        "idle_loop c s1 (m_irq m) = Some (next_runnable s2 c, s2, irq')" "next_runnable s2 c \<noteq> None" "irq_kept (m_irq m) irq'"
        "sleeps_until s1 (unat (is_ticks irq'))" "\<forall>t. sleeps_until s1 t \<longrightarrow> unat (is_ticks irq') \<le> t"
      using idle_loop_wakes [OF later_ticks quiet conjunct2 [OF True] len] by (elim exE conjE) (rule that)
    let ?m = "m\<lparr>m_vm := (m_vm m)\<lparr>vw_cr3 := ss_kernel_root self\<rparr>, m_irq := irq'\<rparr>"
    have root: "ss_kernel_root s1 = ss_kernel_root self" by (simp add: s1)
    have "choose_next c self m = Some (Ok (next_runnable s2 c), s2, ?m)"
      unfolding choose_next_def Let_def s1_def [symmetric] if_P [OF True] root switch_root_aligned [OF assms(2)] i(2) by simp
    moreover have later: "unat (is_ticks (m_irq m)) < unat (is_ticks irq')"
      using i(5) unfolding sleeps_until_def procs by (auto simp: wake_state_iff)
    moreover have "\<forall>i. \<not> runnable self i"
      using quiet unfolding no_runnable_iff procs by (simp add: wake_state_iff)
    moreover have "sleeps_until self t \<longleftrightarrow> sleeps_until s1 t" for t
    proof -
      have "\<forall>p\<in>set (ss_processes self). pr_state (wake (unat (is_ticks (m_irq m))) p) \<noteq> Runnable"
        using quiet unfolding no_runnable_iff procs by simp
      then have "\<forall>p\<in>set (ss_processes self). pr_state p = Sleeping t \<longrightarrow> unat (is_ticks (m_irq m)) < t"
        unfolding wake_state_iff by (meson not_less)
      then show ?thesis unfolding sleeps_until_def procs by (auto simp: wake_state_iff)
    qed
    moreover have "s2 = self\<lparr>ss_processes := map (wake (unat (is_ticks irq'))) (ss_processes self), ss_idle_halts := h\<rparr>"
      unfolding i(1) s1 using later by (simp add: wake_wake)
    ultimately show thesis
      using i(3-6) by (intro that [of "next_runnable s2 c" s2 ?m]) (auto simp: chosen_def)
  qed
qed

section \<open>One scheduling decision\<close>

definition context_of :: "HwFrame \<Rightarrow> UserContext" where
  "context_of frame = \<lparr>uc_frame = hw_frame frame, uc_stack_pointer = hw_user_rsp frame, uc_stack_selector = hw_user_ss frame\<rparr>"

definition frame_of :: "UserContext \<Rightarrow> HwFrame" where
  "frame_of context = \<lparr>hw_frame = uc_frame context, hw_user_rsp = uc_stack_pointer context, hw_user_ss = uc_stack_selector context\<rparr>"

lemma context_frame [simp]: "context_of (frame_of context) = context" "frame_of (context_of frame) = frame"
  by (simp_all add: context_of_def frame_of_def)

lemma capture_user: "from_user (hw_frame frame) \<Longrightarrow> context_capture frame = Some (context_of frame)"
  by (simp add: context_capture_def user_stack_def from_user_def context_of_def)

lemma restore_user: "from_user (uc_frame context) \<Longrightarrow> context_restore context frame = (True, frame_of context)"
  by (simp add: context_restore_def set_user_stack_def from_user_def frame_of_def)

text \<open>The table once the interrupted process has been saved.\<close>

definition saved :: "nat \<Rightarrow> SchedulerState \<Rightarrow> HwFrame \<Rightarrow> Process list" where
  "saved c self frame = (if finished (pr_state (ss_processes self ! c)) then ss_processes self
     else (ss_processes self)[c := (ss_processes self ! c)\<lparr>pr_context := context_of frame\<rparr>])"

lemma save_context_result:
  "from_user (hw_frame frame) \<Longrightarrow> save_context c self frame = Some (self\<lparr>ss_processes := saved c self frame\<rparr>)"
  by (cases "pr_state (ss_processes self ! c)") (simp_all add: save_context_def saved_def finished_def capture_user)

text \<open>
  The outcome: either the first runnable process after \<open>c\<close> in cyclic order runs from its saved context, or
  every process has finished and the kernel resumes.
\<close>

definition switched_to :: "nat \<Rightarrow> nat \<Rightarrow> Process list \<Rightarrow> SchedulerState \<Rightarrow> HwFrame \<Rightarrow> bool" where
  "switched_to c i ps self' frame' \<longleftrightarrow> i < length ps \<and> pr_state (ps ! i) = Runnable \<and>
     (\<forall>j<length ps. pr_state (ps ! j) = Runnable \<longrightarrow> cyclic_distance (length ps) c i \<le> cyclic_distance (length ps) c j) \<and>
     ss_processes self' = ps[i := (ps ! i)\<lparr>pr_dispatches := saturating_add (pr_dispatches (ps ! i)) 1\<rparr>] \<and>
     ss_current self' = Some i \<and> frame' = frame_of (pr_context (ps ! i))"

definition kernel_resumed :: "u64 \<Rightarrow> HwFrame \<Rightarrow> Process list \<Rightarrow> SchedulerState \<Rightarrow> HwFrame \<Rightarrow> Machine \<Rightarrow> bool" where
  "kernel_resumed resume frame ps self' frame' m' \<longleftrightarrow> (\<forall>p\<in>set ps. finished (pr_state p)) \<and> ss_processes self' = ps \<and>
     \<not> ss_active self' \<and> ss_current self' = None \<and> ss_failure self' = None \<and>
     vw_cr3 (m_vm m') = ss_kernel_root self' \<and> frame' = resume_kernel resume frame"

definition scheduled :: "u64 \<Rightarrow> nat \<Rightarrow> Process list \<Rightarrow> SchedulerState \<Rightarrow> HwFrame \<Rightarrow> Machine \<Rightarrow> sched_state \<Rightarrow> bool" where
  "scheduled resume c ps self frame m r \<longleftrightarrow> (case r of (self', frame', m') \<Rightarrow>
     (let ps' = map (wake (unat (is_ticks (m_irq m')))) ps in
       ((\<exists>i. switched_to c i ps' self' frame') \<and> sched_inv self' m' \<or> kernel_resumed resume frame ps' self' frame' m') \<and>
       ss_kernel_root self' = ss_kernel_root self \<and> vw_mem (m_vm m') = vw_mem (m_vm m) \<and> vw_pages (m_vm m') = vw_pages (m_vm m) \<and>
       is_handler (m_irq m') = is_handler (m_irq m) \<and> unat (is_ticks (m_irq m)) \<le> unat (is_ticks (m_irq m')) \<and>
       (is_ticks (m_irq m') \<noteq> is_ticks (m_irq m) \<longrightarrow> (\<forall>p\<in>set ps. pr_state p \<noteq> Runnable \<and>
          (\<forall>t. pr_state p = Sleeping t \<longrightarrow> unat (is_ticks (m_irq m')) \<le> t)) \<and>
          (\<exists>p\<in>set ps. pr_state p = Sleeping (unat (is_ticks (m_irq m')))))))"

lemma dispatch_result:
  assumes "i < length (ss_processes self)" and "task_ok (ss_processes self ! i)" and "is_gdt_loaded (m_irq m)"
  shows "\<exists>self'. dispatch resume c i timer self frame m = Some (self', frame_of (pr_context (ss_processes self ! i)),
      m\<lparr>m_vm := (m_vm m)\<lparr>vw_cr3 := the (process_root (ss_processes self ! i))\<rparr>,
        m_irq := snd (set_privilege_stack (kernel_stack_top (ss_processes self ! i)) (m_irq m))\<rparr>) \<and>
    ss_processes self' = (ss_processes self)[i := (ss_processes self ! i)\<lparr>pr_dispatches := saturating_add (pr_dispatches (ss_processes self ! i)) 1\<rparr>] \<and>
    ss_current self' = Some i \<and> ss_active self' = ss_active self \<and> ss_failure self' = ss_failure self \<and> ss_kernel_root self' = ss_kernel_root self"
proof -
  define p where "p = ss_processes self ! i"
  obtain space where space: "pr_space p = Some space" "4096 dvd ua_root_phys space" "from_user (uc_frame (pr_context p))" "kernel_stack_top p \<noteq> 0"
    using assms(2) by (auto simp: task_ok_def p_def)
  have top: "kernel_stack_top (p\<lparr>pr_dispatches := n\<rparr>) = kernel_stack_top p" "process_root (p\<lparr>pr_dispatches := n\<rparr>) = Some (ua_root_phys space)"
      "process_root p = Some (ua_root_phys space)" for n
    using space by (simp_all add: kernel_stack_top_def process_root_def)
  obtain irq where priv: "set_privilege_stack (kernel_stack_top p) (m_irq m) = (True, irq)"
    using assms(3) space(4) by (simp add: set_privilege_stack_def)
  define s1 where "s1 = (if i \<noteq> c then self\<lparr>ss_context_switches := saturating_add (ss_context_switches self) 1,
      ss_timer_preemptions := (if timer then saturating_add (ss_timer_preemptions self) 1 else ss_timer_preemptions self)\<rparr> else self)"
  have s1: "ss_processes s1 = ss_processes self" "ss_active s1 = ss_active self" "ss_failure s1 = ss_failure self" "ss_kernel_root s1 = ss_kernel_root self"
    by (simp_all add: s1_def)
  define s2 where "s2 = s1\<lparr>ss_current := Some i, ss_processes := (ss_processes self)[i := p\<lparr>pr_dispatches := saturating_add (pr_dispatches p) 1\<rparr>]\<rparr>"
  have "dispatch resume c i timer self frame m = Some (s2, frame_of (pr_context p), m\<lparr>m_vm := (m_vm m)\<lparr>vw_cr3 := ua_root_phys space\<rparr>, m_irq := irq\<rparr>)"
    unfolding dispatch_def s1_def [symmetric]
    by (simp only: Let_def s1 p_def [symmetric] s2_def [symmetric] top option.case switch_root_aligned [OF space(2)] prod.case sum.case)
      (simp add: priv restore_user [OF space(3)])
  then show ?thesis unfolding p_def [symmetric] top(3) priv by (simp add: s2_def s1)
qed

lemma saved_tasks:
  assumes "sched_ready c self m" and "from_user (hw_frame frame)"
  shows "length (saved c self frame) = length (ss_processes self)" "\<forall>p\<in>set (saved c self frame). task_ok p"
proof -
  have "task_ok (p\<lparr>pr_context := context_of frame\<rparr>)" if "task_ok p" for p
    using that assms(2) by (simp add: task_ok_def context_of_def kernel_stack_top_def)
  moreover have "task_ok (ss_processes self ! c)" using assms(1) by (simp add: sched_ready_def)
  ultimately show "\<forall>p\<in>set (saved c self frame). task_ok p"
    using assms(1) by (auto simp: saved_def sched_ready_def dest: set_update_subset_insert [THEN subsetD])
qed (simp add: saved_def)

lemma privilege_installed:
  assumes "is_gdt_loaded irq" and "stack \<noteq> 0" and "ts_privilege_stacks (is_tss irq) \<noteq> []"
  shows "is_gdt_loaded (snd (set_privilege_stack stack irq))" "ts_privilege_stacks (is_tss (snd (set_privilege_stack stack irq))) ! 0 = stack"
    "ts_privilege_stacks (is_tss (snd (set_privilege_stack stack irq))) \<noteq> []" "is_ticks (snd (set_privilege_stack stack irq)) = is_ticks irq"
    "is_handler (snd (set_privilege_stack stack irq)) = is_handler irq"
  using assms by (simp_all add: set_privilege_stack_def)

lemma dispatched_inv:
  assumes "ss_processes self' = ps[i := (ps ! i)\<lparr>pr_dispatches := n\<rparr>]" and "i < length ps" and "pr_state (ps ! i) = Runnable"
    and "\<forall>p\<in>set ps. task_ok p" and "ss_current self' = Some i" and "ss_active self'" and "ss_failure self' = None"
    and "4096 dvd ss_kernel_root self'" and "is_gdt_loaded (m_irq m)" and "ts_privilege_stacks (is_tss (m_irq m)) \<noteq> []"
  shows "sched_inv self' (m\<lparr>m_vm := (m_vm m)\<lparr>vw_cr3 := the (process_root (ps ! i))\<rparr>, m_irq := snd (set_privilege_stack (kernel_stack_top (ps ! i)) (m_irq m))\<rparr>)"
proof -
  have ok: "task_ok (ps ! i)" using assms(2,4) by simp
  then have top: "kernel_stack_top (ps ! i) \<noteq> 0" and root: "\<exists>r. process_root (ps ! i) = Some r" by (auto simp: task_ok_def process_root_def)
  have same: "task_ok (p\<lparr>pr_dispatches := n\<rparr>) = task_ok p" "kernel_stack_top (p\<lparr>pr_dispatches := n\<rparr>) = kernel_stack_top p"
      "process_root (p\<lparr>pr_dispatches := n\<rparr>) = process_root p" for p
    by (simp_all add: task_ok_def kernel_stack_top_def process_root_def)
  have "\<forall>p\<in>set (ss_processes self'). task_ok p"
    using assms(1,4) ok by (auto simp: same dest!: set_update_subset_insert [THEN subsetD])
  then show ?thesis
    using assms root privilege_installed [OF assms(9) top assms(10)]
    by (auto simp: sched_inv_def sched_ready_def same)
qed

lemma schedule_result:
  assumes ready: "sched_ready c self m" and user: "from_user (hw_frame frame)"
  obtains r where "schedule resume timer self frame m = Some r" and "scheduled resume c (saved c self frame) self frame m r"
proof -
  let ?ps = "saved c self frame" and ?s = "self\<lparr>ss_processes := saved c self frame\<rparr>"
  note tasks = saved_tasks [OF ready user]
  have c: "ss_current self = Some c" "c < length (ss_processes self)" "4096 dvd ss_kernel_root self" "ss_active self" "ss_failure self = None"
      "is_gdt_loaded (m_irq m)" "ts_privilege_stacks (is_tss (m_irq m)) \<noteq> []"
    using ready by (simp_all add: sched_ready_def)
  obtain next_index s' m' where ch: "choose_next c ?s m = Some (Ok next_index, s', m')" "chosen c ?s m next_index s' m'"
    using choose_next_result [of c ?s m] c tasks by auto
  define ps' where "ps' = map (wake (unat (is_ticks (m_irq m')))) ?ps"
  obtain h where s': "s' = ?s\<lparr>ss_processes := ps', ss_idle_halts := h\<rparr>" using ch(2) by (auto simp: chosen_def ps'_def)
  have kept: "irq_kept (m_irq m) (m_irq m')" "vw_mem (m_vm m') = vw_mem (m_vm m)" "vw_pages (m_vm m') = vw_pages (m_vm m)"
      "unat (is_ticks (m_irq m)) \<le> unat (is_ticks (m_irq m'))" "next_index = next_runnable s' c"
      "next_index = None \<longrightarrow> (\<forall>p\<in>set ps'. finished (pr_state p))"
    using ch(2) s' by (simp_all add: chosen_def)
  have idle: "is_ticks (m_irq m') \<noteq> is_ticks (m_irq m) \<longrightarrow> (\<forall>p\<in>set ?ps. pr_state p \<noteq> Runnable \<and>
      (\<forall>t. pr_state p = Sleeping t \<longrightarrow> unat (is_ticks (m_irq m')) \<le> t)) \<and> (\<exists>p\<in>set ?ps. pr_state p = Sleeping (unat (is_ticks (m_irq m'))))"
    using ch(2) unfolding chosen_def no_runnable_iff sleeps_until_def by auto
  have run: "schedule resume timer self frame m = (case next_index of None \<Rightarrow> Some (return_to_kernel resume s' frame m')
      | Some i \<Rightarrow> dispatch resume c i timer s' frame m')"
    using c(1,2) ch(1) save_context_result [OF user, of c self] by (simp add: schedule_def split: option.split)
  show thesis
  proof (cases next_index)
    case None
    let ?m = "m'\<lparr>m_vm := (m_vm m')\<lparr>vw_cr3 := ss_kernel_root self\<rparr>\<rparr>"
    let ?r = "(s'\<lparr>ss_active := False, ss_current := None\<rparr>, resume_kernel resume frame, ?m)"
    have "return_to_kernel resume s' frame m' = ?r" using c(3) by (simp add: return_to_kernel_def s')
    moreover have "kernel_resumed resume frame ps' (fst ?r) (resume_kernel resume frame) ?m"
      using kept(6) None c(5) by (simp add: kernel_resumed_def s')
    ultimately show thesis
      using run None kept idle s' by (intro that [of ?r]) (simp_all add: scheduled_def ps'_def [symmetric] irq_kept_def)
  next
    case (Some i)
    have len: "c < length (ss_processes s')" "length ps' = length ?ps" using c(2) tasks(1) by (simp_all add: s' ps'_def)
    have i: "i < length ps'" "pr_state (ps' ! i) = Runnable"
        "\<forall>j<length ps'. pr_state (ps' ! j) = Runnable \<longrightarrow> cyclic_distance (length ps') c i \<le> cyclic_distance (length ps') c j"
      using next_runnable_Some [OF _ len(1), of i] kept(5) Some by (auto simp: runnable_def s')
    have ok: "\<forall>p\<in>set ps'. task_ok p" using tasks(2) by (simp add: ps'_def)
    have gdt: "is_gdt_loaded (m_irq m')" "ts_privilege_stacks (is_tss (m_irq m')) \<noteq> []" using kept(1) c(6,7) by (simp_all add: irq_kept_def)
    have ti: "task_ok (ps' ! i)" using ok i(1) by simp
    then have ki: "kernel_stack_top (ps' ! i) \<noteq> 0" by (simp add: task_ok_def)
    obtain s'' where d: "dispatch resume c i timer s' frame m' = Some (s'', frame_of (pr_context (ps' ! i)),
          m'\<lparr>m_vm := (m_vm m')\<lparr>vw_cr3 := the (process_root (ps' ! i))\<rparr>, m_irq := snd (set_privilege_stack (kernel_stack_top (ps' ! i)) (m_irq m'))\<rparr>)"
        "ss_processes s'' = ps'[i := (ps' ! i)\<lparr>pr_dispatches := saturating_add (pr_dispatches (ps' ! i)) 1\<rparr>]" "ss_current s'' = Some i"
        "ss_active s''" "ss_failure s'' = None" "ss_kernel_root s'' = ss_kernel_root self"
      using dispatch_result [of i s' m' resume c timer frame] i(1) ti gdt c(4,5) by (auto simp: s')
    note inv = dispatched_inv [OF d(2) i(1,2) ok d(3-5) _ gdt]
    let ?m = "m'\<lparr>m_vm := (m_vm m')\<lparr>vw_cr3 := the (process_root (ps' ! i))\<rparr>, m_irq := snd (set_privilege_stack (kernel_stack_top (ps' ! i)) (m_irq m'))\<rparr>"
    have tk: "is_ticks (m_irq ?m) = is_ticks (m_irq m')" "is_handler (m_irq ?m) = is_handler (m_irq m)"
      using privilege_installed(4,5) [OF gdt(1) ki gdt(2)] kept(1) by (simp_all add: irq_kept_def)
    have sw: "switched_to c i ps' s'' (frame_of (pr_context (ps' ! i)))" using i d(2,3) by (simp add: switched_to_def)
    have "sched_inv s'' ?m" using inv c(3) d(6) by simp
    then have "scheduled resume c ?ps self frame m (s'', frame_of (pr_context (ps' ! i)), ?m)"
      unfolding scheduled_def prod.case Let_def tk ps'_def [symmetric] using sw d(6) kept idle by auto
    then show thesis using run Some d(1) by (intro that) simp_all
  qed
qed

section \<open>Tasks as they see themselves\<close>

text \<open>
  The abstract machine: a task is a state and, until it has finished, a context. The context of the
  running task is the live frame, that of the others the saved one.
\<close>

type_synonym task = "TaskState \<times> UserContext option"

definition abs_task :: "SchedulerState \<Rightarrow> HwFrame \<Rightarrow> nat \<Rightarrow> task" where
  "abs_task self frame j = (let p = ss_processes self ! j in (pr_state p,
     if finished (pr_state p) then None
     else Some (if ss_active self \<and> ss_current self = Some j then context_of frame else pr_context p)))"

definition wake_task :: "nat \<Rightarrow> task \<Rightarrow> task" where
  "wake_task ticks t = (case fst t of Sleeping w \<Rightarrow> if w \<le> ticks then (Runnable, snd t) else t | _ \<Rightarrow> t)"

definition trap_vector :: "HwFrame \<Rightarrow> u8" where
  "trap_vector frame = ucast (tf_vector (hw_frame frame))"

definition known_vector :: "u8 \<Rightarrow> bool" where
  "known_vector v \<longleftrightarrow> v \<le> 32 \<or> v = 128"

definition reschedules :: "HwFrame \<Rightarrow> bool" where
  "reschedules frame \<longleftrightarrow> trap_vector frame \<le> 32 \<or> tf_rax (hw_frame frame) \<in> {SYS_EXIT, SYS_YIELD, SYS_SLEEP}"

text \<open>What a trap does to the task that raises it.\<close>

definition task_trap :: "u64 \<Rightarrow> u64 \<Rightarrow> u64 \<Rightarrow> HwFrame \<Rightarrow> task" where
  "task_trap pid ticks fault_address frame =
    (let number = tf_rax (hw_frame frame); argument = tf_rdi (hw_frame frame) in
     if trap_vector frame = 32 then (Runnable, Some (context_of frame))
     else if trap_vector frame < 32 then (Faulted (trap_vector frame) fault_address (tf_error_code (hw_frame frame)), None)
     else if number = SYS_EXIT then (Exited argument, None)
     else if number = SYS_SLEEP then (Sleeping (min (unat ticks + unat argument) U64_MAX), Some (context_of (set_rax frame 0)))
     else (Runnable, Some (context_of (set_rax frame
       (if number = SYS_YIELD then 0 else if number = SYS_GETPID then pid else if number = SYS_GETTICKS then ticks else - 38)))))"

lemma set_rax_user [simp]: "from_user (hw_frame (set_rax frame v)) \<longleftrightarrow> from_user (hw_frame frame)"
  by (simp add: set_rax_def from_user_def)

text \<open>A scheduling decision, seen from the tasks: \<open>current\<close> is the task that trapped, with its new state.\<close>

lemma scheduled_tasks:
  assumes "scheduled resume c (saved c self frame) self frame m (self', frame', m')" and "j < length (ss_processes self)"
    and "ss_active self" and "ss_current self = Some c"
  shows "abs_task self' frame' j = wake_task (unat (is_ticks (m_irq m'))) (abs_task self frame j)"
proof -
  let ?ps = "saved c self frame" and ?t = "unat (is_ticks (m_irq m'))"
  have len: "length ?ps = length (ss_processes self)" by (simp add: saved_def)
  have st: "pr_state (?ps ! j) = pr_state (ss_processes self ! j)"
    using assms(2) by (cases "j = c") (auto simp: saved_def)
  have cx: "pr_context (?ps ! j) = (if j = c then context_of frame else pr_context (ss_processes self ! j))"
    if "\<not> finished (pr_state (ss_processes self ! j))"
    using assms(2) that by (cases "j = c") (auto simp: saved_def)
  have abs: "abs_task self frame j = (pr_state (?ps ! j), if finished (pr_state (?ps ! j)) then None else Some (pr_context (?ps ! j)))"
    using cx assms(3,4) by (auto simp: abs_task_def Let_def st)
  have fin: "finished (pr_state (wake ?t p)) \<longleftrightarrow> finished (pr_state p)" for p
    by (auto simp: finished_iff wake_state_iff)
  have wk: "wake_task ?t (pr_state p, x) = (pr_state (wake ?t p), x)" for p x
    by (auto simp: wake_task_def wake_state split: TaskState.splits)
  from assms(1) consider i where "switched_to c i (map (wake ?t) ?ps) self' frame'" "sched_inv self' m'"
      | "kernel_resumed resume frame (map (wake ?t) ?ps) self' frame' m'"
    by (auto simp: scheduled_def Let_def)
  then show ?thesis
  proof cases
    case 1
    then have "ss_active self'" by (auto simp: sched_inv_def sched_ready_def)
    with 1(1) show ?thesis
      using assms(2) len unfolding abs wk by (auto simp: abs_task_def switched_to_def Let_def fin nth_list_update)
  next
    case 2
    then show ?thesis
      using assms(2) len unfolding abs wk by (auto simp: abs_task_def kernel_resumed_def Let_def fin)
  qed
qed

end
