(* ===== verification/SchedulerTraps.thy ===== *)
theory SchedulerTraps
  imports SchedulerProps UserIsolation
begin

text \<open>
  The trap handler of \<^verbatim>\<open>kernel/src/scheduler.rs\<close>: every trap of a user process keeps the invariant of the
  scheduler, acts on the tasks as the abstract machine says, and no runnable process waits for
  more than one round.
\<close>

section \<open>Traps\<close>

text \<open>The state handed to \<open>schedule\<close> by a trap of process \<open>c\<close>, described by the new state of that process.\<close>

definition trapped :: "nat \<Rightarrow> SchedulerState \<Rightarrow> TaskState \<Rightarrow> SchedulerState \<Rightarrow> bool" where
  "trapped c self state self1 \<longleftrightarrow> (\<exists>n. self1 = update_process c (\<lambda>p. p\<lparr>pr_state := state, pr_syscalls := n\<rparr>) self)"

lemma trapped_ready:
  assumes "sched_ready c self m" and "trapped c self state self1" and "\<forall>t. state = Sleeping t \<longrightarrow> t \<le> U64_MAX"
  shows "sched_ready c self1 m" "length (ss_processes self1) = length (ss_processes self)" "ss_kernel_root self1 = ss_kernel_root self"
    "pr_state (ss_processes self1 ! c) = state" "j \<noteq> c \<Longrightarrow> ss_processes self1 ! j = ss_processes self ! j"
    "process_root (ss_processes self1 ! c) = process_root (ss_processes self ! c)"
    "kernel_stack_top (ss_processes self1 ! c) = kernel_stack_top (ss_processes self ! c)"
proof -
  obtain n where self1: "self1 = update_process c (\<lambda>p. p\<lparr>pr_state := state, pr_syscalls := n\<rparr>) self" using assms(2) by (auto simp: trapped_def)
  have c: "c < length (ss_processes self)" "\<forall>p\<in>set (ss_processes self). task_ok p" using assms(1) by (simp_all add: sched_ready_def)
  then have "task_ok ((ss_processes self ! c)\<lparr>pr_state := state, pr_syscalls := n\<rparr>)"
    using nth_mem [OF c(1)] assms(3) by (auto simp: task_ok_def kernel_stack_top_def)
  then show "sched_ready c self1 m"
    using assms(1) unfolding self1 by (auto simp: sched_ready_def update_process_def dest!: set_update_subset_insert [THEN subsetD])
  show "length (ss_processes self1) = length (ss_processes self)" "ss_kernel_root self1 = ss_kernel_root self"
    "pr_state (ss_processes self1 ! c) = state" "j \<noteq> c \<Longrightarrow> ss_processes self1 ! j = ss_processes self ! j"
    "process_root (ss_processes self1 ! c) = process_root (ss_processes self ! c)"
    "kernel_stack_top (ss_processes self1 ! c) = kernel_stack_top (ss_processes self ! c)"
    using c(1) by (simp_all add: self1 update_process_def process_root_def kernel_stack_top_def)
qed

lemma trapped_tasks:
  assumes "sched_ready c self m" and "trapped c self state self1" and "\<forall>t. state = Sleeping t \<longrightarrow> t \<le> U64_MAX"
  shows "abs_task self1 frame1 j = (if j = c then (state, if finished state then None else Some (context_of frame1)) else abs_task self frame j)"
proof -
  have "ss_active self1" "ss_current self1 = Some c" "ss_active self" "ss_current self = Some c"
    using assms(1) trapped_ready(1) [OF assms] by (simp_all add: sched_ready_def)
  then show ?thesis
    using trapped_ready(4,5) [OF assms] by (auto simp: abs_task_def Let_def)
qed

lemma trapped_self: "c < length (ss_processes self) \<Longrightarrow> pr_state (ss_processes self ! c) = state \<Longrightarrow> trapped c self state self"
proof -
  assume "c < length (ss_processes self)" "pr_state (ss_processes self ! c) = state"
  then have "(ss_processes self ! c)\<lparr>pr_state := state, pr_syscalls := pr_syscalls (ss_processes self ! c)\<rparr> = ss_processes self ! c" by simp
  then show ?thesis unfolding trapped_def update_process_def
    by (intro exI [of _ "pr_syscalls (ss_processes self ! c)"]) simp
qed

text \<open>Every trap of a user process is either answered at once or leads to one scheduling decision.\<close>

lemma trap_cases:
  assumes inv: "sched_inv self m" and c: "ss_current self = Some c" and v: "known_vector (trap_vector frame)"
  obtains self1 frame1 where "trapped c self (fst (task_trap (pr_pid (ss_processes self ! c)) (is_ticks (m_irq m)) fault frame)) self1"
    and "frame1 = frame \<or> (\<exists>x. frame1 = set_rax frame x)"
    and "task_trap (pr_pid (ss_processes self ! c)) (is_ticks (m_irq m)) fault frame =
      (fst (task_trap (pr_pid (ss_processes self ! c)) (is_ticks (m_irq m)) fault frame),
       if finished (fst (task_trap (pr_pid (ss_processes self ! c)) (is_ticks (m_irq m)) fault frame)) then None else Some (context_of frame1))"
    and "sched_handle_trap resume self frame fault m =
      (if reschedules frame then map_option (Pair True) (schedule resume (trap_vector frame = 32) self1 frame1 m) else Some (True, self1, frame1, m))"
proof -
  let ?v = "trap_vector frame" and ?n = "tf_rax (hw_frame frame)" and ?ticks = "is_ticks (m_irq m)"
  have a: "ss_active self" "c < length (ss_processes self)" "pr_state (ss_processes self ! c) = Runnable"
    using inv c by (auto simp: sched_inv_def sched_ready_def)
  define s1 where "s1 = update_process c (\<lambda>p. p\<lparr>pr_syscalls := saturating_add (pr_syscalls p) 1\<rparr>) self"
  let ?k = "saturating_add (pr_syscalls (ss_processes self ! c)) 1"
  have "(ss_processes self ! c)\<lparr>pr_state := Runnable, pr_syscalls := ?k\<rparr> = (ss_processes self ! c)\<lparr>pr_syscalls := ?k\<rparr>"
    using a(3) by simp
  then have s1: "trapped c self Runnable s1"
    unfolding trapped_def s1_def update_process_def by (intro exI [of _ ?k]) simp
  have comm: "p\<lparr>pr_syscalls := n, pr_state := st\<rparr> = p\<lparr>pr_state := st, pr_syscalls := n\<rparr>" for p :: Process and n st by (cases p) simp
  have st: "trapped c self st (update_process c (\<lambda>p. p\<lparr>pr_state := st\<rparr>) s1)" for st
    using a(2) unfolding trapped_def s1_def update_process_def by (intro exI [of _ ?k]) (simp add: comm)
  have ft: "trapped c self st (update_process c (\<lambda>p. p\<lparr>pr_state := st\<rparr>) self)" for st
    using a(2) unfolding trapped_def update_process_def by (intro exI [of _ "pr_syscalls (ss_processes self ! c)"]) simp
  have pid: "pr_pid (ss_processes s1 ! c) = pr_pid (ss_processes self ! c)" using a(2) by (simp add: s1_def update_process_def)
  have handle: "sched_handle_trap resume self frame fault m =
     (if ?v = 32 then map_option (Pair True) (schedule resume True self frame m)
      else if ?v = 128 then map_option (Pair True) (sched_syscall resume c self frame m)
      else map_option (Pair True) (schedule resume False (update_process c (\<lambda>p. p\<lparr>pr_state := Faulted ?v fault (tf_error_code (hw_frame frame))\<rparr>) self) frame m))"
  proof -
    have "?v \<le> 31" if "?v \<noteq> 32" "?v \<noteq> 128" using v that by (simp add: known_vector_def word_le_nat_alt word_unat_eq_iff)
    then show ?thesis using a(1,2) c unfolding sched_handle_trap_def trap_vector_def [symmetric] by (simp add: Let_def)
  qed
  note e = task_trap_def Let_def finished_def
  have lt: "\<not> (128 :: u8) \<le> 32" "\<not> (128 :: u8) < 32" by simp_all
  show thesis
  proof (cases "?v = 128")
    case False
    then have r: "reschedules frame" using v by (simp add: reschedules_def known_vector_def)
    show thesis
    proof (cases "?v = 32")
      case True
      then show thesis using r handle a trapped_self [OF a(2,3)] by (intro that [of self frame]) (simp_all add: e)
    next
      case ne: False
      then have "?v < 32" using False v by (simp add: known_vector_def)
      then show thesis using r handle ne False ft by (intro that [of "update_process c (\<lambda>p. p\<lparr>pr_state := Faulted ?v fault (tf_error_code (hw_frame frame))\<rparr>) self" frame]) (simp_all add: e)
    qed
  next
    case True
    then have h: "sched_handle_trap resume self frame fault m = map_option (Pair True) (sched_syscall resume c self frame m)" using handle by simp
    have sy: "sched_syscall resume c self frame m =
       (if ?n = SYS_EXIT then schedule resume False (update_process c (\<lambda>p. p\<lparr>pr_state := Exited (tf_rdi (hw_frame frame))\<rparr>) s1) frame m
        else if ?n = SYS_YIELD then schedule resume False s1 (set_rax frame 0) m
        else if ?n = SYS_SLEEP then schedule resume False (update_process c (\<lambda>p. p\<lparr>pr_state := Sleeping (saturating_add (unat ?ticks) (unat (tf_rdi (hw_frame frame))))\<rparr>) s1) (set_rax frame 0) m
        else Some (s1, set_rax frame (if ?n = SYS_GETPID then pr_pid (ss_processes self ! c) else if ?n = SYS_GETTICKS then ?ticks else ERR_NOT_IMPLEMENTED), m))"
      unfolding sched_syscall_def s1_def [symmetric] Let_def pid by simp
    have r: "reschedules frame \<longleftrightarrow> ?n \<in> {SYS_EXIT, SYS_YIELD, SYS_SLEEP}" using True lt by (simp add: reschedules_def)
    consider "?n = SYS_EXIT" | "?n = SYS_SLEEP" | "?n = SYS_YIELD" | "\<not> reschedules frame" using r by auto
    then show thesis
    proof cases
      case 1
      then show thesis using h r True lt st
        by (intro that [of "update_process c (\<lambda>p. p\<lparr>pr_state := Exited (tf_rdi (hw_frame frame))\<rparr>) s1" frame]) (simp_all add: e sy)
    next
      case 2
      let ?w = "saturating_add (unat ?ticks) (unat (tf_rdi (hw_frame frame)))"
      show thesis using 2 h r True lt st
        by (intro that [of "update_process c (\<lambda>p. p\<lparr>pr_state := Sleeping ?w\<rparr>) s1" "set_rax frame 0"]) (auto simp: e sy saturating_add_def)
    next
      case 3
      then show thesis using h r True lt s1 by (intro that [of s1 "set_rax frame 0"]) (auto simp: e sy)
    next
      case 4
      then show thesis using h r True lt s1 pid
        by (intro that [of s1 "set_rax frame (if ?n = SYS_GETPID then pr_pid (ss_processes self ! c) else if ?n = SYS_GETTICKS then ?ticks else ERR_NOT_IMPLEMENTED)"])
          (auto simp: e sy ERR_NOT_IMPLEMENTED_def)
    qed
  qed
qed

lemma task_trap_sleep: "fst (task_trap pid ticks fault frame) = Sleeping t \<Longrightarrow> t \<le> U64_MAX"
  by (auto simp: task_trap_def Let_def split: if_splits)

text \<open>All that the theorems below need to know about a trap of process \<open>c\<close>.\<close>

definition kernel_frame :: "u64 \<Rightarrow> HwFrame \<Rightarrow> bool" where
  "kernel_frame resume frame \<longleftrightarrow> tf_rip (hw_frame frame) = resume \<and> tf_cs (hw_frame frame) = ucast KERNEL_CODE_SELECTOR"

definition all_done :: "SchedulerState \<Rightarrow> Machine \<Rightarrow> bool" where
  "all_done self m \<longleftrightarrow> \<not> ss_active self \<and> ss_current self = None \<and> ss_failure self = None \<and>
     (\<forall>p\<in>set (ss_processes self). finished (pr_state p)) \<and> vw_cr3 (m_vm m) = ss_kernel_root self"

text \<open>What a process is: its number, its address space and its kernel stack.\<close>

definition identity_of :: "Process \<Rightarrow> u64 \<times> UserAddressSpace option \<times> u64" where
  "identity_of p = (pr_pid p, pr_space p, pr_kernel_stack p)"

lemma identity_simps [simp]: "identity_of (p\<lparr>pr_state := a\<rparr>) = identity_of p" "identity_of (p\<lparr>pr_syscalls := n\<rparr>) = identity_of p"
  "identity_of (p\<lparr>pr_dispatches := n\<rparr>) = identity_of p" "identity_of (p\<lparr>pr_context := x\<rparr>) = identity_of p" "identity_of (wake t p) = identity_of p"
  by (simp_all add: identity_of_def)

lemma identity_update [simp]: "identity_of p = identity_of (ps ! i) \<Longrightarrow> map identity_of (ps[i := p]) = map identity_of ps"
  by (cases "i < length ps") (simp_all add: map_update list_update_same_conv list_update_beyond)

lemma trapped_identity: "trapped c self state self1 \<Longrightarrow> map identity_of (ss_processes self1) = map identity_of (ss_processes self)"
  by (auto simp: trapped_def update_process_def)

lemma scheduled_identity:
  assumes "scheduled resume c (saved c self frame) self frame m (self', frame', m')"
  shows "map identity_of (ss_processes self') = map identity_of (ss_processes self)"
proof -
  have s: "map identity_of (map (wake t) (saved c self frame)) = map identity_of (ss_processes self)" for t
    by (simp add: saved_def comp_def)
  show ?thesis using assms s by (auto simp: scheduled_def Let_def switched_to_def kernel_resumed_def)
qed

lemma trap_outcome:
  assumes inv: "sched_inv self m" and c: "ss_current self = Some c" and user: "from_user (hw_frame frame)"
    and v: "known_vector (trap_vector frame)"
  obtains self' frame' m' where "sched_handle_trap resume self frame fault m = Some (True, self', frame', m')"
    and "\<forall>j<length (ss_processes self). abs_task self' frame' j =
      (if reschedules frame then wake_task (unat (is_ticks (m_irq m'))) else (\<lambda>t. t))
        (if j = c then task_trap (pr_pid (ss_processes self ! c)) (is_ticks (m_irq m)) fault frame else abs_task self frame j)"
    and "sched_inv self' m' \<or> all_done self' m' \<and> kernel_frame resume frame'"
    and "length (ss_processes self') = length (ss_processes self)" and "ss_kernel_root self' = ss_kernel_root self"
    and "vw_mem (m_vm m') = vw_mem (m_vm m)" and "vw_pages (m_vm m') = vw_pages (m_vm m)" and "is_handler (m_irq m') = is_handler (m_irq m)"
    and "trap_vector frame = 32 \<Longrightarrow> is_ticks (m_irq m') = is_ticks (m_irq m)"
    and "sched_inv self' m' \<Longrightarrow> from_user (hw_frame frame')"
    and "map identity_of (ss_processes self') = map identity_of (ss_processes self)"
    and "reschedules frame \<Longrightarrow> sched_inv self' m' \<Longrightarrow> \<exists>i. ss_current self' = Some i \<and>
      (\<forall>j<length (ss_processes self). pr_state (ss_processes self' ! j) = Runnable \<longrightarrow>
        cyclic_distance (length (ss_processes self)) c i \<le> cyclic_distance (length (ss_processes self)) c j)"
proof -
  let ?e = "task_trap (pr_pid (ss_processes self ! c)) (is_ticks (m_irq m)) fault frame"
  obtain self1 frame1 where t: "trapped c self (fst ?e) self1" "frame1 = frame \<or> (\<exists>x. frame1 = set_rax frame x)"
      "?e = (fst ?e, if finished (fst ?e) then None else Some (context_of frame1))"
      "sched_handle_trap resume self frame fault m =
        (if reschedules frame then map_option (Pair True) (schedule resume (trap_vector frame = 32) self1 frame1 m) else Some (True, self1, frame1, m))"
    by (rule trap_cases [OF inv c v])
  have ready: "sched_ready c self m" "pr_state (ss_processes self ! c) = Runnable" "process_root (ss_processes self ! c) = Some (vw_cr3 (m_vm m))"
      "ts_privilege_stacks (is_tss (m_irq m)) ! 0 = kernel_stack_top (ss_processes self ! c)"
    using inv c by (auto simp: sched_inv_def sched_ready_def)
  note tr = trapped_ready [OF ready(1) t(1)] and tt = trapped_tasks [OF ready(1) t(1), of frame1 _ frame]
  have sl: "\<forall>t. fst ?e = Sleeping t \<longrightarrow> t \<le> U64_MAX" using task_trap_sleep by blast
  have abs1: "abs_task self1 frame1 j = (if j = c then ?e else abs_task self frame j)" for j
    using tt [OF sl, of j] t(3) by simp
  show thesis
  proof (cases "reschedules frame")
    case False
    have run: "fst ?e = Runnable" using False v by (auto simp: reschedules_def known_vector_def task_trap_def Let_def)
    have "sched_inv self1 m" using tr [OF sl] ready run by (auto simp: sched_inv_def)
    then show thesis using t(2,4) user False abs1 tr(2,3) [OF sl] trapped_identity [OF t(1)] by (intro that [of self1 frame1 m]) (auto simp: reschedules_def)
  next
    case True
    have user1: "from_user (hw_frame frame1)" using t(2) user by auto
    obtain r where r: "schedule resume (trap_vector frame = 32) self1 frame1 m = Some r" "scheduled resume c (saved c self1 frame1) self1 frame1 m r"
      by (rule schedule_result [OF tr(1) [OF sl] user1])
    obtain self' frame' m' where r': "r = (self', frame', m')" by (cases r)
    have act: "ss_active self1" "ss_current self1 = Some c" "c < length (ss_processes self1)"
      using tr(1) [OF sl] by (simp_all add: sched_ready_def)
    note tasks = scheduled_tasks [OF r(2) [unfolded r'] _ act(1,2)]
    have len: "length (saved c self1 frame1) = length (ss_processes self)" using tr(2) [OF sl] by (simp add: saved_def)
    have sch: "(\<exists>i. switched_to c i (map (wake (unat (is_ticks (m_irq m')))) (saved c self1 frame1)) self' frame') \<and> sched_inv self' m' \<or>
        kernel_resumed resume frame1 (map (wake (unat (is_ticks (m_irq m')))) (saved c self1 frame1)) self' frame' m'"
        "ss_kernel_root self' = ss_kernel_root self1" "vw_mem (m_vm m') = vw_mem (m_vm m)" "vw_pages (m_vm m') = vw_pages (m_vm m)"
        "is_handler (m_irq m') = is_handler (m_irq m)"
        "is_ticks (m_irq m') \<noteq> is_ticks (m_irq m) \<longrightarrow> (\<forall>p\<in>set (saved c self1 frame1). pr_state p \<noteq> Runnable)"
      using r(2) unfolding r' scheduled_def by (auto simp: Let_def)
    have fin: "all_done self' m' \<and> kernel_frame resume frame'" if "kernel_resumed resume frame1 ps self' frame' m'" for ps
      using that by (simp add: all_done_def kernel_frame_def kernel_resumed_def resume_kernel_def)
    have notinv: "\<not> sched_inv self' m'" if "kernel_resumed resume frame1 ps self' frame' m'" for ps
      using that by (simp add: kernel_resumed_def sched_inv_def sched_ready_def)
    show thesis
    proof (rule that)
      show "sched_handle_trap resume self frame fault m = Some (True, self', frame', m')" using t(4) True r(1) r' by simp
      show "\<forall>j<length (ss_processes self). abs_task self' frame' j =
        (if reschedules frame then wake_task (unat (is_ticks (m_irq m'))) else (\<lambda>t. t)) (if j = c then ?e else abs_task self frame j)"
        using tasks tr(2) [OF sl] True by (simp add: abs1)
      show "sched_inv self' m' \<or> all_done self' m' \<and> kernel_frame resume frame'" using sch(1) fin by blast
      show "length (ss_processes self') = length (ss_processes self)" using sch(1) len by (auto simp: switched_to_def kernel_resumed_def)
      show "is_ticks (m_irq m') = is_ticks (m_irq m)" if "trap_vector frame = 32"
      proof (rule ccontr)
        assume "is_ticks (m_irq m') \<noteq> is_ticks (m_irq m)"
        then have "pr_state (saved c self1 frame1 ! c) \<noteq> Runnable" using sch(6) act(3) by (simp add: saved_def)
        moreover have "pr_state (ss_processes self1 ! c) = Runnable" using tr(4) [OF sl] that by (simp add: task_trap_def Let_def)
        ultimately show False using act(3) by (simp add: saved_def finished_def)
      qed
      show "map identity_of (ss_processes self') = map identity_of (ss_processes self)"
        using scheduled_identity [OF r(2) [unfolded r']] trapped_identity [OF t(1)] by simp
      show "from_user (hw_frame frame')" if inv': "sched_inv self' m'"
      proof -
        obtain i where i: "switched_to c i (map (wake (unat (is_ticks (m_irq m')))) (saved c self1 frame1)) self' frame'"
          using sch(1) notinv inv' by blast
        then have "task_ok (saved c self1 frame1 ! i)" using saved_tasks [OF tr(1) [OF sl] user1] by (simp add: switched_to_def)
        then show ?thesis using i by (simp add: switched_to_def task_ok_def frame_of_def)
      qed
      show "\<exists>i. ss_current self' = Some i \<and> (\<forall>j<length (ss_processes self). pr_state (ss_processes self' ! j) = Runnable \<longrightarrow>
        cyclic_distance (length (ss_processes self)) c i \<le> cyclic_distance (length (ss_processes self)) c j)" if inv': "sched_inv self' m'"
      proof -
        obtain i where "switched_to c i (map (wake (unat (is_ticks (m_irq m')))) (saved c self1 frame1)) self' frame'" using sch(1) notinv inv' by blast
        then show ?thesis using len by (intro exI [of _ i]) (auto simp: switched_to_def nth_list_update)
      qed
    qed (use sch tr(3) [OF sl] in simp_all)
  qed
qed

section \<open>Properties\<close>

section \<open>A sample run\<close>

text \<open>Three processes, the second of which sleeps until tick 2, on a machine that runs the first one.\<close>

definition sample_task :: "u64 \<Rightarrow> nat \<Rightarrow> u64 \<Rightarrow> TaskState \<Rightarrow> Process" where
  "sample_task pid root stack state = \<lparr>pr_pid = pid,
     pr_space = Some \<lparr>ua_kernel_root_phys = 0, ua_root_phys = root, ua_code_phys = root + 0x4000, ua_stack_phys = root + 0x5000,
       ua_entry = USER_CODE_BASE, ua_stack_top = USER_STACK_TOP, ua_code_bytes = 1, ua_kernel_mapping_supervisor_only = True,
       ua_code_user_read_execute = True, ua_stack_user_read_write = True, ua_owned_pages = []\<rparr>,
     pr_kernel_stack = stack, pr_context = context_initial USER_CODE_BASE USER_STACK_TOP, pr_state = state,
     pr_dispatches = 1, pr_syscalls = 0\<rparr>"

definition sample_sched :: SchedulerState where
  "sample_sched = SchedulerState_new\<lparr>ss_active := True, ss_current := Some 0,
     ss_processes := [sample_task 1001 0x10000 0x100000 Runnable, sample_task 1002 0x20000 0x200000 (Sleeping 2),
       sample_task 1003 0x30000 0x300000 Runnable]\<rparr>"

definition sample_cpu :: Machine where
  "sample_cpu = \<lparr>m_vm = \<lparr>vw_mem = (\<lambda>_. 0), vw_pages = sample_pages 0, vw_cr3 = 0x10000\<rparr>,
     m_irq = interrupt_statics\<lparr>is_gdt_loaded := True, is_hardware_enabled := True, is_handler := Some scheduler_handle_user_trap,
       is_tss := TaskStateSegment_EMPTY\<lparr>ts_privilege_stacks := [0x110000, 0, 0]\<rparr>\<rparr>\<rparr>"

definition sample_trap :: "u64 \<Rightarrow> u64 \<Rightarrow> u64 \<Rightarrow> HwFrame" where
  "sample_trap vector number argument = frame_of (context_initial USER_CODE_BASE USER_STACK_TOP)
     \<lparr>hw_frame := (uc_frame (context_initial USER_CODE_BASE USER_STACK_TOP))
        \<lparr>tf_vector := vector, tf_rax := number, tf_rdi := argument\<rparr>\<rparr>"

lemma sample_sched_inv: "sched_inv sample_sched sample_cpu"
  by (simp add: sched_inv_def sched_ready_def sample_sched_def sample_cpu_def SchedulerState_new_def sample_task_def task_ok_def
      interrupt_statics_def TaskStateSegment_EMPTY_def context_initial_def from_user_def kernel_stack_top_def process_root_def U64_MAX_numeral)

lemma sample_trap_user [simp]: "from_user (hw_frame (sample_trap v n a))" "trap_vector (sample_trap v n a) = ucast v"
  by (simp_all add: sample_trap_def from_user_def context_initial_def frame_of_def trap_vector_def)

lemma sample_current: "ss_current sample_sched = Some 0" "length (ss_processes sample_sched) = 3"
  by (simp_all add: sample_sched_def)

section \<open>Properties\<close>

text \<open>
  C9: the scheduler is never lost. Whatever a running process does to enter the kernel, the trap handler
  returns - the idle loop included - and leaves either a runnable process current, with its root
  active and its kernel stack installed, or every process finished and the kernel resumed under its own
  root, without a recorded failure.
\<close>

theorem sched_trap_keeps_invariant:
  assumes "sched_inv self m" and "from_user (hw_frame frame)" and "known_vector (trap_vector frame)"
  shows "\<exists>self' frame' m'. sched_handle_trap resume self frame fault m = Some (True, self', frame', m') \<and>
    (sched_inv self' m' \<or> all_done self' m' \<and> kernel_frame resume frame') \<and>
    vw_mem (m_vm m') = vw_mem (m_vm m) \<and> vw_pages (m_vm m') = vw_pages (m_vm m)"
proof -
  obtain c where c: "ss_current self = Some c" using assms(1) by (auto simp: sched_inv_def sched_ready_def)
  show ?thesis by (rule trap_outcome [OF assms(1) c assms(2,3), of resume fault]) blast
qed

theorem sched_trap_keeps_invariant_witness:
  "\<exists>self' frame' m'. sched_handle_trap 0 sample_sched (sample_trap 128 SYS_SLEEP 5) 0 sample_cpu = Some (True, self', frame', m') \<and>
    (sched_inv self' m' \<or> all_done self' m' \<and> kernel_frame 0 frame')"
  using sched_trap_keeps_invariant [OF sample_sched_inv, of "sample_trap 128 SYS_SLEEP 5" 0 0] by (fastforce simp: known_vector_def)

text \<open>
  C8: a trap acts on the processes as on tasks of their own. The process that trapped gets exactly the
  result of its system call, fault or preemption; every other process keeps its state and its whole
  register context, except that sleepers whose tick has come become runnable; finished processes stay
  finished.
\<close>

theorem sched_trap_refines_tasks:
  assumes "sched_inv self m" and "ss_current self = Some c" and "from_user (hw_frame frame)" and "known_vector (trap_vector frame)"
    and "sched_handle_trap resume self frame fault m = Some (handled, self', frame', m')" and "j < length (ss_processes self)"
  shows "abs_task self' frame' j =
    (if reschedules frame then wake_task (unat (is_ticks (m_irq m'))) else (\<lambda>t. t))
      (if j = c then task_trap (pr_pid (ss_processes self ! c)) (is_ticks (m_irq m)) fault frame else abs_task self frame j)"
  by (rule trap_outcome [OF assms(1-4), of resume fault]) (use assms(5,6) in auto)

theorem sched_trap_refines_tasks_witness:
  "\<exists>self' frame' m'. sched_handle_trap 0 sample_sched (sample_trap 128 SYS_SLEEP 5) 0 sample_cpu = Some (True, self', frame', m') \<and>
    abs_task self' frame' 0 = wake_task (unat (is_ticks (m_irq m'))) (Sleeping 5, Some (context_of (sample_trap 128 0 5)))"
proof -
  have k: "known_vector (trap_vector (sample_trap 128 SYS_SLEEP 5))" by (simp add: known_vector_def)
  have t: "task_trap p (is_ticks (m_irq sample_cpu)) 0 (sample_trap 128 SYS_SLEEP 5) = (Sleeping 5, Some (context_of (sample_trap 128 0 5)))" for p
    by (simp add: task_trap_def sample_trap_def trap_vector_def frame_of_def set_rax_def sample_cpu_def interrupt_statics_def
        U64_MAX_numeral Let_def context_initial_def)
  have r: "reschedules (sample_trap 128 SYS_SLEEP 5)" by (simp add: reschedules_def sample_trap_def)
  show ?thesis
  proof (rule trap_outcome [OF sample_sched_inv sample_current(1) sample_trap_user(1) k, of 0 0])
    fix self' frame' m'
    assume h: "sched_handle_trap 0 sample_sched (sample_trap 128 SYS_SLEEP 5) 0 sample_cpu = Some (True, self', frame', m')"
    then show ?thesis
      using sched_trap_refines_tasks [OF sample_sched_inv sample_current(1) sample_trap_user(1) k h, of 0] r t sample_current(2) by simp
  qed
qed

text \<open>
  C36: a preemption by the timer never waits. The handler runs before the timer interrupt is acknowledged,
  so an idle loop entered from there would never see another tick; no tick passes during the handler.
\<close>

theorem sched_timer_never_idles:
  assumes "sched_inv self m" and "from_user (hw_frame frame)" and "trap_vector frame = TIMER_VECTOR"
    and "sched_handle_trap resume self frame fault m = Some (handled, self', frame', m')"
  shows "is_ticks (m_irq m') = is_ticks (m_irq m) \<and> sched_inv self' m'"
proof -
  obtain c where c: "ss_current self = Some c" "c < length (ss_processes self)" using assms(1) by (auto simp: sched_inv_def sched_ready_def)
  have v: "known_vector (trap_vector frame)" "reschedules frame" using assms(3) by (simp_all add: known_vector_def reschedules_def)
  show ?thesis
  proof (rule trap_outcome [OF assms(1) c(1) assms(2) v(1), of resume fault])
    fix s f m2
    assume h: "sched_handle_trap resume self frame fault m = Some (True, s, f, m2)"
      and t: "\<forall>j<length (ss_processes self). abs_task s f j = (if reschedules frame then wake_task (unat (is_ticks (m_irq m2))) else (\<lambda>t. t))
        (if j = c then task_trap (pr_pid (ss_processes self ! c)) (is_ticks (m_irq m)) fault frame else abs_task self frame j)"
      and i: "sched_inv s m2 \<or> all_done s m2 \<and> kernel_frame resume f" and l: "length (ss_processes s) = length (ss_processes self)"
      and k: "trap_vector frame = 32 \<Longrightarrow> is_ticks (m_irq m2) = is_ticks (m_irq m)"
    have "fst (abs_task s f c) = Runnable" using t c(2) assms(3) by (simp add: task_trap_def Let_def wake_task_def)
    then have "\<not> all_done s m2" using c(2) l by (auto simp: all_done_def abs_task_def Let_def finished_def dest!: bspec [OF _ nth_mem])
    then show ?thesis using h i k assms(3,4) by simp
  qed
qed

theorem sched_timer_never_idles_witness:
  "\<exists>self' frame' m'. sched_handle_trap 0 sample_sched (sample_trap 32 0 0) 0 sample_cpu = Some (True, self', frame', m') \<and>
    is_ticks (m_irq m') = 0 \<and> sched_inv self' m'"
proof -
  have k: "known_vector (trap_vector (sample_trap 32 0 0))" and v: "trap_vector (sample_trap 32 0 0) = TIMER_VECTOR"
    by (simp_all add: known_vector_def)
  show ?thesis
  proof (rule trap_outcome [OF sample_sched_inv sample_current(1) sample_trap_user(1) k, of 0 0])
    fix self' frame' m'
    assume h: "sched_handle_trap 0 sample_sched (sample_trap 32 0 0) 0 sample_cpu = Some (True, self', frame', m')"
    then show ?thesis
      using sched_timer_never_idles [OF sample_sched_inv sample_trap_user(1) v h]
      by (simp add: sample_cpu_def interrupt_statics_def)
  qed
qed

end
