(* ===== verification/TrapDispatch.thy ===== *)
theory TrapDispatch
  imports SchedulerTraps
begin

text \<open>
  The dispatcher of \<^verbatim>\<open>kernel/src/interrupts.rs\<close> (\<^verbatim>\<open>interrupt_dispatch\<close>) and runs of user code. A run is a sequence
  of traps; between two traps the process may change its registers at will and store to the pages
  that the processor lets it write.
\<close>

record KernelWorld =
  kw_machine :: Machine
  kw_process :: ProcessState
  kw_sched :: SchedulerState

text \<open>The addresses where the kernel resumes after the probe and after the scheduler.\<close>

record ResumePoints =
  rp_process :: u64
  rp_scheduler :: u64

definition call_handler :: "ResumePoints \<Rightarrow> HwFrame \<Rightarrow> u64 \<Rightarrow> KernelWorld \<Rightarrow> (bool \<times> HwFrame \<times> KernelWorld) option" where
  "call_handler rp frame fault_address w =
    (case is_handler (m_irq (kw_machine w)) of
       None \<Rightarrow> Some (False, frame, w)
     | Some process_handle_user_trap \<Rightarrow>
         map_option (\<lambda>(handled, state, frame, m). (handled, frame, w\<lparr>kw_process := state, kw_machine := m\<rparr>))
           (process_handle_trap (rp_process rp) (kw_process w) frame fault_address (kw_machine w))
     | Some scheduler_handle_user_trap \<Rightarrow>
         map_option (\<lambda>(handled, self, frame, m). (handled, frame, w\<lparr>kw_sched := self, kw_machine := m\<rparr>))
           (sched_handle_trap (rp_scheduler rp) (kw_sched w) frame fault_address (kw_machine w)))"

definition update_irq :: "(InterruptState \<Rightarrow> InterruptState) \<Rightarrow> KernelWorld \<Rightarrow> KernelWorld" where
  "update_irq f w = w\<lparr>kw_machine := (kw_machine w)\<lparr>m_irq := f (m_irq (kw_machine w))\<rparr>\<rparr>"

text \<open>\<open>None\<close> is a fatal exception: the code prints it and halts.\<close>

definition interrupt_dispatch :: "ResumePoints \<Rightarrow> u64 \<Rightarrow> HwFrame \<Rightarrow> KernelWorld \<Rightarrow> (u64 \<times> HwFrame \<times> KernelWorld) option" where
  "interrupt_dispatch rp cr2 frame w =
    (let vector = ucast (tf_vector (hw_frame frame)) :: u8
     in case (if tf_cs (hw_frame frame) AND 3 = 3 then call_handler rp frame (if vector = 14 then cr2 else 0) w
              else Some (False, frame, w)) of
          None \<Rightarrow> None
        | Some (user_handled, frame, w) \<Rightarrow>
            if vector = TIMER_VECTOR then
              Some (if user_handled \<and> tf_cs (hw_frame frame) AND 3 = 0 then 1 else 0, frame, update_irq record_timer_tick w)
            else if user_handled then Some (if tf_cs (hw_frame frame) AND 3 = 0 then 1 else 0, frame, w)
            else if vector = 3 then
              Some (0, frame, update_irq (\<lambda>irq. irq\<lparr>is_breakpoint_hits := is_breakpoint_hits irq + 1\<rparr>) w)
            else None)"

section \<open>Runs of user code\<close>

text \<open>A store by user code reaches memory only through a user-writable mapping; otherwise it faults.\<close>

definition user_store :: "VmWorld \<Rightarrow> nat \<times> u8 \<Rightarrow> VmWorld" where
  "user_store w vb =
    (case user_access (vw_mem w) (vw_cr3 w) (fst vb) of
       Some (p, True, _) \<Rightarrow> w\<lparr>vw_mem := (vw_mem w)(p + fst vb mod 4096 := snd vb)\<rparr>
     | _ \<Rightarrow> w)"

record UserTrap =
  ut_stores :: "(nat \<times> u8) list"
  ut_frame :: HwFrame
  ut_cr2 :: u64

definition user_stores :: "(nat \<times> u8) list \<Rightarrow> KernelWorld \<Rightarrow> KernelWorld" where
  "user_stores stores w = w\<lparr>kw_machine := (kw_machine w)\<lparr>m_vm := foldl user_store (m_vm (kw_machine w)) stores\<rparr>\<rparr>"

definition user_step :: "ResumePoints \<Rightarrow> UserTrap \<Rightarrow> KernelWorld \<Rightarrow> (u64 \<times> HwFrame \<times> KernelWorld) option" where
  "user_step rp t w = interrupt_dispatch rp (ut_cr2 t) (ut_frame t) (user_stores (ut_stores t) w)"

text \<open>
  From the entry into user mode to the resumption of the kernel, as the assembly stubs do it on a result
  other than 0. \<open>None\<close> when the kernel halts or the given traps end before it resumes.
\<close>

fun run_user :: "ResumePoints \<Rightarrow> UserTrap list \<Rightarrow> KernelWorld \<Rightarrow> KernelWorld option" where
  "run_user rp [] w = None"
| "run_user rp (t # ts) w =
    (case user_step rp t w of
       None \<Rightarrow> None
     | Some (r, frame, w) \<Rightarrow> if r \<noteq> 0 then Some w else run_user rp ts w)"

text \<open>The processes that are current after each trap of a run.\<close>

fun current_trace :: "ResumePoints \<Rightarrow> UserTrap list \<Rightarrow> KernelWorld \<Rightarrow> nat option list" where
  "current_trace rp [] w = []"
| "current_trace rp (t # ts) w =
    (case user_step rp t w of
       None \<Rightarrow> []
     | Some (r, frame, w) \<Rightarrow> ss_current (kw_sched w) # (if r \<noteq> 0 then [] else current_trace rp ts w))"

section \<open>User code cannot disturb the scheduler\<close>

lemma user_store_kept [simp]: "vw_pages (user_store w vb) = vw_pages w" "vw_cr3 (user_store w vb) = vw_cr3 w"
  by (auto simp: user_store_def split: option.splits prod.splits bool.splits)

lemma user_stores_kept [simp]: "vw_pages (foldl user_store w vs) = vw_pages w" "vw_cr3 (foldl user_store w vs) = vw_cr3 w"
  by (induction vs arbitrary: w) simp_all

lemma sched_inv_env:
  assumes "sched_inv self m" and "irq_kept (m_irq m) (m_irq m')" and "vw_cr3 (m_vm m') = vw_cr3 (m_vm m)"
  shows "sched_inv self m'"
  using assms by (auto simp: sched_inv_def sched_ready_def irq_kept_def)

definition sched_running :: "KernelWorld \<Rightarrow> bool" where
  "sched_running w \<longleftrightarrow> sched_inv (kw_sched w) (kw_machine w) \<and> is_handler (m_irq (kw_machine w)) = Some scheduler_handle_user_trap"

definition user_trap_ok :: "UserTrap \<Rightarrow> bool" where
  "user_trap_ok t \<longleftrightarrow> from_user (hw_frame (ut_frame t)) \<and> known_vector (trap_vector (ut_frame t))"

lemma running_stores: "sched_running w \<Longrightarrow> sched_running (user_stores vs w)" "kw_sched (user_stores vs w) = kw_sched w"
  "m_irq (kw_machine (user_stores vs w)) = m_irq (kw_machine w)"
  by (auto simp: sched_running_def user_stores_def intro: sched_inv_env)

lemma kernel_not_user: "from_user f \<Longrightarrow> tf_cs f AND 3 \<noteq> 0" "kernel_frame resume frame \<Longrightarrow> tf_cs (hw_frame frame) AND 3 = 0"
  by (auto simp: from_user_def kernel_frame_def)

text \<open>One trap of a run under the scheduler.\<close>

definition stepped :: "UserTrap \<Rightarrow> KernelWorld \<Rightarrow> u64 \<Rightarrow> KernelWorld \<Rightarrow> bool" where
  "stepped t w r w' \<longleftrightarrow> (r = 0 \<and> sched_running w' \<or> r = 1 \<and> all_done (kw_sched w') (kw_machine w')) \<and>
     length (ss_processes (kw_sched w')) = length (ss_processes (kw_sched w)) \<and>
     map identity_of (ss_processes (kw_sched w')) = map identity_of (ss_processes (kw_sched w)) \<and>
     ss_kernel_root (kw_sched w') = ss_kernel_root (kw_sched w) \<and>
     vw_mem (m_vm (kw_machine w')) = vw_mem (foldl user_store (m_vm (kw_machine w)) (ut_stores t)) \<and>
     vw_pages (m_vm (kw_machine w')) = vw_pages (m_vm (kw_machine w)) \<and> kw_process w' = kw_process w \<and>
     (\<forall>c j. ss_current (kw_sched w) = Some c \<longrightarrow> j < length (ss_processes (kw_sched w)) \<longrightarrow> j \<noteq> c \<longrightarrow>
        (\<exists>ticks. pr_state (ss_processes (kw_sched w') ! j) = fst (wake_task ticks (pr_state (ss_processes (kw_sched w) ! j), None)) \<or>
           pr_state (ss_processes (kw_sched w') ! j) = pr_state (ss_processes (kw_sched w) ! j))) \<and>
     (\<forall>c. ss_current (kw_sched w) = Some c \<longrightarrow> reschedules (ut_frame t) \<longrightarrow> r = 0 \<longrightarrow>
        (\<exists>i. ss_current (kw_sched w') = Some i \<and> (\<forall>j<length (ss_processes (kw_sched w)).
           pr_state (ss_processes (kw_sched w') ! j) = Runnable \<longrightarrow>
           cyclic_distance (length (ss_processes (kw_sched w))) c i \<le> cyclic_distance (length (ss_processes (kw_sched w))) c j)))"

lemma record_tick_kept: "irq_kept irq (record_timer_tick irq)" "is_handler (record_timer_tick irq) = is_handler irq"
  using idle_halt_kept(1) [of irq] by (simp_all add: idle_halt_def irq_kept_def)

lemma fst_abs_task: "fst (abs_task self frame j) = pr_state (ss_processes self ! j)"
  by (simp add: abs_task_def Let_def)

lemma fst_wake_task: "fst (wake_task ticks x) = fst (wake_task ticks (fst x, None))"
  by (cases "fst x") (simp_all add: wake_task_def)

lemma user_step_result:
  assumes run: "sched_running w" and ok: "user_trap_ok t"
  obtains r frame' w' where "user_step rp t w = Some (r, frame', w')" and "stepped t w r w'"
proof -
  let ?w = "user_stores (ut_stores t) w" and ?f = "ut_frame t"
  note st = running_stores
  have inv: "sched_inv (kw_sched w) (kw_machine ?w)" "is_handler (m_irq (kw_machine ?w)) = Some scheduler_handle_user_trap"
    using st(1) [OF run] st(2) by (simp_all add: sched_running_def)
  have user: "from_user (hw_frame ?f)" "known_vector (trap_vector ?f)" using ok by (simp_all add: user_trap_ok_def)
  obtain c where c: "ss_current (kw_sched w) = Some c" using inv(1) by (auto simp: sched_inv_def sched_ready_def)
  define fault where "fault = (if trap_vector ?f = 14 then ut_cr2 t else 0)"
  show thesis
  proof (rule trap_outcome [OF inv(1) c user, of "rp_scheduler rp" fault])
    fix self' frame' m'
    assume h: "sched_handle_trap (rp_scheduler rp) (kw_sched w) ?f fault (kw_machine ?w) = Some (True, self', frame', m')"
      and tasks: "\<forall>j<length (ss_processes (kw_sched w)). abs_task self' frame' j =
        (if reschedules ?f then wake_task (unat (is_ticks (m_irq m'))) else (\<lambda>t. t))
        (if j = c then task_trap (pr_pid (ss_processes (kw_sched w) ! c)) (is_ticks (m_irq (kw_machine ?w))) fault ?f else abs_task (kw_sched w) ?f j)"
      and out: "sched_inv self' m' \<or> all_done self' m' \<and> kernel_frame (rp_scheduler rp) frame'"
      and kept: "length (ss_processes self') = length (ss_processes (kw_sched w))" "ss_kernel_root self' = ss_kernel_root (kw_sched w)"
        "vw_mem (m_vm m') = vw_mem (m_vm (kw_machine ?w))" "vw_pages (m_vm m') = vw_pages (m_vm (kw_machine ?w))"
        "is_handler (m_irq m') = is_handler (m_irq (kw_machine ?w))"
      and ident: "map identity_of (ss_processes self') = map identity_of (ss_processes (kw_sched w))"
      and uf: "sched_inv self' m' \<Longrightarrow> from_user (hw_frame frame')"
      and near: "reschedules ?f \<Longrightarrow> sched_inv self' m' \<Longrightarrow> \<exists>i. ss_current self' = Some i \<and>
        (\<forall>j<length (ss_processes (kw_sched w)). pr_state (ss_processes self' ! j) = Runnable \<longrightarrow>
          cyclic_distance (length (ss_processes (kw_sched w))) c i \<le> cyclic_distance (length (ss_processes (kw_sched w))) c j)"
    let ?w1 = "?w\<lparr>kw_sched := self', kw_machine := m'\<rparr>"
    define w' where "w' = (if trap_vector ?f = 32 then update_irq record_timer_tick ?w1 else ?w1)"
    define r :: u64 where "r = (if tf_cs (hw_frame frame') AND 3 = 0 then 1 else 0)"
    have step: "user_step rp t w = Some (r, frame', w')"
      using h user(1) inv(2) st(2)
      by (simp add: user_step_def interrupt_dispatch_def call_handler_def Let_def from_user_def fault_def trap_vector_def w'_def r_def)
    have w': "kw_sched w' = self'" "m_vm (kw_machine w') = m_vm m'" "irq_kept (m_irq m') (m_irq (kw_machine w'))" "kw_process w' = kw_process w"
      using record_tick_kept by (auto simp: w'_def update_irq_def user_stores_def)
    have notboth: "\<not> (sched_inv self' m' \<and> all_done self' m')" by (auto simp: sched_inv_def sched_ready_def all_done_def)
    have "r = 0 \<and> sched_running w' \<or> r = 1 \<and> all_done (kw_sched w') (kw_machine w')"
      using out uf kernel_not_user kept(5) inv(2) w' sched_inv_env [of self' m' "kw_machine w'"]
      by (auto simp: sched_running_def r_def irq_kept_def all_done_def)
    moreover have "pr_state (ss_processes self' ! j) = fst (wake_task (unat (is_ticks (m_irq m'))) (pr_state (ss_processes (kw_sched w) ! j), None)) \<or>
        pr_state (ss_processes self' ! j) = pr_state (ss_processes (kw_sched w) ! j)" if "j < length (ss_processes (kw_sched w))" "j \<noteq> c" for j
    proof -
      have "abs_task self' frame' j = (if reschedules ?f then wake_task (unat (is_ticks (m_irq m'))) else (\<lambda>t. t)) (abs_task (kw_sched w) ?f j)"
        using tasks that by simp
      from arg_cong [OF this, of fst] show ?thesis
        by (cases "reschedules ?f") (simp_all add: fst_abs_task fst_wake_task [of _ "abs_task _ _ _"])
    qed
    moreover have "r = 0 \<Longrightarrow> sched_inv self' m'" using out kernel_not_user(2) by (auto simp: r_def)
    ultimately have "stepped t w r w'"
      using kept w' near c ident unfolding stepped_def by (auto simp: user_stores_def)
    then show thesis using step by (intro that)
  qed
qed

section \<open>Runs\<close>

lemma stepped_runnable:
  assumes "stepped t w r w'" and "ss_current (kw_sched w) = Some c" and "j \<noteq> c" and "runnable (kw_sched w) j"
  shows "runnable (kw_sched w') j" "r = 0" "sched_running w'"
proof -
  have j: "j < length (ss_processes (kw_sched w))" "pr_state (ss_processes (kw_sched w) ! j) = Runnable" using assms(4) by (simp_all add: runnable_def)
  then have "pr_state (ss_processes (kw_sched w') ! j) = Runnable"
    using assms(1-3) unfolding stepped_def wake_task_def by fastforce
  moreover have len: "length (ss_processes (kw_sched w')) = length (ss_processes (kw_sched w))" using assms(1) by (simp add: stepped_def)
  ultimately show run: "runnable (kw_sched w') j" using j(1) by (simp add: runnable_def)
  then have "\<not> all_done (kw_sched w') (kw_machine w')"
    using nth_mem [of j "ss_processes (kw_sched w')"] by (auto simp: runnable_def all_done_def finished_iff)
  then show "r = 0" "sched_running w'" using assms(1) by (auto simp: stepped_def)
qed

lemma waits_one_round:
  assumes "sched_running w" and "ss_current (kw_sched w) = Some c" and "j \<noteq> c" and "runnable (kw_sched w) j"
    and "\<forall>t\<in>set ts. user_trap_ok t \<and> reschedules (ut_frame t)"
    and "cyclic_distance (length (ss_processes (kw_sched w))) c j \<le> length ts"
  shows "Some j \<in> set (current_trace rp ts w)"
  using assms
proof (induction ts arbitrary: w c)
  case Nil
  then have "c < length (ss_processes (kw_sched w))" by (auto simp: sched_running_def sched_inv_def sched_ready_def)
  then show ?case using Nil cyclic_distance_range [of c "length (ss_processes (kw_sched w))" j] by (auto simp: runnable_def)
next
  case (Cons t ts)
  let ?n = "length (ss_processes (kw_sched w))"
  obtain r frame' w' where s: "user_step rp t w = Some (r, frame', w')" "stepped t w r w'"
    using user_step_result [of w t rp] Cons.prems(1,5) by auto
  note n = stepped_runnable [OF s(2) Cons.prems(2-4)]
  have len: "length (ss_processes (kw_sched w')) = ?n" using s(2) by (simp add: stepped_def)
  obtain i where i: "ss_current (kw_sched w') = Some i" "cyclic_distance ?n c i \<le> cyclic_distance ?n c j"
    using s(2) Cons.prems(2,5) n(1,2) len unfolding stepped_def by (fastforce simp: runnable_def)
  show ?case
  proof (cases "i = j")
    case True
    then show ?thesis using s(1) i(1) by simp
  next
    case False
    have "c < ?n" "i < ?n" "j < ?n"
      using Cons.prems(1,2,4) n(3) i(1) len by (auto simp: sched_running_def sched_inv_def sched_ready_def runnable_def)
    then have "cyclic_distance ?n i j < cyclic_distance ?n c j" using cyclic_closer i(2) False by metis
    then have "Some j \<in> set (current_trace rp ts w')"
      using Cons.IH [OF n(3) i(1) _ n(1)] False Cons.prems(5,6) len by simp
    then show ?thesis using s(1) n(2) by simp
  qed
qed

text \<open>
  C7: no process starves. Whatever the other processes do, a runnable process that is not current becomes
  current within as many scheduling traps as there are processes.
\<close>

theorem sched_bounded_waiting:
  assumes "sched_running w" and "runnable (kw_sched w) j" and "ss_current (kw_sched w) \<noteq> Some j"
    and "\<forall>t\<in>set ts. user_trap_ok t \<and> reschedules (ut_frame t)" and "length ts = length (ss_processes (kw_sched w))"
  shows "Some j \<in> set (current_trace rp ts w)"
proof -
  obtain c where c: "ss_current (kw_sched w) = Some c" "c < length (ss_processes (kw_sched w))"
    using assms(1) by (auto simp: sched_running_def sched_inv_def sched_ready_def)
  then have "cyclic_distance (length (ss_processes (kw_sched w))) c j \<le> length ts"
    using cyclic_distance_range [OF c(2), of j] assms(2,5) by (simp add: runnable_def)
  then show ?thesis using waits_one_round [OF assms(1) c(1) _ assms(2,4)] assms(3) c(1) by auto
qed

theorem sched_bounded_waiting_witness:
  "Some 2 \<in> set (current_trace \<lparr>rp_process = 0, rp_scheduler = 0\<rparr>
     (replicate 3 \<lparr>ut_stores = [(0, 1)], ut_frame = sample_trap 32 0 0, ut_cr2 = 0\<rparr>)
     \<lparr>kw_machine = sample_cpu, kw_process = ProcessState_new, kw_sched = sample_sched\<rparr>)"
  by (rule sched_bounded_waiting)
    (use sample_sched_inv sample_current in \<open>simp_all add: sched_running_def runnable_def user_trap_ok_def reschedules_def known_vector_def
       sample_cpu_def sample_sched_def sample_task_def\<close>)

end
