(* ===== verification/SchedulerGate.thy ===== *)
theory SchedulerGate
  imports TrapDispatch
begin

text \<open>
  \<^verbatim>\<open>kernel/src/scheduler.rs\<close>, part two: loading processes, running them, checking the outcome and giving
  their memory back; and the isolation probe of \<^verbatim>\<open>kernel/src/process.rs\<close>. The run of user code is an argument,
  the sequence of traps it makes; a run that never returns to the kernel is the result \<open>None\<close>.
\<close>

section \<open>Reports\<close>

record SchedulerReport =
  sr_process_count :: nat
  sr_timer_ticks :: nat
  sr_timer_preemptions :: nat
  sr_context_switches :: nat
  sr_minimum_dispatches :: nat
  sr_idle_halts :: nat
  sr_reclaimed_pages :: nat
  sr_faulted_pid :: u64
  sr_fault_address :: u64
  sr_fault_error :: u64

record SchedulerRunMetrics =
  rm_runtime_failure :: "RuntimeFailure option"
  rm_ticks_before :: nat
  rm_ticks_after :: nat
  rm_timer_preemptions :: nat
  rm_context_switches :: nat
  rm_idle_halts :: nat
  rm_minimum_dispatches :: nat
  rm_pages_before :: nat
  rm_pages_allocated :: nat

section \<open>Running the loaded processes\<close>

text \<open>The processes are left without their spaces up to the one whose destruction failed.\<close>

fun reclaim_processes :: "Process list \<Rightarrow> VmWorld \<Rightarrow> (SchedulerError + unit) \<times> Process list \<times> VmWorld" where
  "reclaim_processes [] w = (Ok (), [], w)"
| "reclaim_processes (process # rest) w =
    (case pr_space process of
       None \<Rightarrow> (case reclaim_processes rest w of
                  (Ok u, ps, w) \<Rightarrow> (Ok u, ps, w)
                | (Err e, ps, w) \<Rightarrow> (Err e, process # ps, w))
     | Some space \<Rightarrow>
         (case destroy_user_address_space space w of
            (Err e, w) \<Rightarrow> (Err (VirtualMemory e), process\<lparr>pr_space := None\<rparr> # rest, w)
          | (Ok _, w) \<Rightarrow>
              (case reclaim_processes rest w of
                 (Ok u, ps, w) \<Rightarrow> (Ok u, ps, w)
               | (Err e, ps, w) \<Rightarrow> (Err e, process\<lparr>pr_space := None\<rparr> # ps, w))))"

definition update_vm :: "VmWorld \<Rightarrow> KernelWorld \<Rightarrow> KernelWorld" where
  "update_vm vm w = w\<lparr>kw_machine := (kw_machine w)\<lparr>m_vm := vm\<rparr>\<rparr>"

definition start_scheduler :: "Process list \<Rightarrow> KernelWorld \<Rightarrow> SchedulerState" where
  "start_scheduler processes w = (kw_sched w)\<lparr>ss_active := True, ss_kernel_root := vw_cr3 (m_vm (kw_machine w)), ss_current := Some 0,
     ss_processes := processes[0 := (processes ! 0)\<lparr>pr_dispatches := 1\<rparr>], ss_timer_preemptions := 0, ss_context_switches := 0,
     ss_failure := None, ss_idle_halts := 0\<rparr>"

definition run_metrics :: "nat \<Rightarrow> nat \<Rightarrow> KernelWorld \<Rightarrow> SchedulerRunMetrics" where
  "run_metrics pages_before ticks_before w =
    (let s = kw_sched w in
     \<lparr>rm_runtime_failure = ss_failure s, rm_ticks_before = ticks_before, rm_ticks_after = unat (is_ticks (m_irq (kw_machine w))),
      rm_timer_preemptions = ss_timer_preemptions s, rm_context_switches = ss_context_switches s, rm_idle_halts = ss_idle_halts s,
      rm_minimum_dispatches = (if ss_processes s = [] then 0 else Min (set (map pr_dispatches (ss_processes s)))),
      rm_pages_before = pages_before, rm_pages_allocated = allocated_pages (vw_pages (m_vm (kw_machine w)))\<rparr>)"

text \<open>\<open>scheduler_enter_user\<close> loads the first root and enters user mode; the run follows.\<close>

definition run_loaded_processes :: "ResumePoints \<Rightarrow> UserTrap list \<Rightarrow> Process list \<Rightarrow> nat \<Rightarrow> KernelWorld \<Rightarrow>
    ((SchedulerError + Process list \<times> SchedulerRunMetrics) \<times> KernelWorld) option" where
  "run_loaded_processes rp traps processes pages_before w =
    (if \<not> is_hardware_enabled (m_irq (kw_machine w)) then
       (case reclaim_processes processes (m_vm (kw_machine w)) of
          (Err e, _, vm) \<Rightarrow> Some (Err e, update_vm vm w)
        | (Ok _, _, vm) \<Rightarrow> Some (Err TimerInactive, update_vm vm w))
     else if processes = [] then Some (Err ProgramImageInvalid, w)
     else
       let ticks_before = unat (is_ticks (m_irq (kw_machine w)));
           w = update_irq (register_user_trap_handler scheduler_handle_user_trap) (w\<lparr>kw_sched := start_scheduler processes w\<rparr>);
           first = ss_processes (kw_sched w) ! 0
       in case process_root first of
            None \<Rightarrow> None
          | Some first_root \<Rightarrow>
              let (installed, irq) = set_privilege_stack (kernel_stack_top first) (m_irq (kw_machine w));
                  w = update_irq (\<lambda>_. irq) w
              in if \<not> installed then
                   (case reclaim_processes (ss_processes (kw_sched w)) (m_vm (kw_machine w)) of
                      (Err e, ps, vm) \<Rightarrow> Some (Err e, update_vm vm (w\<lparr>kw_sched := (kw_sched w)\<lparr>ss_processes := ps\<rparr>\<rparr>))
                    | (Ok _, ps, vm) \<Rightarrow> Some (Err PrivilegeStackUnavailable,
                        update_vm vm (w\<lparr>kw_sched := (kw_sched w)\<lparr>ss_processes := ps, ss_active := False, ss_current := None\<rparr>\<rparr>)))
                 else
                   (case run_user rp traps (update_vm ((m_vm (kw_machine w))\<lparr>vw_cr3 := first_root\<rparr>) w) of
                      None \<Rightarrow> None
                    | Some w \<Rightarrow>
                        Some (Ok (ss_processes (kw_sched w), run_metrics pages_before ticks_before w),
                          w\<lparr>kw_sched := (kw_sched w)\<lparr>ss_processes := [], ss_active := False, ss_current := None\<rparr>\<rparr>)))"

section \<open>Judging the outcome\<close>

definition validate_outcomes :: "Process list \<Rightarrow> SchedulerRunMetrics \<Rightarrow> SchedulerError + unit" where
  "validate_outcomes processes metrics =
    (if rm_runtime_failure metrics \<noteq> None then Err RuntimeRootSwitch
     else
       (case find (\<lambda>process. pr_state process \<noteq> Exited (pr_pid process)) (take 1 processes @ take 1 (drop 2 processes)) of
          Some process \<Rightarrow> Err (ProcessDidNotExit (pr_pid process))
        | None \<Rightarrow>
            if length processes \<le> 1 then Err FaultIsolationFailed
            else if \<not> (case pr_state (processes ! 1) of
                 Faulted vector address error_code \<Rightarrow>
                   vector = 14 \<and> address = ISOLATION_FAULT_ADDRESS \<and> error_code AND 0x07 = 0x07
               | _ \<Rightarrow> False)
            then Err FaultIsolationFailed
            else if rm_ticks_after metrics \<le> rm_ticks_before metrics \<or> rm_timer_preemptions metrics < 2 then Err PreemptionNotObserved
            else if rm_idle_halts metrics = 0 then Err IdleNotObserved
            else
              (case find (\<lambda>process. pr_dispatches process < 2) processes of
                 Some process \<Rightarrow> Err (FairnessViolation (pr_pid process))
               | None \<Rightarrow> Ok ())))"

definition validate_persistent_outcome :: "Process list \<Rightarrow> SchedulerRunMetrics \<Rightarrow> SchedulerError + u64" where
  "validate_persistent_outcome processes metrics =
    (if rm_runtime_failure metrics \<noteq> None then Err RuntimeRootSwitch
     else
       (case processes of
          [] \<Rightarrow> Err (ProcessDidNotExit PERSISTENT_PID)
        | process # _ \<Rightarrow>
            (case pr_state process of
               Exited status \<Rightarrow>
                 if pr_pid process \<noteq> PERSISTENT_PID \<or> status \<noteq> PERSISTENT_PID then Err (ProcessDidNotExit (pr_pid process))
                 else if rm_ticks_after metrics \<le> rm_ticks_before metrics then Err PreemptionNotObserved
                 else if rm_idle_halts metrics = 0 then Err IdleNotObserved
                 else if pr_dispatches process < 2 then Err (FairnessViolation (pr_pid process))
                 else Ok status
             | _ \<Rightarrow> Err (ProcessDidNotExit (pr_pid process)))))"

section \<open>The preemption gate\<close>

text \<open>\<open>stacks\<close> are the kernel stacks the heap hands out, one per process.\<close>

fun load_processes :: "(u64 \<times> u64 \<times> bytes) list \<Rightarrow> Process list \<Rightarrow> VmWorld \<Rightarrow> (SchedulerError + Process list) \<times> VmWorld" where
  "load_processes [] processes w = (Ok processes, w)"
| "load_processes ((stack, pid, code) # rest) processes w =
    (case process_new stack pid code w of
       (Ok process, w) \<Rightarrow> load_processes rest (processes @ [process]) w
     | (Err error, w) \<Rightarrow>
         (case reclaim_processes processes w of
            (Err e, _, w) \<Rightarrow> (Err e, w)
          | (Ok _, _, w) \<Rightarrow> (Err error, w)))"

definition preemption_report :: "SchedulerRunMetrics \<Rightarrow> nat \<Rightarrow> u64 \<Rightarrow> u64 \<Rightarrow> SchedulerReport" where
  "preemption_report metrics pages_after address error_code =
    \<lparr>sr_process_count = 3, sr_timer_ticks = saturating_sub (rm_ticks_after metrics) (rm_ticks_before metrics),
     sr_timer_preemptions = rm_timer_preemptions metrics, sr_context_switches = rm_context_switches metrics,
     sr_minimum_dispatches = rm_minimum_dispatches metrics, sr_idle_halts = rm_idle_halts metrics,
     sr_reclaimed_pages = saturating_sub (rm_pages_allocated metrics) pages_after, sr_faulted_pid = FIRST_PID + 1,
     sr_fault_address = address, sr_fault_error = error_code\<rparr>"

definition finish_preemption_gate :: "Process list \<Rightarrow> SchedulerRunMetrics \<Rightarrow> KernelWorld \<Rightarrow> (SchedulerError + SchedulerReport) \<times> KernelWorld" where
  "finish_preemption_gate processes metrics w =
    (let validation = validate_outcomes processes metrics;
         fault = pr_state (processes ! 1)
     in case reclaim_processes processes (m_vm (kw_machine w)) of
          (Err e, _, vm) \<Rightarrow> (Err e, update_vm vm w)
        | (Ok _, _, vm) \<Rightarrow>
            let w = update_vm vm w;
                pages_after = allocated_pages (vw_pages vm)
            in if pages_after \<noteq> rm_pages_before metrics then (Err (PhysicalPageLeak (rm_pages_before metrics) pages_after), w)
               else
                 (case validation of
                    Err e \<Rightarrow> (Err e, w)
                  | Ok _ \<Rightarrow>
                      (case fault of
                         Faulted _ address error_code \<Rightarrow> (Ok (preemption_report metrics pages_after address error_code), w)
                       | _ \<Rightarrow> (Err FaultIsolationFailed, w))))"

text \<open>\<open>task_image\<close> checks the length of a built-in program; the images are arguments.\<close>

definition task_image :: "bytes \<Rightarrow> SchedulerError + bytes" where
  "task_image code = (if length code \<noteq> 0 \<and> length code \<le> PAGE_SIZE then Ok code else Err ProgramImageInvalid)"

definition run_preemption_gate :: "ResumePoints \<Rightarrow> UserTrap list \<Rightarrow> u64 \<times> u64 \<times> u64 \<Rightarrow> bytes \<Rightarrow> bytes \<Rightarrow> KernelWorld \<Rightarrow>
    ((SchedulerError + SchedulerReport) \<times> KernelWorld) option" where
  "run_preemption_gate rp traps stacks normal fault_code w =
    (let pages_before = allocated_pages (vw_pages (m_vm (kw_machine w)))
     in case try_bind (task_image normal) (\<lambda>normal. try_bind (task_image fault_code) (\<lambda>fault_code. Ok (normal, fault_code))) of
          Err e \<Rightarrow> Some (Err e, w)
        | Ok (normal_image, fault_image) \<Rightarrow>
            (case stacks of (s0, s1, s2) \<Rightarrow>
               (case load_processes [(s0, FIRST_PID, normal_image), (s1, FIRST_PID + 1, fault_image), (s2, FIRST_PID + 2, normal_image)] []
                    (m_vm (kw_machine w)) of
                  (Err e, vm) \<Rightarrow> Some (Err e, update_vm vm w)
                | (Ok processes, vm) \<Rightarrow>
                    map_option (\<lambda>r. (case r of
                        (Err e, w) \<Rightarrow> (Err e, w)
                      | (Ok (processes, metrics), w) \<Rightarrow> finish_preemption_gate processes metrics w))
                      (run_loaded_processes rp traps processes pages_before (update_vm vm w)))))"

end
