(* ===== verification/UefiLoader.thy ===== *)
theory UefiLoader
  imports UpdateFormat MemoryInit
begin

text \<open>
  \<^verbatim>\<open>boot/uefi-loader/src/main.rs\<close>: the choice of a signed kernel from the two system slots, with trust root,
  rollback floor and boot-state recovery, and the staging of its segments in memory. The firmware and
  the cryptography and ELF crates are not part of the repository; they are the records of functions
  \<open>Firmware\<close> and \<open>Crates\<close>, arguments of the definitions. Log lines are left out.
\<close>

section \<open>The environment\<close>

type_synonym boot_mem = "nat \<Rightarrow> u8"

datatype AllocateType = AnyPages | Address nat

datatype VariableError = VariableNotFound | VariableUnavailable

text \<open>
  Services of the firmware over its own state: files of the boot partition, non-volatile variables
  (read into a buffer of the given size) and pages of memory.
\<close>

record 's Firmware =
  fw_read :: "string \<Rightarrow> 's \<Rightarrow> bytes option \<times> 's"
  fw_write :: "string \<Rightarrow> bytes \<Rightarrow> 's \<Rightarrow> bool \<times> 's"
  fw_get_variable :: "string \<Rightarrow> nat \<Rightarrow> 's \<Rightarrow> VariableError + bytes"
  fw_set_variable :: "string \<Rightarrow> bytes \<Rightarrow> 's \<Rightarrow> bool \<times> 's"
  fw_allocate_pages :: "AllocateType \<Rightarrow> nat \<Rightarrow> 's \<Rightarrow> nat option \<times> 's"

text \<open>What the ELF crate reports of a file; the type of a header and the data of a section may be unreadable.\<close>

record ProgramHeader =
  ph_is_load :: bool
  ph_virtual_addr :: nat
  ph_physical_addr :: nat
  ph_offset :: nat
  ph_file_size :: nat
  ph_mem_size :: nat
  ph_read :: bool
  ph_write :: bool
  ph_execute :: bool

record Rela64 =
  rela_type :: u32
  rela_symbol :: u32
  rela_offset :: nat
  rela_addend :: u64

datatype SectionData = SectionRela64 "Rela64 list" | SectionRela32 | SectionOther

record ElfFile =
  elf_entry_point :: nat
  elf_ph_count :: nat
  elf_program_iter :: "ProgramHeader list"
  elf_section_data :: "SectionData option list"

record Crates =
  cr_sha256 :: "bytes \<Rightarrow> bytes"
  cr_key_from_bytes :: "bytes \<Rightarrow> bool"
  cr_verify_strict :: "bytes \<Rightarrow> bytes \<Rightarrow> bytes \<Rightarrow> bool"
  cr_elf_file :: "bytes \<Rightarrow> ElfFile option"

text \<open>The constant parts of a run of the loader: the firmware, the crates and the key embedded at build time.\<close>

record 's Platform =
  pf_firmware :: "'s Firmware"
  pf_crates :: Crates
  pf_embedded_hex :: "bytes option"

record 's Loader =
  ld_fw :: 's
  ld_mem :: boot_mem

definition read_path :: "'s Platform \<Rightarrow> string \<Rightarrow> 's Loader \<Rightarrow> bytes option \<times> 's Loader" where
  "read_path pf path s = (case fw_read (pf_firmware pf) path (ld_fw s) of (r, f) \<Rightarrow> (r, s\<lparr>ld_fw := f\<rparr>))"

definition write_path :: "'s Platform \<Rightarrow> string \<Rightarrow> bytes \<Rightarrow> 's Loader \<Rightarrow> bool \<times> 's Loader" where
  "write_path pf path bs s = (case fw_write (pf_firmware pf) path bs (ld_fw s) of (r, f) \<Rightarrow> (r, s\<lparr>ld_fw := f\<rparr>))"

definition get_variable :: "'s Platform \<Rightarrow> string \<Rightarrow> nat \<Rightarrow> 's Loader \<Rightarrow> VariableError + bytes" where
  "get_variable pf name capacity s = fw_get_variable (pf_firmware pf) name capacity (ld_fw s)"

definition set_variable :: "'s Platform \<Rightarrow> string \<Rightarrow> bytes \<Rightarrow> 's Loader \<Rightarrow> bool \<times> 's Loader" where
  "set_variable pf name bs s = (case fw_set_variable (pf_firmware pf) name bs (ld_fw s) of (r, f) \<Rightarrow> (r, s\<lparr>ld_fw := f\<rparr>))"

definition alloc_pages :: "'s Platform \<Rightarrow> AllocateType \<Rightarrow> nat \<Rightarrow> 's Loader \<Rightarrow> nat option \<times> 's Loader" where
  "alloc_pages pf ty n s = (case fw_allocate_pages (pf_firmware pf) ty n (ld_fw s) of (r, f) \<Rightarrow> (r, s\<lparr>ld_fw := f\<rparr>))"

section \<open>Constants, errors and trust roots\<close>

definition LOW_MEMORY_RESERVE_BYTES :: nat where
  [simp]: "LOW_MEMORY_RESERVE_BYTES = 1024 * 1024"

definition RUNTIME_HHDM_BASE :: nat where
  "RUNTIME_HHDM_BASE = 0xffff800000000000"

definition BOOTSTA0 :: string where
  "BOOTSTA0 = CHR 0x5C # ''BOOTSTA0.BIN''"

definition BOOTSTA1 :: string where
  "BOOTSTA1 = CHR 0x5C # ''BOOTSTA1.BIN''"

definition slot_kernel_path :: "SystemSlot \<Rightarrow> string" where
  "slot_kernel_path slot = CHR 0x5C # ''SYSTEM'' @ CHR 0x5C # slot_as_str slot @ CHR 0x5C # ''KERNEL.ELF''"

definition slot_manifest_path :: "SystemSlot \<Rightarrow> string" where
  "slot_manifest_path slot = CHR 0x5C # ''SYSTEM'' @ CHR 0x5C # slot_as_str slot @ CHR 0x5C # ''KERNEL.SIG''"

definition TRUST_ROOT_VARIABLE :: string where
  "TRUST_ROOT_VARIABLE = ''CodexOsTrustRoot''"

definition HIGHEST_RELEASE_VARIABLE :: string where
  "HIGHEST_RELEASE_VARIABLE = ''CodexOsHighestRelease''"

datatype KernelLoadError =
    FileSystemUnavailable
  | BootStateUnavailable
  | BootStateRepairFailed
  | BootStateGenerationExhausted
  | InvalidPath
  | KernelReadFailed
  | ManifestReadFailed
  | ManifestInvalid ManifestError
  | KernelSizeMismatch
  | KernelHashMismatch
  | TrustedKeyUnavailable
  | PersistedTrustRootInvalid
  | PersistedTrustRootUnavailable
  | NextTrustKeyInvalid
  | NextTrustKeyIdMismatch
  | TrustRootUpdateFailed
  | KeyIdMismatch
  | SignatureInvalid
  | RollbackStateUnavailable
  | RollbackDetected u64 u64
  | BootStateReleaseMismatch
  | BothSystemSlotsUnavailable
  | InvalidElf
  | StagingFailed

datatype TrustRootSource = Embedded | Persisted

record TrustRoot =
  tr_public_key :: bytes
  tr_key_id :: bytes
  tr_source :: TrustRootSource
  tr_activation_release_version :: u64

section \<open>Boot-state records\<close>

fun load_boot_states :: "'s Platform \<Rightarrow> string list \<Rightarrow> BootState option \<Rightarrow> 's Loader \<Rightarrow> BootState option \<times> 's Loader" where
  "load_boot_states pf [] selected s = (selected, s)"
| "load_boot_states pf (path # paths) selected s =
    (case read_path pf path s of
       (None, s) \<Rightarrow> load_boot_states pf paths selected s
     | (Some bytes, s) \<Rightarrow>
         (case BootState_decode bytes of
            Err _ \<Rightarrow> load_boot_states pf paths selected s
          | Ok state \<Rightarrow>
              load_boot_states pf paths
                (if (case selected of None \<Rightarrow> True | Some current \<Rightarrow> generation current < generation state)
                 then Some state else selected) s))"

definition load_boot_state :: "'s Platform \<Rightarrow> 's Loader \<Rightarrow> (KernelLoadError + BootState) \<times> 's Loader" where
  "load_boot_state pf s =
    (case load_boot_states pf [BOOTSTA0, BOOTSTA1] None s of (selected, s) \<Rightarrow> (ok_or selected BootStateUnavailable, s))"

definition write_verified_boot_state ::
    "'s Platform \<Rightarrow> string \<Rightarrow> BootState \<Rightarrow> 's Loader \<Rightarrow> (KernelLoadError + unit) \<times> 's Loader" where
  "write_verified_boot_state pf path state s =
    (case write_path pf path (BootState_encode state) s of
       (False, s) \<Rightarrow> (Err BootStateRepairFailed, s)
     | (True, s) \<Rightarrow>
         (case read_path pf path s of
            (None, s) \<Rightarrow> (Err BootStateRepairFailed, s)
          | (Some bytes, s) \<Rightarrow>
              if BootState_decode bytes \<noteq> Ok state then (Err BootStateRepairFailed, s) else (Ok (), s)))"

definition repair_boot_state ::
    "'s Platform \<Rightarrow> SystemSlot \<Rightarrow> u64 \<Rightarrow> 's Loader \<Rightarrow> (KernelLoadError + BootState) \<times> 's Loader" where
  "repair_boot_state pf slot release s =
    (let first = \<lparr>generation = 1, active_slot = slot, active_release_version = release\<rparr>;
         second = first\<lparr>generation := 2\<rparr>
     in st_bind (write_verified_boot_state pf BOOTSTA0 first s) (\<lambda>_ s.
        st_bind (write_verified_boot_state pf BOOTSTA1 second s) (\<lambda>_ s. (Ok second, s))))"

definition boot_state_path :: "u64 \<Rightarrow> string" where
  "boot_state_path gen = (if gen AND 1 = 1 then BOOTSTA0 else BOOTSTA1)"

definition persist_fallback_boot_state ::
    "'s Platform \<Rightarrow> BootState \<Rightarrow> SystemSlot \<Rightarrow> u64 \<Rightarrow> 's Loader \<Rightarrow> (KernelLoadError + BootState) \<times> 's Loader" where
  "persist_fallback_boot_state pf current fallback release s =
    (if generation current = - 1 then (Err BootStateGenerationExhausted, s)
     else
       let repaired = \<lparr>generation = generation current + 1, active_slot = fallback, active_release_version = release\<rparr>
       in st_bind (write_verified_boot_state pf (boot_state_path (generation repaired)) repaired s) (\<lambda>_ s. (Ok repaired, s)))"

section \<open>Trust root and rollback floor\<close>

definition hex_nibble :: "u8 \<Rightarrow> u8 option" where
  "hex_nibble byte =
    (if 0x30 \<le> byte \<and> byte \<le> 0x39 then Some (byte - 0x30)
     else if 0x61 \<le> byte \<and> byte \<le> 0x66 then Some (byte - 0x61 + 10)
     else if 0x41 \<le> byte \<and> byte \<le> 0x46 then Some (byte - 0x41 + 10)
     else None)"

fun hex_bytes :: "bytes \<Rightarrow> bytes option" where
  "hex_bytes (h # l # rest) =
    (case (hex_nibble h, hex_nibble l, hex_bytes rest) of
       (Some high, Some low, Some key) \<Rightarrow> Some ((push_bit 4 high OR low) # key)
     | _ \<Rightarrow> None)"
| "hex_bytes _ = Some []"

definition embedded_trusted_public_key :: "'s Platform \<Rightarrow> bytes option" where
  "embedded_trusted_public_key pf =
    (case pf_embedded_hex pf of
       None \<Rightarrow> None
     | Some encoded \<Rightarrow> if length encoded \<noteq> 64 then None else hex_bytes encoded)"

definition key_id_for_public_key :: "'s Platform \<Rightarrow> bytes \<Rightarrow> bytes" where
  "key_id_for_public_key pf key = take KEY_ID_BYTES (cr_sha256 (pf_crates pf) key)"

definition active_trust_root :: "'s Platform \<Rightarrow> 's Loader \<Rightarrow> KernelLoadError + TrustRoot" where
  "active_trust_root pf s =
    try_bind (ok_or (embedded_trusted_public_key pf) TrustedKeyUnavailable) (\<lambda>embedded_public_key.
      (case get_variable pf TRUST_ROOT_VARIABLE TRUST_ROOT_STATE_BYTES s of
         Ok value \<Rightarrow>
           if length value = TRUST_ROOT_STATE_BYTES then
             (case TrustRootState_decode value of
                Err _ \<Rightarrow> Err PersistedTrustRootInvalid
              | Ok state \<Rightarrow>
                  if \<not> cr_key_from_bytes (pf_crates pf) (public_key state) then Err PersistedTrustRootInvalid
                  else if key_id_for_public_key pf (public_key state) \<noteq> trust_key_id state then Err PersistedTrustRootInvalid
                  else Ok \<lparr>tr_public_key = public_key state, tr_key_id = trust_key_id state, tr_source = Persisted,
                           tr_activation_release_version = activation_release_version state\<rparr>)
           else Err PersistedTrustRootInvalid
       | Err VariableNotFound \<Rightarrow>
           Ok \<lparr>tr_public_key = embedded_public_key, tr_key_id = key_id_for_public_key pf embedded_public_key,
               tr_source = Embedded, tr_activation_release_version = 0\<rparr>
       | Err VariableUnavailable \<Rightarrow> Err PersistedTrustRootUnavailable))"

definition verify_kernel_release ::
    "'s Platform \<Rightarrow> bytes \<Rightarrow> UpdateManifest \<Rightarrow> 's Loader \<Rightarrow> KernelLoadError + TrustRoot" where
  "verify_kernel_release pf image_bytes manifest s =
    (if length image_bytes \<noteq> unat (kernel_size manifest) then Err KernelSizeMismatch
     else if cr_sha256 (pf_crates pf) image_bytes \<noteq> UpdateManifest.kernel_sha256 manifest then Err KernelHashMismatch
     else try_bind (active_trust_root pf s) (\<lambda>trust_root.
       if \<not> cr_key_from_bytes (pf_crates pf) (tr_public_key trust_root) then Err TrustedKeyUnavailable
       else if tr_key_id trust_root \<noteq> key_id manifest then Err KeyIdMismatch
       else if \<not> cr_verify_strict (pf_crates pf) (tr_public_key trust_root)
                (take (signing_len manifest) (signing_bytes manifest)) (signature manifest)
       then Err SignatureInvalid
       else Ok trust_root))"

definition apply_trust_root_update ::
    "'s Platform \<Rightarrow> UpdateManifest \<Rightarrow> TrustRoot \<Rightarrow> 's Loader \<Rightarrow> (KernelLoadError + unit) \<times> 's Loader" where
  "apply_trust_root_update pf manifest current s =
    (if \<not> has_next_trust_key manifest then (Ok (), s)
     else
       let next_public_key = next_trust_public_key manifest;
           next_key_id = key_id_for_public_key pf next_public_key
       in if \<not> cr_key_from_bytes (pf_crates pf) next_public_key then (Err NextTrustKeyInvalid, s)
          else if next_key_id \<noteq> next_trust_key_id manifest then (Err NextTrustKeyIdMismatch, s)
          else if next_public_key = tr_public_key current then (Ok (), s)
          else
            let state = \<lparr>activation_release_version = release_version manifest, public_key = next_public_key, trust_key_id = next_key_id\<rparr>
            in (case set_variable pf TRUST_ROOT_VARIABLE (TrustRootState_encode state) s of
                  (False, s) \<Rightarrow> (Err TrustRootUpdateFailed, s)
                | (True, s) \<Rightarrow>
                    (case get_variable pf TRUST_ROOT_VARIABLE TRUST_ROOT_STATE_BYTES s of
                       Err _ \<Rightarrow> (Err TrustRootUpdateFailed, s)
                     | Ok value \<Rightarrow>
                         if length value \<noteq> TRUST_ROOT_STATE_BYTES \<or> TrustRootState_decode value \<noteq> Ok state
                         then (Err TrustRootUpdateFailed, s) else (Ok (), s))))"

definition highest_release :: "'s Platform \<Rightarrow> 's Loader \<Rightarrow> KernelLoadError + u64" where
  "highest_release pf s =
    (case get_variable pf HIGHEST_RELEASE_VARIABLE 8 s of
       Ok value \<Rightarrow> if length value = 8 then Ok (from_le value) else Err RollbackStateUnavailable
     | Err VariableNotFound \<Rightarrow> Ok 0
     | Err VariableUnavailable \<Rightarrow> Err RollbackStateUnavailable)"

definition enforce_release_version :: "'s Platform \<Rightarrow> u64 \<Rightarrow> 's Loader \<Rightarrow> (KernelLoadError + unit) \<times> 's Loader" where
  "enforce_release_version pf candidate s =
    st_bind (highest_release pf s, s) (\<lambda>minimum s.
      if candidate < minimum then (Err (RollbackDetected candidate minimum), s)
      else if minimum < candidate then
        (case set_variable pf HIGHEST_RELEASE_VARIABLE (to_le 8 candidate) s of
           (True, s) \<Rightarrow> (Ok (), s)
         | (False, s) \<Rightarrow> (Err RollbackStateUnavailable, s))
      else (Ok (), s))"

section \<open>Staging the kernel image\<close>

definition encode_segment_flags :: "ProgramHeader \<Rightarrow> u32" where
  "encode_segment_flags header =
    (let encoded = 0;
         encoded = (if ph_read header then encoded OR KERNEL_SEGMENT_FLAG_READ else encoded);
         encoded = (if ph_write header then encoded OR KERNEL_SEGMENT_FLAG_WRITE else encoded)
     in if ph_execute header then encoded OR KERNEL_SEGMENT_FLAG_EXECUTE else encoded)"

definition header_segment :: "ProgramHeader \<Rightarrow> KernelImageSegment" where
  "header_segment header = \<lparr>virtual_address = ph_virtual_addr header, physical_address = ph_physical_addr header,
     file_offset = ph_offset header, file_size = ph_file_size header, memory_size = ph_mem_size header,
     ks_flags = encode_segment_flags header, load_address = 0, ks_load_page_count = 0\<rparr>"

fun collect_segments :: "ProgramHeader list \<Rightarrow> KernelImageInfo \<Rightarrow> KernelImageInfo" where
  "collect_segments [] info = info"
| "collect_segments (header # rest) info =
    (if \<not> ph_is_load header then collect_segments rest info
     else
       let info = (if load_segment_count info < MAX_KERNEL_IMAGE_SEGMENTS then
                     info\<lparr>ki_segments := (ki_segments info)[load_segment_count info := header_segment header],
                          load_segment_count := load_segment_count info + 1\<rparr>
                   else info)
       in collect_segments rest (info\<lparr>load_segment_total := load_segment_total info + 1\<rparr>))"

definition parse_kernel_image :: "'s Platform \<Rightarrow> bytes \<Rightarrow> KernelImageInfo option" where
  "parse_kernel_image pf bytes =
    map_option (\<lambda>elf. collect_segments (elf_program_iter elf)
      (KernelImageInfo_EMPTY\<lparr>image_size := length bytes, entry_point := elf_entry_point elf, program_header_count := elf_ph_count elf\<rparr>))
    (cr_elf_file (pf_crates pf) bytes)"

definition image_span :: "KernelImageSegment list \<Rightarrow> nat \<times> nat" where
  "image_span segs =
    foldl (\<lambda>(image_base, image_end) segment.
        if memory_size segment = 0 then (image_base, image_end)
        else (min image_base (align_down (virtual_address segment)),
              max image_end (align_up_page (saturating_add (virtual_address segment) (memory_size segment)))))
      (U64_MAX, 0) segs"

definition allocate_kernel_pages :: "'s Platform \<Rightarrow> nat \<Rightarrow> nat \<Rightarrow> 's Loader \<Rightarrow> nat option \<times> 's Loader" where
  "allocate_kernel_pages pf base page_count s =
    (if LOW_MEMORY_RESERVE_BYTES \<le> base then
       (case alloc_pages pf (Address base) page_count s of
          (Some pages, s) \<Rightarrow> (Some pages, s)
        | (None, s) \<Rightarrow> alloc_pages pf AnyPages page_count s)
     else alloc_pages pf AnyPages page_count s)"

definition write_mem :: "boot_mem \<Rightarrow> nat \<Rightarrow> bytes \<Rightarrow> boot_mem" where
  "write_mem m a bs = (\<lambda>x. if a \<le> x \<and> x < a + length bs then bs ! (x - a) else m x)"

fun copy_segments :: "bytes \<Rightarrow> nat \<Rightarrow> nat \<Rightarrow> KernelImageSegment list \<Rightarrow> boot_mem \<Rightarrow> bool \<times> boot_mem" where
  "copy_segments bytes image_base allocation [] m = (True, m)"
| "copy_segments bytes image_base allocation (segment # rest) m =
    (if memory_size segment = 0 then copy_segments bytes image_base allocation rest m
     else
       (case checked_add (file_offset segment) (file_size segment) of
          None \<Rightarrow> (False, m)
        | Some file_end \<Rightarrow>
            if length bytes < file_end then (False, m)
            else
              let destination_offset = saturating_sub (virtual_address segment) image_base
              in copy_segments bytes image_base allocation rest
                   (write_mem m (allocation + destination_offset) (slice bytes (file_offset segment) file_end))))"

definition R_X86_64_RELATIVE :: u32 where
  [simp]: "R_X86_64_RELATIVE = 8"

fun apply_relocations :: "nat \<Rightarrow> nat \<Rightarrow> nat \<Rightarrow> Rela64 list \<Rightarrow> nat \<Rightarrow> boot_mem \<Rightarrow> nat option \<times> boot_mem" where
  "apply_relocations image_base allocation span [] applied m = (Some applied, m)"
| "apply_relocations image_base allocation span (relocation # rest) applied m =
    (if rela_type relocation \<noteq> R_X86_64_RELATIVE \<or> rela_symbol relocation \<noteq> 0 then (None, m)
     else
       (case checked_sub (rela_offset relocation) image_base of
          None \<Rightarrow> (None, m)
        | Some target_offset \<Rightarrow>
            (case checked_add target_offset 8 of
               None \<Rightarrow> (None, m)
             | Some target_end \<Rightarrow>
                 if span < target_end then (None, m)
                 else
                   (case checked_add allocation target_offset of
                      None \<Rightarrow> (None, m)
                    | Some target_address \<Rightarrow>
                        let m = write_mem m target_address (to_le 8 (rela_addend relocation))
                        in (case checked_add applied 1 of
                              None \<Rightarrow> (None, m)
                            | Some applied \<Rightarrow> apply_relocations image_base allocation span rest applied m)))))"

fun relocate_sections :: "nat \<Rightarrow> nat \<Rightarrow> nat \<Rightarrow> SectionData option list \<Rightarrow> nat \<Rightarrow> boot_mem \<Rightarrow> nat option \<times> boot_mem" where
  "relocate_sections image_base allocation span [] applied m = (Some applied, m)"
| "relocate_sections image_base allocation span (section_data # rest) applied m =
    (case section_data of
       None \<Rightarrow> (None, m)
     | Some (SectionRela64 relocations) \<Rightarrow>
         (case apply_relocations image_base allocation span relocations applied m of
            (None, m) \<Rightarrow> (None, m)
          | (Some applied, m) \<Rightarrow> relocate_sections image_base allocation span rest applied m)
     | Some SectionRela32 \<Rightarrow> (None, m)
     | Some SectionOther \<Rightarrow> relocate_sections image_base allocation span rest applied m)"

definition apply_kernel_relocations ::
    "'s Platform \<Rightarrow> bytes \<Rightarrow> nat \<Rightarrow> nat \<Rightarrow> nat \<Rightarrow> boot_mem \<Rightarrow> nat option \<times> boot_mem" where
  "apply_kernel_relocations pf bytes image_base allocation span m =
    (case cr_elf_file (pf_crates pf) bytes of
       None \<Rightarrow> (None, m)
     | Some elf \<Rightarrow> relocate_sections image_base allocation span (elf_section_data elf) 0 m)"

definition stage_kernel_image_span ::
    "'s Platform \<Rightarrow> KernelImageSegment list \<Rightarrow> bytes \<Rightarrow> 's Loader \<Rightarrow> (nat \<times> nat \<times> nat \<times> nat) option \<times> 's Loader" where
  "stage_kernel_image_span pf segs bytes s =
    (case image_span segs of (image_base, image_end) \<Rightarrow>
       if image_base = U64_MAX \<or> image_end \<le> image_base then (None, s)
       else
         let span_bytes = saturating_sub image_end image_base;
             page_count = span_bytes div PAGE_SIZE
         in (case allocate_kernel_pages pf image_base page_count s of
               (None, s) \<Rightarrow> (None, s)
             | (Some allocation, s) \<Rightarrow>
                 let m = write_mem (ld_mem s) allocation (replicate span_bytes 0)
                 in (case copy_segments bytes image_base allocation segs m of
                       (False, m) \<Rightarrow> (None, s\<lparr>ld_mem := m\<rparr>)
                     | (True, m) \<Rightarrow>
                         (case apply_kernel_relocations pf bytes image_base allocation span_bytes m of
                            (None, m) \<Rightarrow> (None, s\<lparr>ld_mem := m\<rparr>)
                          | (Some count, m) \<Rightarrow> (Some (image_base, page_count, allocation, count), s\<lparr>ld_mem := m\<rparr>)))))"

definition stage_segment :: "nat \<Rightarrow> nat \<Rightarrow> KernelImageSegment \<Rightarrow> KernelImageSegment" where
  "stage_segment image_base allocation segment =
    (let segment_base = align_down (virtual_address segment);
         page_offset = saturating_sub (virtual_address segment) segment_base;
         span_bytes = align_up_page (saturating_add page_offset (memory_size segment))
     in segment\<lparr>load_address := saturating_add allocation (saturating_sub (virtual_address segment) image_base),
                ks_load_page_count := span_bytes div PAGE_SIZE\<rparr>)"

definition stage_kernel_segments :: "'s Platform \<Rightarrow> KernelImageInfo \<Rightarrow> bytes \<Rightarrow> 's Loader \<Rightarrow> bool \<times> KernelImageInfo \<times> 's Loader" where
  "stage_kernel_segments pf info bytes s =
    (case stage_kernel_image_span pf (segments info) bytes s of
       (None, s) \<Rightarrow> (False, info, s)
     | (Some (image_base, image_page_count, allocation, relocations), s) \<Rightarrow>
         (True,
          info\<lparr>load_base := allocation, ki_load_page_count := image_page_count,
               loaded_entry_point := saturating_add allocation (saturating_sub (entry_point info) image_base),
               relocation_count := relocations,
               ki_segments := map (stage_segment image_base allocation) (take (load_segment_count info) (ki_segments info))
                 @ drop (load_segment_count info) (ki_segments info),
               loaded_segment_count := loaded_segment_count info + load_segment_count info\<rparr>, s))"

section \<open>Choosing a system slot\<close>

definition mark_verified :: "UpdateManifest \<Rightarrow> KernelImageInfo \<Rightarrow> KernelImageInfo" where
  "mark_verified manifest info =
    KernelImageInfo.kernel_sha256_update (\<lambda>_. UpdateManifest.kernel_sha256 manifest)
      (info\<lparr>ki_release_version := unat (release_version manifest), signature_verified := 1, verification_key_id := key_id manifest\<rparr>)"

definition load_system_slot :: "'s Platform \<Rightarrow> SystemSlot \<Rightarrow> 's Loader \<Rightarrow> (KernelLoadError + KernelImageInfo) \<times> 's Loader" where
  "load_system_slot pf slot s =
    (case read_path pf (slot_kernel_path slot) s of
       (None, s) \<Rightarrow> (Err KernelReadFailed, s)
     | (Some bytes, s) \<Rightarrow>
         (case read_path pf (slot_manifest_path slot) s of
            (None, s) \<Rightarrow> (Err ManifestReadFailed, s)
          | (Some manifest_bytes, s) \<Rightarrow>
              st_bind (map_err ManifestInvalid (manifest_decode manifest_bytes, s)) (\<lambda>manifest s.
              st_bind (verify_kernel_release pf bytes manifest s, s) (\<lambda>trust_root s.
              st_bind (ok_or (parse_kernel_image pf bytes) InvalidElf, s) (\<lambda>info s.
                (case stage_kernel_segments pf (mark_verified manifest info) bytes s of
                   (False, _, s) \<Rightarrow> (Err StagingFailed, s)
                 | (True, info, s) \<Rightarrow>
                     st_bind (enforce_release_version pf (release_version manifest) s) (\<lambda>_ s.
                     st_bind (apply_trust_root_update pf manifest trust_root s) (\<lambda>_ s. (Ok info, s)))))))))"

fun scan_slots :: "'s Platform \<Rightarrow> SystemSlot list \<Rightarrow> (SystemSlot \<times> KernelImageInfo) option \<Rightarrow> 's Loader \<Rightarrow>
    (SystemSlot \<times> KernelImageInfo) option \<times> 's Loader" where
  "scan_slots pf [] selected s = (selected, s)"
| "scan_slots pf (slot # rest) selected s =
    (case load_system_slot pf slot s of
       (Err _, s) \<Rightarrow> scan_slots pf rest selected s
     | (Ok info, s) \<Rightarrow>
         scan_slots pf rest
           (if (case selected of None \<Rightarrow> True | Some (_, current) \<Rightarrow> ki_release_version current < ki_release_version info)
            then Some (slot, info) else selected) s)"

definition recover_from_missing_boot_state :: "'s Platform \<Rightarrow> 's Loader \<Rightarrow> (KernelLoadError + KernelImageInfo) \<times> 's Loader" where
  "recover_from_missing_boot_state pf s =
    (case scan_slots pf [A, B] None s of
       (None, s) \<Rightarrow> (Err BothSystemSlotsUnavailable, s)
     | (Some (slot, info), s) \<Rightarrow>
         let info = info\<lparr>system_slot := slot_as_u8 slot, recovery_fallback := 1\<rparr>
         in (case repair_boot_state pf slot (word_of_nat (ki_release_version info)) s of
               (Ok state, s) \<Rightarrow> (Ok (info\<lparr>boot_state_generation := unat (generation state)\<rparr>), s)
             | (Err _, s) \<Rightarrow> (Ok (info\<lparr>boot_state_generation := 0\<rparr>), s)))"

definition load_fallback :: "'s Platform \<Rightarrow> BootState \<Rightarrow> 's Loader \<Rightarrow> (KernelLoadError + KernelImageInfo) \<times> 's Loader" where
  "load_fallback pf state s =
    (let fallback = slot_other (active_slot state)
     in case load_system_slot pf fallback s of
          (Err _, s) \<Rightarrow> (Err BothSystemSlotsUnavailable, s)
        | (Ok info, s) \<Rightarrow>
            let info = info\<lparr>system_slot := slot_as_u8 fallback, recovery_fallback := 1\<rparr>
            in (case persist_fallback_boot_state pf state fallback (word_of_nat (ki_release_version info)) s of
                  (Ok repaired, s) \<Rightarrow> (Ok (info\<lparr>boot_state_generation := unat (generation repaired)\<rparr>), s)
                | (Err _, s) \<Rightarrow> (Ok (info\<lparr>boot_state_generation := unat (generation state)\<rparr>), s)))"

text \<open>\<open>opened\<close> tells whether the firmware gives access to the partition of the loader.\<close>

definition load_kernel_image :: "'s Platform \<Rightarrow> bool \<Rightarrow> 's Loader \<Rightarrow> (KernelLoadError + KernelImageInfo) \<times> 's Loader" where
  "load_kernel_image pf opened s =
    (if \<not> opened then (Err FileSystemUnavailable, s)
     else
       (case load_boot_state pf s of
          (Err BootStateUnavailable, s) \<Rightarrow> recover_from_missing_boot_state pf s
        | (Err error, s) \<Rightarrow> (Err error, s)
        | (Ok state, s) \<Rightarrow>
            (case load_system_slot pf (active_slot state) s of
               (Ok info, s) \<Rightarrow>
                 if ki_release_version info = unat (active_release_version state)
                 then (Ok (info\<lparr>boot_state_generation := unat (generation state), system_slot := slot_as_u8 (active_slot state)\<rparr>), s)
                 else load_fallback pf state s
             | (Err _, s) \<Rightarrow> load_fallback pf state s)))"

end
