(* ===== verification/LoaderTrust.thy ===== *)
theory LoaderTrust
  imports UefiLoader
begin

text \<open>
  What the loader may start, over any number of boots with an adversary who rewrites the disk in between:
  only kernels signed along the chain of trust, and never a release below one that was started before.
\<close>

section \<open>Laws of the firmware\<close>

text \<open>
  The documented behaviour of the variable services that the loader relies on: files and pages do not
  touch variables, setting a variable is atomic, and a value is returned if the buffer can hold it.
\<close>

definition variables_kept :: "'s Firmware \<Rightarrow> 's \<Rightarrow> 's \<Rightarrow> bool" where
  "variables_kept fw f f' \<longleftrightarrow> (\<forall>n c. fw_get_variable fw n c f' = fw_get_variable fw n c f)"

definition firmware_ok :: "'s Firmware \<Rightarrow> bool" where
  "firmware_ok fw \<longleftrightarrow>
    (\<forall>p f. variables_kept fw f (snd (fw_read fw p f))) \<and>
    (\<forall>p bs f. variables_kept fw f (snd (fw_write fw p bs f))) \<and>
    (\<forall>ty n f. variables_kept fw f (snd (fw_allocate_pages fw ty n f))) \<and>
    (\<forall>n v f f'. fw_set_variable fw n v f = (False, f') \<longrightarrow> variables_kept fw f f') \<and>
    (\<forall>n v f f'. v \<noteq> [] \<longrightarrow> fw_set_variable fw n v f = (True, f') \<longrightarrow>
       (\<forall>m c. fw_get_variable fw m c f' =
          (if m = n then if length v \<le> c then Ok v else Err VariableUnavailable else fw_get_variable fw m c f)))"

definition variables :: "'s Platform \<Rightarrow> 's Loader \<Rightarrow> string \<Rightarrow> nat \<Rightarrow> VariableError + bytes" where
  "variables pf s = (\<lambda>n c. get_variable pf n c s)"

lemma variables_mem [simp]: "variables pf (s\<lparr>ld_mem := m\<rparr>) = variables pf s"
  by (simp add: variables_def get_variable_def)

lemma files_keep_variables:
  assumes "firmware_ok (pf_firmware pf)"
  shows "read_path pf p s = (r, s') \<Longrightarrow> variables pf s' = variables pf s"
    and "write_path pf p bs s = (b, s') \<Longrightarrow> variables pf s' = variables pf s"
    and "alloc_pages pf ty n s = (a, s') \<Longrightarrow> variables pf s' = variables pf s"
proof -
  have "variables_kept (pf_firmware pf) (ld_fw s) (snd (fw_read (pf_firmware pf) p (ld_fw s)))"
    "variables_kept (pf_firmware pf) (ld_fw s) (snd (fw_write (pf_firmware pf) p bs (ld_fw s)))"
    "variables_kept (pf_firmware pf) (ld_fw s) (snd (fw_allocate_pages (pf_firmware pf) ty n (ld_fw s)))"
    using assms by (auto simp: firmware_ok_def)
  then show "read_path pf p s = (r, s') \<Longrightarrow> variables pf s' = variables pf s"
    and "write_path pf p bs s = (b, s') \<Longrightarrow> variables pf s' = variables pf s"
    and "alloc_pages pf ty n s = (a, s') \<Longrightarrow> variables pf s' = variables pf s"
    by (auto simp: read_path_def write_path_def alloc_pages_def variables_def variables_kept_def get_variable_def split: prod.splits)
qed

lemma stage_keeps_variables:
  assumes "firmware_ok (pf_firmware pf)" and "stage_kernel_segments pf info bs s = (b, info', s')"
  shows "variables pf s' = variables pf s"
proof -
  have "variables pf s' = variables pf s" if "allocate_kernel_pages pf base n s = (r, s')" for base n r s'
    using that by (auto simp: allocate_kernel_pages_def split: if_splits prod.splits option.splits dest!: files_keep_variables(3) [OF assms(1)])
  then have "variables pf s' = variables pf s" if "stage_kernel_image_span pf segs bs s = (r, s')" for segs r s'
    using that by (auto simp: stage_kernel_image_span_def Let_def split: if_splits prod.splits option.splits bool.splits)
  then show ?thesis using assms(2) by (auto simp: stage_kernel_segments_def split: prod.splits option.splits)
qed

lemma load_boot_states_keep:
  assumes "firmware_ok (pf_firmware pf)" and "load_boot_states pf paths sel s = (r, s')"
  shows "variables pf s' = variables pf s"
  using assms(2)
proof (induction paths arbitrary: sel s)
  case (Cons path paths)
  obtain r1 s1 where read: "read_path pf path s = (r1, s1)" by fastforce
  show ?case
    using Cons.IH [of _ s1] Cons.prems read files_keep_variables(1) [OF assms(1) read] by (auto split: option.splits sum.splits)
qed simp

lemma write_boot_state_keeps:
  assumes "firmware_ok (pf_firmware pf)" and "write_verified_boot_state pf path st s = (r, s')"
  shows "variables pf s' = variables pf s"
proof -
  obtain b s1 where w: "write_path pf path (BootState_encode st) s = (b, s1)" by fastforce
  obtain v s2 where rd: "read_path pf path s1 = (v, s2)" by fastforce
  from assms(2) w rd have "s' = s1 \<or> s' = s2" by (auto simp: write_verified_boot_state_def split: bool.splits option.splits if_splits)
  then show ?thesis using files_keep_variables [OF assms(1)] w rd by metis
qed

lemma repair_keeps:
  assumes "firmware_ok (pf_firmware pf)" and "repair_boot_state pf slot v s = (r, s')"
  shows "variables pf s' = variables pf s"
  using assms(2) by (auto simp: repair_boot_state_def Let_def elim!: st_bind_cases dest!: write_boot_state_keeps [OF assms(1)])

lemma persist_keeps:
  assumes "firmware_ok (pf_firmware pf)" and "persist_fallback_boot_state pf st slot v s = (r, s')"
  shows "variables pf s' = variables pf s"
  using assms(2)
  by (auto simp: persist_fallback_boot_state_def Let_def split: if_splits elim!: st_bind_cases dest!: write_boot_state_keeps [OF assms(1)])

section \<open>What depends on the variables\<close>

lemma highest_release_vars: "variables pf s' HIGHEST_RELEASE_VARIABLE 8 = variables pf s HIGHEST_RELEASE_VARIABLE 8 \<Longrightarrow>
    highest_release pf s' = highest_release pf s"
  by (simp add: highest_release_def variables_def)

lemma trust_root_vars: "variables pf s' TRUST_ROOT_VARIABLE 80 = variables pf s TRUST_ROOT_VARIABLE 80 \<Longrightarrow>
    active_trust_root pf s' = active_trust_root pf s"
  by (simp add: active_trust_root_def variables_def)

lemma highest_release_set: "variables pf s HIGHEST_RELEASE_VARIABLE 8 = Ok (to_le 8 c) \<Longrightarrow> highest_release pf s = Ok c"
  by (simp add: highest_release_def variables_def)

lemma set_variable_effect:
  assumes "firmware_ok (pf_firmware pf)" and "set_variable pf n v s = (b, s')" and "v \<noteq> []"
  shows "if b then variables pf s' = (variables pf s)(n := \<lambda>c. if length v \<le> c then Ok v else Err VariableUnavailable)
    else variables pf s' = variables pf s"
proof -
  obtain f where f: "fw_set_variable (pf_firmware pf) n v (ld_fw s) = (b, f)" "s' = s\<lparr>ld_fw := f\<rparr>"
    using assms(2) by (auto simp: set_variable_def split: prod.splits)
  have "b \<Longrightarrow> \<forall>m c. fw_get_variable (pf_firmware pf) m c f =
      (if m = n then if length v \<le> c then Ok v else Err VariableUnavailable else fw_get_variable (pf_firmware pf) m c (ld_fw s))"
    "\<not> b \<Longrightarrow> variables_kept (pf_firmware pf) (ld_fw s) f"
    using assms(1,3) f(1) unfolding firmware_ok_def by (metis (full_types))+
  then show ?thesis using f(2) by (cases b) (auto simp: variables_def get_variable_def variables_kept_def fun_eq_iff)
qed

lemma variable_names [simp]: "HIGHEST_RELEASE_VARIABLE \<noteq> TRUST_ROOT_VARIABLE"
  by (simp add: HIGHEST_RELEASE_VARIABLE_def TRUST_ROOT_VARIABLE_def)

lemmas variable_names_sym [simp] = variable_names [symmetric]

lemma enforce_result:
  assumes "firmware_ok (pf_firmware pf)" and "enforce_release_version pf c s = (r, s')"
  shows "active_trust_root pf s' = active_trust_root pf s"
    and "r = Err e \<Longrightarrow> variables pf s' = variables pf s"
    and "r = Ok u \<Longrightarrow> \<exists>m. highest_release pf s = Ok m \<and> m \<le> c \<and> highest_release pf s' = Ok c"
proof -
  have le: "length (to_le 8 c) = 8" "to_le 8 c \<noteq> []" "from_le (to_le 8 c) = c" by (simp_all add: from_le_to_le flip: length_greater_0_conv)
  have "(variables pf s' = variables pf s \<and> (r = Ok () \<longrightarrow> highest_release pf s = Ok c)) \<or>
      r = Ok () \<and> (\<exists>m. highest_release pf s = Ok m \<and> m \<le> c) \<and>
      variables pf s' = (variables pf s)(HIGHEST_RELEASE_VARIABLE := \<lambda>cap. if 8 \<le> cap then Ok (to_le 8 c) else Err VariableUnavailable)"
    using assms(2) set_variable_effect [OF assms(1) _ le(2)] le(1)
    by (auto simp: enforce_release_version_def elim!: st_bind_cases split: if_splits prod.splits bool.splits)
  then show "active_trust_root pf s' = active_trust_root pf s"
    and "r = Err e \<Longrightarrow> variables pf s' = variables pf s"
    and "r = Ok u \<Longrightarrow> \<exists>m. highest_release pf s = Ok m \<and> m \<le> c \<and> highest_release pf s' = Ok c"
    using highest_release_set [of pf s' c] highest_release_vars [of pf s' s] variable_names by (auto intro!: trust_root_vars)
qed

section \<open>The chain of trust\<close>

definition signs :: "'s Platform \<Rightarrow> bytes \<Rightarrow> UpdateManifest \<Rightarrow> bool" where
  "signs pf key manifest \<longleftrightarrow>
     cr_verify_strict (pf_crates pf) key (take (signing_len manifest) (signing_bytes manifest)) (signature manifest)"

text \<open>The keys that a root can come to trust: each is named in a manifest signed by a trusted one.\<close>

inductive trust_chain :: "'s Platform \<Rightarrow> bytes \<Rightarrow> bytes \<Rightarrow> bool" for pf root where
  trust_root: "trust_chain pf root root"
| trust_transition: "trust_chain pf root key \<Longrightarrow> signs pf key manifest \<Longrightarrow> has_next_trust_key manifest \<Longrightarrow>
    trust_chain pf root (next_trust_public_key manifest)"

lemma trust_chain_trans: "trust_chain pf key key' \<Longrightarrow> trust_chain pf root key \<Longrightarrow> trust_chain pf root key'"
  by (induction rule: trust_chain.induct) (auto intro: trust_chain.intros)

lemma manifest_next_key:
  assumes "manifest_decode b = Ok m" and "has_next_trust_key m" and "k = next_trust_key_id m"
  shows "TrustRootState_decode (TrustRootState_encode \<lparr>activation_release_version = release_version m,
      public_key = next_trust_public_key m, trust_key_id = k\<rparr>) =
    Ok \<lparr>activation_release_version = release_version m, public_key = next_trust_public_key m, trust_key_id = k\<rparr>" (is "_ = Ok ?t")
proof -
  have f: "format_version m = 2" using assms(1,2) by (auto simp: manifest_decode_def has_next_trust_key_def Let_def split: if_splits)
  note v = manifest_decode_tail(3) [OF assms(1) f]
  have wf: "wf_trust_root ?t" using v assms(3) by (simp add: valid_manifest_def wf_manifest_def wf_trust_root_def)
  then show ?thesis using v assms(2,3)
    by (simp add: TrustRootState_decode_Ok TrustRootState_encode_layout valid_manifest_def has_next_trust_key_def)
qed

lemma length_encoded_trust: "length (TrustRootState_encode t) = 80"
  by (simp add: TrustRootState_encode_def Let_def put_u32_def put_u64_def)

lemma apply_result:
  assumes ok: "firmware_ok (pf_firmware pf)" and d: "manifest_decode b = Ok m"
    and upd: "apply_trust_root_update pf m current s = (r, s')"
  shows "highest_release pf s' = highest_release pf s"
    and "active_trust_root pf s' = Ok root' \<Longrightarrow>
      active_trust_root pf s = Ok root' \<or> has_next_trust_key m \<and> tr_public_key root' = next_trust_public_key m"
proof -
  let ?k = "key_id_for_public_key pf (next_trust_public_key m)"
  let ?t = "\<lparr>activation_release_version = release_version m, public_key = next_trust_public_key m, trust_key_id = ?k\<rparr>"
  have ne: "TrustRootState_encode ?t \<noteq> []" using length_encoded_trust [of ?t] by auto
  obtain bb s1 where set: "set_variable pf TRUST_ROOT_VARIABLE (TrustRootState_encode ?t) s = (bb, s1)" by fastforce
  have cases: "s' = s \<or> has_next_trust_key m \<and> ?k = next_trust_key_id m \<and> s' = s1"
    using upd set by (auto simp: apply_trust_root_update_def Let_def split: if_splits bool.splits sum.splits)
  note eff = set_variable_effect [OF ok set ne]
  have "variables pf s' HIGHEST_RELEASE_VARIABLE 8 = variables pf s HIGHEST_RELEASE_VARIABLE 8"
    using cases eff by (auto split: if_splits)
  then show "highest_release pf s' = highest_release pf s" by (rule highest_release_vars)
  show "active_trust_root pf s = Ok root' \<or> has_next_trust_key m \<and> tr_public_key root' = next_trust_public_key m"
    if root: "active_trust_root pf s' = Ok root'"
  proof (cases "variables pf s' TRUST_ROOT_VARIABLE 80 = variables pf s TRUST_ROOT_VARIABLE 80")
    case True
    then show ?thesis using trust_root_vars root by metis
  next
    case False
    then have c: "has_next_trust_key m" "?k = next_trust_key_id m" "s' = s1" "bb" using cases eff by (auto split: if_splits)
    have "get_variable pf TRUST_ROOT_VARIABLE 80 s' = Ok (TrustRootState_encode ?t)"
      using eff c(3,4) length_encoded_trust [of ?t] by (simp add: variables_def fun_eq_iff)
    then show ?thesis using root manifest_next_key [OF d c(1,2)] c(1) length_encoded_trust [of ?t]
      by (auto simp: active_trust_root_def split: if_splits)
  qed
qed

section \<open>One boot\<close>

definition trusted :: "'s Platform \<Rightarrow> 's Loader \<Rightarrow> bytes \<Rightarrow> bool" where
  "trusted pf s key \<longleftrightarrow> (\<exists>root. active_trust_root pf s = Ok root \<and> trust_chain pf (tr_public_key root) key)"

text \<open>The floor never falls and trust is only passed on.\<close>

definition advanced :: "'s Platform \<Rightarrow> 's Loader \<Rightarrow> 's Loader \<Rightarrow> bool" where
  "advanced pf s s' \<longleftrightarrow>
    (case highest_release pf s of
       Ok m \<Rightarrow> \<exists>m'. highest_release pf s' = Ok m' \<and> m \<le> m'
     | Err _ \<Rightarrow> \<exists>e. highest_release pf s' = Err e) \<and>
    (\<forall>key. trusted pf s' key \<longrightarrow> trusted pf s key)"

text \<open>The image is the staged form of a file with the size and hash of a manifest that the key signs.\<close>

definition genuine :: "'s Platform \<Rightarrow> bytes \<Rightarrow> UpdateManifest \<Rightarrow> KernelImageInfo \<Rightarrow> bool" where
  "genuine pf key manifest info \<longleftrightarrow> signs pf key manifest \<and> ki_release_version info = unat (release_version manifest) \<and>
     (\<exists>elf parsed staged s1 s2 g slot r.
       cr_sha256 (pf_crates pf) elf = UpdateManifest.kernel_sha256 manifest \<and> length elf = unat (kernel_size manifest) \<and>
       parse_kernel_image pf elf = Some parsed \<and>
       stage_kernel_segments pf (mark_verified manifest parsed) elf s1 = (True, staged, s2) \<and>
       info = staged\<lparr>system_slot := slot, recovery_fallback := r, boot_state_generation := g\<rparr>)"

definition accepted :: "'s Platform \<Rightarrow> 's Loader \<Rightarrow> 's Loader \<Rightarrow> KernelImageInfo \<Rightarrow> bool" where
  "accepted pf s s' info \<longleftrightarrow> (\<exists>key manifest m m'. trusted pf s key \<and> genuine pf key manifest info \<and>
     highest_release pf s = Ok m \<and> m \<le> release_version manifest \<and>
     highest_release pf s' = Ok m' \<and> release_version manifest \<le> m')"

lemma advanced_refl: "variables pf s' = variables pf s \<Longrightarrow> advanced pf s s'"
  using highest_release_vars [of pf s' s] trust_root_vars [of pf s' s]
  by (auto simp: advanced_def trusted_def split: sum.splits)

lemma advanced_trans: "advanced pf s t \<Longrightarrow> advanced pf t u \<Longrightarrow> advanced pf s u"
  by (fastforce simp: advanced_def split: sum.splits)

lemma accepted_later:
  assumes "accepted pf t u info" and "advanced pf s t" and "advanced pf u v"
  shows "accepted pf s v info"
proof -
  have "\<exists>m'. highest_release pf s = Ok m' \<and> m' \<le> m" if "highest_release pf t = Ok m" for m
    using that assms(2) by (auto simp: advanced_def split: sum.splits)
  moreover have "\<exists>m'. highest_release pf v = Ok m' \<and> m \<le> m'" if "highest_release pf u = Ok m" for m
    using that assms(3) by (auto simp: advanced_def split: sum.splits)
  moreover have "trusted pf t key \<Longrightarrow> trusted pf s key" for key using assms(2) by (simp add: advanced_def)
  ultimately show ?thesis using assms(1) unfolding accepted_def by (meson order.trans)
qed

lemma genuine_marked:
  assumes "genuine pf key manifest info"
  shows "genuine pf key manifest (info\<lparr>system_slot := slot, recovery_fallback := r, boot_state_generation := g\<rparr>)"
proof -
  have "(staged\<lparr>system_slot := slot', recovery_fallback := r', boot_state_generation := g'\<rparr>)
      \<lparr>system_slot := slot, recovery_fallback := r, boot_state_generation := g\<rparr> =
    staged\<lparr>system_slot := slot, recovery_fallback := r, boot_state_generation := g\<rparr>" for staged :: KernelImageInfo and g' slot' r'
    by (cases staged) simp
  moreover have "ki_release_version (info\<lparr>system_slot := slot, recovery_fallback := r, boot_state_generation := g\<rparr>) = ki_release_version info"
    by (cases info) simp
  ultimately show ?thesis using assms unfolding genuine_def by metis
qed

lemma accepted_marked: "accepted pf s s' info \<Longrightarrow>
    accepted pf s s' (info\<lparr>system_slot := slot, recovery_fallback := r, boot_state_generation := g\<rparr>)"
  using genuine_marked unfolding accepted_def by metis

lemma verify_result:
  "verify_kernel_release pf elf manifest s = Ok root \<Longrightarrow>
    active_trust_root pf s = Ok root \<and> signs pf (tr_public_key root) manifest \<and>
    cr_sha256 (pf_crates pf) elf = UpdateManifest.kernel_sha256 manifest \<and> length elf = unat (kernel_size manifest)"
  by (auto simp: verify_kernel_release_def signs_def split: if_splits)

lemma staged_release:
  "stage_kernel_segments pf (mark_verified manifest info) bs s = (b, staged, s') \<Longrightarrow> ki_release_version staged = unat (release_version manifest)"
  by (auto simp: stage_kernel_segments_def mark_verified_def split: prod.splits option.splits)

text \<open>The last two steps of \<open>load_system_slot\<close>, on a verified and staged image.\<close>

lemma release_result:
  assumes ok: "firmware_ok (pf_firmware pf)" and d: "manifest_decode mb = Ok manifest"
    and root: "active_trust_root pf s = Ok root" and sig: "signs pf (tr_public_key root) manifest"
    and enf: "enforce_release_version pf (release_version manifest) s = (Ok u, s1)"
    and app: "apply_trust_root_update pf manifest root s1 = (r, s')"
  shows "advanced pf s s'" and "\<exists>m. highest_release pf s = Ok m \<and> m \<le> release_version manifest \<and> highest_release pf s' = Ok (release_version manifest)"
proof -
  show fl: "\<exists>m. highest_release pf s = Ok m \<and> m \<le> release_version manifest \<and> highest_release pf s' = Ok (release_version manifest)"
    using enforce_result(3) [OF ok enf refl] apply_result(1) [OF ok d app] by auto
  have "trusted pf s key" if tr: "trusted pf s' key" for key
  proof -
    obtain root' where r': "active_trust_root pf s' = Ok root'" "trust_chain pf (tr_public_key root') key" using tr by (auto simp: trusted_def)
    from apply_result(2) [OF ok d app r'(1)] have "trust_chain pf (tr_public_key root) (tr_public_key root')"
      using enforce_result(1) [OF ok enf] root trust_transition [OF trust_root sig] by (auto intro: trust_root)
    then show ?thesis using root trust_chain_trans r'(2) by (auto simp: trusted_def)
  qed
  then show "advanced pf s s'" using fl by (auto simp: advanced_def)
qed

lemma load_system_slot_cases:
  assumes ok: "firmware_ok (pf_firmware pf)" and load: "load_system_slot pf slot s = (r, s')"
  obtains e where "variables pf s' = variables pf s" and "r = Err e"
  | elf mb manifest root parsed staged s2 s3 s4 r5 s1 where "manifest_decode mb = Ok manifest"
      and "verify_kernel_release pf elf manifest s2 = Ok root" and "parse_kernel_image pf elf = Some parsed"
      and "stage_kernel_segments pf (mark_verified manifest parsed) elf s2 = (True, staged, s3)"
      and "enforce_release_version pf (release_version manifest) s3 = (Ok (), s4)"
      and "apply_trust_root_update pf manifest root s4 = (r5, s')" and "r = (case r5 of Err e \<Rightarrow> Err e | Ok _ \<Rightarrow> Ok staged)"
      and "variables pf s2 = variables pf s" and "variables pf s3 = variables pf s"
      and "read_path pf (slot_kernel_path slot) s = (Some elf, s1)" and "read_path pf (slot_manifest_path slot) s1 = (Some mb, s2)"
proof -
  obtain rk s1 where k: "read_path pf (slot_kernel_path slot) s = (rk, s1)" by fastforce
  obtain rm s2 where m: "read_path pf (slot_manifest_path slot) s1 = (rm, s2)" by fastforce
  have v: "variables pf s1 = variables pf s" "variables pf s2 = variables pf s"
    using files_keep_variables(1) [OF ok k] files_keep_variables(1) [OF ok m] by simp_all
  show thesis
    using load k m v stage_keeps_variables [OF ok] enforce_result(2) [OF ok] that
    unfolding load_system_slot_def
    by (fastforce elim!: st_bind_cases map_err_cases split: option.splits prod.splits bool.splits)
qed

definition boot_result :: "'s Platform \<Rightarrow> 's Loader \<Rightarrow> (KernelLoadError + KernelImageInfo) \<Rightarrow> 's Loader \<Rightarrow> bool" where
  "boot_result pf s r s' \<longleftrightarrow> advanced pf s s' \<and> (\<forall>info. r = Ok info \<longrightarrow> accepted pf s s' info)"

lemma boot_result_Err: "advanced pf s s' \<Longrightarrow> boot_result pf s (Err e) s'"
  by (simp add: boot_result_def)

lemma boot_result_later: "boot_result pf t r u \<Longrightarrow> advanced pf s t \<Longrightarrow> advanced pf u v \<Longrightarrow> boot_result pf s r v"
  unfolding boot_result_def by (metis accepted_later advanced_trans)

lemma boot_result_marked: "boot_result pf s (Ok i) s' \<Longrightarrow> variables pf s'' = variables pf s' \<Longrightarrow>
    boot_result pf s (Ok (i\<lparr>system_slot := slot, recovery_fallback := r, boot_state_generation := g\<rparr>)) s''"
  using accepted_later [OF accepted_marked, of pf s s' i s s''] advanced_refl advanced_trans unfolding boot_result_def by (metis Inr_inject)

lemma load_system_slot_result:
  assumes ok: "firmware_ok (pf_firmware pf)" and load: "load_system_slot pf slot s = (r, s')"
  shows "boot_result pf s r s'"
proof (cases rule: load_system_slot_cases [OF ok load])
  case 1
  then show ?thesis by (auto simp: boot_result_def intro: advanced_refl)
next
  case (2 elf mb manifest root parsed staged s2 s3 s4 r5 s1)
  have eq: "highest_release pf s3 = highest_release pf s" "active_trust_root pf s3 = active_trust_root pf s" "active_trust_root pf s2 = active_trust_root pf s"
    using 2(8,9) by (auto intro!: highest_release_vars trust_root_vars)
  note ver = verify_result [OF 2(2), unfolded eq]
  note rel = release_result [OF ok 2(1) _ _ 2(5,6), unfolded eq]
  have "trusted pf s (tr_public_key root)" using ver by (auto simp: trusted_def intro: trust_chain.intros)
  moreover have "genuine pf (tr_public_key root) manifest staged" unfolding genuine_def
  proof (intro conjI exI)
    show "staged = staged\<lparr>system_slot := system_slot staged, recovery_fallback := recovery_fallback staged,
      boot_state_generation := boot_state_generation staged\<rparr>" by simp
  qed (use ver 2(3,4) staged_release [OF 2(4)] in auto)
  moreover have "advanced pf s s3" using 2(9) by (rule advanced_refl)
  ultimately show ?thesis using rel ver 2(7) advanced_trans unfolding boot_result_def accepted_def by (auto split: sum.splits)
qed

lemma scan_slots_result:
  assumes ok: "firmware_ok (pf_firmware pf)"
  shows "scan_slots pf slots sel s = (r, s') \<Longrightarrow> advanced pf s0 s \<Longrightarrow> (\<forall>slot i. sel = Some (slot, i) \<longrightarrow> boot_result pf s0 (Ok i) s) \<Longrightarrow>
    advanced pf s0 s' \<and> (\<forall>slot i. r = Some (slot, i) \<longrightarrow> boot_result pf s0 (Ok i) s')"
proof (induction slots arbitrary: sel s)
  case (Cons slot slots)
  obtain r1 s1 where load: "load_system_slot pf slot s = (r1, s1)" by fastforce
  note res = load_system_slot_result [OF ok load]
  then have adv: "advanced pf s0 s1" using Cons.prems(2) advanced_trans unfolding boot_result_def by blast
  have keep: "boot_result pf s0 (Ok i) s1" if "sel = Some (sl, i)" for sl i
    using Cons.prems(3) that boot_result_later advanced_refl res unfolding boot_result_def [of pf s] by blast
  have new: "boot_result pf s0 r1 s1" using boot_result_later [OF res Cons.prems(2) advanced_refl [OF refl]] .
  show ?case
  proof (cases r1)
    case (Inl e)
    then show ?thesis using Cons.IH [of sel s1] Cons.prems(1) load adv keep by simp
  next
    case (Inr i)
    obtain sel' where "scan_slots pf slots sel' s1 = (r, s')" and "sel' = Some (slot, i) \<or> sel' = sel"
      using Cons.prems(1) load Inr by (auto split: if_splits)
    then show ?thesis using Cons.IH [of sel' s1] adv keep new Inr by blast
  qed
qed simp

lemma recover_result:
  assumes ok: "firmware_ok (pf_firmware pf)" and rec: "recover_from_missing_boot_state pf s = (r, s')"
  shows "boot_result pf s r s'"
proof -
  obtain sel s1 where scan: "scan_slots pf [A, B] None s = (sel, s1)" by fastforce
  have "advanced pf s s1 \<and> (\<forall>slot i. sel = Some (slot, i) \<longrightarrow> boot_result pf s (Ok i) s1)"
    by (rule scan_slots_result [OF ok scan]) (simp_all add: advanced_refl)
  then show ?thesis
    using rec scan
    by (auto simp: recover_from_missing_boot_state_def Let_def simp del: scan_slots.simps split: option.splits prod.splits sum.splits
        intro: boot_result_Err boot_result_marked dest!: repair_keeps [OF ok])
qed

lemma fallback_result:
  assumes ok: "firmware_ok (pf_firmware pf)" and fall: "load_fallback pf state s = (r, s')"
  shows "boot_result pf s r s'"
proof -
  obtain r1 s1 where load: "load_system_slot pf (slot_other (active_slot state)) s = (r1, s1)" by fastforce
  then show ?thesis
    using fall load_system_slot_result [OF ok load]
    by (auto simp: load_fallback_def Let_def split: prod.splits sum.splits intro: boot_result_marked dest!: persist_keeps [OF ok])
      (simp add: boot_result_def)
qed

lemma load_kernel_image_result:
  assumes ok: "firmware_ok (pf_firmware pf)" and load: "load_kernel_image pf opened s = (r, s')"
  shows "boot_result pf s r s'"
proof -
  obtain rb s1 where b: "load_boot_state pf s = (rb, s1)" by fastforce
  have v1: "advanced pf s s1"
    using b load_boot_states_keep [OF ok] by (auto simp: load_boot_state_def simp del: load_boot_states.simps split: prod.splits intro: advanced_refl)
  note same = advanced_refl [OF refl, of pf s'] boot_result_later [OF _ v1 advanced_refl [OF refl], of r s']
  show ?thesis
  proof (cases "opened \<and> (\<exists>state. rb = Ok state)")
    case False
    then show ?thesis
      using load b v1 same(2) recover_result [OF ok]
      by (auto simp: load_kernel_image_def split: if_splits sum.splits KernelLoadError.splits intro: boot_result_Err advanced_refl)
  next
    case True
    then obtain state where st: "opened" "rb = Ok state" by auto
    obtain r2 s2 where l: "load_system_slot pf (active_slot state) s1 = (r2, s2)" by fastforce
    have mark: "i\<lparr>boot_state_generation := g, system_slot := sl\<rparr> =
        i\<lparr>system_slot := sl, recovery_fallback := recovery_fallback i, boot_state_generation := g\<rparr>" for i :: KernelImageInfo and g sl
      by (cases i) simp
    have "s' = s2 \<and> (\<exists>i g slot. r2 = Ok i \<and> r = Ok (i\<lparr>boot_state_generation := g, system_slot := slot\<rparr>)) \<or> load_fallback pf state s2 = (r, s')"
      using load b l st by (auto simp: load_kernel_image_def split: if_splits sum.splits)
    then have "boot_result pf s1 r s'"
    proof (elim disjE conjE exE)
      assume "load_fallback pf state s2 = (r, s')"
      then show ?thesis
        using load_system_slot_result [OF ok l] fallback_result [OF ok] boot_result_later advanced_refl [OF refl]
        unfolding boot_result_def [of pf s1 r2] by metis
    qed (use load_system_slot_result [OF ok l] mark boot_result_marked in metis)
    then show ?thesis by (rule same(2))
  qed
qed

section \<open>Any number of boots\<close>

text \<open>Before each boot the adversary changes the state of the firmware; the boot partition is then accessible or not.\<close>

fun boots :: "'s Platform \<Rightarrow> (('s Loader \<Rightarrow> 's Loader) \<times> bool) list \<Rightarrow> 's Loader \<Rightarrow> (KernelLoadError + KernelImageInfo) list" where
  "boots pf [] s = []"
| "boots pf ((tamper, opened) # rest) s =
    (case load_kernel_image pf opened (tamper s) of (r, s') \<Rightarrow> r # boots pf rest s')"

definition started :: "(KernelLoadError + KernelImageInfo) list \<Rightarrow> KernelImageInfo list" where
  "started rs = concat (map (\<lambda>r. case r of Ok info \<Rightarrow> [info] | Err _ \<Rightarrow> []) rs)"

lemma started_simps [simp]: "started [] = []" "started (Err e # rs) = started rs" "started (Ok info # rs) = info # started rs"
  by (simp_all add: started_def)

definition disk_only :: "'s Platform \<Rightarrow> (('s Loader \<Rightarrow> 's Loader) \<times> bool) list \<Rightarrow> bool" where
  "disk_only pf attempts \<longleftrightarrow> (\<forall>(tamper, opened)\<in>set attempts. \<forall>s. variables pf (tamper s) = variables pf s)"

lemma boots_advance:
  assumes ok: "firmware_ok (pf_firmware pf)"
  shows "disk_only pf attempts \<Longrightarrow> advanced pf s0 s \<Longrightarrow> info \<in> set (started (boots pf attempts s)) \<Longrightarrow>
    \<exists>key manifest m. trusted pf s0 key \<and> genuine pf key manifest info \<and> highest_release pf s = Ok m \<and> m \<le> release_version manifest"
proof (induction attempts arbitrary: s)
  case (Cons a rest)
  obtain tamper opened where a: "a = (tamper, opened)" by fastforce
  obtain r s' where load: "load_kernel_image pf opened (tamper s) = (r, s')" by fastforce
  have res: "advanced pf (tamper s) s'" "\<And>info. r = Ok info \<Longrightarrow> accepted pf (tamper s) s' info"
    using load_kernel_image_result [OF ok load] by (simp_all add: boot_result_def)
  have v: "advanced pf s (tamper s)" "disk_only pf rest" using Cons.prems(1) a by (auto simp: disk_only_def intro: advanced_refl)
  have adv: "advanced pf s s'" using v(1) res(1) advanced_trans by blast
  show ?case
  proof (cases "r = Ok info")
    case True
    then have "accepted pf s s' info" using res(2) v(1) accepted_later advanced_refl by blast
    then show ?thesis using Cons.prems(2) unfolding accepted_def by (auto simp: advanced_def)
  next
    case False
    then have "info \<in> set (started (boots pf rest s'))" using Cons.prems(3) a load by (cases r) auto
    from Cons.IH [OF v(2) _ this] Cons.prems(2) adv advanced_trans
    obtain key manifest m where km: "trusted pf s0 key" "genuine pf key manifest info" "highest_release pf s' = Ok m" "m \<le> release_version manifest"
      by blast
    moreover obtain m0 where "highest_release pf s = Ok m0" "m0 \<le> m" using adv km(3) by (auto simp: advanced_def split: sum.splits)
    ultimately show ?thesis by (meson order.trans)
  qed
qed simp

section \<open>A sample device\<close>

text \<open>A firmware that keeps files and variables in maps, a toy signature scheme, and a device with one signed kernel in slot A.\<close>

record SampleFirmware =
  sf_files :: "string \<Rightarrow> bytes option"
  sf_variables :: "string \<Rightarrow> bytes option"

definition sample_firmware :: "SampleFirmware Firmware" where
  "sample_firmware = \<lparr>fw_read = \<lambda>p f. (sf_files f p, f),
     fw_write = \<lambda>p bs f. (True, f\<lparr>sf_files := (sf_files f)(p := Some bs)\<rparr>),
     fw_get_variable = \<lambda>n c f. (case sf_variables f n of None \<Rightarrow> Err VariableNotFound
       | Some v \<Rightarrow> if length v \<le> c then Ok v else Err VariableUnavailable),
     fw_set_variable = \<lambda>n v f. (True, f\<lparr>sf_variables := (sf_variables f)(n := Some v)\<rparr>),
     fw_allocate_pages = \<lambda>ty n f. (Some (case ty of Address a \<Rightarrow> a | AnyPages \<Rightarrow> 0x1000000), f)\<rparr>"

definition sample_crates :: Crates where
  "sample_crates = \<lparr>cr_sha256 = \<lambda>bs. take 32 (bs @ replicate 32 7), cr_key_from_bytes = \<lambda>k. length k = 32,
     cr_verify_strict = \<lambda>key message sig. take 32 sig = key,
     cr_elf_file = \<lambda>bs. Some \<lparr>elf_entry_point = 0x200000, elf_ph_count = 1,
       elf_program_iter = [\<lparr>ph_is_load = True, ph_virtual_addr = 0x200000, ph_physical_addr = 0x200000, ph_offset = 0, ph_file_size = 4,
         ph_mem_size = 8, ph_read = True, ph_write = False, ph_execute = True\<rparr>],
       elf_section_data = [Some SectionOther]\<rparr>\<rparr>"

definition sample_platform :: "SampleFirmware Platform" where
  "sample_platform = \<lparr>pf_firmware = sample_firmware, pf_crates = sample_crates, pf_embedded_hex = Some (replicate 64 0x31)\<rparr>"

definition sample_signed :: "u64 \<Rightarrow> bytes \<Rightarrow> bytes \<Rightarrow> UpdateManifest" where
  "sample_signed release key next_key =
    (manifest_unsigned_with_next_trust_key release 4 ([1, 2, 3, 4] @ replicate 28 7) (take 16 key) next_key (take 16 next_key))
      \<lparr>signature := key @ replicate 32 1\<rparr>"

definition sample_device :: "SampleFirmware Loader" where
  "sample_device = \<lparr>ld_fw = \<lparr>sf_files = (\<lambda>p. if p = slot_kernel_path A then Some [1, 2, 3, 4]
       else if p = slot_manifest_path A then Some (manifest_encode (sample_signed 5 (replicate 32 0x11) (replicate 32 0))) else None),
     sf_variables = (\<lambda>n. None)\<rparr>, ld_mem = (\<lambda>_. 0)\<rparr>"

lemma sample_firmware_ok: "firmware_ok (pf_firmware sample_platform)"
  by (auto simp: firmware_ok_def sample_platform_def sample_firmware_def variables_kept_def)

lemma sample_services [simp]:
  "read_path sample_platform p s = (sf_files (ld_fw s) p, s)"
  "write_path sample_platform p bs s = (True, s\<lparr>ld_fw := (ld_fw s)\<lparr>sf_files := (sf_files (ld_fw s))(p := Some bs)\<rparr>\<rparr>)"
  "get_variable sample_platform n c s = (case sf_variables (ld_fw s) n of None \<Rightarrow> Err VariableNotFound
     | Some v \<Rightarrow> if length v \<le> c then Ok v else Err VariableUnavailable)"
  "set_variable sample_platform n v s = (True, s\<lparr>ld_fw := (ld_fw s)\<lparr>sf_variables := (sf_variables (ld_fw s))(n := Some v)\<rparr>\<rparr>)"
  "alloc_pages sample_platform ty count s = (Some (case ty of Address a \<Rightarrow> a | AnyPages \<Rightarrow> 0x1000000), s)"
  by (simp_all add: read_path_def write_path_def get_variable_def set_variable_def alloc_pages_def sample_platform_def sample_firmware_def)

lemma sample_embedded: "embedded_trusted_public_key sample_platform = Some (replicate 32 0x11)"
proof -
  have "hex_nibble 0x31 = Some 1" by (simp add: hex_nibble_def)
  then have "hex_bytes (replicate (2 * n) 0x31) = Some (replicate n 0x11)" for n by (induction n) simp_all
  from this [of 32] show ?thesis by (simp add: embedded_trusted_public_key_def sample_platform_def)
qed

lemma sample_trust:
  "sf_variables (ld_fw s) TRUST_ROOT_VARIABLE = None \<Longrightarrow> active_trust_root sample_platform s =
    Ok \<lparr>tr_public_key = replicate 32 0x11, tr_key_id = replicate 16 0x11, tr_source = Embedded, tr_activation_release_version = 0\<rparr>"
  by (simp add: active_trust_root_def sample_embedded key_id_for_public_key_def) (simp add: sample_platform_def sample_crates_def)

lemma sample_valid: "release \<noteq> 0 \<Longrightarrow> length next_key = 32 \<Longrightarrow> (next_key = replicate 32 0 \<longleftrightarrow> take 16 next_key = replicate 16 0) \<Longrightarrow>
    manifest_decode (manifest_encode (sample_signed release (replicate 32 0x11) next_key)) = Ok (sample_signed release (replicate 32 0x11) next_key)"
  by (rule manifest_decode_encode)
    (simp add: valid_manifest_def wf_manifest_def sample_signed_def manifest_unsigned_with_next_trust_key_def,
     simp add: numeral_eq_Suc)

lemma sample_verify: "sf_variables (ld_fw s) TRUST_ROOT_VARIABLE = None \<Longrightarrow>
    verify_kernel_release sample_platform [1, 2, 3, 4] (sample_signed release (replicate 32 0x11) next_key) s =
    Ok \<lparr>tr_public_key = replicate 32 0x11, tr_key_id = replicate 16 0x11, tr_source = Embedded, tr_activation_release_version = 0\<rparr>"
  by (simp add: verify_kernel_release_def sample_trust)
    (simp add: sample_signed_def manifest_unsigned_with_next_trust_key_def sample_platform_def sample_crates_def)

lemma sample_stage:
  "\<exists>parsed staged m. parse_kernel_image sample_platform [1, 2, 3, 4] = Some parsed \<and>
     stage_kernel_segments sample_platform (mark_verified manifest parsed) [1, 2, 3, 4] s = (True, staged, s\<lparr>ld_mem := m\<rparr>)"
proof -
  define h where "h = \<lparr>ph_is_load = True, ph_virtual_addr = 0x200000, ph_physical_addr = 0x200000, ph_offset = 0, ph_file_size = 4,
         ph_mem_size = 8, ph_read = True, ph_write = False, ph_execute = True\<rparr>"
  define parsed where "parsed = collect_segments [h]
      (KernelImageInfo_EMPTY\<lparr>image_size := 4, entry_point := 0x200000, program_header_count := 1\<rparr>)"
  have p: "parse_kernel_image sample_platform [1, 2, 3, 4] = Some parsed"
    by (simp add: parse_kernel_image_def sample_platform_def sample_crates_def parsed_def h_def)
  have "replicate 8 x = x # replicate 7 x" for x :: KernelImageSegment by (simp add: numeral_eq_Suc)
  then have segs: "segments (mark_verified manifest parsed) = [header_segment h]"
    by (simp add: segments_def mark_verified_def parsed_def h_def KernelImageInfo_EMPTY_def Let_def)
  have span: "image_span [header_segment h] = (0x200000, 0x201000)"
    by (simp add: image_span_def header_segment_def h_def align_down_eq align_up_page_eq U64_MAX_numeral)
  have "\<exists>m. stage_kernel_image_span sample_platform [header_segment h] [1, 2, 3, 4] s = (Some (0x200000, 1, 0x200000, 0), s\<lparr>ld_mem := m\<rparr>)"
    by (simp add: stage_kernel_image_span_def span allocate_kernel_pages_def saturating_sub_def Let_def U64_MAX_numeral)
      (simp add: header_segment_def h_def apply_kernel_relocations_def sample_platform_def sample_crates_def checked_add_def Let_def U64_MAX_numeral,
       rule exI, rule refl)
  then show ?thesis using p segs by (auto simp: stage_kernel_segments_def)
qed

text \<open>Loading a signed kernel raises the floor and, if the manifest carries another key, changes the trusted one.\<close>

definition sample_variables :: "u64 \<Rightarrow> bytes \<Rightarrow> string \<Rightarrow> bytes option" where
  "sample_variables release next_key = (let v = (\<lambda>_. None)(HIGHEST_RELEASE_VARIABLE := Some (to_le 8 release)) in
     if next_key = replicate 32 0 then v
     else v(TRUST_ROOT_VARIABLE := Some (TrustRootState_encode \<lparr>activation_release_version = release, public_key = next_key,
       trust_key_id = take 16 next_key\<rparr>)))"

lemma sample_slot:
  assumes files: "sf_files (ld_fw s) (slot_kernel_path slot) = Some [1, 2, 3, 4]"
      "sf_files (ld_fw s) (slot_manifest_path slot) = Some (manifest_encode (sample_signed release (replicate 32 0x11) next_key))"
    and vars: "sf_variables (ld_fw s) = (\<lambda>_. None)" and release: "0 < release"
    and key: "next_key = replicate 32 0 \<or> next_key = replicate 32 0x22"
  shows "\<exists>info m. load_system_slot sample_platform slot s = (Ok info,
      s\<lparr>ld_mem := m, ld_fw := (ld_fw s)\<lparr>sf_variables := sample_variables release next_key\<rparr>\<rparr>) \<and> ki_release_version info = unat release"
proof -
  let ?m = "sample_signed release (replicate 32 0x11) next_key"
  obtain parsed staged m where st: "parse_kernel_image sample_platform [1, 2, 3, 4] = Some parsed"
      "stage_kernel_segments sample_platform (mark_verified ?m parsed) [1, 2, 3, 4] s = (True, staged, s\<lparr>ld_mem := m\<rparr>)"
    using sample_stage by blast
  have m: "release_version ?m = release" "has_next_trust_key ?m \<longleftrightarrow> next_key \<noteq> replicate 32 0" "next_trust_public_key ?m = next_key"
      "next_trust_key_id ?m = take 16 next_key"
    by (simp_all add: sample_signed_def manifest_unsigned_with_next_trust_key_def has_next_trust_key_def)
  have k: "length next_key = 32" "next_key = replicate 32 0 \<longleftrightarrow> take 16 next_key = replicate 16 0" "next_key \<noteq> replicate 32 0x11"
    using key by auto
  have c: "cr_key_from_bytes (pf_crates sample_platform) next_key" "key_id_for_public_key sample_platform next_key = take 16 next_key"
    using k(1) by (simp_all add: sample_platform_def sample_crates_def key_id_for_public_key_def)
  have d: "manifest_decode (manifest_encode ?m) = Ok ?m" by (rule sample_valid) (use k release in auto)
  have t: "next_key \<noteq> replicate 32 0 \<Longrightarrow> TrustRootState_decode (TrustRootState_encode \<lparr>activation_release_version = release,
      public_key = next_key, trust_key_id = take 16 next_key\<rparr>) = Ok \<lparr>activation_release_version = release, public_key = next_key, trust_key_id = take 16 next_key\<rparr>"
    using manifest_next_key [OF d _ refl] m by simp
  show ?thesis
    using files vars release st m c d sample_verify [of s release next_key] staged_release [OF st(2)] t k(3)
    by (simp add: load_system_slot_def enforce_release_version_def highest_release_def apply_trust_root_update_def Let_def
        sample_variables_def length_encoded_trust)
      (cases "next_key = replicate 32 0"; simp; rule exI, rule refl)
qed

lemma slot_paths [simp]: "slot_kernel_path slot \<noteq> slot_manifest_path slot'" "BOOTSTA0 \<noteq> slot_kernel_path slot" "BOOTSTA0 \<noteq> slot_manifest_path slot"
  "BOOTSTA1 \<noteq> slot_kernel_path slot" "BOOTSTA1 \<noteq> slot_manifest_path slot" "slot_kernel_path B \<noteq> slot_kernel_path A" "BOOTSTA1 \<noteq> BOOTSTA0"
  by (cases slot; cases slot'; simp add: BOOTSTA0_def BOOTSTA1_def slot_kernel_path_def slot_manifest_path_def)+

lemmas slot_paths_sym [simp] = slot_paths [symmetric]

lemma sample_boot: "\<exists>info. started (boots sample_platform [((\<lambda>s. s), True)] sample_device) = [info] \<and> ki_release_version info = 5"
proof -
  have files: "sf_files (ld_fw sample_device) (slot_kernel_path A) = Some [1, 2, 3, 4]"
      "sf_files (ld_fw sample_device) (slot_manifest_path A) = Some (manifest_encode (sample_signed 5 (replicate 32 0x11) (replicate 32 0)))"
      "sf_variables (ld_fw sample_device) = (\<lambda>_. None)" "0 < (5 :: u64)"
    by (simp_all add: sample_device_def)
  obtain info s1 where A: "load_system_slot sample_platform A sample_device = (Ok info, s1)" "ki_release_version info = 5"
      "sf_files (ld_fw s1) = sf_files (ld_fw sample_device)"
    using sample_slot [OF files] by auto
  have boot: "load_boot_state sample_platform sample_device = (Err BootStateUnavailable, sample_device)"
    by (simp add: load_boot_state_def sample_device_def)
  have "load_system_slot sample_platform B s1 = (Err KernelReadFailed, s1)" using A(3) by (simp add: load_system_slot_def sample_device_def)
  then have "scan_slots sample_platform [A, B] None sample_device = (Some (A, info), s1)" using A(1) by simp
  then show ?thesis
    using A(2) boot by (auto simp: load_kernel_image_def recover_from_missing_boot_state_def Let_def simp del: scan_slots.simps split: prod.splits sum.splits)
qed

section \<open>Properties\<close>

text \<open>
  C4: only signed kernels start. Over any sequence of boots, with the disk rewritten at will between them,
  every kernel that the loader hands over to is the staged form of a file whose size and hash stand in a
  manifest signed by a key that the device trusted at the start, or to which trust was passed on by
  signed manifests.
\<close>

theorem boots_only_signed_kernels:
  assumes "firmware_ok (pf_firmware pf)" and "disk_only pf attempts" and "info \<in> set (started (boots pf attempts s))"
  shows "\<exists>root key manifest. active_trust_root pf s = Ok root \<and> trust_chain pf (tr_public_key root) key \<and> genuine pf key manifest info"
  using boots_advance [OF assms(1,2) advanced_refl [OF refl] assms(3)] by (auto simp: trusted_def)

theorem boots_only_signed_kernels_witness:
  "\<exists>info root key manifest. started (boots sample_platform [((\<lambda>s. s), True)] sample_device) = [info] \<and>
    active_trust_root sample_platform sample_device = Ok root \<and> trust_chain sample_platform (tr_public_key root) key \<and>
    genuine sample_platform key manifest info"
proof -
  obtain info where info: "started (boots sample_platform [((\<lambda>s. s), True)] sample_device) = [info]" using sample_boot by blast
  have "disk_only sample_platform [((\<lambda>s. s), True)]" by (simp add: disk_only_def)
  from boots_only_signed_kernels [OF sample_firmware_ok this, of info sample_device] info show ?thesis by auto
qed

text \<open>
  C5: releases never go back. Over any sequence of boots, with the disk rewritten at will between them,
  the release numbers of the kernels that start never decrease, and none is below the floor that the
  device stored before.
\<close>

theorem boots_never_roll_back:
  assumes "firmware_ok (pf_firmware pf)" and "disk_only pf attempts"
  shows "sorted (map ki_release_version (started (boots pf attempts s))) \<and>
    (\<forall>m info. highest_release pf s = Ok m \<longrightarrow> info \<in> set (started (boots pf attempts s)) \<longrightarrow> unat m \<le> ki_release_version info)"
proof -
  have floor: "unat m \<le> ki_release_version info"
    if h: "highest_release pf t = Ok m" "disk_only pf as" "info \<in> set (started (boots pf as t))" for m info t as
    using boots_advance [OF assms(1) h(2) advanced_refl [OF refl] h(3)] h(1) by (auto simp: genuine_def word_le_nat_alt)
  have "sorted (map ki_release_version (started (boots pf attempts s)))"
    using assms(2)
  proof (induction attempts arbitrary: s)
    case (Cons a rest)
    obtain tamper opened where a: "a = (tamper, opened)" by fastforce
    obtain r s' where load: "load_kernel_image pf opened (tamper s) = (r, s')" by fastforce
    have rest: "disk_only pf rest" using Cons.prems by (simp add: disk_only_def)
    show ?case
    proof (cases r)
      case (Inr i)
      obtain key manifest m' where g: "genuine pf key manifest i" "highest_release pf s' = Ok m'" "release_version manifest \<le> m'"
        using load_kernel_image_result [OF assms(1) load] Inr unfolding boot_result_def accepted_def by blast
      then have "ki_release_version i \<le> ki_release_version j" if "j \<in> set (started (boots pf rest s'))" for j
        using floor [OF g(2) rest that] by (auto simp: genuine_def word_le_nat_alt)
      then show ?thesis using Cons.IH [OF rest] a load Inr by auto
    qed (use Cons.IH [OF rest] a load in auto)
  qed simp
  then show ?thesis using floor assms(2) by blast
qed

theorem boots_never_roll_back_witness:
  "\<exists>info. started (boots sample_platform [((\<lambda>s. s), True), ((\<lambda>s. s), False)] sample_device) = [info] \<and>
    sorted (map ki_release_version (started (boots sample_platform [((\<lambda>s. s), True), ((\<lambda>s. s), False)] sample_device)))"
proof -
  have "disk_only sample_platform [((\<lambda>s. s), True), ((\<lambda>s. s), False)]" by (simp add: disk_only_def)
  note r = boots_never_roll_back [OF sample_firmware_ok this, of sample_device]
  obtain info where "started (boots sample_platform [((\<lambda>s. s), True)] sample_device) = [info]" using sample_boot by blast
  then have "started (boots sample_platform [((\<lambda>s. s), True), ((\<lambda>s. s), False)] sample_device) = [info]"
    by (cases "load_kernel_image sample_platform True sample_device"; cases "fst (load_kernel_image sample_platform True sample_device)")
      (auto simp: load_kernel_image_def [of _ False])
  then show ?thesis using r by blast
qed

end
