(* ===== verification/LoaderRecovery.thy ===== *)
theory LoaderRecovery
  imports LoaderTrust
begin

text \<open>
  Recovery in the loader: the boot-state records survive an interrupted update, a failing slot is replaced
  by the other one for good, and what a change of the trusted key means for the release that carries it.
\<close>

section \<open>Files\<close>

text \<open>
  The documented behaviour of files that recovery relies on: reading changes nothing, and a write, a variable
  or an allocation does not change other files.
\<close>

definition files_ok :: "'s Firmware \<Rightarrow> bool" where
  "files_ok fw \<longleftrightarrow>
    (\<forall>p q f. fst (fw_read fw q (snd (fw_read fw p f))) = fst (fw_read fw q f)) \<and>
    (\<forall>p bs q f. q \<noteq> p \<longrightarrow> fst (fw_read fw q (snd (fw_write fw p bs f))) = fst (fw_read fw q f)) \<and>
    (\<forall>n v q f. fst (fw_read fw q (snd (fw_set_variable fw n v f))) = fst (fw_read fw q f)) \<and>
    (\<forall>ty n q f. fst (fw_read fw q (snd (fw_allocate_pages fw ty n f))) = fst (fw_read fw q f))"

definition content :: "'s Platform \<Rightarrow> 's Loader \<Rightarrow> string \<Rightarrow> bytes option" where
  "content pf s p = fst (fw_read (pf_firmware pf) p (ld_fw s))"

lemma content_mem [simp]: "content pf (s\<lparr>ld_mem := m\<rparr>) = content pf s"
  by (rule ext) (simp add: content_def)

lemma services_keep_content:
  assumes "files_ok (pf_firmware pf)"
  shows "read_path pf p s = (r, s') \<Longrightarrow> content pf s' = content pf s \<and> r = content pf s p"
    and "set_variable pf n v s = (b, s') \<Longrightarrow> content pf s' = content pf s"
    and "alloc_pages pf ty k s = (a, s') \<Longrightarrow> content pf s' = content pf s"
    and "write_path pf p bs s = (b, s') \<Longrightarrow> q \<noteq> p \<Longrightarrow> content pf s' q = content pf s q"
proof -
  let ?fw = "pf_firmware pf"
  have "\<forall>q. fst (fw_read ?fw q (snd (fw_read ?fw p (ld_fw s)))) = fst (fw_read ?fw q (ld_fw s))"
    "\<forall>q. fst (fw_read ?fw q (snd (fw_set_variable ?fw n v (ld_fw s)))) = fst (fw_read ?fw q (ld_fw s))"
    "\<forall>q. fst (fw_read ?fw q (snd (fw_allocate_pages ?fw ty k (ld_fw s)))) = fst (fw_read ?fw q (ld_fw s))"
    "\<forall>q. q \<noteq> p \<longrightarrow> fst (fw_read ?fw q (snd (fw_write ?fw p bs (ld_fw s)))) = fst (fw_read ?fw q (ld_fw s))"
    using assms by (auto simp: files_ok_def)
  then show "read_path pf p s = (r, s') \<Longrightarrow> content pf s' = content pf s \<and> r = content pf s p"
    and "set_variable pf n v s = (b, s') \<Longrightarrow> content pf s' = content pf s"
    and "alloc_pages pf ty k s = (a, s') \<Longrightarrow> content pf s' = content pf s"
    and "write_path pf p bs s = (b, s') \<Longrightarrow> q \<noteq> p \<Longrightarrow> content pf s' q = content pf s q"
    by (auto simp: content_def read_path_def set_variable_def alloc_pages_def write_path_def fun_eq_iff split: prod.splits)
qed

lemma stage_keeps_content:
  assumes "files_ok (pf_firmware pf)" and "stage_kernel_segments pf info bs s = (b, info', s')"
  shows "content pf s' = content pf s"
proof -
  have "content pf s' = content pf s" if "allocate_kernel_pages pf base n s = (r, s')" for base n r s'
    using that by (auto simp: allocate_kernel_pages_def split: if_splits prod.splits option.splits dest!: services_keep_content(3) [OF assms(1)])
  then have "content pf s' = content pf s" if "stage_kernel_image_span pf segs bs s = (r, s')" for segs r s'
    using that by (auto simp: stage_kernel_image_span_def Let_def split: if_splits prod.splits option.splits bool.splits)
  then show ?thesis using assms(2) by (auto simp: stage_kernel_segments_def split: prod.splits option.splits)
qed

lemma enforce_keeps_content:
  assumes "files_ok (pf_firmware pf)" and "enforce_release_version pf v s = (r, s')"
  shows "content pf s' = content pf s"
  using assms(2) by (auto simp: enforce_release_version_def split: if_splits prod.splits bool.splits elim!: st_bind_cases
      dest!: services_keep_content(2) [OF assms(1)])

lemma apply_keeps_content:
  assumes "files_ok (pf_firmware pf)" and "apply_trust_root_update pf m root s = (r, s')"
  shows "content pf s' = content pf s"
  using assms(2) by (auto simp: apply_trust_root_update_def Let_def split: if_splits prod.splits bool.splits sum.splits
      dest!: services_keep_content(2) [OF assms(1)])

lemma slot_keeps_content:
  assumes ok: "files_ok (pf_firmware pf)" and "load_system_slot pf slot s = (r, s')"
  shows "content pf s' = content pf s"
proof -
  obtain rk s1 where k: "read_path pf (slot_kernel_path slot) s = (rk, s1)" by fastforce
  obtain rm s2 where m: "read_path pf (slot_manifest_path slot) s1 = (rm, s2)" by fastforce
  have "content pf s1 = content pf s" "content pf s2 = content pf s"
    using services_keep_content(1) [OF ok k] services_keep_content(1) [OF ok m] by simp_all
  then show ?thesis
    using assms(2) k m
    by (auto simp: load_system_slot_def split: option.splits prod.splits bool.splits elim!: st_bind_cases map_err_cases
        dest!: stage_keeps_content [OF ok] enforce_keeps_content [OF ok] apply_keeps_content [OF ok])
qed

section \<open>Boot-state records\<close>

text \<open>The state that the two records determine: the valid one with the higher generation.\<close>

definition decoded :: "'s Platform \<Rightarrow> 's Loader \<Rightarrow> string \<Rightarrow> BootState option" where
  "decoded pf s p = (case content pf s p of None \<Rightarrow> None | Some bs \<Rightarrow> (case BootState_decode bs of Ok st \<Rightarrow> Some st | Err _ \<Rightarrow> None))"

definition newest :: "BootState option \<Rightarrow> BootState option \<Rightarrow> BootState option" where
  "newest a b = (case b of None \<Rightarrow> a | Some st \<Rightarrow>
     (case a of None \<Rightarrow> Some st | Some current \<Rightarrow> if generation current < generation st then Some st else Some current))"

lemma load_boot_state_newest:
  assumes ok: "files_ok (pf_firmware pf)" and load: "load_boot_state pf s = (r, s')"
  shows "r = ok_or (newest (decoded pf s BOOTSTA0) (decoded pf s BOOTSTA1)) BootStateUnavailable" and "content pf s' = content pf s"
proof -
  obtain r0 s0 where 0: "read_path pf BOOTSTA0 s = (r0, s0)" by fastforce
  obtain r1 s1 where 1: "read_path pf BOOTSTA1 s0 = (r1, s1)" by fastforce
  note k = services_keep_content(1) [OF ok 0] services_keep_content(1) [OF ok 1]
  have "s' = s1" using load 0 1
    by (auto simp: load_boot_state_def split: option.splits sum.splits prod.splits)
  then show "content pf s' = content pf s" using k by simp
  have c: "content pf s BOOTSTA0 = r0" "content pf s BOOTSTA1 = r1" using k by auto
  show "r = ok_or (newest (decoded pf s BOOTSTA0) (decoded pf s BOOTSTA1)) BootStateUnavailable"
    using load 0 1 unfolding decoded_def c newest_def
    by (auto simp: load_boot_state_def split: option.splits sum.splits prod.splits)
qed

text \<open>The records as the loader and the update tool leave them: odd generations in the first, even ones in the second.\<close>

definition records_ok :: "'s Platform \<Rightarrow> 's Loader \<Rightarrow> bool" where
  "records_ok pf s \<longleftrightarrow> (\<forall>st. decoded pf s BOOTSTA0 = Some st \<longrightarrow> odd (generation st)) \<and>
     (\<forall>st. decoded pf s BOOTSTA1 = Some st \<longrightarrow> even (generation st))"

lemma boot_state_path_odd: "boot_state_path g = (if odd g then BOOTSTA0 else BOOTSTA1)"
  by (simp add: boot_state_path_def and_one_eq odd_iff_mod_2_eq_one)

lemma decoded_encode: "generation st \<noteq> 0 \<Longrightarrow> active_release_version st \<noteq> 0 \<Longrightarrow> content pf s p = Some (BootState_encode st) \<Longrightarrow> decoded pf s p = Some st"
  by (simp add: decoded_def BootState_decode_Ok [THEN iffD2] BootState_encode_layout)

lemma generation_next: "g \<noteq> - 1 \<Longrightarrow> g < g + 1" "g \<noteq> - 1 \<Longrightarrow> g + 1 \<noteq> 0" for g :: u64
  using inc_less_eq_triv_imp max_word_wrap by (blast intro: leI)+

lemma newest_Some: "newest a b = Some st \<Longrightarrow> (a = Some st \<or> b = Some st) \<and>
    (\<forall>st'. a = Some st' \<or> b = Some st' \<longrightarrow> generation st' \<le> generation st)"
  by (auto simp: newest_def split: option.splits if_splits)

lemma newest_replaced:
  assumes "newest a b = Some st" and "generation st < generation new"
  shows "newest (Some new) b = Some new" "newest a (Some new) = Some new"
  using assms by (auto simp: newest_def split: option.splits if_splits)

text \<open>
  C14: an interrupted change of the boot state is harmless. The loader writes generation \<open>g + 1\<close> over the
  older of the two records; if the write is cut off, so that the record is old, new or unreadable, the
  next boot finds the old state or the new one.
\<close>

theorem boot_state_update_atomic:
  assumes "files_ok (pf_firmware pf)" and "records_ok pf s" and "load_boot_state pf s = (Ok current, s0)" and "generation current \<noteq> - 1"
    and "generation new = generation current + 1"
    and "\<forall>q. q \<noteq> boot_state_path (generation new) \<longrightarrow> content pf s' q = content pf s q"
    and "decoded pf s' (boot_state_path (generation new)) \<in> {None, decoded pf s (boot_state_path (generation new)), Some new}"
  shows "fst (load_boot_state pf s') \<in> {Ok current, Ok new} \<and> records_ok pf s'"
proof -
  let ?a = "decoded pf s BOOTSTA0" and ?b = "decoded pf s BOOTSTA1"
  note r = load_boot_state_newest(1) [OF assms(1)]
  have cur: "newest ?a ?b = Some current" using r [OF assms(3), symmetric] by simp
  note c = newest_Some [OF cur] newest_replaced [OF cur, of new]
  have lt: "generation current < generation new" using generation_next assms(4,5) by simp
  have same: "decoded pf s' q = decoded pf s q" if "q \<noteq> boot_state_path (generation new)" for q
    using assms(6) that by (simp add: decoded_def)
  have step: "fst (load_boot_state pf s') = ok_or (newest (decoded pf s' BOOTSTA0) (decoded pf s' BOOTSTA1)) BootStateUnavailable"
    using r [of s'] by (cases "load_boot_state pf s'") auto
  show ?thesis
  proof (cases "odd (generation new)")
    case True
    then have "?b = Some current" using c(1) assms(2,5) by (auto simp: records_ok_def)
    moreover have "decoded pf s' BOOTSTA1 = ?b" "decoded pf s' BOOTSTA0 \<in> {None, ?a, Some new}"
      using same [of BOOTSTA1] assms(7) True by (simp_all add: boot_state_path_odd)
    ultimately show ?thesis using cur c(2) lt assms(2) True step by (auto simp: records_ok_def newest_def)
  next
    case False
    then have "?a = Some current" using c(1) assms(2,5) by (auto simp: records_ok_def)
    moreover have "decoded pf s' BOOTSTA0 = ?a" "decoded pf s' BOOTSTA1 \<in> {None, ?b, Some new}"
      using same [of BOOTSTA0] assms(7) False by (simp_all add: boot_state_path_odd)
    ultimately show ?thesis using cur c(3) lt assms(2) False step by (auto simp: records_ok_def newest_def)
  qed
qed

section \<open>The other slot takes over\<close>

definition writable :: "'s Firmware \<Rightarrow> bool" where
  "writable fw \<longleftrightarrow> (\<forall>p bs f. \<exists>f'. fw_write fw p bs f = (True, f') \<and> fst (fw_read fw p f') = Some bs)"

lemma write_verified:
  assumes "files_ok (pf_firmware pf)" and "writable (pf_firmware pf)" and "generation st \<noteq> 0" and "active_release_version st \<noteq> 0"
  obtains s' where "write_verified_boot_state pf p st s = (Ok (), s')" and "decoded pf s' p = Some st"
    and "\<forall>q. q \<noteq> p \<longrightarrow> decoded pf s' q = decoded pf s q"
proof -
  obtain f' where f: "fw_write (pf_firmware pf) p (BootState_encode st) (ld_fw s) = (True, f')" "fst (fw_read (pf_firmware pf) p f') = Some (BootState_encode st)"
    using assms(2) unfolding writable_def by blast
  let ?s1 = "s\<lparr>ld_fw := f'\<rparr>"
  obtain rd s2 where rd: "read_path pf p ?s1 = (rd, s2)" by fastforce
  note k = services_keep_content(1) [OF assms(1) rd]
  have w: "write_path pf p (BootState_encode st) s = (True, ?s1)" using f(1) by (simp add: write_path_def)
  have c: "content pf ?s1 p = Some (BootState_encode st)" using f(2) by (simp add: content_def)
  have d: "decoded pf ?s1 p = Some st" by (rule decoded_encode [OF assms(3,4) c])
  show thesis
  proof (rule that [of s2])
    show "write_verified_boot_state pf p st s = (Ok (), s2)"
      using w rd k c assms(3,4) by (simp add: write_verified_boot_state_def BootState_decode_Ok BootState_encode_layout)
    show "decoded pf s2 p = Some st" using d k by (simp add: decoded_def)
    show "\<forall>q. q \<noteq> p \<longrightarrow> decoded pf s2 q = decoded pf s q"
      using services_keep_content(4) [OF assms(1) w] k by (simp add: decoded_def)
  qed
qed

lemma slot_release_positive:
  assumes "firmware_ok (pf_firmware pf)" and "load_system_slot pf slot s = (Ok info, s')"
  shows "0 < ki_release_version info" "ki_release_version info \<le> U64_MAX"
proof -
  have "release_version m \<noteq> 0" if "manifest_decode b = Ok m" for b m
    using that by (auto simp: manifest_decode_def Let_def split: if_splits)
  then show "0 < ki_release_version info" "ki_release_version info \<le> U64_MAX"
    by (cases rule: load_system_slot_cases [OF assms]; auto split: sum.splits simp: staged_release unat_gt_0)+
qed

text \<open>
  C15: recovery is permanent. If the selected slot cannot be started but the other one can, the loader starts
  the other slot, marks the boot as a recovery, and the boot state on the disk selects that slot from then on.
\<close>

theorem fallback_is_permanent:
  assumes "firmware_ok (pf_firmware pf)" and "files_ok (pf_firmware pf)" and "writable (pf_firmware pf)"
    and "load_boot_state pf s = (Ok state, s0)" and "generation state \<noteq> - 1"
    and "load_system_slot pf (active_slot state) s0 = (Err e, s1)"
    and "load_system_slot pf (slot_other (active_slot state)) s1 = (Ok info, s2)"
  shows "\<exists>info' s'. load_kernel_image pf True s = (Ok info', s') \<and> ki_release_version info' = ki_release_version info \<and>
    system_slot info' = slot_as_u8 (slot_other (active_slot state)) \<and> recovery_fallback info' = 1 \<and>
    fst (load_boot_state pf s') = Ok \<lparr>generation = generation state + 1, active_slot = slot_other (active_slot state),
      active_release_version = word_of_nat (ki_release_version info)\<rparr>"
proof -
  define new where "new = \<lparr>generation = generation state + 1, active_slot = slot_other (active_slot state),
      active_release_version = word_of_nat (ki_release_version info)\<rparr>"
  note pos = slot_release_positive [OF assms(1,7)]
  have "unat (word_of_nat (ki_release_version info) :: u64) = ki_release_version info"
    using pos(2) by (simp add: unat_of_nat take_bit_nat_eq_self U64_MAX_def)
  then have wf: "generation new \<noteq> 0" "active_release_version new \<noteq> 0" using pos(1) generation_next(2) [OF assms(5)] by (auto simp: new_def)
  let ?p = "boot_state_path (generation new)"
  obtain s3 where w: "write_verified_boot_state pf ?p new s2 = (Ok (), s3)" and d: "decoded pf s3 ?p = Some new"
      "\<forall>q. q \<noteq> ?p \<longrightarrow> decoded pf s3 q = decoded pf s2 q"
    using write_verified [OF assms(2,3) wf, of ?p s2] by blast
  have same: "decoded pf s2 q = decoded pf s q" for q
    using slot_keeps_content [OF assms(2,6)] slot_keeps_content [OF assms(2,7)] load_boot_state_newest(2) [OF assms(2,4)] by (simp add: decoded_def)
  have cur: "newest (decoded pf s BOOTSTA0) (decoded pf s BOOTSTA1) = Some state"
    using load_boot_state_newest(1) [OF assms(2,4), symmetric] by simp
  have "generation state < generation new" using generation_next(1) [OF assms(5)] by (simp add: new_def)
  then have "newest (decoded pf s3 BOOTSTA0) (decoded pf s3 BOOTSTA1) = Some new"
    using newest_replaced [OF cur, of new] d same by (cases "odd (generation new)") (simp_all add: boot_state_path_odd)
  moreover have "load_kernel_image pf True s = (Ok ((info\<lparr>system_slot := slot_as_u8 (slot_other (active_slot state)), recovery_fallback := 1\<rparr>)
      \<lparr>boot_state_generation := unat (generation new)\<rparr>), s3)"
    using assms(4-7) w by (simp add: load_kernel_image_def load_fallback_def persist_fallback_boot_state_def new_def)
  moreover have "fst (load_boot_state pf s3) = ok_or (newest (decoded pf s3 BOOTSTA0) (decoded pf s3 BOOTSTA1)) BootStateUnavailable"
    using load_boot_state_newest(1) [OF assms(2), of s3] by (cases "load_boot_state pf s3") auto
  ultimately show ?thesis by (simp add: new_def)
qed

section \<open>A change of the trusted key\<close>

definition stale :: "'s Platform \<Rightarrow> UpdateManifest \<Rightarrow> 's Loader \<Rightarrow> bool" where
  "stale pf m s \<longleftrightarrow> (\<exists>root. active_trust_root pf s = Ok root \<and> tr_key_id root \<noteq> key_id m)"

definition both_slots :: "'s Platform \<Rightarrow> bytes \<Rightarrow> 's Loader \<Rightarrow> bool" where
  "both_slots pf mb s \<longleftrightarrow> (\<forall>slot. content pf s (slot_manifest_path slot) = Some mb)"

lemma root_key_id: "active_trust_root pf s = Ok root \<Longrightarrow> tr_key_id root = key_id_for_public_key pf (tr_public_key root)"
proof (cases "get_variable pf TRUST_ROOT_VARIABLE 80 s")
  case (Inl e)
  then show "active_trust_root pf s = Ok root \<Longrightarrow> ?thesis" by (cases e) (auto simp: active_trust_root_def)
next
  case (Inr v)
  then show "active_trust_root pf s = Ok root \<Longrightarrow> ?thesis" by (cases "TrustRootState_decode v") (auto simp: active_trust_root_def split: if_splits)
qed

lemma verified_key_id: "verify_kernel_release pf elf m s = Ok root \<Longrightarrow> tr_key_id root = key_id m"
  by (auto simp: verify_kernel_release_def split: if_splits)

lemma transition_applied:
  assumes ok: "firmware_ok (pf_firmware pf)" and d: "manifest_decode b = Ok m"
    and upd: "apply_trust_root_update pf m root s = (Ok u, s')" and next_key: "has_next_trust_key m" and root: "active_trust_root pf s = Ok root"
  shows "\<exists>root'. active_trust_root pf s' = Ok root' \<and> tr_key_id root' = next_trust_key_id m"
proof -
  let ?k = "key_id_for_public_key pf (next_trust_public_key m)"
  let ?t = "\<lparr>activation_release_version = release_version m, public_key = next_trust_public_key m, trust_key_id = ?k\<rparr>"
  have ne: "TrustRootState_encode ?t \<noteq> []" using length_encoded_trust [of ?t] by auto
  obtain bb s1 where set: "set_variable pf TRUST_ROOT_VARIABLE (TrustRootState_encode ?t) s = (bb, s1)" by fastforce
  have k: "cr_key_from_bytes (pf_crates pf) (next_trust_public_key m)" "?k = next_trust_key_id m"
    "next_trust_public_key m = tr_public_key root \<and> s' = s \<or> bb \<and> s' = s1"
    using upd set next_key by (auto simp: apply_trust_root_update_def Let_def split: if_splits bool.splits sum.splits)
  from k(3) show ?thesis
  proof (elim disjE conjE)
    assume "next_trust_public_key m = tr_public_key root" "s' = s"
    then show ?thesis using root root_key_id [OF root] k(2) by simp
  next
    assume s1: "bb" "s' = s1"
    have "get_variable pf TRUST_ROOT_VARIABLE 80 s' = Ok (TrustRootState_encode ?t)"
      using set_variable_effect [OF ok set ne] s1 length_encoded_trust [of ?t] by (simp add: variables_def fun_eq_iff)
    then show ?thesis
      using root k(1,2) manifest_next_key [OF d next_key k(2)] length_encoded_trust [of ?t]
      by (auto simp: active_trust_root_def split: option.splits)
  qed
qed

lemma slot_of_manifest:
  assumes fw: "firmware_ok (pf_firmware pf)" "files_ok (pf_firmware pf)" and both: "both_slots pf mb s" and d: "manifest_decode mb = Ok m"
    and load: "load_system_slot pf slot s = (r, s')"
  shows "stale pf m s \<Longrightarrow> (\<exists>e. r = Err e) \<and> stale pf m s'"
    and "r = Ok info \<Longrightarrow> has_next_trust_key m \<Longrightarrow> next_trust_key_id m \<noteq> key_id m \<Longrightarrow> stale pf m s'"
proof -
  have main: "(stale pf m s \<longrightarrow> (\<exists>e. r = Err e) \<and> stale pf m s') \<and>
    (\<forall>info. r = Ok info \<longrightarrow> has_next_trust_key m \<longrightarrow> next_trust_key_id m \<noteq> key_id m \<longrightarrow> stale pf m s')"
  proof (cases rule: load_system_slot_cases [OF fw(1) load])
    case (1 e)
    then show ?thesis using trust_root_vars [of pf s' s] by (simp add: stale_def)
  next
    case (2 elf mb' manifest root parsed staged s2 s3 s4 r5 s1)
    have "mb' = mb" using both services_keep_content(1) [OF fw(2) 2(10)] services_keep_content(1) [OF fw(2) 2(11)] by (simp add: both_slots_def)
    then have m: "manifest = m" using 2(1) d by simp
    have eq: "active_trust_root pf s2 = active_trust_root pf s" "active_trust_root pf s3 = active_trust_root pf s"
      using 2(8,9) by (auto intro: trust_root_vars)
    have root: "active_trust_root pf s = Ok root" "tr_key_id root = key_id m"
      using verify_result [OF 2(2)] verified_key_id [OF 2(2)] eq m by auto
    have "stale pf m s'" if ok: "r5 = Ok u" and n: "has_next_trust_key m" "next_trust_key_id m \<noteq> key_id m" for u
      using transition_applied [OF fw(1) d 2(6) [unfolded m ok] n(1)] enforce_result(1) [OF fw(1) 2(5)] eq root n(2)
      by (auto simp: stale_def)
    then show ?thesis using root 2(7) by (auto simp: stale_def split: sum.splits)
  qed
  then show "stale pf m s \<Longrightarrow> (\<exists>e. r = Err e) \<and> stale pf m s'"
    and "r = Ok info \<Longrightarrow> has_next_trust_key m \<Longrightarrow> next_trust_key_id m \<noteq> key_id m \<Longrightarrow> stale pf m s'" by auto
qed

lemma write_keeps_slots:
  assumes fw: "firmware_ok (pf_firmware pf)" "files_ok (pf_firmware pf)" and w: "write_verified_boot_state pf p st s = (r, s')" and p: "p \<in> {BOOTSTA0, BOOTSTA1}"
  shows "both_slots pf mb s' \<longleftrightarrow> both_slots pf mb s" and "stale pf m s' \<longleftrightarrow> stale pf m s"
proof -
  obtain b s1 where w1: "write_path pf p (BootState_encode st) s = (b, s1)" by fastforce
  obtain v s2 where rd: "read_path pf p s1 = (v, s2)" by fastforce
  have "s' = s1 \<or> s' = s2" using w w1 rd by (auto simp: write_verified_boot_state_def split: bool.splits option.splits if_splits)
  then have "content pf s' q = content pf s q" if "q \<noteq> p" for q
    using services_keep_content(4) [OF fw(2) w1 that] services_keep_content(1) [OF fw(2) rd] by auto
  then show "both_slots pf mb s' \<longleftrightarrow> both_slots pf mb s" using p by (auto simp: both_slots_def)
  show "stale pf m s' \<longleftrightarrow> stale pf m s" using trust_root_vars [of pf s' s] write_boot_state_keeps [OF fw(1) w] by (simp add: stale_def)
qed

lemma recovery_writes_keep:
  assumes fw: "firmware_ok (pf_firmware pf)" "files_ok (pf_firmware pf)"
  shows "repair_boot_state pf slot v s = (r, s') \<Longrightarrow> both_slots pf mb s' = both_slots pf mb s \<and> stale pf m s' = stale pf m s"
    and "persist_fallback_boot_state pf st slot v s = (r, s') \<Longrightarrow> both_slots pf mb s' = both_slots pf mb s \<and> stale pf m s' = stale pf m s"
proof -
  note w = write_keeps_slots [OF fw]
  show "repair_boot_state pf slot v s = (r, s') \<Longrightarrow> both_slots pf mb s' = both_slots pf mb s \<and> stale pf m s' = stale pf m s"
    by (auto simp: repair_boot_state_def Let_def elim!: st_bind_cases simp: w)
  show "persist_fallback_boot_state pf st slot v s = (r, s') \<Longrightarrow> both_slots pf mb s' = both_slots pf mb s \<and> stale pf m s' = stale pf m s"
    by (auto simp: persist_fallback_boot_state_def boot_state_path_odd Let_def elim!: st_bind_cases simp: w split: if_splits)
qed

lemma load_boot_state_keeps:
  assumes fw: "firmware_ok (pf_firmware pf)" "files_ok (pf_firmware pf)" and load: "load_boot_state pf s = (r, s')"
  shows "both_slots pf mb s' = both_slots pf mb s" and "stale pf m s' = stale pf m s" and "r = Err e \<Longrightarrow> e = BootStateUnavailable"
proof -
  have "variables pf s' = variables pf s"
    using load load_boot_states_keep [OF fw(1)] by (auto simp: load_boot_state_def simp del: load_boot_states.simps split: prod.splits)
  then show "stale pf m s' = stale pf m s" using trust_root_vars [of pf s' s] by (simp add: stale_def)
  show "both_slots pf mb s' = both_slots pf mb s" using load_boot_state_newest(2) [OF fw(2) load] by (simp add: both_slots_def)
  show "r = Err e \<Longrightarrow> e = BootStateUnavailable" using load_boot_state_newest(1) [OF fw(2) load] by auto
qed

lemma stale_boot_fails:
  assumes fw: "firmware_ok (pf_firmware pf)" "files_ok (pf_firmware pf)" and d: "manifest_decode mb = Ok m"
    and both: "both_slots pf mb s" and stale: "stale pf m s"
  shows "fst (load_kernel_image pf True s) = Err BothSystemSlotsUnavailable"
proof -
  have slot: "\<exists>e s'. load_system_slot pf slot t = (Err e, s') \<and> both_slots pf mb s' \<and> stale pf m s'"
    if t: "both_slots pf mb t" "stale pf m t" for slot t
    using slot_of_manifest(1) [OF fw t(1) d _ t(2), of slot] slot_keeps_content [OF fw(2), of slot t] t(1)
    by (cases "load_system_slot pf slot t") (auto simp: both_slots_def)
  obtain r s0 where b: "load_boot_state pf s = (r, s0)" by fastforce
  note k = load_boot_state_keeps [OF fw b]
  obtain e1 s1 where 1: "load_system_slot pf A s0 = (Err e1, s1)" "both_slots pf mb s1" "stale pf m s1" using slot [of s0] both stale k by blast
  obtain e2 s2 where 2: "load_system_slot pf B s1 = (Err e2, s2)" using slot [OF 1(2,3)] by blast
  obtain e3 s3 where 3: "load_system_slot pf B s0 = (Err e3, s3)" "both_slots pf mb s3" "stale pf m s3" using slot [of s0] both stale k by blast
  obtain e4 s4 where 4: "load_system_slot pf A s3 = (Err e4, s4)" using slot [OF 3(2,3)] by blast
  show ?thesis
  proof (cases r)
    case (Inl e)
    then show ?thesis using b k(3) 1(1) 2 by (simp add: load_kernel_image_def recover_from_missing_boot_state_def)
  next
    case (Inr state)
    then show ?thesis using b 1(1) 2 3(1) 4 by (cases "active_slot state") (simp_all add: load_kernel_image_def load_fallback_def)
  qed
qed

text \<open>
  C37: a release that changes the trusted key starts once. When both slots hold such a release, as the update
  tool leaves them, the first boot makes the new key the trusted one, and from then on the release itself is
  refused: the next boot finds no usable slot.
\<close>

theorem transition_release_boots_once:
  assumes "firmware_ok (pf_firmware pf)" and "files_ok (pf_firmware pf)" and "both_slots pf mb s" and "manifest_decode mb = Ok m"
    and "has_next_trust_key m" and "next_trust_key_id m \<noteq> key_id m" and "load_kernel_image pf True s = (Ok info, s1)"
  shows "fst (load_kernel_image pf True s1) = Err BothSystemSlotsUnavailable"
proof -
  note fw = assms(1,2)
  have slot: "both_slots pf mb t' \<and> (stale pf m t \<longrightarrow> (\<exists>e. r = Err e) \<and> stale pf m t') \<and> ((\<exists>i. r = Ok i) \<longrightarrow> stale pf m t')"
    if t: "both_slots pf mb t" and l: "load_system_slot pf slot t = (r, t')" for slot t r t'
    using slot_of_manifest [OF fw t assms(4) l] slot_keeps_content [OF fw(2) l] t assms(5,6) by (auto simp: both_slots_def)
  obtain r s0 where b: "load_boot_state pf s = (r, s0)" by fastforce
  note k = load_boot_state_keeps [OF fw b] and w = recovery_writes_keep [OF fw]
  have s0: "both_slots pf mb s0" using k assms(3) by simp
  have "both_slots pf mb s1 \<and> stale pf m s1"
  proof (cases r)
    case (Inl e)
    then have rec: "recover_from_missing_boot_state pf s0 = (Ok info, s1)" using assms(7) b k(3) by (simp add: load_kernel_image_def)
    obtain ra sa where a: "load_system_slot pf A s0 = (ra, sa)" by fastforce
    obtain rb sb where bb: "load_system_slot pf B sa = (rb, sb)" by fastforce
    show ?thesis
      using rec a bb slot [OF s0 a] slot [OF _ bb] w(1)
      by (auto simp: recover_from_missing_boot_state_def Let_def split: sum.splits prod.splits if_splits)
  next
    case (Inr state)
    obtain ra sa where a: "load_system_slot pf (active_slot state) s0 = (ra, sa)" by fastforce
    obtain rb sb where bb: "load_system_slot pf (slot_other (active_slot state)) sa = (rb, sb)" by fastforce
    show ?thesis
      using assms(7) Inr b a bb slot [OF s0 a] slot [OF _ bb] w(2)
      by (auto simp: load_kernel_image_def load_fallback_def Let_def split: sum.splits prod.splits if_splits)
  qed
  then show ?thesis using stale_boot_fails [OF fw assms(4)] by blast
qed

section \<open>Sample devices\<close>

definition sample_old_state :: BootState where
  "sample_old_state = \<lparr>generation = 2, active_slot = B, active_release_version = 5\<rparr>"

definition sample_files :: "bytes option \<Rightarrow> SystemSlot list \<Rightarrow> bytes \<Rightarrow> string \<Rightarrow> bytes option" where
  "sample_files boot_state slots next_key p =
    (if p = BOOTSTA1 then boot_state
     else if p \<in> set (map slot_kernel_path slots) then Some [1, 2, 3, 4]
     else if p \<in> set (map slot_manifest_path slots) then Some (manifest_encode (sample_signed 5 (replicate 32 0x11) next_key))
     else None)"

definition sample_disk :: "bytes option \<Rightarrow> SystemSlot list \<Rightarrow> bytes \<Rightarrow> SampleFirmware Loader" where
  "sample_disk boot_state slots next_key =
    \<lparr>ld_fw = \<lparr>sf_files = sample_files boot_state slots next_key, sf_variables = (\<lambda>n. None)\<rparr>, ld_mem = (\<lambda>_. 0)\<rparr>"

lemma sample_files_ok: "files_ok (pf_firmware sample_platform)" "writable (pf_firmware sample_platform)"
  by (auto simp: files_ok_def writable_def sample_platform_def sample_firmware_def)

lemma sample_content: "content sample_platform s = sf_files (ld_fw s)"
  by (rule ext) (simp add: content_def sample_platform_def sample_firmware_def)

lemma sample_old_record: "BootState_decode (BootState_encode sample_old_state) = Ok sample_old_state"
  by (simp add: BootState_decode_Ok BootState_encode_layout sample_old_state_def)

lemma sample_old_load:
  "load_boot_state sample_platform (sample_disk (Some (BootState_encode sample_old_state)) slots next_key) =
    (Ok sample_old_state, sample_disk (Some (BootState_encode sample_old_state)) slots next_key)"
  by (auto simp: load_boot_state_def sample_disk_def sample_files_def sample_old_record)

theorem boot_state_update_atomic_witness:
  "fst (load_boot_state sample_platform ((sample_disk (Some (BootState_encode sample_old_state)) [] [])
     \<lparr>ld_fw := \<lparr>sf_files = (sample_files (Some (BootState_encode sample_old_state)) [] [])(BOOTSTA0 := Some [0]), sf_variables = (\<lambda>n. None)\<rparr>\<rparr>))
   \<in> {Ok sample_old_state, Ok (sample_old_state\<lparr>generation := 3, active_slot := A\<rparr>)}"
proof -
  let ?s = "sample_disk (Some (BootState_encode sample_old_state)) [] []"
  let ?s' = "?s\<lparr>ld_fw := \<lparr>sf_files = (sample_files (Some (BootState_encode sample_old_state)) [] [])(BOOTSTA0 := Some [0]), sf_variables = (\<lambda>n. None)\<rparr>\<rparr>"
  have path: "boot_state_path 3 = BOOTSTA0" by (simp add: boot_state_path_def)
  have "BootState_decode [0] = Err BootStateError.InvalidLength" by (simp add: BootState_decode_def)
  then have d: "decoded sample_platform ?s' BOOTSTA0 = None" by (simp add: decoded_def sample_content)
  have "records_ok sample_platform ?s"
    by (simp add: records_ok_def decoded_def sample_content sample_disk_def sample_files_def sample_old_record) (simp add: sample_old_state_def)
  then show ?thesis
    using boot_state_update_atomic [OF sample_files_ok(1) _ sample_old_load, of "[]" "[]" "sample_old_state\<lparr>generation := 3, active_slot := A\<rparr>" ?s'] path d
    by (simp add: sample_content sample_disk_def sample_old_state_def)
qed

theorem fallback_is_permanent_witness:
  "\<exists>info s'. load_kernel_image sample_platform True (sample_disk (Some (BootState_encode sample_old_state)) [A] (replicate 32 0)) = (Ok info, s') \<and>
    system_slot info = 0 \<and> recovery_fallback info = 1 \<and>
    fst (load_boot_state sample_platform s') = Ok \<lparr>generation = 3, active_slot = A, active_release_version = 5\<rparr>"
proof -
  let ?s = "sample_disk (Some (BootState_encode sample_old_state)) [A] (replicate 32 0)"
  have b: "load_system_slot sample_platform (active_slot sample_old_state) ?s = (Err KernelReadFailed, ?s)"
    by (simp add: load_system_slot_def sample_disk_def sample_files_def sample_old_state_def)
  obtain info s2 where a: "load_system_slot sample_platform (slot_other (active_slot sample_old_state)) ?s = (Ok info, s2)" "ki_release_version info = 5"
    using sample_slot [of ?s A 5 "replicate 32 0"] by (auto simp: sample_disk_def sample_files_def sample_old_state_def)
  show ?thesis
    using fallback_is_permanent [OF sample_firmware_ok sample_files_ok sample_old_load _ b a(1)] a(2) by (auto simp: sample_old_state_def)
qed

lemma sample_both: "content sample_platform (sample_disk st [A, B] next_key) (slot_manifest_path slot) =
    Some (manifest_encode (sample_signed 5 (replicate 32 0x11) next_key))"
  by (cases slot) (simp_all add: sample_content sample_disk_def sample_files_def)

theorem transition_release_boots_once_witness:
  "\<exists>info s'. load_kernel_image sample_platform True (sample_disk None [A, B] (replicate 32 0x22)) = (Ok info, s') \<and>
    fst (load_kernel_image sample_platform True s') = Err BothSystemSlotsUnavailable"
proof -
  let ?s = "sample_disk None [A, B] (replicate 32 0x22)" and ?m = "sample_signed 5 (replicate 32 0x11) (replicate 32 0x22)"
  have d: "manifest_decode (manifest_encode ?m) = Ok ?m" by (rule sample_valid) auto
  have both: "both_slots sample_platform (manifest_encode ?m) ?s"
    by (simp add: both_slots_def sample_both)
  have n: "has_next_trust_key ?m" "next_trust_key_id ?m \<noteq> key_id ?m"
    by (simp_all add: sample_signed_def manifest_unsigned_with_next_trust_key_def has_next_trust_key_def)
  obtain info sa where a: "load_system_slot sample_platform A ?s = (Ok info, sa)"
    using sample_slot [of ?s A 5 "replicate 32 0x22"] by (auto simp: sample_disk_def sample_files_def)
  have "stale sample_platform ?m sa" by (rule slot_of_manifest(2) [OF sample_firmware_ok sample_files_ok(1) both d a refl n])
  moreover have "both_slots sample_platform (manifest_encode ?m) sa"
    using both slot_keeps_content [OF sample_files_ok(1) a] by (simp add: both_slots_def)
  ultimately obtain e sb where b: "load_system_slot sample_platform B sa = (Err e, sb)"
    using slot_of_manifest(1) [OF sample_firmware_ok sample_files_ok(1) _ d] by (cases "load_system_slot sample_platform B sa") blast
  have "load_boot_state sample_platform ?s = (Err BootStateUnavailable, ?s)"
    by (simp add: load_boot_state_def sample_disk_def sample_files_def)
  moreover obtain r s3 where "repair_boot_state sample_platform A (word_of_nat (ki_release_version info)) sb = (r, s3)" by fastforce
  ultimately obtain info' s' where "load_kernel_image sample_platform True ?s = (Ok info', s')"
    using a b by (cases r) (auto simp: load_kernel_image_def recover_from_missing_boot_state_def Let_def)
  then show ?thesis using transition_release_boots_once [OF sample_firmware_ok sample_files_ok(1) both d n] by blast
qed

end
