(* ===== verification/LoaderHandoff.thy ===== *)
theory LoaderHandoff
  imports LoaderTrust VmTables
begin

text \<open>
  The hand-over from the loader to the kernel (\<^verbatim>\<open>boot/uefi-loader/src/main.rs\<close> and
  \<^verbatim>\<open>libs/boot-runtime/src/lib.rs\<close>): the memory map and the reserved ranges of the boot information, and what
  they mean for the pages that the kernel will hand out.
\<close>

section \<open>Boot information\<close>

text \<open>The memory types and pixel formats of the firmware, and a descriptor of its memory map.\<close>

datatype UefiMemoryType =
    UEFI_RESERVED | UEFI_LOADER_CODE | UEFI_LOADER_DATA | UEFI_BOOT_SERVICES_CODE | UEFI_BOOT_SERVICES_DATA
  | UEFI_RUNTIME_SERVICES_CODE | UEFI_RUNTIME_SERVICES_DATA | UEFI_CONVENTIONAL | UEFI_UNUSABLE | UEFI_ACPI_RECLAIM
  | UEFI_ACPI_NON_VOLATILE | UEFI_MMIO | UEFI_MMIO_PORT_SPACE | UEFI_PAL_CODE | UEFI_PERSISTENT_MEMORY | UEFI_UNACCEPTED | UEFI_CUSTOM

datatype GopPixelFormat = GopRgb | GopBgr | GopOther

record MemoryDescriptor =
  md_ty :: UefiMemoryType
  md_phys_start :: nat
  md_page_count :: nat
  md_att :: nat

fun map_pixel_format :: "GopPixelFormat \<Rightarrow> PixelFormat" where
  "map_pixel_format GopRgb = Rgb"
| "map_pixel_format GopBgr = Bgr"
| "map_pixel_format _ = PixelFormat.Unknown"

fun map_memory_type :: "UefiMemoryType \<Rightarrow> MemoryRegionKind" where
  "map_memory_type UEFI_RESERVED = Reserved"
| "map_memory_type UEFI_LOADER_CODE = LoaderCode"
| "map_memory_type UEFI_LOADER_DATA = LoaderData"
| "map_memory_type UEFI_BOOT_SERVICES_CODE = BootServicesCode"
| "map_memory_type UEFI_BOOT_SERVICES_DATA = BootServicesData"
| "map_memory_type UEFI_RUNTIME_SERVICES_CODE = RuntimeServicesCode"
| "map_memory_type UEFI_RUNTIME_SERVICES_DATA = RuntimeServicesData"
| "map_memory_type UEFI_CONVENTIONAL = Conventional"
| "map_memory_type UEFI_UNUSABLE = Unusable"
| "map_memory_type UEFI_ACPI_RECLAIM = AcpiReclaim"
| "map_memory_type UEFI_ACPI_NON_VOLATILE = AcpiNonVolatile"
| "map_memory_type UEFI_MMIO = Mmio"
| "map_memory_type UEFI_MMIO_PORT_SPACE = MmioPortSpace"
| "map_memory_type UEFI_PAL_CODE = PalCode"
| "map_memory_type UEFI_PERSISTENT_MEMORY = PersistentMemory"
| "map_memory_type UEFI_UNACCEPTED = Unaccepted"
| "map_memory_type _ = MemoryRegionKind.Unknown"

text \<open>The screen as the firmware reports it: address, size, resolution, stride and format.\<close>

definition read_framebuffer_info :: "nat \<Rightarrow> nat \<Rightarrow> nat \<times> nat \<Rightarrow> nat \<Rightarrow> GopPixelFormat \<Rightarrow> FrameBufferInfo" where
  "read_framebuffer_info base len resolution stride format =
    \<lparr>fb_base = base, fb_bytes = len, fb_width = fst resolution mod 2 ^ 32, fb_height = snd resolution mod 2 ^ 32, fb_stride = stride,
     fb_bytes_per_pixel = 4, fb_pixel_format = map_pixel_format format\<rparr>"

definition new_boot_info :: "FrameBufferInfo \<Rightarrow> FirmwareMode \<Rightarrow> KernelImageInfo \<Rightarrow> BootInfo" where
  "new_boot_info fb mode kernel_info =
    \<lparr>framebuffer = fb, firmware_mode = mode, runtime_hhdm_base = RUNTIME_HHDM_BASE, memory_region_count = 0, memory_region_total = 0,
     bi_memory_regions = replicate MAX_MEMORY_REGIONS MemoryRegion_EMPTY, reserved_memory_count = 0,
     bi_reserved_memory = replicate MAX_RESERVED_MEMORY_RANGES ReservedMemoryRange_EMPTY, kernel_image = kernel_info\<rparr>"

definition descriptor_region :: "MemoryDescriptor \<Rightarrow> MemoryRegion" where
  "descriptor_region d = \<lparr>mr_start = md_phys_start d, mr_page_count = md_page_count d, mr_kind = map_memory_type (md_ty d), mr_attributes = md_att d\<rparr>"

fun collect_memory_regions :: "MemoryDescriptor list \<Rightarrow> BootInfo \<Rightarrow> BootInfo" where
  "collect_memory_regions [] boot_info = boot_info"
| "collect_memory_regions (d # rest) boot_info =
    (let boot_info = boot_info\<lparr>memory_region_total := memory_region_total boot_info + 1\<rparr>
     in if MAX_MEMORY_REGIONS \<le> memory_region_count boot_info then collect_memory_regions rest boot_info
        else collect_memory_regions rest
          (boot_info\<lparr>bi_memory_regions := (bi_memory_regions boot_info)[memory_region_count boot_info := descriptor_region d],
                     memory_region_count := memory_region_count boot_info + 1\<rparr>))"

definition push_reserved_range :: "nat \<Rightarrow> nat \<Rightarrow> ReservedMemoryKind \<Rightarrow> BootInfo \<Rightarrow> BootInfo" where
  "push_reserved_range start len kind boot_info =
    (if len = 0 \<or> MAX_RESERVED_MEMORY_RANGES \<le> reserved_memory_count boot_info then boot_info
     else boot_info\<lparr>bi_reserved_memory := (bi_reserved_memory boot_info)[reserved_memory_count boot_info :=
                      \<lparr>rr_start = start, rr_length = len, rr_kind = kind\<rparr>],
                    reserved_memory_count := reserved_memory_count boot_info + 1\<rparr>)"

definition push_optional :: "(nat \<times> nat) option \<Rightarrow> ReservedMemoryKind \<Rightarrow> BootInfo \<Rightarrow> BootInfo" where
  "push_optional span kind boot_info = (case span of None \<Rightarrow> boot_info | Some (base, len) \<Rightarrow> push_reserved_range base len kind boot_info)"

definition collect_reserved_ranges ::
    "(nat \<times> nat) option \<Rightarrow> (nat \<times> nat) option \<Rightarrow> (nat \<times> nat) option \<Rightarrow> (nat \<times> nat) option \<Rightarrow> BootInfo \<Rightarrow> BootInfo" where
  "collect_reserved_ranges loader_image runtime_heap kernel_heap memory_map_buffer boot_info =
    (let boot_info = push_reserved_range 0 LOW_MEMORY_RESERVE_BYTES LowMemory boot_info;
         boot_info = push_optional loader_image LoaderImage boot_info;
         boot_info = push_optional runtime_heap RuntimeHeap boot_info;
         boot_info = push_optional kernel_heap KernelHeap boot_info;
         boot_info = push_reserved_range (fb_base (framebuffer boot_info)) (fb_bytes (framebuffer boot_info)) FrameBuffer boot_info;
         boot_info = push_optional memory_map_buffer MemoryMap boot_info
     in if ki_load_page_count (kernel_image boot_info) \<noteq> 0 then
          push_reserved_range (align_down (load_base (kernel_image boot_info)))
            (saturating_mul (ki_load_page_count (kernel_image boot_info)) PAGE_SIZE) KernelImageLoad boot_info
        else boot_info)"

text \<open>\<open>run_handoff_mode\<close> up to the start of the runtime: the boot information after the firmware has left.\<close>

definition handoff_boot_info ::
    "FrameBufferInfo \<Rightarrow> KernelImageInfo \<Rightarrow> MemoryDescriptor list \<Rightarrow> nat \<times> nat \<Rightarrow> (nat \<times> nat) option \<Rightarrow> nat \<times> nat \<Rightarrow> (nat \<times> nat) option \<Rightarrow> BootInfo" where
  "handoff_boot_info fb kernel_info memory_map map_buffer loader_image runtime_heap kernel_heap =
    collect_reserved_ranges loader_image (Some runtime_heap) kernel_heap (Some map_buffer)
      (collect_memory_regions memory_map (new_boot_info fb PostExitBootServices kernel_info))"

text \<open>
  \<open>activate_post_ebs_vm\<close> reserves everything that the page allocator of the loader has handed out.
  \<open>None\<close> is an index out of range.
\<close>

fun reserve_page_tables :: "(nat \<times> nat) list \<Rightarrow> BootInfo \<Rightarrow> ((VmError + unit) \<times> BootInfo) option" where
  "reserve_page_tables [] boot_info = Some (Ok (), boot_info)"
| "reserve_page_tables ((start, len) # rest) boot_info =
    (case reserve_memory boot_info start len PageTables of
       None \<Rightarrow> None
     | Some (False, boot_info) \<Rightarrow> Some (Err ReservedRangeCapacity, boot_info)
     | Some (True, boot_info) \<Rightarrow> reserve_page_tables rest boot_info)"

section \<open>What is reserved\<close>

text \<open>What an operation on the reserved ranges leaves alone.\<close>

definition map_kept :: "BootInfo \<Rightarrow> BootInfo \<Rightarrow> bool" where
  "map_kept boot_info boot_info' \<longleftrightarrow> memory_regions boot_info' = memory_regions boot_info \<and> firmware_mode boot_info' = firmware_mode boot_info \<and>
     framebuffer boot_info' = framebuffer boot_info \<and> kernel_image boot_info' = kernel_image boot_info"

definition reserves :: "nat \<Rightarrow> (nat \<times> nat) list \<Rightarrow> BootInfo \<Rightarrow> BootInfo \<Rightarrow> bool" where
  "reserves n ranges boot_info boot_info' \<longleftrightarrow> wf_boot_info boot_info' \<and> map_kept boot_info boot_info' \<and>
     reserved_memory_count boot_info' \<le> reserved_memory_count boot_info + n \<and>
     reserved_set boot_info' = reserved_set boot_info \<union> (\<Union>(start, len)\<in>set ranges. {start ..< start + len})"

lemma reserves_trans: "reserves n xs a b \<Longrightarrow> reserves m ys b c \<Longrightarrow> reserves (n + m) (xs @ ys) a c"
  by (auto simp: reserves_def map_kept_def)

lemma push_reserves:
  assumes "wf_boot_info boot_info" and "reserved_memory_count boot_info < 16" and "start + len \<le> U64_MAX"
  shows "reserves 1 [(start, len)] boot_info (push_reserved_range start len kind boot_info)"
proof (cases "len = 0")
  case False
  then show ?thesis
    using reserve_append [OF assms(1) _ assms(3), of kind] assms(2)
    by (simp add: reserves_def push_reserved_range_def map_kept_def memory_regions_def)
qed (use assms in \<open>simp add: reserves_def push_reserved_range_def map_kept_def\<close>)

definition span_list :: "(nat \<times> nat) option \<Rightarrow> (nat \<times> nat) list" where
  "span_list r = (case r of None \<Rightarrow> [] | Some x \<Rightarrow> [x])"

lemma push_optional_reserves:
  assumes "wf_boot_info boot_info" and "reserved_memory_count boot_info < 16" and "\<forall>(start, len)\<in>set (span_list r). start + len \<le> U64_MAX"
  shows "reserves 1 (span_list r) boot_info (push_optional r kind boot_info)"
  using push_reserves [OF assms(1,2)] assms by (cases r) (auto simp: push_optional_def span_list_def reserves_def map_kept_def)

text \<open>The memory that the loader has to protect.\<close>

definition handoff_ranges ::
    "FrameBufferInfo \<Rightarrow> KernelImageInfo \<Rightarrow> nat \<times> nat \<Rightarrow> (nat \<times> nat) option \<Rightarrow> nat \<times> nat \<Rightarrow> (nat \<times> nat) option \<Rightarrow> (nat \<times> nat) list" where
  "handoff_ranges fb kernel_info map_buffer loader_image runtime_heap kernel_heap =
    (0, 0x100000) # span_list loader_image @ [runtime_heap] @ span_list kernel_heap @ [(fb_base fb, fb_bytes fb), map_buffer] @
    (if ki_load_page_count kernel_info = 0 then [] else [(align_down (load_base kernel_info), ki_load_page_count kernel_info * 4096)])"

definition ranges_ok :: "(nat \<times> nat) list \<Rightarrow> bool" where
  "ranges_ok ranges \<longleftrightarrow> (\<forall>(start, len)\<in>set ranges. start + len \<le> U64_MAX)"

lemma collect_regions:
  assumes "wf_boot_info boot_info" and "reserved_memory_count boot_info = 0"
  shows "wf_boot_info (collect_memory_regions ds boot_info) \<and> reserved_memory_count (collect_memory_regions ds boot_info) = 0 \<and>
    framebuffer (collect_memory_regions ds boot_info) = framebuffer boot_info \<and> kernel_image (collect_memory_regions ds boot_info) = kernel_image boot_info \<and>
    firmware_mode (collect_memory_regions ds boot_info) = firmware_mode boot_info \<and>
    (memory_region_count boot_info \<le> 128 \<longrightarrow>
       memory_regions (collect_memory_regions ds boot_info) = memory_regions boot_info @ map descriptor_region (take (128 - memory_region_count boot_info) ds))"
  using assms
proof (induction ds arbitrary: boot_info)
  case (Cons d ds)
  let ?b = "boot_info\<lparr>memory_region_total := memory_region_total boot_info + 1\<rparr>"
  let ?c = "?b\<lparr>bi_memory_regions := (bi_memory_regions ?b)[memory_region_count ?b := descriptor_region d], memory_region_count := memory_region_count ?b + 1\<rparr>"
  have len: "length (bi_memory_regions boot_info) = 128" using Cons.prems by (simp add: wf_boot_info_def)
  have wf: "wf_boot_info ?b" "wf_boot_info ?c" using Cons.prems by (simp_all add: wf_boot_info_def reserved_memory_def)
  show ?case
  proof (cases "128 \<le> memory_region_count boot_info")
    case True
    then show ?thesis using Cons.IH [OF wf(1)] Cons.prems by (simp add: memory_regions_def)
  next
    case False
    then have "memory_regions ?c = memory_regions boot_info @ [descriptor_region d]"
      using len by (simp add: memory_regions_def take_Suc_conv_app_nth min_def)
    then show ?thesis using False Cons.IH [OF wf(2)] Cons.prems by (auto simp: Let_def Suc_diff_Suc [symmetric])
  qed
qed simp

lemma new_boot_info_wf: "wf_boot_info (new_boot_info fb mode info)" "reserved_memory_count (new_boot_info fb mode info) = 0"
  "reserved_set (new_boot_info fb mode info) = {}" "memory_regions (new_boot_info fb mode info) = []" "memory_region_count (new_boot_info fb mode info) = 0"
  by (simp_all add: new_boot_info_def wf_boot_info_def reserved_memory_def reserved_set_def memory_regions_def)

lemma reserves_seven:
  assumes "reserves 1 r1 b0 b1" "reserves 1 r2 b1 b2" "reserves 1 r3 b2 b3" "reserves 1 r4 b3 b4" "reserves 1 r5 b4 b5" "reserves 1 r6 b5 b6" "reserves 1 r7 b6 b7"
  shows "reserves 7 (r1 @ r2 @ r3 @ r4 @ r5 @ r6 @ r7) b0 b7"
  using reserves_trans [OF assms(1) reserves_trans [OF assms(2) reserves_trans [OF assms(3) reserves_trans [OF assms(4)
      reserves_trans [OF assms(5) reserves_trans [OF assms(6,7)]]]]]] by (simp add: numeral_eq_Suc)

lemma collect_reserves:
  assumes "wf_boot_info b0" and "reserved_memory_count b0 = 0"
    and "ranges_ok (handoff_ranges (framebuffer b0) (kernel_image b0) map_buffer loader_image runtime_heap kernel_heap)"
  shows "reserves 7 (handoff_ranges (framebuffer b0) (kernel_image b0) map_buffer loader_image runtime_heap kernel_heap) b0
    (collect_reserved_ranges loader_image (Some runtime_heap) kernel_heap (Some map_buffer) b0)"
proof -
  define b1 where "b1 = push_reserved_range 0 LOW_MEMORY_RESERVE_BYTES LowMemory b0"
  define b2 where "b2 = push_optional loader_image LoaderImage b1"
  define b3 where "b3 = push_optional (Some runtime_heap) RuntimeHeap b2"
  define b4 where "b4 = push_optional kernel_heap KernelHeap b3"
  define b5 where "b5 = push_reserved_range (fb_base (framebuffer b4)) (fb_bytes (framebuffer b4)) FrameBuffer b4"
  define b6 where "b6 = push_optional (Some map_buffer) MemoryMap b5"
  let ?k = "kernel_image b0"
  define r7 where "r7 = (if ki_load_page_count ?k = 0 then [] else [(align_down (load_base ?k), ki_load_page_count ?k * 4096)])"
  define b7 where "b7 = (if ki_load_page_count ?k \<noteq> 0 then push_reserved_range (align_down (load_base ?k))
      (saturating_mul (ki_load_page_count ?k) PAGE_SIZE) KernelImageLoad b6 else b6)"
  have ok: "\<forall>(start, len)\<in>set (span_list loader_image). start + len \<le> U64_MAX" "\<forall>(start, len)\<in>set (span_list (Some runtime_heap)). start + len \<le> U64_MAX"
    "\<forall>(start, len)\<in>set (span_list kernel_heap). start + len \<le> U64_MAX" "\<forall>(start, len)\<in>set (span_list (Some map_buffer)). start + len \<le> U64_MAX"
    "fb_base (framebuffer b0) + fb_bytes (framebuffer b0) \<le> U64_MAX" "\<forall>(start, len)\<in>set r7. start + len \<le> U64_MAX"
    using assms(3) by (auto simp: ranges_ok_def handoff_ranges_def span_list_def r7_def)
  have s1: "reserves 1 [(0, 0x100000)] b0 b1" using push_reserves [OF assms(1), of 0 "0x100000"] assms(2) by (simp add: b1_def U64_MAX_numeral)
  have s2: "reserves 1 (span_list loader_image) b1 b2" unfolding b2_def
    by (rule push_optional_reserves) (use s1 ok assms(2) in \<open>auto simp: reserves_def\<close>)
  have s3: "reserves 1 (span_list (Some runtime_heap)) b2 b3" unfolding b3_def
    by (rule push_optional_reserves) (use s1 s2 ok assms(2) in \<open>auto simp: reserves_def\<close>)
  have s4: "reserves 1 (span_list kernel_heap) b3 b4" unfolding b4_def
    by (rule push_optional_reserves) (use s1 s2 s3 ok assms(2) in \<open>auto simp: reserves_def\<close>)
  have fb: "framebuffer b4 = framebuffer b0" "kernel_image b4 = ?k" using s1 s2 s3 s4 by (auto simp: reserves_def map_kept_def)
  have s5: "reserves 1 [(fb_base (framebuffer b0), fb_bytes (framebuffer b0))] b4 b5" unfolding b5_def fb
    by (rule push_reserves) (use s1 s2 s3 s4 ok assms(2) in \<open>auto simp: reserves_def\<close>)
  have s6: "reserves 1 (span_list (Some map_buffer)) b5 b6" unfolding b6_def
    by (rule push_optional_reserves) (use s1 s2 s3 s4 s5 ok assms(2) in \<open>auto simp: reserves_def\<close>)
  have count6: "wf_boot_info b6" "reserved_memory_count b6 < 16" "kernel_image b6 = ?k"
    using s1 s2 s3 s4 s5 s6 assms(2) fb by (auto simp: reserves_def map_kept_def)
  have s7: "reserves 1 r7 b6 b7"
    using push_reserves [OF count6(1,2), of "align_down (load_base ?k)" "ki_load_page_count ?k * 4096" KernelImageLoad] ok(6) count6(1)
    by (auto simp: b7_def r7_def reserves_def map_kept_def)
  have "collect_reserved_ranges loader_image (Some runtime_heap) kernel_heap (Some map_buffer) b0 = b7"
    using count6(3) by (simp add: collect_reserved_ranges_def b1_def b2_def b3_def b4_def b5_def b6_def b7_def Let_def)
  moreover have "handoff_ranges (framebuffer b0) ?k map_buffer loader_image runtime_heap kernel_heap =
      [(0, 0x100000)] @ span_list loader_image @ span_list (Some runtime_heap) @ span_list kernel_heap @
      [(fb_base (framebuffer b0), fb_bytes (framebuffer b0))] @ span_list (Some map_buffer) @ r7"
    by (simp add: handoff_ranges_def span_list_def r7_def)
  ultimately show ?thesis using reserves_seven [OF s1 s2 s3 s4 s5 s6 s7] by simp
qed

lemma handoff_reserves:
  assumes "ranges_ok (handoff_ranges fb info map_buffer loader_image runtime_heap kernel_heap)"
  shows "wf_boot_info (handoff_boot_info fb info ds map_buffer loader_image runtime_heap kernel_heap)"
    and "reserved_set (handoff_boot_info fb info ds map_buffer loader_image runtime_heap kernel_heap) =
      (\<Union>(start, len)\<in>set (handoff_ranges fb info map_buffer loader_image runtime_heap kernel_heap). {start ..< start + len})"
    and "memory_regions (handoff_boot_info fb info ds map_buffer loader_image runtime_heap kernel_heap) = map descriptor_region (take 128 ds)"
    and "firmware_mode (handoff_boot_info fb info ds map_buffer loader_image runtime_heap kernel_heap) = PostExitBootServices"
proof -
  let ?b0 = "collect_memory_regions ds (new_boot_info fb PostExitBootServices info)"
  note c = collect_regions [OF new_boot_info_wf(1,2), of ds fb PostExitBootServices info]
  have b0: "wf_boot_info ?b0" "reserved_memory_count ?b0 = 0" "framebuffer ?b0 = fb" "kernel_image ?b0 = info"
      "memory_regions ?b0 = map descriptor_region (take 128 ds)" "firmware_mode ?b0 = PostExitBootServices"
    using c new_boot_info_wf(4,5) [of fb PostExitBootServices info] by (simp_all add: new_boot_info_def)
  have "reserved_set ?b0 = {}" using b0(2) by (simp add: reserved_set_def reserved_memory_def)
  then show "wf_boot_info (handoff_boot_info fb info ds map_buffer loader_image runtime_heap kernel_heap)"
    and "reserved_set (handoff_boot_info fb info ds map_buffer loader_image runtime_heap kernel_heap) =
      (\<Union>(start, len)\<in>set (handoff_ranges fb info map_buffer loader_image runtime_heap kernel_heap). {start ..< start + len})"
    and "memory_regions (handoff_boot_info fb info ds map_buffer loader_image runtime_heap kernel_heap) = map descriptor_region (take 128 ds)"
    and "firmware_mode (handoff_boot_info fb info ds map_buffer loader_image runtime_heap kernel_heap) = PostExitBootServices"
    using collect_reserves [OF b0(1,2), unfolded b0(3,4), OF assms] b0(5,6)
    by (simp_all add: handoff_boot_info_def reserves_def map_kept_def)
qed

lemma reserve_memory_kept: "reserve_memory b start len kind = Some (ok, b') \<Longrightarrow> map_kept b b'"
  by (auto simp: reserve_memory_def map_kept_def memory_regions_def Let_def split: if_splits option.splits)

lemma reserve_page_tables_Ok:
  assumes "wf_boot_info b" and "ranges_ok ranges" and "reserve_page_tables ranges b = Some (Ok u, b')"
  shows "wf_boot_info b' \<and> map_kept b b' \<and> reserved_set b' = reserved_set b \<union> (\<Union>(start, len)\<in>set ranges. {start ..< start + len})"
  using assms
proof (induction ranges arbitrary: b)
  case (Cons r ranges)
  obtain start len where r: "r = (start, len)" by fastforce
  have bound: "start + len \<le> U64_MAX" "ranges_ok ranges" using Cons.prems(2) r by (simp_all add: ranges_ok_def)
  obtain b1 where res: "reserve_memory b start len PageTables = Some (True, b1)" "reserve_page_tables ranges b1 = Some (Ok u, b')"
    using Cons.prems(3) r by (auto split: option.splits bool.splits)
  then have b1: "wf_boot_info b1" "reserved_set b1 = reserved_set b \<union> {start ..< start + len}" "map_kept b b1"
    using reserve_memory_effect [OF Cons.prems(1) bound(1), of PageTables] reserve_memory_kept [OF res(1)] by auto
  show ?case using Cons.IH [OF b1(1) bound(2) res(2)] b1 r by (auto simp: map_kept_def)
qed (simp add: map_kept_def)

lemma allocated_ranges_cover:
  assumes "allocator_inv allocator"
  shows "ranges_ok (allocated_ranges allocator)"
    and "a div 4096 \<in> bumped_pages (regions allocator) \<Longrightarrow> a \<in> (\<Union>(start, len)\<in>set (allocated_ranges allocator). {start ..< start + len})"
proof -
  have wf: "4096 dvd rc_start r" "next_page r * 4096 + rc_start r \<le> U64_MAX" if "r \<in> set (regions allocator)" for r
  proof -
    have w: "wf_region r" using assms that by (simp add: allocator_inv_def wf_regions_def)
    have "next_page r * 4096 \<le> rc_page_count r * 4096" using w by (simp add: wf_region_def)
    then show "4096 dvd rc_start r" "next_page r * 4096 + rc_start r \<le> U64_MAX" using w by (simp_all add: wf_region_def)
  qed
  then have exact: "saturating_mul (next_page r) 4096 = next_page r * 4096" if "r \<in> set (regions allocator)" for r
    using that by (metis add_leD1 saturating_mul_exact)
  show "ranges_ok (allocated_ranges allocator)" using wf exact by (auto simp: ranges_ok_def allocated_ranges_def add.commute)
  assume "a div 4096 \<in> bumped_pages (regions allocator)"
  then obtain r where r: "r \<in> set (regions allocator)" "rc_start r div 4096 \<le> a div 4096" "a div 4096 < rc_start r div 4096 + next_page r"
    by (auto simp: bumped_pages_def cursor_pages_def page_range_def)
  have "rc_start r \<le> a" "a < rc_start r + next_page r * 4096" using r(2,3) wf(1) [OF r(1)] by (auto simp: dvd_def)
  moreover have "next_page r \<noteq> 0" using r(2,3) by (intro notI) simp
  ultimately show "a \<in> (\<Union>(start, len)\<in>set (allocated_ranges allocator). {start ..< start + len})"
    using r(1) exact [OF r(1)] by (auto simp: allocated_ranges_def intro!: bexI [of _ r])
qed

lemma reserved_not_usable:
  assumes "boot_map_ok b" and "wf_boot_info b" and "a \<in> reserved_set b"
  shows "a div 4096 \<notin> usable_pages (regions (allocator_init self b))"
proof -
  obtain r where r: "r \<in> set (reserved_memory b)" "rr_start r \<le> a" "a < rr_start r + rr_length r"
    using assms(3) by (auto simp: reserved_set_def reserved_bytes_of_def)
  have "a div 4096 * 4096 \<le> a" "a < (a div 4096 + 1) * 4096" by simp_all
  then have "a div 4096 \<in> touched_pages r" using r(2,3) by (auto simp: touched_pages_def)
  then have "a div 4096 \<notin> boot_pages b" using r(1) by (auto simp: boot_pages_def boot_region_pages_def)
  then show ?thesis using allocator_init_result [OF assms(1), of self] by blast
qed

text \<open>The memory map of the firmware: page-aligned, disjoint descriptors.\<close>

definition firmware_map_ok :: "MemoryDescriptor list \<Rightarrow> bool" where
  "firmware_map_ok ds \<longleftrightarrow> (\<forall>d\<in>set ds. 4096 dvd md_phys_start d \<and> md_phys_start d \<le> U64_MAX) \<and>
     sorted_wrt (\<lambda>a b. md_phys_start a + md_page_count a * 4096 \<le> md_phys_start b \<or> md_phys_start b + md_page_count b * 4096 \<le> md_phys_start a) ds"

lemma region_end_le: "MemoryRegion_end (descriptor_region d) \<le> md_phys_start d + md_page_count d * 4096"
  by (simp add: MemoryRegion_end_def size_bytes_def descriptor_region_def saturating_add_def saturating_mul_def min_def)

lemma handoff_map_ok:
  assumes "firmware_map_ok ds" and "memory_regions b = map descriptor_region (take 128 ds)" and "wf_boot_info b"
  shows "boot_map_ok b"
proof -
  have "\<forall>d\<in>set (take 128 ds). 4096 dvd md_phys_start d \<and> md_phys_start d \<le> U64_MAX"
    using assms(1) by (auto simp: firmware_map_ok_def dest: in_set_takeD)
  moreover have "sorted_wrt (\<lambda>a b. md_phys_start a + md_page_count a * 4096 \<le> md_phys_start b \<or> md_phys_start b + md_page_count b * 4096 \<le> md_phys_start a) (take 128 ds)"
    using assms(1) by (simp add: firmware_map_ok_def sorted_wrt_take)
  then have "sorted_wrt (\<lambda>a b. MemoryRegion_end (descriptor_region a) \<le> md_phys_start b \<or> MemoryRegion_end (descriptor_region b) \<le> md_phys_start a) (take 128 ds)"
  proof (rule sorted_wrt_mono_rel [rotated])
    fix a b :: MemoryDescriptor assume "md_phys_start a + md_page_count a * 4096 \<le> md_phys_start b \<or> md_phys_start b + md_page_count b * 4096 \<le> md_phys_start a"
    then show "MemoryRegion_end (descriptor_region a) \<le> md_phys_start b \<or> MemoryRegion_end (descriptor_region b) \<le> md_phys_start a"
      using region_end_le [of a] region_end_le [of b] by linarith
  qed
  ultimately show ?thesis
    using assms(2,3) by (auto simp: boot_map_ok_def reserved_ok_def disjoint_boot_map_def wf_boot_info_def sorted_wrt_map descriptor_region_def)
qed

text \<open>
  C13: the kernel never hands out memory that is in use at the hand-over. For the boot information that the
  loader makes, no page of the kernel's allocator touches the first megabyte, the loader, the two heaps,
  the screen, the memory map or the kernel image, and none was allocated by the loader itself, as its page
  tables were.
\<close>

theorem handoff_pages_safe:
  assumes "ranges_ok (handoff_ranges fb info map_buffer loader_image runtime_heap kernel_heap)" and "firmware_map_ok ds"
    and "allocator_inv loader"
    and "reserve_page_tables (allocated_ranges loader) (handoff_boot_info fb info ds map_buffer loader_image runtime_heap kernel_heap) = Some (Ok (), boot_info)"
    and "(start, len) \<in> set (handoff_ranges fb info map_buffer loader_image runtime_heap kernel_heap) \<and> start \<le> a \<and> a < start + len
      \<or> a div 4096 \<in> live_pages loader"
  shows "a div 4096 \<notin> usable_pages (regions (allocator_init kernel_allocator boot_info))"
proof -
  note h = handoff_reserves [OF assms(1), of ds] and cov = allocated_ranges_cover [OF assms(3)]
  note res = reserve_page_tables_Ok [OF h(1) cov(1) assms(4)]
  have "a \<in> (\<Union>(start, len)\<in>set ranges. {start ..< start + len})" if "(start, len) \<in> set ranges" "start \<le> a" "a < start + len" for ranges
    using that by (intro UN_I [of "(start, len)"]) simp_all
  then have "a \<in> reserved_set boot_info" using assms(5) res h(2) cov(2) [of a] unfolding live_pages_def by blast
  moreover have "boot_map_ok boot_info" using handoff_map_ok [OF assms(2)] res h(3) by (simp add: map_kept_def)
  ultimately show ?thesis using reserved_not_usable res by blast
qed

text \<open>
  C38: the stack is not among the protected memory. Any page of a boot-services region outside those ranges,
  where the firmware keeps the stack on which the loader and the kernel run, is given to the allocator
  as free memory.
\<close>

theorem handoff_stack_not_reserved:
  assumes "ranges_ok (handoff_ranges fb info map_buffer loader_image runtime_heap kernel_heap)" and "firmware_map_ok ds"
    and "d \<in> set (take 128 ds)" and "md_ty d = UEFI_BOOT_SERVICES_DATA"
    and "md_phys_start d \<le> stack div 4096 * 4096" and "(stack div 4096 + 1) * 4096 \<le> md_phys_start d + md_page_count d * 4096"
    and "md_phys_start d + md_page_count d * 4096 \<le> U64_MAX"
    and "\<forall>(start, len)\<in>set (handoff_ranges fb info map_buffer loader_image runtime_heap kernel_heap). start + len \<le> stack div 4096 * 4096 \<or> (stack div 4096 + 1) * 4096 \<le> start"
    and "length (regions (allocator_init allocator (handoff_boot_info fb info ds map_buffer loader_image runtime_heap kernel_heap))) < MAX_ALLOCATOR_REGIONS"
  shows "stack div 4096 \<in> usable_pages (regions (allocator_init allocator (handoff_boot_info fb info ds map_buffer loader_image runtime_heap kernel_heap)))"
proof -
  let ?b = "handoff_boot_info fb info ds map_buffer loader_image runtime_heap kernel_heap" and ?p = "stack div 4096"
  note h = handoff_reserves [OF assms(1), of ds]
  have "?p \<notin> touched_pages r" if r: "r \<in> set (reserved_memory ?b)" for r
  proof
    assume t: "?p \<in> touched_pages r"
    define x where "x = max (rr_start r) (?p * 4096)"
    have x: "rr_start r \<le> x" "x < rr_start r + rr_length r" "?p * 4096 \<le> x" "x < (?p + 1) * 4096"
      using t by (auto simp: touched_pages_def x_def)
    then have "x \<in> reserved_set ?b" using r by (auto simp: reserved_set_def reserved_bytes_of_def)
    then obtain start len where sl: "(start, len) \<in> set (handoff_ranges fb info map_buffer loader_image runtime_heap kernel_heap)" "start \<le> x" "x < start + len"
      unfolding h(2) by auto
    show False using bspec [OF assms(8) sl(1)] sl(2,3) x(3,4) by auto
  qed
  moreover have "MemoryRegion_end (descriptor_region d) = md_phys_start d + md_page_count d * 4096"
    using assms(7) by (simp add: MemoryRegion_end_def size_bytes_def descriptor_region_def)
  ultimately have "?p \<in> boot_region_pages ?b (descriptor_region d)"
    using assms(4-6) h(4) by (auto simp: boot_region_pages_def whole_pages_def descriptor_region_def)
  then have "?p \<in> boot_pages ?b" using assms(3) h(3) by (auto simp: boot_pages_def)
  then show ?thesis using allocator_init_result [OF handoff_map_ok [OF assms(2) h(3,1)], of allocator] assms(9) by blast
qed

section \<open>A sample hand-over\<close>

definition sample_screen :: FrameBufferInfo where
  "sample_screen = read_framebuffer_info 0x80000000 0x300000 (1024, 768) 1024 GopBgr"

definition sample_map :: "MemoryDescriptor list" where
  "sample_map = [\<lparr>md_ty = UEFI_BOOT_SERVICES_DATA, md_phys_start = 0x300000, md_page_count = 4, md_att = 0\<rparr>]"

definition sample_handoff :: BootInfo where
  "sample_handoff = handoff_boot_info sample_screen KernelImageInfo_EMPTY sample_map (0x400000, 0x1000) None (0x500000, 0x2000) None"

lemmas sample_handoff_defs = sample_screen_def read_framebuffer_info_def KernelImageInfo_EMPTY_def sample_map_def

lemma sample_ranges: "handoff_ranges sample_screen KernelImageInfo_EMPTY (0x400000, 0x1000) None (0x500000, 0x2000) None =
    [(0, 0x100000), (0x500000, 0x2000), (0x80000000, 0x300000), (0x400000, 0x1000)]"
  by (simp add: handoff_ranges_def sample_handoff_defs span_list_def)

lemma sample_ranges_ok: "ranges_ok (handoff_ranges sample_screen KernelImageInfo_EMPTY (0x400000, 0x1000) None (0x500000, 0x2000) None)"
  unfolding sample_ranges by (simp add: ranges_ok_def U64_MAX_numeral)

lemma sample_map_ok: "firmware_map_ok sample_map"
  by (simp add: firmware_map_ok_def sample_map_def U64_MAX_numeral)

definition listed :: "BootInfo \<Rightarrow> ReservedMemoryRange list \<Rightarrow> bool" where
  "listed b rs \<longleftrightarrow> length (bi_reserved_memory b) = 16 \<and> reserved_memory_count b = length rs \<and> reserved_memory b = rs"

lemma listed_push:
  "listed b rs \<Longrightarrow> length rs < 16 \<Longrightarrow> len \<noteq> 0 \<Longrightarrow> listed (push_reserved_range start len kind b) (rs @ [\<lparr>rr_start = start, rr_length = len, rr_kind = kind\<rparr>])"
  by (auto simp: listed_def push_reserved_range_def reserved_memory_def take_Suc_conv_app_nth min_def)

lemma listed_reserve:
  assumes "listed b rs" and "length rs < 16" and "len \<noteq> 0" and "\<forall>r\<in>set rs. rr_kind r = kind \<longrightarrow> ReservedMemoryRange_end r \<noteq> start"
  shows "\<exists>b'. reserve_memory b start len kind = Some (True, b') \<and> listed b' (rs @ [\<lparr>rr_start = start, rr_length = len, rr_kind = kind\<rparr>])"
proof -
  have "take (reserved_memory_count b) (bi_reserved_memory b) = rs" using assms(1,2) by (auto simp: listed_def reserved_memory_def min_def split: if_splits)
  then have "position (\<lambda>range. rr_kind range = kind \<and> ReservedMemoryRange_end range = start) (take (reserved_memory_count b) (bi_reserved_memory b)) = None"
    using assms(4) by (auto simp: position_None)
  then show ?thesis
    using listed_push [OF assms(1-3), of start kind] assms(1-3) by (auto simp: reserve_memory_def listed_def push_reserved_range_def)
qed

lemma sample_listed: "listed sample_handoff
    [\<lparr>rr_start = 0, rr_length = 0x100000, rr_kind = LowMemory\<rparr>, \<lparr>rr_start = 0x500000, rr_length = 0x2000, rr_kind = RuntimeHeap\<rparr>,
     \<lparr>rr_start = 0x80000000, rr_length = 0x300000, rr_kind = FrameBuffer\<rparr>, \<lparr>rr_start = 0x400000, rr_length = 0x1000, rr_kind = MemoryMap\<rparr>]"
proof -
  let ?b = "collect_memory_regions sample_map (new_boot_info sample_screen PostExitBootServices KernelImageInfo_EMPTY)"
  note c = collect_regions [OF new_boot_info_wf(1,2), of sample_map sample_screen PostExitBootServices KernelImageInfo_EMPTY]
  have l0: "listed ?b []" and fb: "framebuffer ?b = sample_screen" "kernel_image ?b = KernelImageInfo_EMPTY"
    using c by (simp_all add: listed_def wf_boot_info_def reserved_memory_def) (simp_all add: new_boot_info_def)
  note l1 = listed_push [OF l0, of "0x100000" 0 LowMemory, simplified]
  note l2 = listed_push [OF l1, of "0x2000" "0x500000" RuntimeHeap, simplified]
  note l3 = listed_push [OF l2, of "0x300000" "0x80000000" FrameBuffer, simplified]
  note l4 = listed_push [OF l3, of "0x1000" "0x400000" MemoryMap, simplified]
  have "framebuffer (push_reserved_range a n k b) = framebuffer b" "kernel_image (push_reserved_range a n k b) = kernel_image b" for a n k b
    by (simp_all add: push_reserved_range_def)
  then show ?thesis
    using l4 fb by (simp add: sample_handoff_def handoff_boot_info_def collect_reserved_ranges_def push_optional_def sample_screen_def
        read_framebuffer_info_def KernelImageInfo_EMPTY_def Let_def)
qed

lemma sample_reserved: "reserved_memory sample_handoff =
    [\<lparr>rr_start = 0, rr_length = 0x100000, rr_kind = LowMemory\<rparr>, \<lparr>rr_start = 0x500000, rr_length = 0x2000, rr_kind = RuntimeHeap\<rparr>,
     \<lparr>rr_start = 0x80000000, rr_length = 0x300000, rr_kind = FrameBuffer\<rparr>, \<lparr>rr_start = 0x400000, rr_length = 0x1000, rr_kind = MemoryMap\<rparr>]"
  using sample_listed by (simp add: listed_def)

text \<open>A loader that has allocated one page for its page tables.\<close>

definition sample_loader :: PhysicalPageAllocator where
  "sample_loader = \<lparr>pa_initialized = True, regions = [\<lparr>rc_start = 0x300000, rc_page_count = 4, next_page = 1, rc_kind = BootServicesData\<rparr>],
    total_usable_pages = 4, allocated_pages = 1, free_extents = []\<rparr>"

lemma sample_loader_inv: "allocator_inv sample_loader"
  by (simp add: allocator_inv_def sample_loader_def wf_region_def region_pages_def cursor_pages_def page_range_def live_pages_def
      U64_MAX_numeral wf_regions_def)

lemma sample_tables_reserved: "\<exists>b. reserve_page_tables (allocated_ranges sample_loader) sample_handoff = Some (Ok (), b)"
  using listed_reserve [OF sample_listed, of "0x1000" PageTables "0x300000"]
  by (auto simp: allocated_ranges_def sample_loader_def saturating_mul_def U64_MAX_numeral)

lemma sample_handoff_regions: "length (regions (allocator_init PhysicalPageAllocator_new sample_handoff)) < MAX_ALLOCATOR_REGIONS"
proof -
  have "memory_regions sample_handoff = map descriptor_region sample_map" "firmware_mode sample_handoff = PostExitBootServices"
    using handoff_reserves(3,4) [OF sample_ranges_ok, of sample_map] by (simp_all add: sample_handoff_def sample_map_def)
  then show ?thesis
    by (simp add: allocator_init_def sample_map_def descriptor_region_def add_region_fragments_def sample_reserved ReservedMemoryRange_end_def
        align_down_eq align_up_page_eq U64_MAX_numeral size_bytes_def split_span_def push_span_def span_is_empty_def push_region_def
        PhysicalPageAllocator_new_def saturating_add_def saturating_mul_def Let_def)
qed

theorem handoff_pages_safe_witness:
  "\<exists>b. reserve_page_tables (allocated_ranges sample_loader) sample_handoff = Some (Ok (), b) \<and>
    0x300 \<notin> usable_pages (regions (allocator_init PhysicalPageAllocator_new b)) \<and>
    0x500 \<notin> usable_pages (regions (allocator_init PhysicalPageAllocator_new b))"
proof -
  obtain b where b: "reserve_page_tables (allocated_ranges sample_loader) sample_handoff = Some (Ok (), b)" using sample_tables_reserved by blast
  note safe = handoff_pages_safe [OF sample_ranges_ok sample_map_ok sample_loader_inv b [unfolded sample_handoff_def], unfolded sample_ranges,
      where kernel_allocator = PhysicalPageAllocator_new]
  have "0x300 \<in> live_pages sample_loader" by (simp add: live_pages_def sample_loader_def cursor_pages_def page_range_def)
  then show ?thesis using b safe [of 0 0 "0x300000"] safe [of "0x500000" "0x2000" "0x500000"] by simp
qed

theorem handoff_stack_not_reserved_witness:
  "0x302 \<in> usable_pages (regions (allocator_init PhysicalPageAllocator_new sample_handoff))"
  using handoff_stack_not_reserved [OF sample_ranges_ok sample_map_ok, of "hd sample_map" "0x302800" PhysicalPageAllocator_new]
    sample_handoff_regions unfolding sample_ranges sample_handoff_def
  by (simp add: sample_map_def U64_MAX_numeral)

end
