(* ===== verification/Spec2Isabelle.thy ===== *)
theory Spec2Isabelle
  imports UpdateFormat KernelHeap MemoryInit FsProps UserElf VmKernelImage UserIsolation SchedulerGate LoaderRecovery LoaderHandoff
begin

text \<open>
  A verification of codexOS, a small x86-64 operating system in Rust: a UEFI loader that starts a signed
  kernel from one of two slots, and a kernel with a physical page allocator, page tables, isolated user
  processes, a heap and a file system that survives power cuts. This theory imports the whole
  development.

  \<^bold>\<open>Conventions.\<close> A struct is a \<^verbatim>\<open>record\<close>, an enum a \<^verbatim>\<open>datatype\<close> with the constructors of the source. A
  function that returns \<^verbatim>\<open>Result\<close> returns a sum with the error on the left (\<open>Err\<close>, \<open>Ok\<close>), \<open>try_bind\<close> is the
  \<^verbatim>\<open>?\<close> operator; a method that changes its receiver returns it, and \<open>st_bind\<close> is \<^verbatim>\<open>?\<close> in such code, so
  that the state at an early return is part of the result. Encoded integers are machine words; sizes and
  addresses are natural numbers with the bound \<open>U64_MAX\<close> written out in \<open>checked_add\<close>, \<open>saturating_add\<close> and
  the like. Loops are structural recursion or carry a termination proof. The walks along the free list and
  the idle loop of the scheduler, which end only while an invariant holds, are partial functions with the
  result \<open>None\<close> for an endless loop; the theorems about them show a result \<open>Some\<close>. Fixed arrays with a count are
  lists with the capacity checks of the code. No definition uses fuel.

  \<^bold>\<open>Prelude\<close> holds these types and operators with the lemmas that all components share, \<^bold>\<open>Crc32\<close> the bitwise
  CRC of the update format and of the file system, with the proof that it detects a change of any one byte.

  \<^bold>\<open>UpdateFormat\<close> (\<^verbatim>\<open>libs/update-format\<close>): manifest, boot state and trust root. Each decoder accepts exactly the
  canonical encodings; the span that is hashed for the signature is the span that was parsed; a change of
  one byte of a stored state is detected.

  \<^bold>\<open>HeapAllocator, HeapReclaim, KernelHeap\<close> (\<^verbatim>\<open>libs/heap-allocator\<close>): the first-fit free list over
  8-byte memory cells. The invariant says that free and allocated blocks tile the region; allocation and
  deallocation refine the abstract map of live allocations. The locale \<open>global_alloc\<close> states what a client
  relies on and is interpreted on the model of both heaps.

  \<^bold>\<open>BootInfo, Memory, MemoryProps, MemoryInit\<close> (\<^verbatim>\<open>libs/bootinfo\<close>, \<^verbatim>\<open>kernel/src/memory.rs\<close>): the boot record and
  the page allocator, whose operations act on the set of live pages; initialisation hands out exactly the
  usable memory of the boot map that nothing else claims. \<^bold>\<open>PageSource\<close> is the contract towards the clients of
  the allocator, a locale interpreted on \<open>allocate_page\<close> and \<open>deallocate_page\<close>.

  \<^bold>\<open>BlockDevice, FsFormat, FsOps, FsCodec, FsTree, FsSnapshot, FsCommit, FsProps\<close> (\<^verbatim>\<open>kernel/src/block.rs\<close>,
  \<^verbatim>\<open>kernel/src/fs.rs\<close>): the block device is a record of operations with laws about what a power cut may leave
  of unflushed writes (locale); an in-memory disk interprets it. CodexFS is modelled completely: the format,
  the tree rules, mounting, and every operation. After a power cut at any moment the next mount finds the
  tree before or after the interrupted operation; without one, operations refine those on an abstract map
  from paths to entries.

  \<^bold>\<open>UserElf\<close> (\<^verbatim>\<open>kernel/src/user_elf.rs\<close>): the ELF64 loader. An accepted image lies inside its file, has no
  segment that is writable and executable, and enters at a byte of code.

  \<^bold>\<open>VmTables, VmTableProps, VmKernelImage\<close> (\<^verbatim>\<open>kernel/src/vm.rs\<close>): page-table entries, the check of user
  programs against a declarative rule, and the plan of the kernel mappings, which separates writing from
  execution.

  \<^bold>\<open>UserSpace, UserSpaceInv, UserSpaceTables, UserSpaceLoad, UserSpaceProps, UserSpaceSample,
  UserIsolation\<close> (\<^verbatim>\<open>kernel/src/vm.rs\<close>): user address spaces over byte memory, the page allocator and the
  root register. \<open>mmu_walk\<close> is the page walk of the processor. A created space shows exactly its program; its
  pages were free before; a failure and a destruction give everything back.

  \<^bold>\<open>Interrupts, Process, Scheduler, SchedulerGate, TrapDispatch\<close> (\<^verbatim>\<open>kernel/src/interrupts.rs\<close>,
  \<^verbatim>\<open>kernel/src/process.rs\<close>, \<^verbatim>\<open>kernel/src/scheduler.rs\<close>): descriptor tables, controller set-up as the trace of
  port writes, the system calls, the round-robin scheduler, its trap handler, and the loading and reclaiming
  of processes. A user run is a list of traps, between which a process may change its registers and store
  to pages that the processor lets it write. \<^bold>\<open>SchedulerProps, SchedulerTraps\<close>: every trap keeps the invariant
  of the process table and refines a transition of abstract tasks; a runnable process waits for at most one
  round; the idle loop ends; only the system call vectors are open to user code.

  \<^bold>\<open>UefiLoader\<close> (\<^verbatim>\<open>boot/uefi-loader/src/main.rs\<close>): boot-state records, trust root, release floor, verification
  and staging of a kernel from two slots, with the fallback to the other slot. Firmware services and the
  cryptography and ELF crates are arguments (\<open>Firmware\<close>, \<open>Crates\<close>). \<^bold>\<open>LoaderTrust\<close>: over any number of boots with
  the disk rewritten in between, only kernels signed along the chain of trust start, and releases never go
  back. \<^bold>\<open>LoaderRecovery\<close>: an interrupted change of the boot state is harmless, a fallback is permanent, and a
  release that changes the trusted key cannot start a second time. \<^bold>\<open>LoaderHandoff\<close> (with
  \<^verbatim>\<open>activate_post_ebs_vm\<close> of \<^verbatim>\<open>libs/boot-runtime\<close>): the memory map and the reserved ranges that the kernel gets;
  its allocator never hands out the reserved memory, but the stack in use is not among it.

  \<^bold>\<open>Assumptions about the firmware.\<close> A variable keeps its value until it is set, and files and variables do not
  disturb each other (\<open>firmware_ok\<close>, \<open>files_ok\<close>); where a theorem needs it, a write succeeds (\<open>writable\<close>). Nothing is
  assumed of the signature scheme: the theorem says that the check was passed. Each hypothesis is shown to
  hold for a sample device.

  \<^bold>\<open>Assumptions about the machine.\<close> The direct map covers every usable page (\<open>world_ok\<close>), which the boot code
  sets up; the processor walks four levels as its manual says; a disk keeps what has been flushed
  and keeps each sector whole.

  \<^bold>\<open>Not modelled.\<close> Assembly stubs, device drivers, drawing and the desktop, the build tool, log lines, and the
  parts that only print results.
\<close>

end
